(* ===== verification/Flow_Prelude.thy ===== *)
theory Flow_Prelude
  imports Main "HOL-Library.Word" "HOL-Library.AList"
begin

text \<open>
  The vocabulary shared by every component: machine types, the pieces of Rust's integer
  arithmetic the sources call by name (\<open>checked_add\<close>, \<open>saturating_add\<close>, \<open>div_ceil\<close>,
  \<open>try_from\<close>), big-endian byte codecs, the iteration idioms over hash and ordered maps,
  and the generic lemmas on them.  \<open>usize\<close> values and \<open>u64\<close> counters are natural
  numbers with their bound written out where the code checks it (a 64-bit target);
  wire fields are words of their exact width.  Instants and durations are nanoseconds.
\<close>

unbundle bit_operations_syntax

named_theorems rust_arith \<open>definitions of the standard library's integer operations\<close>
named_theorems codec_simps \<open>lengths and inverses of the byte codecs\<close>

section \<open>Machine types and integer arithmetic\<close>

type_synonym u8 = "8 word"
type_synonym u16 = "16 word"
type_synonym u32 = "32 word"
type_synonym u64 = "64 word"
type_synonym u128 = "128 word"
type_synonym usize = nat
type_synonym bytes = "8 word list"
type_synonym instant = nat
type_synonym duration = nat

definition u64_max :: nat where
  "u64_max = 18446744073709551615"

definition usize_max :: nat where
  "usize_max = 18446744073709551615"

definition u128_max :: nat where
  "u128_max = 340282366920938463463374607431768211455"

definition u16_max :: nat where
  "u16_max = 65535"

definition u32_max :: nat where
  "u32_max = 4294967295"

definition checked_add_usize :: "usize \<Rightarrow> usize \<Rightarrow> usize option" where
  "checked_add_usize a b = (if a + b \<le> usize_max then Some (a + b) else None)"

definition checked_mul_usize :: "usize \<Rightarrow> usize \<Rightarrow> usize option" where
  "checked_mul_usize a b = (if a * b \<le> usize_max then Some (a * b) else None)"

definition checked_sub_usize :: "usize \<Rightarrow> usize \<Rightarrow> usize option" where
  "checked_sub_usize a b = (if b \<le> a then Some (a - b) else None)"

definition sat_add_usize :: "usize \<Rightarrow> usize \<Rightarrow> usize" where
  "sat_add_usize a b = min (a + b) usize_max"

definition sat_add_u64 :: "nat \<Rightarrow> nat \<Rightarrow> nat" where
  "sat_add_u64 a b = min (a + b) u64_max"

definition sat_add_u128 :: "nat \<Rightarrow> nat \<Rightarrow> nat" where
  "sat_add_u128 a b = min (a + b) u128_max"

definition sat_mul_u128 :: "nat \<Rightarrow> nat \<Rightarrow> nat" where
  "sat_mul_u128 a b = min (a * b) u128_max"

definition div_ceil :: "nat \<Rightarrow> nat \<Rightarrow> nat" where
  "div_ceil a b = (a + b - 1) div b"

definition u16_try_from :: "nat \<Rightarrow> u16 option" where
  "u16_try_from n = (if n \<le> u16_max then Some (of_nat n) else None)"

definition checked_duration_since :: "instant \<Rightarrow> instant \<Rightarrow> duration option" where
  "checked_duration_since now earlier = (if earlier \<le> now then Some (now - earlier) else None)"

lemmas rust_defs [rust_arith] =
  u64_max_def usize_max_def u128_max_def u16_max_def u32_max_def
  checked_add_usize_def checked_mul_usize_def checked_sub_usize_def
  sat_add_usize_def sat_add_u64_def sat_add_u128_def sat_mul_u128_def
  div_ceil_def u16_try_from_def checked_duration_since_def

lemma div_ceil_bounds:
  assumes "0 < b"
  shows "a \<le> div_ceil a b * b" and "0 < a \<Longrightarrow> (div_ceil a b - 1) * b < a"
proof -
  have eq: "(a + b - 1) div b * b + (a + b - 1) mod b = a + b - 1" by simp
  have m: "(a + b - 1) mod b < b" using assms by simp
  show "a \<le> div_ceil a b * b" using eq m unfolding div_ceil_def by linarith
  assume "0 < a"
  then have "b \<le> a + b - 1" by simp
  then have "1 \<le> (a + b - 1) div b" using assms by (simp add: Suc_leI div_greater_zero_iff)
  then have "((a + b - 1) div b - 1) * b = (a + b - 1) div b * b - b" by (simp add: diff_mult_distrib)
  then show "(div_ceil a b - 1) * b < a"
    using eq \<open>0 < a\<close> \<open>b \<le> a + b - 1\<close> unfolding div_ceil_def by linarith
qed

lemma unat_lt: "unat (w :: 'a::len word) < 2 ^ LENGTH('a)"
  by (rule unsigned_less)

lemma unat_u8_lt: "unat (b :: u8) < 256"
  using unat_lt [of b] by simp

lemma unat_u16_le: "unat (w :: u16) \<le> 65535"
  using unat_lt [of w] by simp

lemma u16_try_from_Some: "u16_try_from n = Some w \<Longrightarrow> unat w = n"
  by (auto simp: rust_arith unat_of_nat split: if_splits)

section \<open>Big-endian byte codecs\<close>

fun be_bytes :: "nat \<Rightarrow> nat \<Rightarrow> bytes" where
  "be_bytes 0 v = []"
| "be_bytes (Suc n) v = be_bytes n (v div 256) @ [of_nat (v mod 256)]"

definition be_nat :: "bytes \<Rightarrow> nat" where
  "be_nat bs = foldl (\<lambda>acc b. acc * 256 + unat b) 0 bs"

text \<open>\<open>to_be_bytes\<close> and \<open>from_be_bytes\<close> at any word width.\<close>

definition to_be :: "'a::len word \<Rightarrow> bytes" where
  "to_be w = be_bytes (LENGTH('a) div 8) (unat w)"

definition from_be :: "bytes \<Rightarrow> 'a::len word" where
  "from_be bs = of_nat (be_nat bs)"

lemma length_be_bytes [simp, codec_simps]: "length (be_bytes n v) = n"
  by (induction n arbitrary: v) auto

lemma be_nat_Nil [simp]: "be_nat [] = 0"
  by (simp add: be_nat_def)

lemma be_nat_snoc [simp]: "be_nat (bs @ [b]) = be_nat bs * 256 + unat b"
  by (simp add: be_nat_def)

lemma be_nat_be_bytes: "be_nat (be_bytes n v) = v mod 256 ^ n"
proof (induction n arbitrary: v)
  case 0
  then show ?case by simp
next
  case (Suc n)
  have "unat (of_nat (v mod 256) :: u8) = v mod 256"
    by (simp add: unat_of_nat)
  then show ?case
    using Suc.IH [of "v div 256"] mod_mult2_eq [of v 256 "256 ^ n"] by simp
qed

lemma be_nat_less: "be_nat bs < 256 ^ length bs"
proof (induction bs rule: rev_induct)
  case Nil
  then show ?case by simp
next
  case (snoc b bs)
  have "unat b < 256" by (rule unat_u8_lt)
  with snoc.IH show ?case by simp
qed

lemma be_bytes_be_nat: "be_bytes (length bs) (be_nat bs) = bs"
proof (induction bs rule: rev_induct)
  case Nil
  then show ?case by simp
next
  case (snoc b bs)
  have "unat b < 256" by (rule unat_u8_lt)
  then have "(be_nat bs * 256 + unat b) div 256 = be_nat bs"
    and "(be_nat bs * 256 + unat b) mod 256 = unat b" by simp_all
  with snoc.IH show ?case by (simp del: of_nat_mod)
qed

lemma from_be_to_be [codec_simps]:
  assumes "8 dvd LENGTH('a::len)"
  shows "from_be (to_be (w :: 'a word)) = w"
proof -
  from assms obtain n where n: "LENGTH('a) = 8 * n" by (rule dvdE)
  have "(256 :: nat) ^ n = 2 ^ LENGTH('a)" by (simp add: n power_mult)
  then have "unat w mod 256 ^ n = unat w"
    using unat_lt [of w] by simp
  then show ?thesis by (simp add: from_be_def to_be_def n be_nat_be_bytes)
qed

lemma to_be_from_be [codec_simps]:
  assumes "8 * length bs = LENGTH('a::len)"
  shows "to_be (from_be bs :: 'a word) = bs"
proof -
  have n: "LENGTH('a) div 8 = length bs" using assms by simp
  have "(256 :: nat) ^ length bs = 2 ^ LENGTH('a)" by (simp add: assms [symmetric] power_mult)
  then have "unat (of_nat (be_nat bs) :: 'a word) = be_nat bs"
    using be_nat_less [of bs] by (simp add: unat_of_nat)
  then show ?thesis by (simp add: to_be_def from_be_def n be_bytes_be_nat)
qed

lemma length_to_be [codec_simps]: "length (to_be (w :: 'a::len word)) = LENGTH('a) div 8"
  by (simp add: to_be_def)

lemma from_be_inj:
  assumes "8 * length bs = LENGTH('a::len)" and "8 * length cs = LENGTH('a)"
  shows "(from_be bs :: 'a word) = from_be cs \<longleftrightarrow> bs = cs"
  using to_be_from_be [OF assms(1)] to_be_from_be [OF assms(2)] by metis

text \<open>
  The contract a message layout relies on: an encoder of fixed width and the decoder that
  inverts it.  Its client lemmas read a field back out of a longer message.
\<close>

locale fixed_codec =
  fixes enc :: "'v \<Rightarrow> bytes" and dec :: "bytes \<Rightarrow> 'v" and width :: nat
  assumes dec_enc [simp]: "dec (enc v) = v"
    and length_enc [simp]: "length (enc v) = width"
    and enc_dec: "length bs = width \<Longrightarrow> enc (dec bs) = bs"
begin

lemma dec_field: "length pre = i \<Longrightarrow> dec (take width (drop i (pre @ enc v @ post))) = v"
  by simp

lemma dec_prefix [simp]: "dec (take width (enc v @ post)) = v"
  using dec_field [of "[]" 0 v post] by simp

lemma enc_inj: "enc v = enc w \<longleftrightarrow> v = w"
  by (metis dec_enc)

end

interpretation be16: fixed_codec "to_be :: u16 \<Rightarrow> bytes" from_be 2
  by unfold_locales (simp_all add: codec_simps)

interpretation be32: fixed_codec "to_be :: u32 \<Rightarrow> bytes" from_be 4
  by unfold_locales (simp_all add: codec_simps)

interpretation be64: fixed_codec "to_be :: u64 \<Rightarrow> bytes" from_be 8
  by unfold_locales (simp_all add: codec_simps)

interpretation be128: fixed_codec "to_be :: u128 \<Rightarrow> bytes" from_be 16
  by unfold_locales (simp_all add: codec_simps)

section \<open>Maps, iteration and ranges\<close>

text \<open>
  A \<open>HashMap\<close> is an association list with distinct keys whose order stands for the map's
  (unspecified) iteration order: no definition below depends on where an insertion puts its
  entry, and every lemma holds for every order.  A \<open>BTreeMap\<close> is an association list in
  ascending key order.
\<close>

definition hm_insert :: "'k \<Rightarrow> 'v \<Rightarrow> ('k \<times> 'v) list \<Rightarrow> ('k \<times> 'v) list" where
  "hm_insert k v m = (k, v) # AList.delete k m"

abbreviation hm_remove :: "'k \<Rightarrow> ('k \<times> 'v) list \<Rightarrow> ('k \<times> 'v) list" where
  "hm_remove \<equiv> AList.delete"

abbreviation hm_wf :: "('k \<times> 'v) list \<Rightarrow> bool" where
  "hm_wf m \<equiv> distinct (map fst m)"

fun bt_insert :: "'k::linorder \<Rightarrow> 'v \<Rightarrow> ('k \<times> 'v) list \<Rightarrow> ('k \<times> 'v) list" where
  "bt_insert k v [] = [(k, v)]"
| "bt_insert k v ((a, b) # m) =
     (if k < a then (k, v) # (a, b) # m
      else if k = a then (k, v) # m
      else (a, b) # bt_insert k v m)"

text \<open>\<open>Iterator::min_by_key\<close>: the first element with the least key.\<close>

fun min_by_key :: "('a \<Rightarrow> nat) \<Rightarrow> 'a list \<Rightarrow> 'a option" where
  "min_by_key f [] = None"
| "min_by_key f (x # xs) =
     (case min_by_key f xs of
        None \<Rightarrow> Some x
      | Some y \<Rightarrow> if f x \<le> f y then Some x else Some y)"

text \<open>\<open>slice::chunks\<close>, for the positive chunk sizes the sources use.\<close>

fun chunks :: "nat \<Rightarrow> 'a list \<Rightarrow> 'a list list" where
  "chunks n xs = (if n = 0 \<or> xs = [] then [] else take n xs # chunks n (drop n xs))"

declare chunks.simps [simp del]

definition hm_total :: "('v \<Rightarrow> nat) \<Rightarrow> ('k \<times> 'v) list \<Rightarrow> nat" where
  "hm_total f m = sum_list (map (f \<circ> snd) m)"

lemma hm_total_simps [simp]:
  "hm_total f [] = 0"
  "hm_total f (e # m) = f (snd e) + hm_total f m"
  by (simp_all add: hm_total_def)

lemma hm_remove_absent: "map_of m k = None \<Longrightarrow> hm_remove k m = m"
  by (simp add: map_of_eq_None_iff delete_idem)

lemma hm_total_remove:
  assumes "hm_wf m" and "map_of m k = Some v"
  shows "hm_total f m = f v + hm_total f (hm_remove k m)"
  using assms
proof (induction m)
  case Nil
  then show ?case by simp
next
  case (Cons e m)
  show ?case
  proof (cases "fst e = k")
    case True
    with Cons.prems have "map_of m k = None" by (auto simp: map_of_eq_None_iff)
    with True Cons.prems show ?thesis by (cases e) (auto simp: hm_remove_absent)
  next
    case False
    with Cons show ?thesis by (cases e) auto
  qed
qed

lemma hm_total_remove_le: "hm_total f (hm_remove k m) \<le> hm_total f m"
  by (induction m) auto

lemma hm_total_mono: "set xs \<subseteq> set m \<Longrightarrow> hm_wf xs \<Longrightarrow> hm_total f xs \<le> hm_total f m"
proof (induction xs arbitrary: m)
  case Nil
  then show ?case by simp
next
  case (Cons e xs)
  then obtain ys zs where m: "m = ys @ e # zs" by (meson list.set_intros(1) split_list subsetD)
  have "set xs \<subseteq> set (ys @ zs)"
    using Cons.prems m by (auto simp: rev_image_eqI)
  then have "hm_total f xs \<le> hm_total f (ys @ zs)" using Cons by simp
  then show ?case by (simp add: m hm_total_def)
qed

lemma hm_size_remove:
  assumes "hm_wf m" and "map_of m k = Some v"
  shows "length m = Suc (length (hm_remove k m))"
  using hm_total_remove [OF assms, of "\<lambda>_. 1"]
  by (simp add: hm_total_def comp_def sum_list_triv)

lemma hm_size_remove_le: "length (hm_remove k m) \<le> length m"
  using hm_total_remove_le [of "\<lambda>_. 1" k m] by (simp add: hm_total_def comp_def sum_list_triv)

lemma hm_remove_shrinks: "(k, v) \<in> set m \<Longrightarrow> length (hm_remove k m) < length m"
  by (induction m) (auto simp: le_imp_less_Suc hm_size_remove_le)

lemma hm_wf_remove [simp]: "hm_wf m \<Longrightarrow> hm_wf (hm_remove k m)"
  by (simp add: distinct_delete)

lemma map_of_remove [simp]: "map_of (hm_remove k m) = (map_of m)(k := None)"
  by (rule ext) (simp add: AList.delete_conv)

lemma hm_wf_insert [simp]: "hm_wf m \<Longrightarrow> hm_wf (hm_insert k v m)"
  by (simp add: hm_insert_def AList.delete_keys distinct_removeAll)

lemma map_of_insert [simp]: "map_of (hm_insert k v m) = (map_of m)(k \<mapsto> v)"
  by (auto simp: hm_insert_def)

lemma hm_total_insert_fresh:
  "map_of m k = None \<Longrightarrow> hm_total f (hm_insert k v m) = f v + hm_total f m"
  by (simp add: hm_insert_def hm_remove_absent)

lemma hm_size_insert_fresh: "map_of m k = None \<Longrightarrow> length (hm_insert k v m) = Suc (length m)"
  by (simp add: hm_insert_def hm_remove_absent)

lemma hm_size_insert_le: "length (hm_insert k v m) \<le> Suc (length m)"
  by (simp add: hm_insert_def hm_size_remove_le)

lemma set_hm_remove: "set (hm_remove k m) = {e \<in> set m. fst e \<noteq> k}"
  by (auto simp: AList.delete_eq)

lemma set_hm_insert: "set (hm_insert k v m) = insert (k, v) {e \<in> set m. fst e \<noteq> k}"
  by (auto simp: hm_insert_def set_hm_remove)

lemma drop_split: "drop i xs = take n (drop i xs) @ drop (i + n) xs"
  by (metis add.commute append_take_drop_id drop_drop)

lemma min_by_key_None [simp]: "min_by_key f xs = None \<longleftrightarrow> xs = []"
  by (cases xs) (auto split: option.splits)

lemma min_by_key_Some:
  "min_by_key f xs = Some x \<Longrightarrow> x \<in> set xs \<and> (\<forall>y \<in> set xs. f x \<le> f y)"
proof (induction xs arbitrary: x)
  case Nil
  then show ?case by simp
next
  case (Cons a xs)
  show ?case
  proof (cases "min_by_key f xs")
    case None
    with Cons.prems show ?thesis by auto
  next
    case (Some y)
    with Cons.IH [OF Some] Cons.prems show ?thesis by (auto split: if_splits)
  qed
qed

lemma concat_chunks: "0 < n \<Longrightarrow> concat (chunks n xs) = xs"
proof (induction n xs rule: chunks.induct)
  case (1 n xs)
  then show ?case by (cases "xs = []") (simp_all add: chunks.simps [of n xs] chunks.simps [of n "[]"])
qed

lemma chunks_nonempty: "c \<in> set (chunks n xs) \<Longrightarrow> c \<noteq> [] \<and> length c \<le> n"
proof (induction n xs rule: chunks.induct)
  case (1 n xs)
  show ?case
  proof (cases "n = 0 \<or> xs = []")
    case True
    with "1.prems" show ?thesis by (simp add: chunks.simps [of n xs])
  next
    case False
    with 1 show ?thesis by (auto simp: chunks.simps [of n xs])
  qed
qed

lemma length_chunks: "0 < n \<Longrightarrow> length (chunks n xs) = div_ceil (length xs) n"
proof (induction n xs rule: chunks.induct)
  case (1 n xs)
  show ?case
  proof (cases "xs = []")
    case True
    then show ?thesis using "1.prems" by (simp add: chunks.simps [of n "[]"] div_ceil_def)
  next
    case False
    then have IH: "length (chunks n (drop n xs)) = div_ceil (length xs - n) n" using 1 by simp
    have pos: "0 < length xs" using False by simp
    have "(length xs + n - 1) div n = Suc ((length xs - n + n - 1) div n)"
    proof (cases "n \<le> length xs")
      case True
      then have "length xs + n - 1 = (length xs - n + n - 1) + n" using "1.prems" by simp
      then show ?thesis using "1.prems" by (metis Suc_eq_plus1 div_add_self2 not_gr_zero)
    next
      case False
      then have "length xs + n - 1 = (length xs - 1) + n" and "length xs - 1 < n" using pos by linarith+
      then have "(length xs + n - 1) div n = Suc ((length xs - 1) div n)"
        using "1.prems" by (metis Suc_eq_plus1 div_add_self2 not_gr_zero)
      then show ?thesis using False \<open>length xs - 1 < n\<close> "1.prems" by simp
    qed
    with IH False "1.prems" show ?thesis by (simp add: chunks.simps [of n xs] div_ceil_def)
  qed
qed

section \<open>Fallible computations\<close>

text \<open>The \<open>?\<close> operator on \<open>Result\<close>: return the error, or go on with the value.\<close>

definition try_then :: "'e + 'a \<Rightarrow> ('a \<Rightarrow> 'e + 'b) \<Rightarrow> 'e + 'b" where
  "try_then x f = (case x of Inl e \<Rightarrow> Inl e | Inr v \<Rightarrow> f v)"

definition map_err :: "('e \<Rightarrow> 'f) \<Rightarrow> 'e + 'a \<Rightarrow> 'f + 'a" where
  "map_err g x = (case x of Inl e \<Rightarrow> Inl (g e) | Inr v \<Rightarrow> Inr v)"

definition ensure :: "bool \<Rightarrow> 'e \<Rightarrow> 'e + unit" where
  "ensure b e = (if b then Inr () else Inl e)"

abbreviation is_err :: "'e + 'a \<Rightarrow> bool" where
  "is_err \<equiv> isl"

lemma try_then_simps [simp]:
  "try_then (Inl e) f = Inl e"
  "try_then (Inr v) f = f v"
  by (simp_all add: try_then_def)

lemma try_then_eq_Inr: "try_then x f = Inr v \<longleftrightarrow> (\<exists>a. x = Inr a \<and> f a = Inr v)"
  by (cases x) simp_all

lemma try_then_eq_Inl: "try_then x f = Inl e \<longleftrightarrow> x = Inl e \<or> (\<exists>a. x = Inr a \<and> f a = Inl e)"
  by (cases x) auto

lemma map_err_simps [simp]:
  "map_err g (Inl e) = Inl (g e)"
  "map_err g (Inr v) = Inr v"
  by (simp_all add: map_err_def)

lemma map_err_eq_Inr: "map_err g x = Inr v \<longleftrightarrow> x = Inr v"
  by (cases x) simp_all

lemma map_err_eq_Inl: "map_err g x = Inl e' \<longleftrightarrow> (\<exists>e. x = Inl e \<and> e' = g e)"
  by (cases x) auto

lemma ensure_eq_Inr [simp]: "ensure b e = Inr u \<longleftrightarrow> b"
  by (simp add: ensure_def)

lemma ensure_eq_Inl [simp]: "ensure b e = Inl e' \<longleftrightarrow> \<not> b \<and> e' = e"
  by (auto simp: ensure_def)

lemma ensure_simps [simp]:
  "ensure True e = Inr ()"
  "ensure False e = Inl e"
  by (simp_all add: ensure_def)

lemmas result_simps = try_then_eq_Inr try_then_eq_Inl map_err_eq_Inr

section \<open>Decimal numerals\<close>

text \<open>How the standard library formats an unsigned integer.\<close>

fun decimal :: "nat \<Rightarrow> string" where
  "decimal n = (if n < 10 then [char_of (48 + n)] else decimal (n div 10) @ [char_of (48 + n mod 10)])"

declare decimal.simps [simp del]

end
