(* ===== verification/Vpn_Packet.thy ===== *)
theory Vpn_Packet
  imports Flow_Prelude
begin

text \<open>
  The \<open>FWI1\<close> datagram format of \<open>src/src/vpn.rs\<close>: strict inspection of IPv4 and IPv6
  packets, the fragmentation of one IP packet into QUIC datagrams and the decoding of one
  datagram into a fragment.  Addresses are their \<open>u32\<close> and \<open>u128\<close> values.
\<close>

section \<open>Constants, errors and data\<close>

definition VPN_IP_DATAGRAM_MAGIC :: bytes where
  "VPN_IP_DATAGRAM_MAGIC = [0x46, 0x57, 0x49, 0x31]"

definition VPN_IP_DATAGRAM_HEADER_LEN :: usize where
  "VPN_IP_DATAGRAM_HEADER_LEN = 12"

definition VPN_MIN_IP_PACKET_LEN :: usize where
  "VPN_MIN_IP_PACKET_LEN = 1280"

definition VPN_MAX_IP_PACKET_LEN :: usize where
  "VPN_MAX_IP_PACKET_LEN = u16_max"

definition VPN_MAX_IP_DATAGRAM_LEN :: usize where
  "VPN_MAX_IP_DATAGRAM_LEN = VPN_IP_DATAGRAM_HEADER_LEN + VPN_MAX_IP_PACKET_LEN"

definition VPN_MAX_FRAGMENTS_PER_PACKET :: usize where
  "VPN_MAX_FRAGMENTS_PER_PACKET = 64"

definition VPN_MIN_QUIC_DATAGRAM_LEN :: usize where
  "VPN_MIN_QUIC_DATAGRAM_LEN =
     VPN_IP_DATAGRAM_HEADER_LEN + div_ceil VPN_MAX_IP_PACKET_LEN VPN_MAX_FRAGMENTS_PER_PACKET"

definition VPN_DEFAULT_MAX_INFLIGHT_PACKETS :: usize where
  "VPN_DEFAULT_MAX_INFLIGHT_PACKETS = 1024"

definition VPN_DEFAULT_MAX_REASSEMBLY_BYTES :: usize where
  "VPN_DEFAULT_MAX_REASSEMBLY_BYTES = 8 * 1024 * 1024"

definition VPN_DEFAULT_FRAGMENT_TIMEOUT :: duration where
  "VPN_DEFAULT_FRAGMENT_TIMEOUT = 3 * 1000000000"

lemmas vpn_consts =
  VPN_IP_DATAGRAM_HEADER_LEN_def VPN_MIN_IP_PACKET_LEN_def VPN_MAX_IP_PACKET_LEN_def
  VPN_MAX_IP_DATAGRAM_LEN_def VPN_MAX_FRAGMENTS_PER_PACKET_def VPN_MIN_QUIC_DATAGRAM_LEN_def
  VPN_DEFAULT_MAX_INFLIGHT_PACKETS_def VPN_DEFAULT_MAX_REASSEMBLY_BYTES_def
  VPN_DEFAULT_FRAGMENT_TIMEOUT_def u16_max_def div_ceil_def

datatype VpnPacketError =
    PacketEmpty
  | PacketTooLarge
  | DatagramCapacityTooSmall
  | TooManyFragments
  | InvalidMagic
  | FragmentEmpty
  | FragmentBounds
  | FragmentTotalChanged
  | FragmentOverlap
  | FragmentLimitExceeded
  | InvalidReassemblyLimits
  | InvalidIpVersion
  | InvalidIpv4Header
  | InvalidIpv4Length
  | InvalidIpv6Length
  | Ipv6JumbogramUnsupported

fun VpnPacketError_display :: "VpnPacketError \<Rightarrow> string" where
  "VpnPacketError_display PacketEmpty = ''vpn_packet_empty''"
| "VpnPacketError_display PacketTooLarge = ''vpn_packet_too_large''"
| "VpnPacketError_display DatagramCapacityTooSmall = ''vpn_datagram_capacity_too_small''"
| "VpnPacketError_display TooManyFragments = ''vpn_too_many_fragments''"
| "VpnPacketError_display InvalidMagic = ''vpn_invalid_magic''"
| "VpnPacketError_display FragmentEmpty = ''vpn_fragment_empty''"
| "VpnPacketError_display FragmentBounds = ''vpn_fragment_bounds''"
| "VpnPacketError_display FragmentTotalChanged = ''vpn_fragment_total_changed''"
| "VpnPacketError_display FragmentOverlap = ''vpn_fragment_overlap''"
| "VpnPacketError_display FragmentLimitExceeded = ''vpn_fragment_limit_exceeded''"
| "VpnPacketError_display InvalidReassemblyLimits = ''vpn_invalid_reassembly_limits''"
| "VpnPacketError_display InvalidIpVersion = ''vpn_invalid_ip_version''"
| "VpnPacketError_display InvalidIpv4Header = ''vpn_invalid_ipv4_header''"
| "VpnPacketError_display InvalidIpv4Length = ''vpn_invalid_ipv4_length''"
| "VpnPacketError_display InvalidIpv6Length = ''vpn_invalid_ipv6_length''"
| "VpnPacketError_display Ipv6JumbogramUnsupported = ''vpn_ipv6_jumbogram_unsupported''"

datatype IpAddr = V4 u32 | V6 u128

record VpnIpPacketMeta =
  meta_source :: IpAddr
  meta_destination :: IpAddr

record VpnFragment =
  frag_packet_id :: u32
  frag_total_len :: usize
  frag_offset :: usize
  frag_payload :: bytes

section \<open>Packet inspection\<close>

definition Ipv4Addr_new :: "u8 \<Rightarrow> u8 \<Rightarrow> u8 \<Rightarrow> u8 \<Rightarrow> u32" where
  "Ipv4Addr_new a b c d = from_be [a, b, c, d]"

definition inspect_ipv4_packet :: "bytes \<Rightarrow> VpnPacketError + VpnIpPacketMeta" where
  "inspect_ipv4_packet packet =
     (if length packet < 20 then Inl InvalidIpv4Header
      else let header_len = unat (packet ! 0 AND 0x0f) * 4 in
        if header_len < 20 \<or> header_len > length packet then Inl InvalidIpv4Header
        else let total_len = unat (from_be [packet ! 2, packet ! 3] :: u16) in
          if total_len \<noteq> length packet \<or> total_len < header_len then Inl InvalidIpv4Length
          else Inr \<lparr>
            meta_source = V4 (Ipv4Addr_new (packet ! 12) (packet ! 13) (packet ! 14) (packet ! 15)),
            meta_destination =
              V4 (Ipv4Addr_new (packet ! 16) (packet ! 17) (packet ! 18) (packet ! 19))\<rparr>)"

definition inspect_ipv6_packet :: "bytes \<Rightarrow> VpnPacketError + VpnIpPacketMeta" where
  "inspect_ipv6_packet packet =
     (if length packet < 40 then Inl InvalidIpv6Length
      else let payload_len = unat (from_be [packet ! 4, packet ! 5] :: u16) in
        if payload_len = 0 \<and> length packet > 40 then Inl Ipv6JumbogramUnsupported
        else if payload_len + 40 \<noteq> length packet then Inl InvalidIpv6Length
        else Inr \<lparr>
          meta_source = V6 (from_be (take 16 (drop 8 packet))),
          meta_destination = V6 (from_be (take 16 (drop 24 packet)))\<rparr>)"

definition inspect_vpn_ip_packet :: "bytes \<Rightarrow> VpnPacketError + VpnIpPacketMeta" where
  "inspect_vpn_ip_packet packet =
     (if packet = [] then Inl PacketEmpty
      else if length packet > VPN_MAX_IP_PACKET_LEN then Inl PacketTooLarge
      else let version = drop_bit 4 (packet ! 0) in
        if version = 4 then inspect_ipv4_packet packet
        else if version = 6 then inspect_ipv6_packet packet
        else Inl InvalidIpVersion)"

section \<open>Fragment codec\<close>

definition fragment_datagram :: "u32 \<Rightarrow> u16 \<Rightarrow> u16 \<Rightarrow> bytes \<Rightarrow> bytes" where
  "fragment_datagram packet_id total_len offset payload =
     VPN_IP_DATAGRAM_MAGIC @ to_be packet_id @ to_be total_len @ to_be offset @ payload"

fun encode_fragment_loop ::
  "u32 \<Rightarrow> u16 \<Rightarrow> usize \<Rightarrow> usize \<Rightarrow> bytes list \<Rightarrow> VpnPacketError + bytes list" where
  "encode_fragment_loop packet_id total_len payload_capacity index [] = Inr []"
| "encode_fragment_loop packet_id total_len payload_capacity index (payload # rest) =
     (case Option.bind (checked_mul_usize index payload_capacity) u16_try_from of
        None \<Rightarrow> Inl FragmentBounds
      | Some offset \<Rightarrow>
          (case encode_fragment_loop packet_id total_len payload_capacity (index + 1) rest of
             Inl e \<Rightarrow> Inl e
           | Inr fragments \<Rightarrow>
               Inr (fragment_datagram packet_id total_len offset payload # fragments)))"

definition encode_vpn_ip_fragments ::
  "u32 \<Rightarrow> bytes \<Rightarrow> usize \<Rightarrow> VpnPacketError + bytes list" where
  "encode_vpn_ip_fragments packet_id packet max_datagram_len =
     (case inspect_vpn_ip_packet packet of
        Inl e \<Rightarrow> Inl e
      | Inr _ \<Rightarrow>
          if max_datagram_len < VPN_MIN_QUIC_DATAGRAM_LEN then Inl DatagramCapacityTooSmall
          else let payload_capacity = max_datagram_len - VPN_IP_DATAGRAM_HEADER_LEN;
                   fragment_count = div_ceil (length packet) payload_capacity in
            if fragment_count > VPN_MAX_FRAGMENTS_PER_PACKET then Inl TooManyFragments
            else case u16_try_from (length packet) of
                None \<Rightarrow> Inl PacketTooLarge
              | Some total_len \<Rightarrow>
                  encode_fragment_loop packet_id total_len payload_capacity 0
                    (chunks payload_capacity packet))"

definition decode_vpn_ip_fragment :: "bytes \<Rightarrow> VpnPacketError + VpnFragment" where
  "decode_vpn_ip_fragment datagram =
     (if length datagram \<le> VPN_IP_DATAGRAM_HEADER_LEN then Inl FragmentEmpty
      else if take 4 datagram \<noteq> VPN_IP_DATAGRAM_MAGIC then Inl InvalidMagic
      else let packet_id = from_be (take 4 (drop 4 datagram));
               total_len = unat (from_be (take 2 (drop 8 datagram)) :: u16);
               offset = unat (from_be (take 2 (drop 10 datagram)) :: u16);
               payload = drop VPN_IP_DATAGRAM_HEADER_LEN datagram in
        if total_len = 0 \<or> offset \<ge> total_len \<or> length payload > total_len - offset
        then Inl FragmentBounds
        else Inr \<lparr>frag_packet_id = packet_id, frag_total_len = total_len,
                   frag_offset = offset, frag_payload = payload\<rparr>)"

section \<open>Inspection facts\<close>

lemma vpn_limits [simp]:
  "VPN_MAX_IP_PACKET_LEN = 65535"
  "VPN_IP_DATAGRAM_HEADER_LEN = 12"
  "VPN_MIN_QUIC_DATAGRAM_LEN = 1036"
  "VPN_MAX_FRAGMENTS_PER_PACKET = 64"
  "length VPN_IP_DATAGRAM_MAGIC = 4"
  by (simp_all add: vpn_consts VPN_IP_DATAGRAM_MAGIC_def)

lemma inspect_vpn_ip_packet_length:
  "inspect_vpn_ip_packet packet = Inr meta \<Longrightarrow> 20 \<le> length packet \<and> length packet \<le> 65535"
  by (auto simp: inspect_vpn_ip_packet_def inspect_ipv4_packet_def inspect_ipv6_packet_def Let_def
      split: if_splits)

lemma inspect_vpn_ip_packet_family:
  assumes "inspect_vpn_ip_packet packet = Inr meta"
  shows "(\<exists>s d. meta = \<lparr>meta_source = V4 s, meta_destination = V4 d\<rparr>) \<or>
    (\<exists>s d. meta = \<lparr>meta_source = V6 s, meta_destination = V6 d\<rparr>)"
  using assms
  by (auto simp: inspect_vpn_ip_packet_def inspect_ipv4_packet_def inspect_ipv6_packet_def Let_def
      split: if_splits)

section \<open>The fragment codec is a bijection on well-formed fragments\<close>

definition fragment_ok :: "VpnFragment \<Rightarrow> bool" where
  "fragment_ok f \<longleftrightarrow> frag_payload f \<noteq> [] \<and> frag_total_len f \<le> 65535 \<and>
     frag_offset f + length (frag_payload f) \<le> frag_total_len f"

lemma decode_fragment_datagram:
  assumes "payload \<noteq> []" and "unat offset + length payload \<le> unat total_len"
  shows "decode_vpn_ip_fragment (fragment_datagram packet_id total_len offset payload) =
    Inr \<lparr>frag_packet_id = packet_id, frag_total_len = unat total_len,
         frag_offset = unat offset, frag_payload = payload\<rparr>"
proof -
  have pos: "0 < length payload" using assms(1) by simp
  then have "unat total_len \<noteq> 0" and "unat offset < unat total_len"
    and "length payload \<le> unat total_len - unat offset" using assms(2) by linarith+
  with pos show ?thesis
    by (simp add: decode_vpn_ip_fragment_def fragment_datagram_def Let_def)
qed

lemma decode_vpn_ip_fragment_ok:
  "decode_vpn_ip_fragment datagram = Inr f \<Longrightarrow> fragment_ok f"
  using unat_u16_le [of "from_be (take 2 (drop 8 datagram))"]
  by (auto simp: decode_vpn_ip_fragment_def fragment_ok_def Let_def split: if_splits)

lemma datagram_slices:
  assumes "12 < length datagram"
  shows "datagram = take 4 datagram @ take 4 (drop 4 datagram) @ take 2 (drop 8 datagram) @
    take 2 (drop 10 datagram) @ drop 12 datagram"
  using drop_split [of 0 datagram 4] drop_split [of 4 datagram 4]
    drop_split [of 8 datagram 2] drop_split [of 10 datagram 2] by simp

lemma fragment_datagram_of_decoded:
  assumes "decode_vpn_ip_fragment datagram = Inr f"
  shows "fragment_datagram (frag_packet_id f) (of_nat (frag_total_len f)) (of_nat (frag_offset f))
    (frag_payload f) = datagram"
proof -
  have len: "12 < length datagram" and magic: "take 4 datagram = VPN_IP_DATAGRAM_MAGIC"
    and f: "f = \<lparr>frag_packet_id = from_be (take 4 (drop 4 datagram)),
      frag_total_len = unat (from_be (take 2 (drop 8 datagram)) :: u16),
      frag_offset = unat (from_be (take 2 (drop 10 datagram)) :: u16),
      frag_payload = drop 12 datagram\<rparr>"
    using assms by (auto simp: decode_vpn_ip_fragment_def Let_def split: if_splits)
  have "VPN_IP_DATAGRAM_MAGIC @ take 4 (drop 4 datagram) @ take 2 (drop 8 datagram) @
      take 2 (drop 10 datagram) @ drop 12 datagram = datagram"
    using datagram_slices [OF len] magic by simp
  then show ?thesis
    using len by (simp add: f fragment_datagram_def be32.enc_dec be16.enc_dec)
qed

section \<open>Fragmentation\<close>

text \<open>
  \<open>tiles o m\<close>: the fragments \<open>m\<close> lie end to end from offset \<open>o\<close>.  The fragments of a
  packet, as offset and payload, tile it from \<open>0\<close>.
\<close>

fun tiles :: "nat \<Rightarrow> (nat \<times> 'a list) list \<Rightarrow> bool" where
  "tiles off [] = True"
| "tiles off ((a, b) # m) = (a = off \<and> tiles (off + length b) m)"

definition packet_fragments :: "nat \<Rightarrow> bytes \<Rightarrow> (nat \<times> bytes) list" where
  "packet_fragments cap packet = map (\<lambda>(i, c). (i * cap, c)) (enumerate 0 (chunks cap packet))"

lemma tiles_enumerate_chunks:
  "0 < cap \<Longrightarrow> tiles (i * cap) (map (\<lambda>(i, c). (i * cap, c)) (enumerate i (chunks cap xs)))"
proof (induction cap xs arbitrary: i rule: chunks.induct)
  case (1 cap xs)
  consider "xs = []" | "xs \<noteq> []" "length xs < cap" | "xs \<noteq> []" "cap \<le> length xs"
    by (meson not_le)
  then show ?case
  proof cases
    case 1
    then show ?thesis by (simp add: chunks.simps [of cap "[]"])
  next
    case 2
    then show ?thesis
      using "1.prems" by (simp add: chunks.simps [of cap xs] chunks.simps [of cap "[]"])
  next
    case 3
    then show ?thesis
      using "1.prems" "1.IH" [of "Suc i"] by (simp add: chunks.simps [of cap xs] add.commute)
  qed
qed

lemma tiles_packet_fragments: "0 < cap \<Longrightarrow> tiles 0 (packet_fragments cap packet)"
  using tiles_enumerate_chunks [of cap 0] by (simp add: packet_fragments_def)

lemma payloads_packet_fragments:
  "0 < cap \<Longrightarrow> concat (map snd (packet_fragments cap packet)) = packet"
  by (simp add: packet_fragments_def split_def comp_def concat_chunks map_snd_enumerate)

lemma packet_fragments_payload:
  "(off, payload) \<in> set (packet_fragments cap packet) \<Longrightarrow> payload \<noteq> [] \<and> length payload \<le> cap"
  by (auto simp: packet_fragments_def in_set_enumerate_eq dest!: chunks_nonempty [OF nth_mem])

lemma tiles_append: "tiles off (xs @ ys) \<longleftrightarrow> tiles off xs \<and> tiles (off + length (concat (map snd xs))) ys"
  by (induction off xs rule: tiles.induct) (auto simp: add.assoc)

lemma tiles_bounds:
  assumes "tiles off m" and "(a, b) \<in> set m"
  shows "off \<le> a \<and> a + length b \<le> off + length (concat (map snd m))"
proof -
  from assms(2) obtain xs ys where m: "m = xs @ (a, b) # ys" by (meson split_list)
  with assms(1) show ?thesis by (auto simp: tiles_append)
qed

lemma packet_fragments_bounds:
  assumes "0 < cap" and "(off, payload) \<in> set (packet_fragments cap packet)"
  shows "off + length payload \<le> length packet"
  using tiles_bounds [OF tiles_packet_fragments assms(2)] payloads_packet_fragments assms(1) by simp

lemma encode_fragment_loop_eq:
  assumes "\<forall>i < length cs. (index + i) * cap \<le> 65535"
  shows "encode_fragment_loop packet_id total_len cap index cs =
    Inr (map (\<lambda>(i, c). fragment_datagram packet_id total_len (of_nat (i * cap)) c) (enumerate index cs))"
  using assms
proof (induction cs arbitrary: index)
  case Nil
  then show ?case by simp
next
  case (Cons c cs)
  have "index * cap \<le> 65535" using Cons.prems by force
  moreover have "\<forall>i < length cs. (index + 1 + i) * cap \<le> 65535"
    using Cons.prems by (metis Suc_less_eq add.assoc length_Cons plus_1_eq_Suc)
  ultimately show ?case using Cons.IH [of "index + 1"] by (simp add: rust_arith)
qed

lemma encode_vpn_ip_fragments_eq:
  assumes "inspect_vpn_ip_packet packet = Inr meta" and "VPN_MIN_QUIC_DATAGRAM_LEN \<le> max_datagram_len"
  defines "cap \<equiv> max_datagram_len - 12"
  shows "encode_vpn_ip_fragments packet_id packet max_datagram_len =
    Inr (map (\<lambda>(off, payload). fragment_datagram packet_id (of_nat (length packet)) (of_nat off) payload)
      (packet_fragments cap packet))"
    and "length (packet_fragments cap packet) \<le> 64"
proof -
  have cap: "1024 \<le> cap" using assms(2) by (simp add: cap_def)
  have len: "0 < length packet" "length packet \<le> 65535"
    using inspect_vpn_ip_packet_length [OF assms(1)] by auto
  have n: "length (chunks cap packet) = div_ceil (length packet) cap"
    using cap by (simp add: length_chunks)
  have "length packet + cap - 1 < 65 * cap" using len cap by linarith
  then have le: "div_ceil (length packet) cap \<le> 64"
    unfolding div_ceil_def by (metis less_mult_imp_div_less less_Suc_eq_le Suc_numeral add_num_simps(2) semiring_norm(5))
  have bound: "i * cap \<le> 65535" if "i < length (chunks cap packet)" for i
  proof -
    have "i * cap \<le> (div_ceil (length packet) cap - 1) * cap" using that n by (intro mult_le_mono1) linarith
    also have "\<dots> < length packet" using div_ceil_bounds(2) [of cap "length packet"] cap len by simp
    finally show ?thesis using len by simp
  qed
  show "length (packet_fragments cap packet) \<le> 64"
    using le n by (simp add: packet_fragments_def)
  show "encode_vpn_ip_fragments packet_id packet max_datagram_len =
    Inr (map (\<lambda>(off, payload). fragment_datagram packet_id (of_nat (length packet)) (of_nat off) payload)
      (packet_fragments cap packet))"
    using assms(1,2) le len bound encode_fragment_loop_eq [of "chunks cap packet" 0 cap packet_id]
    by (simp add: encode_vpn_ip_fragments_def cap_def [symmetric] u16_try_from_def u16_max_def
        packet_fragments_def split_def comp_def)
qed

lemma decode_packet_fragment:
  assumes "payload \<noteq> []" and "off + length payload \<le> plen" and "plen \<le> 65535"
  shows "decode_vpn_ip_fragment (fragment_datagram packet_id (of_nat plen) (of_nat off) payload) =
    Inr \<lparr>frag_packet_id = packet_id, frag_total_len = plen, frag_offset = off, frag_payload = payload\<rparr>"
proof -
  have "unat (of_nat plen :: u16) = plen" and "unat (of_nat off :: u16) = off"
    using assms(2,3) by (simp_all add: unat_of_nat)
  then show ?thesis
    using decode_fragment_datagram [OF assms(1), of "of_nat off" "of_nat plen" packet_id] assms(2) by simp
qed

lemma length_fragment_datagram [simp]:
  "length (fragment_datagram packet_id total_len offset payload) = 12 + length payload"
  by (simp add: fragment_datagram_def)

lemma encode_fragments_ok:
  assumes "inspect_vpn_ip_packet packet = Inr meta" and "VPN_MIN_QUIC_DATAGRAM_LEN \<le> max_datagram_len"
  shows "\<exists>datagrams fragments.
      encode_vpn_ip_fragments packet_id packet max_datagram_len = Inr datagrams \<and>
      datagrams \<noteq> [] \<and> length datagrams \<le> VPN_MAX_FRAGMENTS_PER_PACKET \<and>
      list_all (\<lambda>d. length d \<le> max_datagram_len) datagrams \<and>
      map decode_vpn_ip_fragment datagrams = map Inr fragments \<and>
      list_all (\<lambda>f. frag_packet_id f = packet_id \<and> frag_total_len f = length packet) fragments \<and>
      tiles 0 (map (\<lambda>f. (frag_offset f, frag_payload f)) fragments) \<and>
      concat (map frag_payload fragments) = packet"
proof -
  let ?cap = "max_datagram_len - 12"
  let ?frags = "packet_fragments ?cap packet"
  let ?d = "\<lambda>x. fragment_datagram packet_id (of_nat (length packet)) (of_nat (fst x)) (snd x)"
  let ?f = "\<lambda>x. \<lparr>frag_packet_id = packet_id, frag_total_len = length packet, frag_offset = fst x, frag_payload = snd x\<rparr>"
  have cap: "0 < ?cap" using assms(2) by simp
  note len = inspect_vpn_ip_packet_length [OF assms(1)]
  have x: "decode_vpn_ip_fragment (?d x) = Inr (?f x) \<and> length (?d x) \<le> max_datagram_len"
    if "x \<in> set ?frags" for x
    using that packet_fragments_payload [of "fst x" "snd x" ?cap packet]
      packet_fragments_bounds [OF cap, of "fst x" "snd x" packet] len cap
    by (auto intro!: decode_packet_fragment)
  have "?frags \<noteq> []" using payloads_packet_fragments [OF cap, of packet] len by auto
  moreover have "encode_vpn_ip_fragments packet_id packet max_datagram_len = Inr (map ?d ?frags)"
    using encode_vpn_ip_fragments_eq(1) [OF assms, of packet_id] by (simp add: split_def)
  moreover have "length ?frags \<le> 64" using encode_vpn_ip_fragments_eq(2) [OF assms] .
  moreover have "map decode_vpn_ip_fragment (map ?d ?frags) = map Inr (map ?f ?frags)"
    and "list_all (\<lambda>d. length d \<le> max_datagram_len) (map ?d ?frags)"
    using x by (auto simp: list_all_iff)
  moreover have "map (\<lambda>f. (frag_offset f, frag_payload f)) (map ?f ?frags) = ?frags"
    and "map frag_payload (map ?f ?frags) = map snd ?frags" by (simp_all add: comp_def)
  ultimately show ?thesis
    using tiles_packet_fragments [OF cap, of packet] payloads_packet_fragments [OF cap, of packet]
    by (intro exI [of _ "map ?d ?frags"] exI [of _ "map ?f ?frags"] conjI) (simp_all add: list_all_iff comp_def)
qed

section \<open>Properties of the codec\<close>

text \<open>
  C38.  Fragmentation is total on IP packets: an invalid packet is refused with the error of its
  inspection, a datagram capacity below the minimum is refused as such, and every other input gives
  between one and 64 datagrams, none longer than the capacity.  They decode to fragments of this
  packet identifier and total length that lie end to end and whose payloads make up the packet.
\<close>

theorem encode_fragments_total:
  "case inspect_vpn_ip_packet packet of
     Inl e \<Rightarrow> encode_vpn_ip_fragments packet_id packet max_datagram_len = Inl e
   | Inr _ \<Rightarrow>
       if max_datagram_len < VPN_MIN_QUIC_DATAGRAM_LEN
       then encode_vpn_ip_fragments packet_id packet max_datagram_len = Inl DatagramCapacityTooSmall
       else \<exists>datagrams fragments.
         encode_vpn_ip_fragments packet_id packet max_datagram_len = Inr datagrams \<and>
         datagrams \<noteq> [] \<and> length datagrams \<le> VPN_MAX_FRAGMENTS_PER_PACKET \<and>
         list_all (\<lambda>d. length d \<le> max_datagram_len) datagrams \<and>
         map decode_vpn_ip_fragment datagrams = map Inr fragments \<and>
         list_all (\<lambda>f. frag_packet_id f = packet_id \<and> frag_total_len f = length packet) fragments \<and>
         tiles 0 (map (\<lambda>f. (frag_offset f, frag_payload f)) fragments) \<and>
         concat (map frag_payload fragments) = packet"
proof (cases "inspect_vpn_ip_packet packet")
  case (Inl e)
  then show ?thesis by (simp add: encode_vpn_ip_fragments_def)
next
  case (Inr meta)
  show ?thesis
  proof (cases "max_datagram_len < VPN_MIN_QUIC_DATAGRAM_LEN")
    case True
    with Inr show ?thesis by (simp add: encode_vpn_ip_fragments_def)
  next
    case False
    with Inr encode_fragments_ok [OF Inr] show ?thesis by simp
  qed
qed

text \<open>
  C39.  The decoder accepts only what the encoder writes: a datagram that decodes is the encoding of
  the fragment it decodes to, whose payload is not empty and lies inside the announced packet.
\<close>

theorem decoded_fragment_canonical:
  assumes "decode_vpn_ip_fragment datagram = Inr f"
  shows "fragment_datagram (frag_packet_id f) (of_nat (frag_total_len f)) (of_nat (frag_offset f))
      (frag_payload f) = datagram \<and>
    frag_payload f \<noteq> [] \<and> frag_offset f + length (frag_payload f) \<le> frag_total_len f \<and>
    frag_total_len f \<le> VPN_MAX_IP_PACKET_LEN"
  using fragment_datagram_of_decoded [OF assms] decode_vpn_ip_fragment_ok [OF assms]
  by (simp add: fragment_ok_def)

theorem decoded_fragment_canonical_witness:
  "fragment_datagram 7 3 1 [8, 9] = VPN_IP_DATAGRAM_MAGIC @ [0, 0, 0, 7, 0, 3, 0, 1, 8, 9]"
proof -
  have "decode_vpn_ip_fragment (VPN_IP_DATAGRAM_MAGIC @ [0, 0, 0, 7, 0, 3, 0, 1, 8, 9]) =
    Inr \<lparr>frag_packet_id = 7, frag_total_len = 3, frag_offset = 1, frag_payload = [8, 9]\<rparr>"
    by (simp add: decode_vpn_ip_fragment_def from_be_def be_nat_def Let_def)
  from decoded_fragment_canonical [OF this] show ?thesis by simp
qed

text \<open>
  Inspection accepts exactly the packets whose header agrees with their length: an IPv4 packet
  of at least 20 bytes with a header length between 20 and the packet length and a total length
  equal to it, or an IPv6 packet of at least 40 bytes whose payload length plus 40 is its length.
  The addresses are the ones at the header's address fields, of the packet's own family.
\<close>

lemma inspect_accepts:
  "inspect_vpn_ip_packet packet = Inr meta \<longleftrightarrow>
     packet \<noteq> [] \<and> length packet \<le> VPN_MAX_IP_PACKET_LEN \<and>
     (drop_bit 4 (packet ! 0) = 4 \<and> 20 \<le> length packet \<and>
        5 \<le> unat (packet ! 0 AND 0x0f) \<and> unat (packet ! 0 AND 0x0f) * 4 \<le> length packet \<and>
        be_nat [packet ! 2, packet ! 3] = length packet \<and>
        meta = \<lparr>meta_source = V4 (from_be (take 4 (drop 12 packet))),
                meta_destination = V4 (from_be (take 4 (drop 16 packet)))\<rparr> \<or>
      drop_bit 4 (packet ! 0) = 6 \<and> 40 \<le> length packet \<and>
        be_nat [packet ! 4, packet ! 5] + 40 = length packet \<and>
        meta = \<lparr>meta_source = V6 (from_be (take 16 (drop 8 packet))),
                meta_destination = V6 (from_be (take 16 (drop 24 packet)))\<rparr>)"
proof -
  have be: "unat (from_be [a, b] :: u16) = be_nat [a, b]" for a b
    using be_nat_less [of "[a, b]"]
    by (simp add: from_be_def unat_of_nat)
  have quad: "take 4 (drop i packet) = [packet ! i, packet ! (i + 1), packet ! (i + 2), packet ! (i + 3)]"
    if "i + 4 \<le> length packet" for i
    using that by (simp add: list_eq_iff_nth_eq nth_Cons' less_Suc_eq numeral_eq_Suc)
  show ?thesis
    using quad [of 12] quad [of 16]
    by (auto simp: inspect_vpn_ip_packet_def inspect_ipv4_packet_def inspect_ipv6_packet_def Let_def be
        Ipv4Addr_new_def)
qed

text \<open>A packet of 1,100 bytes: two fragments at the smallest datagram size.\<close>

definition sample_packet :: bytes where
  "sample_packet = [0x45, 0, 4, 0x4C] @ replicate 1096 0"

lemma sample_packet_inspect: "inspect_vpn_ip_packet sample_packet = Inr \<lparr>meta_source = V4 0, meta_destination = V4 0\<rparr>"
  by (simp add: inspect_vpn_ip_packet_def inspect_ipv4_packet_def sample_packet_def Ipv4Addr_new_def
      from_be_def be_nat_def)

end
