(* ===== verification/Vpn_Control.thy ===== *)
theory Vpn_Control
  imports Vpn_Packet
begin

text \<open>
  The control channel of \<open>vpn_control.rs\<close>: the \<open>Hello\<close>, \<open>Accept\<close> and \<open>Reject\<close> messages, their
  validation, the selection of a wire version, and the binary message codec.
\<close>

section \<open>Constants\<close>

definition VPN_ALPN :: bytes where
  "VPN_ALPN = [0x66, 0x6c, 0x6f, 0x77, 0x77, 0x65, 0x61, 0x76, 0x65, 0x2d, 0x76, 0x70, 0x6e, 0x2f, 0x31]"

definition VPN_CONTROL_MAGIC :: bytes where
  "VPN_CONTROL_MAGIC = [0x46, 0x57, 0x43, 0x31]"

definition VPN_CONTROL_FORMAT_VERSION :: u8 where
  "VPN_CONTROL_FORMAT_VERSION = 1"

definition VPN_CONTROL_HEADER_LEN :: usize where
  "VPN_CONTROL_HEADER_LEN = 8"

definition VPN_CONTROL_MAX_MESSAGE_LEN :: usize where
  "VPN_CONTROL_MAX_MESSAGE_LEN = 256"

definition VPN_WIRE_VERSION_V1 :: u16 where
  "VPN_WIRE_VERSION_V1 = 1"

definition VPN_CAP_IPV4 :: u32 where
  "VPN_CAP_IPV4 = push_bit 0 1"

definition VPN_CAP_IPV6 :: u32 where
  "VPN_CAP_IPV6 = push_bit 1 1"

definition VPN_CAP_FRAGMENTATION :: u32 where
  "VPN_CAP_FRAGMENTATION = push_bit 2 1"

definition VPN_CAP_MULTIPATH_REQUIRED :: u32 where
  "VPN_CAP_MULTIPATH_REQUIRED = push_bit 3 1"

definition VPN_REQUIRED_CAPABILITIES :: u32 where
  "VPN_REQUIRED_CAPABILITIES = VPN_CAP_FRAGMENTATION OR VPN_CAP_MULTIPATH_REQUIRED"

definition VPN_KNOWN_CAPABILITIES :: u32 where
  "VPN_KNOWN_CAPABILITIES =
     VPN_CAP_IPV4 OR VPN_CAP_IPV6 OR VPN_CAP_FRAGMENTATION OR VPN_CAP_MULTIPATH_REQUIRED"

definition VPN_CONTROL_HELLO :: u8 where
  "VPN_CONTROL_HELLO = 1"

definition VPN_CONTROL_ACCEPT :: u8 where
  "VPN_CONTROL_ACCEPT = 2"

definition VPN_CONTROL_REJECT :: u8 where
  "VPN_CONTROL_REJECT = 3"

definition VPN_HELLO_BODY_LEN :: usize where
  "VPN_HELLO_BODY_LEN = 12"

definition VPN_ACCEPT_BODY_LEN :: usize where
  "VPN_ACCEPT_BODY_LEN = 60"

definition VPN_REJECT_BODY_LEN :: usize where
  "VPN_REJECT_BODY_LEN = 4"

section \<open>Errors\<close>

datatype VpnControlError =
    MessageTooShort | MessageTooLong | InvalidMagic | UnsupportedFormatVersion | UnknownMessageType
  | LengthMismatch | InvalidHello | InvalidAccept | InvalidReject | UnknownCapabilities
  | MissingRequiredCapabilities | InvalidAddress

fun VpnControlError_display :: "VpnControlError \<Rightarrow> string" where
  "VpnControlError_display MessageTooShort = ''vpn_control_message_too_short''"
| "VpnControlError_display MessageTooLong = ''vpn_control_message_too_long''"
| "VpnControlError_display InvalidMagic = ''vpn_control_invalid_magic''"
| "VpnControlError_display UnsupportedFormatVersion = ''vpn_control_unsupported_format_version''"
| "VpnControlError_display UnknownMessageType = ''vpn_control_unknown_message_type''"
| "VpnControlError_display LengthMismatch = ''vpn_control_length_mismatch''"
| "VpnControlError_display InvalidHello = ''vpn_control_invalid_hello''"
| "VpnControlError_display InvalidAccept = ''vpn_control_invalid_accept''"
| "VpnControlError_display InvalidReject = ''vpn_control_invalid_reject''"
| "VpnControlError_display UnknownCapabilities = ''vpn_control_unknown_capabilities''"
| "VpnControlError_display MissingRequiredCapabilities = ''vpn_control_missing_required_capabilities''"
| "VpnControlError_display InvalidAddress = ''vpn_control_invalid_address''"

section \<open>Address, capability and size checks\<close>

text \<open>The address predicates of the standard library, on the numeric value of an address.\<close>

definition ipv4_is_loopback :: "u32 \<Rightarrow> bool" where
  "ipv4_is_loopback a \<longleftrightarrow> drop_bit 24 a = 127"

definition ipv4_is_link_local :: "u32 \<Rightarrow> bool" where
  "ipv4_is_link_local a \<longleftrightarrow> drop_bit 16 a = 0xA9FE"

definition ipv4_is_multicast :: "u32 \<Rightarrow> bool" where
  "ipv4_is_multicast a \<longleftrightarrow> drop_bit 28 a = 0xE"

definition ipv6_is_unicast_link_local :: "u128 \<Rightarrow> bool" where
  "ipv6_is_unicast_link_local a \<longleftrightarrow> drop_bit 118 a = 0x3FA"

definition ipv6_is_multicast :: "u128 \<Rightarrow> bool" where
  "ipv6_is_multicast a \<longleftrightarrow> drop_bit 120 a = 0xFF"

definition valid_ipv4_tunnel_address :: "u32 \<Rightarrow> bool" where
  "valid_ipv4_tunnel_address a \<longleftrightarrow>
     a \<noteq> 0 \<and> \<not> ipv4_is_loopback a \<and> \<not> ipv4_is_link_local a \<and> \<not> ipv4_is_multicast a \<and> a \<noteq> 0xFFFFFFFF"

definition valid_ipv6_tunnel_address :: "u128 \<Rightarrow> bool" where
  "valid_ipv6_tunnel_address a \<longleftrightarrow>
     a \<noteq> 0 \<and> a \<noteq> 1 \<and> \<not> ipv6_is_unicast_link_local a \<and> \<not> ipv6_is_multicast a"

definition validate_capabilities :: "u32 \<Rightarrow> VpnControlError + unit" where
  "validate_capabilities capabilities =
     (if capabilities AND NOT VPN_KNOWN_CAPABILITIES \<noteq> 0 then Inl UnknownCapabilities
      else if capabilities AND VPN_REQUIRED_CAPABILITIES \<noteq> VPN_REQUIRED_CAPABILITIES \<or>
              capabilities AND (VPN_CAP_IPV4 OR VPN_CAP_IPV6) = 0
      then Inl MissingRequiredCapabilities
      else Inr ())"

definition validate_sizes :: "u16 \<Rightarrow> u16 \<Rightarrow> unit + unit" where
  "validate_sizes max_ip_packet_len max_datagram_len =
     (if unat max_ip_packet_len < VPN_MIN_IP_PACKET_LEN \<or>
         unat max_ip_packet_len > VPN_MAX_IP_PACKET_LEN \<or>
         unat max_datagram_len < VPN_MIN_QUIC_DATAGRAM_LEN
      then Inl () else Inr ())"

section \<open>Messages\<close>

record VpnHello =
  hello_min_wire_version :: u16
  hello_max_wire_version :: u16
  hello_capabilities :: u32
  hello_max_ip_packet_len :: u16
  hello_max_datagram_len :: u16

definition hello_validate :: "VpnHello \<Rightarrow> VpnControlError + unit" where
  "hello_validate h =
     (if hello_min_wire_version h = 0 \<or> hello_min_wire_version h > hello_max_wire_version h
      then Inl InvalidHello
      else try_then (validate_capabilities (hello_capabilities h)) (\<lambda>_.
        map_err (\<lambda>_. InvalidHello) (validate_sizes (hello_max_ip_packet_len h) (hello_max_datagram_len h))))"

record VpnAccept =
  accept_selected_wire_version :: u16
  accept_capabilities :: u32
  accept_max_ip_packet_len :: u16
  accept_max_datagram_len :: u16
  accept_session_generation :: u64
  accept_client_ipv4 :: "u32 option"
  accept_server_ipv4 :: "u32 option"
  accept_client_ipv6 :: "u128 option"
  accept_server_ipv6 :: "u128 option"

abbreviation is_some :: "'a option \<Rightarrow> bool" where
  "is_some x \<equiv> x \<noteq> None"

definition bad_address_pair :: "('a \<Rightarrow> bool) \<Rightarrow> 'a option \<Rightarrow> 'a option \<Rightarrow> bool" where
  "bad_address_pair valid client server =
     (case (client, server) of
        (Some client, Some server) \<Rightarrow> client = server \<or> \<not> valid client \<or> \<not> valid server
      | _ \<Rightarrow> False)"

definition accept_validate :: "VpnAccept \<Rightarrow> VpnControlError + unit" where
  "accept_validate a =
     (if accept_selected_wire_version a = 0 \<or> accept_session_generation a = 0 then Inl InvalidAccept
      else try_then (validate_capabilities (accept_capabilities a)) (\<lambda>_.
        try_then (map_err (\<lambda>_. InvalidAccept)
          (validate_sizes (accept_max_ip_packet_len a) (accept_max_datagram_len a))) (\<lambda>_.
        let has_ipv4 = (accept_capabilities a AND VPN_CAP_IPV4 \<noteq> 0);
            has_ipv6 = (accept_capabilities a AND VPN_CAP_IPV6 \<noteq> 0) in
        if has_ipv4 \<noteq> (is_some (accept_client_ipv4 a) \<and> is_some (accept_server_ipv4 a)) \<or>
           has_ipv6 \<noteq> (is_some (accept_client_ipv6 a) \<and> is_some (accept_server_ipv6 a)) \<or>
           is_some (accept_client_ipv4 a) \<noteq> is_some (accept_server_ipv4 a) \<or>
           is_some (accept_client_ipv6 a) \<noteq> is_some (accept_server_ipv6 a)
        then Inl InvalidAccept
        else if bad_address_pair valid_ipv4_tunnel_address (accept_client_ipv4 a) (accept_server_ipv4 a)
        then Inl InvalidAddress
        else if bad_address_pair valid_ipv6_tunnel_address (accept_client_ipv6 a) (accept_server_ipv6 a)
        then Inl InvalidAddress
        else Inr ())))"

datatype VpnRejectReason =
    UnsupportedVersion | Unauthorized | IdentityDisabled | AddressInUse | ResourceLimit
  | PolicyRejected | ProtocolViolation

fun reject_reason_code :: "VpnRejectReason \<Rightarrow> u16" where
  "reject_reason_code UnsupportedVersion = 1"
| "reject_reason_code Unauthorized = 2"
| "reject_reason_code IdentityDisabled = 3"
| "reject_reason_code AddressInUse = 4"
| "reject_reason_code ResourceLimit = 5"
| "reject_reason_code PolicyRejected = 6"
| "reject_reason_code ProtocolViolation = 7"

definition reject_reason_try_from :: "u16 \<Rightarrow> VpnControlError + VpnRejectReason" where
  "reject_reason_try_from value =
     (if value = 1 then Inr UnsupportedVersion
      else if value = 2 then Inr Unauthorized
      else if value = 3 then Inr IdentityDisabled
      else if value = 4 then Inr AddressInUse
      else if value = 5 then Inr ResourceLimit
      else if value = 6 then Inr PolicyRejected
      else if value = 7 then Inr ProtocolViolation
      else Inl InvalidReject)"

record VpnReject =
  reject_reason :: VpnRejectReason
  reject_retry_after_secs :: u16

datatype VpnControlMessage = Hello VpnHello | Accept VpnAccept | Reject VpnReject

definition select_vpn_wire_version :: "u16 \<Rightarrow> u16 \<Rightarrow> u16 \<Rightarrow> u16 \<Rightarrow> u16 option" where
  "select_vpn_wire_version client_min client_max server_min server_max =
     (if client_min = 0 \<or> server_min = 0 \<or> client_min > client_max \<or> server_min > server_max then None
      else let lower = max client_min server_min; upper = min client_max server_max in
        if lower \<le> upper then Some upper else None)"

section \<open>Message codec\<close>

definition unwrap_or :: "'a option \<Rightarrow> 'a \<Rightarrow> 'a" where
  "unwrap_or x d = (case x of None \<Rightarrow> d | Some v \<Rightarrow> v)"

definition then_some :: "bool \<Rightarrow> 'a \<Rightarrow> 'a option" where
  "then_some b v = (if b then Some v else None)"

definition hello_body :: "VpnHello \<Rightarrow> bytes" where
  "hello_body h =
     to_be (hello_min_wire_version h) @ to_be (hello_max_wire_version h) @ to_be (hello_capabilities h) @
     to_be (hello_max_ip_packet_len h) @ to_be (hello_max_datagram_len h)"

definition accept_body :: "VpnAccept \<Rightarrow> bytes" where
  "accept_body a =
     to_be (accept_selected_wire_version a) @ to_be (0 :: u16) @ to_be (accept_capabilities a) @
     to_be (accept_max_ip_packet_len a) @ to_be (accept_max_datagram_len a) @
     to_be (accept_session_generation a) @
     to_be (unwrap_or (accept_client_ipv4 a) 0) @ to_be (unwrap_or (accept_server_ipv4 a) 0) @
     to_be (unwrap_or (accept_client_ipv6 a) 0) @ to_be (unwrap_or (accept_server_ipv6 a) 0)"

definition reject_body :: "VpnReject \<Rightarrow> bytes" where
  "reject_body r = to_be (reject_reason_code (reject_reason r)) @ to_be (reject_retry_after_secs r)"

fun control_body :: "VpnControlMessage \<Rightarrow> VpnControlError + u8 \<times> bytes" where
  "control_body (Hello h) = try_then (hello_validate h) (\<lambda>_. Inr (VPN_CONTROL_HELLO, hello_body h))"
| "control_body (Accept a) = try_then (accept_validate a) (\<lambda>_. Inr (VPN_CONTROL_ACCEPT, accept_body a))"
| "control_body (Reject r) = Inr (VPN_CONTROL_REJECT, reject_body r)"

definition encode_vpn_control_message :: "VpnControlMessage \<Rightarrow> VpnControlError + bytes" where
  "encode_vpn_control_message message =
     try_then (control_body message) (\<lambda>(message_type, body).
       case u16_try_from (length body) of
         None \<Rightarrow> Inl MessageTooLong
       | Some body_len \<Rightarrow>
           Inr (VPN_CONTROL_MAGIC @ [VPN_CONTROL_FORMAT_VERSION] @ [message_type] @ to_be body_len @ body))"

definition decode_hello :: "bytes \<Rightarrow> VpnControlError + VpnHello" where
  "decode_hello body =
     (if length body \<noteq> VPN_HELLO_BODY_LEN then Inl InvalidHello
      else let hello = \<lparr>
             hello_min_wire_version = from_be [body ! 0, body ! 1],
             hello_max_wire_version = from_be [body ! 2, body ! 3],
             hello_capabilities = from_be (take 4 (drop 4 body)),
             hello_max_ip_packet_len = from_be [body ! 8, body ! 9],
             hello_max_datagram_len = from_be [body ! 10, body ! 11]\<rparr> in
        try_then (hello_validate hello) (\<lambda>_. Inr hello))"

definition decode_accept :: "bytes \<Rightarrow> VpnControlError + VpnAccept" where
  "decode_accept body =
     (if length body \<noteq> VPN_ACCEPT_BODY_LEN then Inl InvalidAccept
      else if take 2 (drop 2 body) \<noteq> [0, 0] then Inl InvalidAccept
      else let capabilities = from_be (take 4 (drop 4 body));
               client_ipv4 = Ipv4Addr_new (body ! 20) (body ! 21) (body ! 22) (body ! 23);
               server_ipv4 = Ipv4Addr_new (body ! 24) (body ! 25) (body ! 26) (body ! 27);
               client_ipv6 = take 16 (drop 28 body);
               server_ipv6 = take 16 (drop 44 body);
               has_ipv4 = (capabilities AND VPN_CAP_IPV4 \<noteq> 0);
               has_ipv6 = (capabilities AND VPN_CAP_IPV6 \<noteq> 0);
               accept = \<lparr>
                 accept_selected_wire_version = from_be [body ! 0, body ! 1],
                 accept_capabilities = capabilities,
                 accept_max_ip_packet_len = from_be [body ! 8, body ! 9],
                 accept_max_datagram_len = from_be [body ! 10, body ! 11],
                 accept_session_generation = from_be (take 8 (drop 12 body)),
                 accept_client_ipv4 = then_some has_ipv4 client_ipv4,
                 accept_server_ipv4 = then_some has_ipv4 server_ipv4,
                 accept_client_ipv6 = then_some has_ipv6 (from_be client_ipv6),
                 accept_server_ipv6 = then_some has_ipv6 (from_be server_ipv6)\<rparr> in
        if \<not> has_ipv4 \<and> (client_ipv4 \<noteq> 0 \<or> server_ipv4 \<noteq> 0) \<or>
           \<not> has_ipv6 \<and> (client_ipv6 \<noteq> replicate 16 0 \<or> server_ipv6 \<noteq> replicate 16 0)
        then Inl InvalidAccept
        else try_then (accept_validate accept) (\<lambda>_. Inr accept))"

definition decode_reject :: "bytes \<Rightarrow> VpnControlError + VpnReject" where
  "decode_reject body =
     (if length body \<noteq> VPN_REJECT_BODY_LEN then Inl InvalidReject
      else try_then (reject_reason_try_from (from_be [body ! 0, body ! 1])) (\<lambda>reason.
        Inr \<lparr>reject_reason = reason, reject_retry_after_secs = from_be [body ! 2, body ! 3]\<rparr>))"

definition decode_vpn_control_message :: "bytes \<Rightarrow> VpnControlError + VpnControlMessage" where
  "decode_vpn_control_message encoded =
     (if length encoded < VPN_CONTROL_HEADER_LEN then Inl MessageTooShort
      else if length encoded > VPN_CONTROL_MAX_MESSAGE_LEN then Inl MessageTooLong
      else if take 4 encoded \<noteq> VPN_CONTROL_MAGIC then Inl InvalidMagic
      else if encoded ! 4 \<noteq> VPN_CONTROL_FORMAT_VERSION then Inl UnsupportedFormatVersion
      else let body_len = unat (from_be [encoded ! 6, encoded ! 7] :: u16) in
        if VPN_CONTROL_HEADER_LEN + body_len \<noteq> length encoded then Inl LengthMismatch
        else let body = drop VPN_CONTROL_HEADER_LEN encoded; message_type = encoded ! 5 in
          if message_type = VPN_CONTROL_HELLO then try_then (decode_hello body) (\<lambda>h. Inr (Hello h))
          else if message_type = VPN_CONTROL_ACCEPT then try_then (decode_accept body) (\<lambda>a. Inr (Accept a))
          else if message_type = VPN_CONTROL_REJECT then try_then (decode_reject body) (\<lambda>r. Inr (Reject r))
          else Inl UnknownMessageType)"

section \<open>The layouts\<close>

lemmas control_consts = VPN_CONTROL_HEADER_LEN_def VPN_CONTROL_MAX_MESSAGE_LEN_def VPN_HELLO_BODY_LEN_def
  VPN_ACCEPT_BODY_LEN_def VPN_REJECT_BODY_LEN_def

lemmas control_types = VPN_CONTROL_HELLO_def VPN_CONTROL_ACCEPT_def VPN_CONTROL_REJECT_def

text \<open>Reading the fields of a slice by index is reading a prefix of what remains of it.\<close>

lemma pair_at: "i + 1 < length xs \<Longrightarrow> [xs ! i, xs ! (i + 1)] = take 2 (drop i xs)"
  by (simp add: list_eq_iff_nth_eq nth_Cons' less_Suc_eq numeral_eq_Suc)

lemma quad_at:
  "i + 3 < length xs \<Longrightarrow> [xs ! i, xs ! (i + 1), xs ! (i + 2), xs ! (i + 3)] = take 4 (drop i xs)"
  by (simp add: list_eq_iff_nth_eq nth_Cons' less_Suc_eq numeral_eq_Suc)

lemma hello_fields:
  assumes "length body = 12"
  shows "decode_hello body =
    (let hello = \<lparr>
       hello_min_wire_version = from_be (take 2 body),
       hello_max_wire_version = from_be (take 2 (drop 2 body)),
       hello_capabilities = from_be (take 4 (drop 4 body)),
       hello_max_ip_packet_len = from_be (take 2 (drop 8 body)),
       hello_max_datagram_len = from_be (take 2 (drop 10 body))\<rparr> in
     try_then (hello_validate hello) (\<lambda>_. Inr hello))"
  using assms pair_at [of 0 body] pair_at [of 2 body] pair_at [of 8 body] pair_at [of 10 body]
  by (simp add: decode_hello_def control_consts)

lemma decode_hello_body: "hello_validate h = Inr () \<Longrightarrow> decode_hello (hello_body h) = Inr h"
  by (cases h) (simp add: hello_fields hello_body_def Let_def)

lemma hello_body_decoded:
  assumes "decode_hello body = Inr h"
  shows "hello_body h = body" and "hello_validate h = Inr ()"
proof -
  have len: "length body = 12" using assms by (auto simp: decode_hello_def control_consts split: if_splits)
  have "body = take 2 body @ take 2 (drop 2 body) @ take 4 (drop 4 body) @ take 2 (drop 8 body) @ take 2 (drop 10 body)"
    using len drop_split [of 0 body 2] drop_split [of 2 body 2] drop_split [of 4 body 4]
      drop_split [of 8 body 2] by simp
  then show "hello_body h = body" and "hello_validate h = Inr ()"
    using assms len
    by (auto simp: hello_fields Let_def result_simps hello_body_def be16.enc_dec be32.enc_dec)
qed

lemma Ipv4Addr_new_at:
  "i + 3 < length xs \<Longrightarrow>
    Ipv4Addr_new (xs ! i) (xs ! (i + 1)) (xs ! (i + 2)) (xs ! (i + 3)) = from_be (take 4 (drop i xs))"
  unfolding Ipv4Addr_new_def by (subst quad_at) simp_all

text \<open>An address field that is absent is written as zeroes, and read back as absent.\<close>

definition accept_fields :: "bytes \<Rightarrow> VpnAccept" where
  "accept_fields body =
     (let capabilities = from_be (take 4 (drop 4 body));
          has_ipv4 = (capabilities AND VPN_CAP_IPV4 \<noteq> 0);
          has_ipv6 = (capabilities AND VPN_CAP_IPV6 \<noteq> 0) in
      \<lparr>accept_selected_wire_version = from_be (take 2 body),
       accept_capabilities = capabilities,
       accept_max_ip_packet_len = from_be (take 2 (drop 8 body)),
       accept_max_datagram_len = from_be (take 2 (drop 10 body)),
       accept_session_generation = from_be (take 8 (drop 12 body)),
       accept_client_ipv4 = then_some has_ipv4 (from_be (take 4 (drop 20 body))),
       accept_server_ipv4 = then_some has_ipv4 (from_be (take 4 (drop 24 body))),
       accept_client_ipv6 = then_some has_ipv6 (from_be (take 16 (drop 28 body))),
       accept_server_ipv6 = then_some has_ipv6 (from_be (take 16 (drop 44 body)))\<rparr>)"

definition unused_zero :: "bytes \<Rightarrow> bool" where
  "unused_zero body \<longleftrightarrow>
     (let capabilities = from_be (take 4 (drop 4 body)) :: u32 in
      (capabilities AND VPN_CAP_IPV4 = 0 \<longrightarrow>
         from_be (take 4 (drop 20 body)) = (0 :: u32) \<and> from_be (take 4 (drop 24 body)) = (0 :: u32)) \<and>
      (capabilities AND VPN_CAP_IPV6 = 0 \<longrightarrow>
         take 16 (drop 28 body) = replicate 16 0 \<and> take 16 (drop 44 body) = replicate 16 0))"

lemma decode_accept_fields:
  assumes "length body = 60"
  shows "decode_accept body =
    (if take 2 (drop 2 body) \<noteq> [0, 0] \<or> \<not> unused_zero body then Inl InvalidAccept
     else try_then (accept_validate (accept_fields body)) (\<lambda>_. Inr (accept_fields body)))"
proof -
  have addr: "Ipv4Addr_new (body ! 20) (body ! 21) (body ! 22) (body ! 23) = from_be (take 4 (drop 20 body))"
    "Ipv4Addr_new (body ! 24) (body ! 25) (body ! 26) (body ! 27) = from_be (take 4 (drop 24 body))"
    using Ipv4Addr_new_at [of 20 body] Ipv4Addr_new_at [of 24 body] assms by simp_all
  have pairs: "[body ! 0, body ! Suc 0] = take 2 body" "[body ! 8, body ! 9] = take 2 (drop 8 body)"
    "[body ! 10, body ! 11] = take 2 (drop 10 body)"
    using pair_at [of 0 body] pair_at [of 8 body] pair_at [of 10 body] assms by simp_all
  show ?thesis
    using assms
    by (auto simp: decode_accept_def accept_fields_def unused_zero_def control_consts Let_def addr pairs)
qed

lemma length_accept_body [simp]: "length (accept_body a) = 60"
  by (simp add: accept_body_def)

lemma accept_addresses:
  assumes "accept_validate a = Inr ()"
  shows "accept_capabilities a AND VPN_CAP_IPV4 \<noteq> 0 \<longleftrightarrow> is_some (accept_client_ipv4 a)"
    and "accept_capabilities a AND VPN_CAP_IPV4 \<noteq> 0 \<longleftrightarrow> is_some (accept_server_ipv4 a)"
    and "accept_capabilities a AND VPN_CAP_IPV6 \<noteq> 0 \<longleftrightarrow> is_some (accept_client_ipv6 a)"
    and "accept_capabilities a AND VPN_CAP_IPV6 \<noteq> 0 \<longleftrightarrow> is_some (accept_server_ipv6 a)"
  using assms by (auto simp: accept_validate_def Let_def result_simps split: if_splits)

lemma then_some_unwrap_or: "b = is_some x \<Longrightarrow> then_some b (unwrap_or x d) = x"
  by (cases x) (simp_all add: then_some_def unwrap_or_def)

lemma to_be_zero: "to_be (0 :: u16) = [0, 0]" "to_be (0 :: u128) = replicate 16 0"
  by code_simp+

lemma accept_fields_body:
  assumes "accept_validate a = Inr ()"
  shows "accept_fields (accept_body a) = a" and "unused_zero (accept_body a)"
    and "take 2 (drop 2 (accept_body a)) = [0, 0]"
proof -
  note addr = accept_addresses [OF assms]
  show "accept_fields (accept_body a) = a"
    by (rule VpnAccept.equality)
       (simp_all add: accept_fields_def accept_body_def Let_def then_some_unwrap_or [OF addr(1)]
         then_some_unwrap_or [OF addr(2)] then_some_unwrap_or [OF addr(3)] then_some_unwrap_or [OF addr(4)])
  show "unused_zero (accept_body a)"
    unfolding unused_zero_def accept_body_def Let_def using addr
    by (auto simp: unwrap_or_def to_be_zero)
  show "take 2 (drop 2 (accept_body a)) = [0, 0]"
    by (simp add: accept_body_def to_be_zero)
qed

lemma decode_accept_body: "accept_validate a = Inr () \<Longrightarrow> decode_accept (accept_body a) = Inr a"
  by (simp add: decode_accept_fields accept_fields_body)

lemma unwrap_then_some: "unwrap_or (then_some b v) d = (if b then v else d)"
  by (simp add: unwrap_or_def then_some_def)

lemma accept_body_decoded:
  assumes "decode_accept body = Inr a"
  shows "accept_body a = body" and "accept_validate a = Inr ()"
proof -
  have len: "length body = 60" using assms by (auto simp: decode_accept_def control_consts split: if_splits)
  have a: "a = accept_fields body" and z: "unused_zero body" "take 2 (drop 2 body) = [0, 0]"
    and v: "accept_validate a = Inr ()"
    using assms by (auto simp: decode_accept_fields [OF len] result_simps split: if_splits)
  have "body = take 2 body @ take 2 (drop 2 body) @ take 4 (drop 4 body) @ take 2 (drop 8 body) @
      take 2 (drop 10 body) @ take 8 (drop 12 body) @ take 4 (drop 20 body) @ take 4 (drop 24 body) @
      take 16 (drop 28 body) @ take 16 (drop 44 body)"
    using len drop_split [of 0 body 2] drop_split [of 2 body 2] drop_split [of 4 body 4]
      drop_split [of 8 body 2] drop_split [of 10 body 2] drop_split [of 12 body 8] drop_split [of 20 body 4]
      drop_split [of 24 body 4] drop_split [of 28 body 16] by simp
  moreover have "to_be (if b then from_be x else 0 :: u32) = x"
    if "length x = 4" "\<not> b \<longrightarrow> from_be x = (0 :: u32)" for b x
    using that be32.enc_dec [of x] by (auto split: if_splits)
  moreover have "to_be (if b then from_be x else 0 :: u128) = x"
    if "length x = 16" "\<not> b \<longrightarrow> x = replicate 16 0" for b x
    using that be128.enc_dec [of x] by (auto simp: to_be_zero split: if_splits)
  ultimately show "accept_body a = body"
    using len z unfolding a accept_body_def accept_fields_def unused_zero_def Let_def
    by (simp add: be16.enc_dec be32.enc_dec be64.enc_dec unwrap_then_some to_be_zero)
  show "accept_validate a = Inr ()" by (rule v)
qed

lemma decode_reject_body: "decode_reject (reject_body r) = Inr r"
proof -
  have "reject_reason_try_from (reject_reason_code x) = Inr x" for x
    by (cases x) (simp_all add: reject_reason_try_from_def)
  then show ?thesis
    using pair_at [of 0 "reject_body r"] pair_at [of 2 "reject_body r"]
    by (cases r) (simp add: decode_reject_def reject_body_def control_consts)
qed

lemma reject_body_decoded:
  assumes "decode_reject body = Inr r"
  shows "reject_body r = body"
proof -
  have len: "length body = 4" using assms by (auto simp: decode_reject_def control_consts split: if_splits)
  have code: "reject_reason_code x = v" if "reject_reason_try_from v = Inr x" for v x
    using that by (auto simp: reject_reason_try_from_def split: if_splits)
  have "body = take 2 body @ take 2 (drop 2 body)" using len drop_split [of 0 body 2] by simp
  then show ?thesis
    using assms len pair_at [of 0 body] pair_at [of 2 body]
    by (auto simp: decode_reject_def reject_body_def control_consts result_simps be16.enc_dec
        dest!: code)
qed

section \<open>The framed codec\<close>

definition control_frame :: "u8 \<Rightarrow> bytes \<Rightarrow> bytes" where
  "control_frame message_type body =
     VPN_CONTROL_MAGIC @ [VPN_CONTROL_FORMAT_VERSION, message_type] @ to_be (of_nat (length body) :: u16) @ body"

definition control_dispatch :: "u8 \<Rightarrow> bytes \<Rightarrow> VpnControlError + VpnControlMessage" where
  "control_dispatch message_type body =
     (if message_type = VPN_CONTROL_HELLO then try_then (decode_hello body) (\<lambda>h. Inr (Hello h))
      else if message_type = VPN_CONTROL_ACCEPT then try_then (decode_accept body) (\<lambda>a. Inr (Accept a))
      else if message_type = VPN_CONTROL_REJECT then try_then (decode_reject body) (\<lambda>r. Inr (Reject r))
      else Inl UnknownMessageType)"

lemma decode_control_frame:
  assumes "length body \<le> 248"
  shows "decode_vpn_control_message (control_frame message_type body) = control_dispatch message_type body"
proof -
  let ?e = "control_frame message_type body"
  have "unat (of_nat (length body) :: u16) = length body" using assms by (simp add: unat_of_nat)
  moreover have "[?e ! 6, ?e ! 7] = to_be (of_nat (length body) :: u16)"
    using pair_at [of 6 ?e] by (simp add: control_frame_def VPN_CONTROL_MAGIC_def)
  ultimately have "unat (from_be [?e ! 6, ?e ! 7] :: u16) = length body" by simp
  with assms show ?thesis
    by (simp add: decode_vpn_control_message_def control_dispatch_def control_consts Let_def
        control_frame_def VPN_CONTROL_MAGIC_def)
qed

lemma decoded_control_frame:
  assumes "decode_vpn_control_message encoded = Inr m"
  obtains message_type body where "encoded = control_frame message_type body" and "length body \<le> 248"
    and "control_dispatch message_type body = Inr m"
proof -
  have len: "8 \<le> length encoded" "length encoded \<le> 256" and magic: "take 4 encoded = VPN_CONTROL_MAGIC"
    and ver: "encoded ! 4 = VPN_CONTROL_FORMAT_VERSION"
    and blen: "8 + unat (from_be [encoded ! 6, encoded ! 7] :: u16) = length encoded"
    and d: "control_dispatch (encoded ! 5) (drop 8 encoded) = Inr m"
    using assms
    by (auto simp: decode_vpn_control_message_def control_dispatch_def control_consts Let_def
        not_less split: if_splits)
  have pairs: "[encoded ! 4, encoded ! 5] = take 2 (drop 4 encoded)"
    "[encoded ! 6, encoded ! 7] = take 2 (drop 6 encoded)"
    using pair_at [of 4 encoded] pair_at [of 6 encoded] len by simp_all
  have "(of_nat (length (drop 8 encoded)) :: u16) = from_be [encoded ! 6, encoded ! 7]"
  proof -
    have "length (drop 8 encoded) = unat (from_be [encoded ! 6, encoded ! 7] :: u16)" using blen by simp
    then show ?thesis by simp
  qed
  then have "to_be (of_nat (length (drop 8 encoded)) :: u16) = take 2 (drop 6 encoded)"
    using pairs len be16.enc_dec [of "take 2 (drop 6 encoded)"] by simp
  moreover have "encoded = take 4 encoded @ take 2 (drop 4 encoded) @ take 2 (drop 6 encoded) @ drop 8 encoded"
    using len drop_split [of 0 encoded 4] drop_split [of 4 encoded 2] drop_split [of 6 encoded 2] by simp
  ultimately have "encoded = control_frame (encoded ! 5) (drop 8 encoded)"
    unfolding control_frame_def using magic ver pairs(1) by simp
  with len d that show thesis by simp
qed

lemma encode_control_frame:
  assumes "control_body m = Inr (message_type, body)"
  shows "encode_vpn_control_message m = Inr (control_frame message_type body)" and "length body \<le> 60"
proof -
  show "length body \<le> 60"
    using assms by (cases m) (auto simp: result_simps hello_body_def reject_body_def)
  then show "encode_vpn_control_message m = Inr (control_frame message_type body)"
    by (simp add: encode_vpn_control_message_def assms control_frame_def u16_try_from_def u16_max_def)
qed

text \<open>
  C16.  The control codec is a bijection between the messages that validate and the byte strings the
  decoder accepts: a byte string decodes to a message exactly if that message encodes to it.  So
  every encoded message decodes to itself, no two byte strings decode to the same message, and both
  ends apply the same validation.
\<close>

theorem control_codec_bijective:
  "decode_vpn_control_message encoded = Inr m \<longleftrightarrow> encode_vpn_control_message m = Inr encoded"
proof
  assume "decode_vpn_control_message encoded = Inr m"
  then obtain message_type body where e: "encoded = control_frame message_type body"
    and d: "control_dispatch message_type body = Inr m" by (rule decoded_control_frame)
  have "control_body m = Inr (message_type, body)"
    using d hello_body_decoded [of body] accept_body_decoded [of body] reject_body_decoded [of body]
    by (auto simp: control_dispatch_def result_simps split: if_splits)
  with e show "encode_vpn_control_message m = Inr encoded" by (simp add: encode_control_frame)
next
  assume enc: "encode_vpn_control_message m = Inr encoded"
  then obtain message_type body where b: "control_body m = Inr (message_type, body)"
    by (auto simp: encode_vpn_control_message_def result_simps)
  then have "control_dispatch message_type body = Inr m"
    by (cases m) (auto simp: result_simps control_dispatch_def control_types decode_hello_body
        decode_accept_body decode_reject_body)
  with enc b decode_control_frame [of body message_type] encode_control_frame [OF b]
  show "decode_vpn_control_message encoded = Inr m" by simp
qed

text \<open>
  Version selection returns the highest version both ranges contain, and nothing exactly when
  a range is malformed or the ranges do not meet.
\<close>

lemma select_wire_version_greatest:
  "select_vpn_wire_version client_min client_max server_min server_max = Some v \<longleftrightarrow>
     client_min \<noteq> 0 \<and> server_min \<noteq> 0 \<and> v \<in> {client_min..client_max} \<inter> {server_min..server_max} \<and>
     {client_min..client_max} \<inter> {server_min..server_max} \<subseteq> {..v}"
proof -
  have "{client_min..client_max} \<inter> {server_min..server_max} =
    {max client_min server_min..min client_max server_max}" by auto
  then show ?thesis
    by (auto simp: select_vpn_wire_version_def Let_def intro: antisym)
qed

end
