(* ===== verification/Vpn_Identity.thy ===== *)
theory Vpn_Identity
  imports Vpn_Control
begin

text \<open>
  Client identities of \<open>vpn_identity.rs\<close>: certificate fingerprints and their hexadecimal form,
  destination networks, the data policy and the limits of an identity, and the registry that
  authorizes a fingerprint.  A \<open>str\<close> is the list of its UTF-8 bytes.
\<close>

section \<open>Constants and errors\<close>

definition VPN_SHA256_FINGERPRINT_LEN :: usize where
  "VPN_SHA256_FINGERPRINT_LEN = 32"

definition VPN_MAX_IDENTITIES :: usize where
  "VPN_MAX_IDENTITIES = 4096"

definition VPN_MAX_CLIENT_ID_LEN :: usize where
  "VPN_MAX_CLIENT_ID_LEN = 64"

definition VPN_MAX_FINGERPRINTS_PER_IDENTITY :: usize where
  "VPN_MAX_FINGERPRINTS_PER_IDENTITY = 2"

definition VPN_MAX_DESTINATION_NETWORKS_PER_IDENTITY :: usize where
  "VPN_MAX_DESTINATION_NETWORKS_PER_IDENTITY = 256"

definition VPN_MAX_CONNECTIONS_PER_IDENTITY :: nat where
  "VPN_MAX_CONNECTIONS_PER_IDENTITY = 1"

definition VPN_MAX_PACKETS_PER_SECOND :: nat where
  "VPN_MAX_PACKETS_PER_SECOND = 1000000"

definition VPN_MAX_BYTES_PER_SECOND :: nat where
  "VPN_MAX_BYTES_PER_SECOND = 4 * 1024 * 1024 * 1024"

lemmas identity_consts = VPN_SHA256_FINGERPRINT_LEN_def VPN_MAX_IDENTITIES_def VPN_MAX_CLIENT_ID_LEN_def
  VPN_MAX_FINGERPRINTS_PER_IDENTITY_def VPN_MAX_DESTINATION_NETWORKS_PER_IDENTITY_def
  VPN_MAX_CONNECTIONS_PER_IDENTITY_def VPN_MAX_PACKETS_PER_SECOND_def VPN_MAX_BYTES_PER_SECOND_def

datatype VpnIdentityError =
    InvalidFingerprintHex | InvalidClientId | MissingFingerprint | TooManyFingerprints
  | TooManyIdentities | TooManyDestinationNetworks | MissingClientAddress | InvalidClientAddress
  | MissingServerAddress | InvalidServerAddress | AddressFamilyUnavailable
  | ClientServerAddressConflict | DuplicateClientId | DuplicateFingerprint | DuplicateClientAddress
  | DuplicateDestinationNetwork | InvalidLimits | InvalidNetworkPrefix | NonCanonicalNetwork

fun VpnIdentityError_display :: "VpnIdentityError \<Rightarrow> string" where
  "VpnIdentityError_display InvalidFingerprintHex = ''vpn_identity_invalid_fingerprint_hex''"
| "VpnIdentityError_display InvalidClientId = ''vpn_identity_invalid_client_id''"
| "VpnIdentityError_display MissingFingerprint = ''vpn_identity_missing_fingerprint''"
| "VpnIdentityError_display TooManyFingerprints = ''vpn_identity_too_many_fingerprints''"
| "VpnIdentityError_display TooManyIdentities = ''vpn_identity_too_many_identities''"
| "VpnIdentityError_display TooManyDestinationNetworks = ''vpn_identity_too_many_destination_networks''"
| "VpnIdentityError_display MissingClientAddress = ''vpn_identity_missing_client_address''"
| "VpnIdentityError_display InvalidClientAddress = ''vpn_identity_invalid_client_address''"
| "VpnIdentityError_display MissingServerAddress = ''vpn_identity_missing_server_address''"
| "VpnIdentityError_display InvalidServerAddress = ''vpn_identity_invalid_server_address''"
| "VpnIdentityError_display AddressFamilyUnavailable = ''vpn_identity_address_family_unavailable''"
| "VpnIdentityError_display ClientServerAddressConflict = ''vpn_identity_client_server_address_conflict''"
| "VpnIdentityError_display DuplicateClientId = ''vpn_identity_duplicate_client_id''"
| "VpnIdentityError_display DuplicateFingerprint = ''vpn_identity_duplicate_fingerprint''"
| "VpnIdentityError_display DuplicateClientAddress = ''vpn_identity_duplicate_client_address''"
| "VpnIdentityError_display DuplicateDestinationNetwork = ''vpn_identity_duplicate_destination_network''"
| "VpnIdentityError_display InvalidLimits = ''vpn_identity_invalid_limits''"
| "VpnIdentityError_display InvalidNetworkPrefix = ''vpn_identity_invalid_network_prefix''"
| "VpnIdentityError_display NonCanonicalNetwork = ''vpn_identity_non_canonical_network''"

section \<open>Fingerprints\<close>

datatype VpnCertificateFingerprint = Fingerprint (fingerprint_bytes: bytes)

definition decode_hex :: "u8 \<Rightarrow> VpnIdentityError + u8" where
  "decode_hex value =
     (if 0x30 \<le> value \<and> value \<le> 0x39 then Inr (value - 0x30)
      else if 0x61 \<le> value \<and> value \<le> 0x66 then Inr (value - 0x61 + 10)
      else if 0x41 \<le> value \<and> value \<le> 0x46 then Inr (value - 0x41 + 10)
      else Inl InvalidFingerprintHex)"

fun parse_hex_loop :: "bytes \<Rightarrow> nat list \<Rightarrow> VpnIdentityError + bytes" where
  "parse_hex_loop value [] = Inr []"
| "parse_hex_loop value (index # rest) =
     (let offset = index * 2 in
      try_then (decode_hex (value ! offset)) (\<lambda>high.
      try_then (decode_hex (value ! (offset + 1))) (\<lambda>low.
      try_then (parse_hex_loop value rest) (\<lambda>bytes. Inr ((push_bit 4 high OR low) # bytes)))))"

definition parse_hex :: "bytes \<Rightarrow> VpnIdentityError + VpnCertificateFingerprint" where
  "parse_hex value =
     (if length value \<noteq> VPN_SHA256_FINGERPRINT_LEN * 2 \<or> \<not> list_all (\<lambda>b. b < 128) value
      then Inl InvalidFingerprintHex
      else try_then (parse_hex_loop value [0..<VPN_SHA256_FINGERPRINT_LEN]) (\<lambda>bytes. Inr (Fingerprint bytes)))"

definition HEX :: bytes where
  "HEX = [0x30, 0x31, 0x32, 0x33, 0x34, 0x35, 0x36, 0x37, 0x38, 0x39, 0x61, 0x62, 0x63, 0x64, 0x65, 0x66]"

definition to_hex :: "VpnCertificateFingerprint \<Rightarrow> bytes" where
  "to_hex fingerprint =
     concat (map (\<lambda>byte. [HEX ! unat (drop_bit 4 byte), HEX ! unat (byte AND 0x0f)]) (fingerprint_bytes fingerprint))"

section \<open>Networks\<close>

datatype VpnIpNetwork = V4Net u32 u8 | V6Net u128 u8

definition prefix_mask_v4 :: "u8 \<Rightarrow> u32" where
  "prefix_mask_v4 prefix_len = (if prefix_len = 0 then 0 else push_bit (32 - unat prefix_len) (- 1))"

definition prefix_mask_v6 :: "u8 \<Rightarrow> u128" where
  "prefix_mask_v6 prefix_len = (if prefix_len = 0 then 0 else push_bit (128 - unat prefix_len) (- 1))"

definition network_v4 :: "u32 \<Rightarrow> u8 \<Rightarrow> VpnIdentityError + VpnIpNetwork" where
  "network_v4 network prefix_len =
     (if prefix_len > 32 then Inl InvalidNetworkPrefix
      else if network AND prefix_mask_v4 prefix_len \<noteq> network then Inl NonCanonicalNetwork
      else Inr (V4Net network prefix_len))"

definition network_v6 :: "u128 \<Rightarrow> u8 \<Rightarrow> VpnIdentityError + VpnIpNetwork" where
  "network_v6 network prefix_len =
     (if prefix_len > 128 then Inl InvalidNetworkPrefix
      else if network AND prefix_mask_v6 prefix_len \<noteq> network then Inl NonCanonicalNetwork
      else Inr (V6Net network prefix_len))"

fun network_contains :: "VpnIpNetwork \<Rightarrow> IpAddr \<Rightarrow> bool" where
  "network_contains (V4Net network prefix_len) (V4 address) \<longleftrightarrow> address AND prefix_mask_v4 prefix_len = network"
| "network_contains (V6Net network prefix_len) (V6 address) \<longleftrightarrow> address AND prefix_mask_v6 prefix_len = network"
| "network_contains _ _ \<longleftrightarrow> False"

section \<open>Data policy\<close>

record VpnDataPolicy =
  policy_client_ipv4 :: "u32 option"
  policy_client_ipv6 :: "u128 option"
  policy_allowed_destinations :: "VpnIpNetwork list"

text \<open>\<open>iter().all(|x| set.insert(x))\<close>: every element is new to the growing set.\<close>

fun all_inserted :: "'a list \<Rightarrow> 'a list \<Rightarrow> bool" where
  "all_inserted seen [] = True"
| "all_inserted seen (x # xs) = (if x \<in> set seen then False else all_inserted (x # seen) xs)"

definition is_some_and :: "'a option \<Rightarrow> ('a \<Rightarrow> bool) \<Rightarrow> bool" where
  "is_some_and x p = (case x of None \<Rightarrow> False | Some v \<Rightarrow> p v)"

fun network_family_missing :: "u32 option \<Rightarrow> u128 option \<Rightarrow> VpnIpNetwork \<Rightarrow> bool" where
  "network_family_missing client_ipv4 client_ipv6 (V4Net _ _) \<longleftrightarrow> client_ipv4 = None"
| "network_family_missing client_ipv4 client_ipv6 (V6Net _ _) \<longleftrightarrow> client_ipv6 = None"

definition data_policy_new ::
  "u32 option \<Rightarrow> u128 option \<Rightarrow> VpnIpNetwork list \<Rightarrow> VpnIdentityError + VpnDataPolicy" where
  "data_policy_new client_ipv4 client_ipv6 allowed_destinations =
     (if client_ipv4 = None \<and> client_ipv6 = None then Inl MissingClientAddress
      else if is_some_and client_ipv4 (\<lambda>a. \<not> valid_ipv4_tunnel_address a) \<or>
              is_some_and client_ipv6 (\<lambda>a. \<not> valid_ipv6_tunnel_address a)
      then Inl InvalidClientAddress
      else if length allowed_destinations > VPN_MAX_DESTINATION_NETWORKS_PER_IDENTITY
      then Inl TooManyDestinationNetworks
      else if \<not> all_inserted [] allowed_destinations then Inl DuplicateDestinationNetwork
      else if list_ex (network_family_missing client_ipv4 client_ipv6) allowed_destinations
      then Inl AddressFamilyUnavailable
      else Inr \<lparr>policy_client_ipv4 = client_ipv4, policy_client_ipv6 = client_ipv6,
                 policy_allowed_destinations = allowed_destinations\<rparr>)"

fun permits_source :: "VpnDataPolicy \<Rightarrow> IpAddr \<Rightarrow> bool" where
  "permits_source policy (V4 source) \<longleftrightarrow> policy_client_ipv4 policy = Some source"
| "permits_source policy (V6 source) \<longleftrightarrow> policy_client_ipv6 policy = Some source"

definition allows_destination :: "VpnDataPolicy \<Rightarrow> IpAddr \<Rightarrow> bool" where
  "allows_destination policy destination =
     list_ex (\<lambda>network. network_contains network destination) (policy_allowed_destinations policy)"

section \<open>Limits and identities\<close>

record VpnIdentityLimits =
  limit_max_connections :: nat
  limit_max_packets_per_second :: nat
  limit_max_bytes_per_second :: nat
  limit_max_reassembly_bytes :: usize

definition identity_limits_validate :: "VpnIdentityLimits \<Rightarrow> VpnIdentityError + unit" where
  "identity_limits_validate l =
     (if limit_max_connections l = 0 \<or>
         limit_max_connections l > VPN_MAX_CONNECTIONS_PER_IDENTITY \<or>
         limit_max_packets_per_second l = 0 \<or>
         limit_max_packets_per_second l > VPN_MAX_PACKETS_PER_SECOND \<or>
         limit_max_bytes_per_second l = 0 \<or>
         limit_max_bytes_per_second l > VPN_MAX_BYTES_PER_SECOND \<or>
         limit_max_reassembly_bytes l < VPN_MAX_IP_PACKET_LEN \<or>
         limit_max_reassembly_bytes l > VPN_DEFAULT_MAX_REASSEMBLY_BYTES
      then Inl InvalidLimits else Inr ())"

definition identity_limits_new :: "nat \<Rightarrow> nat \<Rightarrow> nat \<Rightarrow> usize \<Rightarrow> VpnIdentityError + VpnIdentityLimits" where
  "identity_limits_new max_connections max_packets_per_second max_bytes_per_second max_reassembly_bytes =
     (let limits = \<lparr>limit_max_connections = max_connections,
                    limit_max_packets_per_second = max_packets_per_second,
                    limit_max_bytes_per_second = max_bytes_per_second,
                    limit_max_reassembly_bytes = max_reassembly_bytes\<rparr> in
      try_then (identity_limits_validate limits) (\<lambda>_. Inr limits))"

definition identity_limits_default :: VpnIdentityLimits where
  "identity_limits_default =
     \<lparr>limit_max_connections = 1, limit_max_packets_per_second = 100000,
      limit_max_bytes_per_second = 128 * 1024 * 1024,
      limit_max_reassembly_bytes = VPN_DEFAULT_MAX_REASSEMBLY_BYTES\<rparr>"

record VpnIdentity =
  identity_client_id :: bytes
  identity_fingerprints :: "VpnCertificateFingerprint list"
  identity_enabled :: bool
  identity_data_policy :: VpnDataPolicy
  identity_limits :: VpnIdentityLimits

definition is_ascii_alphanumeric :: "u8 \<Rightarrow> bool" where
  "is_ascii_alphanumeric b \<longleftrightarrow> 0x30 \<le> b \<and> b \<le> 0x39 \<or> 0x41 \<le> b \<and> b \<le> 0x5A \<or> 0x61 \<le> b \<and> b \<le> 0x7A"

definition client_id_byte :: "u8 \<Rightarrow> bool" where
  "client_id_byte b \<longleftrightarrow> is_ascii_alphanumeric b \<or> b = 0x2D \<or> b = 0x5F \<or> b = 0x2E"

definition validate_identity_key :: "bytes \<Rightarrow> VpnCertificateFingerprint list \<Rightarrow> VpnIdentityError + unit" where
  "validate_identity_key client_id fingerprints =
     (if client_id = [] \<or> length client_id > VPN_MAX_CLIENT_ID_LEN \<or> \<not> list_all client_id_byte client_id
      then Inl InvalidClientId
      else if fingerprints = [] then Inl MissingFingerprint
      else if length fingerprints > VPN_MAX_FINGERPRINTS_PER_IDENTITY then Inl TooManyFingerprints
      else if \<not> all_inserted [] fingerprints then Inl DuplicateFingerprint
      else Inr ())"

definition identity_new ::
  "bytes \<Rightarrow> VpnCertificateFingerprint list \<Rightarrow> bool \<Rightarrow> u32 option \<Rightarrow> u128 option \<Rightarrow> VpnIpNetwork list \<Rightarrow>
   VpnIdentityLimits \<Rightarrow> VpnIdentityError + VpnIdentity" where
  "identity_new client_id fingerprints enabled client_ipv4 client_ipv6 allowed_destinations limits =
     try_then (validate_identity_key client_id fingerprints) (\<lambda>_.
     try_then (data_policy_new client_ipv4 client_ipv6 allowed_destinations) (\<lambda>data_policy.
     try_then (identity_limits_validate limits) (\<lambda>_.
     Inr \<lparr>identity_client_id = client_id, identity_fingerprints = fingerprints,
          identity_enabled = enabled, identity_data_policy = data_policy, identity_limits = limits\<rparr>)))"

definition identity_validate :: "VpnIdentity \<Rightarrow> VpnIdentityError + unit" where
  "identity_validate i =
     try_then (validate_identity_key (identity_client_id i) (identity_fingerprints i)) (\<lambda>_.
     identity_limits_validate (identity_limits i))"

definition has_same_session_policy :: "VpnIdentity \<Rightarrow> VpnIdentity \<Rightarrow> bool" where
  "has_same_session_policy i other \<longleftrightarrow>
     identity_client_id i = identity_client_id other \<and> identity_enabled i = identity_enabled other \<and>
     identity_data_policy i = identity_data_policy other \<and> identity_limits i = identity_limits other"

abbreviation identity_client_ipv4 :: "VpnIdentity \<Rightarrow> u32 option" where
  "identity_client_ipv4 i \<equiv> policy_client_ipv4 (identity_data_policy i)"

abbreviation identity_client_ipv6 :: "VpnIdentity \<Rightarrow> u128 option" where
  "identity_client_ipv6 i \<equiv> policy_client_ipv6 (identity_data_policy i)"

section \<open>The registry\<close>

datatype VpnIdentityAuthorizationError = UnknownFingerprint | IdentityDisabledError

fun VpnIdentityAuthorizationError_display :: "VpnIdentityAuthorizationError \<Rightarrow> string" where
  "VpnIdentityAuthorizationError_display UnknownFingerprint = ''vpn_identity_unknown_fingerprint''"
| "VpnIdentityAuthorizationError_display IdentityDisabledError = ''vpn_identity_disabled''"

record VpnIdentityRegistry =
  registry_server_ipv4 :: "u32 option"
  registry_server_ipv6 :: "u128 option"
  registry_identities :: "VpnIdentity list"
  registry_by_client_id :: "(bytes \<times> usize) list"
  registry_by_fingerprint :: "(VpnCertificateFingerprint \<times> usize) list"

definition zip_conflict :: "'a option \<Rightarrow> 'a option \<Rightarrow> bool" where
  "zip_conflict client server =
     (case (client, server) of (Some client, Some server) \<Rightarrow> client = server | _ \<Rightarrow> False)"

fun insert_fingerprints ::
  "usize \<Rightarrow> VpnCertificateFingerprint list \<Rightarrow> (VpnCertificateFingerprint \<times> usize) list \<Rightarrow>
   VpnIdentityError + (VpnCertificateFingerprint \<times> usize) list" where
  "insert_fingerprints index [] by_fingerprint = Inr by_fingerprint"
| "insert_fingerprints index (fingerprint # rest) by_fingerprint =
     (if map_of by_fingerprint fingerprint \<noteq> None then Inl DuplicateFingerprint
      else insert_fingerprints index rest (hm_insert fingerprint index by_fingerprint))"

record registry_builder =
  rb_by_client_id :: "(bytes \<times> usize) list"
  rb_by_fingerprint :: "(VpnCertificateFingerprint \<times> usize) list"
  rb_ipv4_addresses :: "u32 list"
  rb_ipv6_addresses :: "u128 list"

text \<open>One iteration of the loop of \<open>VpnIdentityRegistry::new\<close>.\<close>

definition registry_add ::
  "u32 option \<Rightarrow> u128 option \<Rightarrow> usize \<Rightarrow> VpnIdentity \<Rightarrow> registry_builder \<Rightarrow> VpnIdentityError + registry_builder" where
  "registry_add server_ipv4 server_ipv6 index i b =
     try_then (identity_validate i) (\<lambda>_.
     if identity_client_ipv4 i \<noteq> None \<and> server_ipv4 = None \<or> identity_client_ipv6 i \<noteq> None \<and> server_ipv6 = None
     then Inl AddressFamilyUnavailable
     else if zip_conflict (identity_client_ipv4 i) server_ipv4 \<or> zip_conflict (identity_client_ipv6 i) server_ipv6
     then Inl ClientServerAddressConflict
     else if map_of (rb_by_client_id b) (identity_client_id i) \<noteq> None then Inl DuplicateClientId
     else try_then (insert_fingerprints index (identity_fingerprints i) (rb_by_fingerprint b)) (\<lambda>by_fingerprint.
       if is_some_and (identity_client_ipv4 i) (\<lambda>a. a \<in> set (rb_ipv4_addresses b)) \<or>
          is_some_and (identity_client_ipv6 i) (\<lambda>a. a \<in> set (rb_ipv6_addresses b))
       then Inl DuplicateClientAddress
       else Inr \<lparr>rb_by_client_id = hm_insert (identity_client_id i) index (rb_by_client_id b),
                  rb_by_fingerprint = by_fingerprint,
                  rb_ipv4_addresses = (case identity_client_ipv4 i of None \<Rightarrow> rb_ipv4_addresses b
                                       | Some a \<Rightarrow> a # rb_ipv4_addresses b),
                  rb_ipv6_addresses = (case identity_client_ipv6 i of None \<Rightarrow> rb_ipv6_addresses b
                                       | Some a \<Rightarrow> a # rb_ipv6_addresses b)\<rparr>))"

fun registry_loop ::
  "u32 option \<Rightarrow> u128 option \<Rightarrow> usize \<Rightarrow> VpnIdentity list \<Rightarrow> registry_builder \<Rightarrow> VpnIdentityError + registry_builder" where
  "registry_loop server_ipv4 server_ipv6 index [] b = Inr b"
| "registry_loop server_ipv4 server_ipv6 index (i # rest) b =
     try_then (registry_add server_ipv4 server_ipv6 index i b) (\<lambda>b.
     registry_loop server_ipv4 server_ipv6 (index + 1) rest b)"

definition registry_new ::
  "u32 option \<Rightarrow> u128 option \<Rightarrow> VpnIdentity list \<Rightarrow> VpnIdentityError + VpnIdentityRegistry" where
  "registry_new server_ipv4 server_ipv6 identities =
     (if server_ipv4 = None \<and> server_ipv6 = None then Inl MissingServerAddress
      else if is_some_and server_ipv4 (\<lambda>a. \<not> valid_ipv4_tunnel_address a) \<or>
              is_some_and server_ipv6 (\<lambda>a. \<not> valid_ipv6_tunnel_address a)
      then Inl InvalidServerAddress
      else if length identities > VPN_MAX_IDENTITIES then Inl TooManyIdentities
      else try_then (registry_loop server_ipv4 server_ipv6 0 identities
             \<lparr>rb_by_client_id = [], rb_by_fingerprint = [], rb_ipv4_addresses = [], rb_ipv6_addresses = []\<rparr>) (\<lambda>b.
        Inr \<lparr>registry_server_ipv4 = server_ipv4, registry_server_ipv6 = server_ipv6,
             registry_identities = identities,
             registry_by_client_id = rb_by_client_id b, registry_by_fingerprint = rb_by_fingerprint b\<rparr>))"

definition registry_identity_by_client_id :: "VpnIdentityRegistry \<Rightarrow> bytes \<Rightarrow> VpnIdentity option" where
  "registry_identity_by_client_id r client_id =
     map_option (\<lambda>index. registry_identities r ! index) (map_of (registry_by_client_id r) client_id)"

definition authorize ::
  "VpnIdentityRegistry \<Rightarrow> VpnCertificateFingerprint \<Rightarrow> VpnIdentityAuthorizationError + VpnIdentity" where
  "authorize r fingerprint =
     (case map_of (registry_by_fingerprint r) fingerprint of
        None \<Rightarrow> Inl UnknownFingerprint
      | Some index \<Rightarrow>
          let identity = registry_identities r ! index in
          if \<not> identity_enabled identity then Inl IdentityDisabledError else Inr identity)"

section \<open>Lookup structures of the registry\<close>

lemma all_inserted_iff: "all_inserted seen xs \<longleftrightarrow> distinct xs \<and> set xs \<inter> set seen = {}"
  by (induction seen xs rule: all_inserted.induct) auto

lemma insert_fingerprints_lookup:
  assumes "insert_fingerprints index fps m = Inr m'"
  shows "(\<forall>f \<in> set fps. map_of m f = None) \<and>
    (\<forall>f. map_of m' f = (if f \<in> set fps then Some index else map_of m f))"
  using assms
proof (induction index fps m rule: insert_fingerprints.induct)
  case (2 index f fps m)
  then have none: "map_of m f = None" and IH:
    "(\<forall>g \<in> set fps. map_of (hm_insert f index m) g = None) \<and>
     (\<forall>g. map_of m' g = (if g \<in> set fps then Some index else map_of (hm_insert f index m) g))"
    by (auto split: if_splits)
  then have "f \<notin> set fps" by (auto simp: map_of_insert)
  with none IH show ?case by (auto simp: map_of_insert split: if_splits)
qed simp

text \<open>
  What the loop of the constructor has established about the identities it has seen: each fits the
  server, no two share a client identifier, a fingerprint or an address, and the maps are the
  lookup functions of those identities.
\<close>

definition identity_fits :: "u32 option \<Rightarrow> u128 option \<Rightarrow> VpnIdentity \<Rightarrow> bool" where
  "identity_fits server_ipv4 server_ipv6 i \<longleftrightarrow> identity_validate i = Inr () \<and>
     (server_ipv4 = None \<longrightarrow> identity_client_ipv4 i = None) \<and>
     (server_ipv6 = None \<longrightarrow> identity_client_ipv6 i = None) \<and>
     (identity_client_ipv4 i = None \<or> identity_client_ipv4 i \<noteq> server_ipv4) \<and>
     (identity_client_ipv6 i = None \<or> identity_client_ipv6 i \<noteq> server_ipv6)"

definition no_sharing :: "VpnIdentity \<Rightarrow> VpnIdentity \<Rightarrow> bool" where
  "no_sharing i j \<longleftrightarrow>
     identity_client_id i \<noteq> identity_client_id j \<and>
     set (identity_fingerprints i) \<inter> set (identity_fingerprints j) = {} \<and>
     (identity_client_ipv4 i = None \<or> identity_client_ipv4 i \<noteq> identity_client_ipv4 j) \<and>
     (identity_client_ipv6 i = None \<or> identity_client_ipv6 i \<noteq> identity_client_ipv6 j)"

lemma no_sharing_sym: "no_sharing i j \<Longrightarrow> no_sharing j i"
  by (auto simp: no_sharing_def)

definition identities_ok :: "u32 option \<Rightarrow> u128 option \<Rightarrow> VpnIdentity list \<Rightarrow> bool" where
  "identities_ok server_ipv4 server_ipv6 is \<longleftrightarrow>
     list_all (identity_fits server_ipv4 server_ipv6) is \<and> sorted_wrt no_sharing is"

definition builder_ok :: "VpnIdentity list \<Rightarrow> registry_builder \<Rightarrow> bool" where
  "builder_ok is b \<longleftrightarrow>
     (\<forall>c k. map_of (rb_by_client_id b) c = Some k \<longleftrightarrow> k < length is \<and> identity_client_id (is ! k) = c) \<and>
     (\<forall>f k. map_of (rb_by_fingerprint b) f = Some k \<longleftrightarrow> k < length is \<and> f \<in> set (identity_fingerprints (is ! k))) \<and>
     set (rb_ipv4_addresses b) = {a. \<exists>i \<in> set is. identity_client_ipv4 i = Some a} \<and>
     set (rb_ipv6_addresses b) = {a. \<exists>i \<in> set is. identity_client_ipv6 i = Some a}"

lemma registry_add_checks:
  assumes "registry_add server_ipv4 server_ipv6 index i b = Inr b'"
  shows "identity_fits server_ipv4 server_ipv6 i"
    and "map_of (rb_by_client_id b) (identity_client_id i) = None"
    and "insert_fingerprints index (identity_fingerprints i) (rb_by_fingerprint b) = Inr (rb_by_fingerprint b')"
    and "set_option (identity_client_ipv4 i) \<inter> set (rb_ipv4_addresses b) = {}"
    and "set_option (identity_client_ipv6 i) \<inter> set (rb_ipv6_addresses b) = {}"
    and "rb_by_client_id b' = hm_insert (identity_client_id i) index (rb_by_client_id b)"
    and "set (rb_ipv4_addresses b') = set (rb_ipv4_addresses b) \<union> set_option (identity_client_ipv4 i)"
    and "set (rb_ipv6_addresses b') = set (rb_ipv6_addresses b) \<union> set_option (identity_client_ipv6 i)"
  using assms unfolding registry_add_def try_then_eq_Inr
  by (auto simp: result_simps zip_conflict_def is_some_and_def identity_fits_def
      split: if_splits option.splits)

lemma registry_add_no_sharing:
  assumes "builder_ok is b" and "registry_add server_ipv4 server_ipv6 (length is) i b = Inr b'"
    and "j \<in> set is"
  shows "no_sharing j i"
proof -
  obtain k where k: "k < length is" "j = is ! k" using assms(3) by (metis in_set_conv_nth)
  note c = registry_add_checks [OF assms(2)]
  have "identity_client_id j \<noteq> identity_client_id i"
    using assms(1) k c(2) unfolding builder_ok_def by (metis option.distinct(1))
  moreover have "set (identity_fingerprints j) \<inter> set (identity_fingerprints i) = {}"
    using insert_fingerprints_lookup [OF c(3)] assms(1) k unfolding builder_ok_def
    by (metis disjoint_iff option.distinct(1))
  moreover have "identity_client_ipv4 j = None \<or> identity_client_ipv4 j \<noteq> identity_client_ipv4 i"
    using c(4) assms(1,3) unfolding builder_ok_def by (cases "identity_client_ipv4 i") auto
  moreover have "identity_client_ipv6 j = None \<or> identity_client_ipv6 j \<noteq> identity_client_ipv6 i"
    using c(5) assms(1,3) unfolding builder_ok_def by (cases "identity_client_ipv6 i") auto
  ultimately show ?thesis by (simp add: no_sharing_def)
qed

lemma registry_add_builder_ok:
  assumes "builder_ok is b" and "registry_add server_ipv4 server_ipv6 (length is) i b = Inr b'"
  shows "builder_ok (is @ [i]) b'"
proof -
  note c = registry_add_checks [OF assms(2)] and f = insert_fingerprints_lookup [OF registry_add_checks(3) [OF assms(2)]]
  have sh: "identity_client_id (is ! k) \<noteq> identity_client_id i"
    "set (identity_fingerprints (is ! k)) \<inter> set (identity_fingerprints i) = {}" if "k < length is" for k
    using registry_add_no_sharing [OF assms nth_mem [OF that]] by (simp_all add: no_sharing_def)
  have "map_of (rb_by_client_id b') d = Some k \<longleftrightarrow>
      k < length (is @ [i]) \<and> identity_client_id ((is @ [i]) ! k) = d" for d k
    using assms(1) sh(1) [of k] unfolding builder_ok_def c(6)
    by (auto simp: map_of_insert nth_append less_Suc_eq)
  moreover have "map_of (rb_by_fingerprint b') d = Some k \<longleftrightarrow>
      k < length (is @ [i]) \<and> d \<in> set (identity_fingerprints ((is @ [i]) ! k))" for d k
    using assms(1) f sh(2) [of k] unfolding builder_ok_def by (auto simp: nth_append less_Suc_eq)
  moreover have "set (rb_ipv4_addresses b') = {a. \<exists>j \<in> set (is @ [i]). identity_client_ipv4 j = Some a}"
    "set (rb_ipv6_addresses b') = {a. \<exists>j \<in> set (is @ [i]). identity_client_ipv6 j = Some a}"
    using assms(1) unfolding builder_ok_def c(7,8) by (auto simp: elem_set)
  ultimately show ?thesis by (simp add: builder_ok_def)
qed

lemma registry_loop_ok:
  assumes "registry_loop server_ipv4 server_ipv6 (length is) js b = Inr b'"
    and "builder_ok is b" and "identities_ok server_ipv4 server_ipv6 is"
  shows "builder_ok (is @ js) b' \<and> identities_ok server_ipv4 server_ipv6 (is @ js)"
  using assms
proof (induction js arbitrary: "is" b)
  case (Cons i js)
  then obtain b1 where b1: "registry_add server_ipv4 server_ipv6 (length is) i b = Inr b1"
    and rest: "registry_loop server_ipv4 server_ipv6 (length (is @ [i])) js b1 = Inr b'"
    by (auto simp: result_simps)
  have "identities_ok server_ipv4 server_ipv6 (is @ [i])"
    using Cons.prems(3) registry_add_no_sharing [OF Cons.prems(2) b1] registry_add_checks(1) [OF b1]
    by (simp add: identities_ok_def sorted_wrt_append)
  from Cons.IH [OF rest registry_add_builder_ok [OF Cons.prems(2) b1] this] show ?case by simp
qed simp

lemma registry_new_ok:
  assumes "registry_new server_ipv4 server_ipv6 identities = Inr r"
  shows "identities_ok server_ipv4 server_ipv6 identities" and "registry_identities r = identities"
    and "registry_server_ipv4 r = server_ipv4" and "registry_server_ipv6 r = server_ipv6"
    and "map_of (registry_by_client_id r) c = Some k \<longleftrightarrow> k < length identities \<and> identity_client_id (identities ! k) = c"
    and "map_of (registry_by_fingerprint r) f = Some k \<longleftrightarrow>
      k < length identities \<and> f \<in> set (identity_fingerprints (identities ! k))"
proof -
  let ?b = "\<lparr>rb_by_client_id = [], rb_by_fingerprint = [], rb_ipv4_addresses = [], rb_ipv6_addresses = []\<rparr>"
  obtain b where b: "registry_loop server_ipv4 server_ipv6 (length ([] :: VpnIdentity list)) identities ?b = Inr b"
    and r: "r = \<lparr>registry_server_ipv4 = server_ipv4, registry_server_ipv6 = server_ipv6,
             registry_identities = identities,
             registry_by_client_id = rb_by_client_id b, registry_by_fingerprint = rb_by_fingerprint b\<rparr>"
    using assms by (auto simp: registry_new_def result_simps split: if_splits)
  have "builder_ok [] ?b" "identities_ok server_ipv4 server_ipv6 []"
    by (simp_all add: builder_ok_def identities_ok_def)
  from registry_loop_ok [OF b this]
  have ok: "builder_ok identities b" "identities_ok server_ipv4 server_ipv6 identities" by simp_all
  then show "identities_ok server_ipv4 server_ipv6 identities" by simp
  show "registry_identities r = identities" "registry_server_ipv4 r = server_ipv4" "registry_server_ipv6 r = server_ipv6"
    by (simp_all add: r)
  show "map_of (registry_by_client_id r) c = Some k \<longleftrightarrow> k < length identities \<and> identity_client_id (identities ! k) = c"
    "map_of (registry_by_fingerprint r) f = Some k \<longleftrightarrow>
      k < length identities \<and> f \<in> set (identity_fingerprints (identities ! k))"
    using ok(1) by (simp_all add: r builder_ok_def)
qed

lemma authorize_iff:
  assumes "registry_new server_ipv4 server_ipv6 identities = Inr r"
  shows "authorize r f = Inr i \<longleftrightarrow> i \<in> set identities \<and> f \<in> set (identity_fingerprints i) \<and> identity_enabled i"
    and "authorize r f = Inl UnknownFingerprint \<longleftrightarrow> (\<forall>i \<in> set identities. f \<notin> set (identity_fingerprints i))"
proof -
  note ok = registry_new_ok [OF assms]
  have none: "map_of (registry_by_fingerprint r) f = None \<longleftrightarrow> (\<forall>i \<in> set identities. f \<notin> set (identity_fingerprints i))"
    using ok(6) [of f] by (metis in_set_conv_nth not_None_eq)
  show "authorize r f = Inl UnknownFingerprint \<longleftrightarrow> (\<forall>i \<in> set identities. f \<notin> set (identity_fingerprints i))"
    unfolding none [symmetric] by (auto simp: authorize_def Let_def split: option.splits)
  show "authorize r f = Inr i \<longleftrightarrow> i \<in> set identities \<and> f \<in> set (identity_fingerprints i) \<and> identity_enabled i"
  proof
    assume "authorize r f = Inr i"
    then obtain k where "map_of (registry_by_fingerprint r) f = Some k" "i = registry_identities r ! k" "identity_enabled i"
      by (auto simp: authorize_def Let_def split: option.splits if_splits)
    then show "i \<in> set identities \<and> f \<in> set (identity_fingerprints i) \<and> identity_enabled i"
      using ok(2) ok(6) [of f k] by auto
  next
    assume i: "i \<in> set identities \<and> f \<in> set (identity_fingerprints i) \<and> identity_enabled i"
    then obtain k where "k < length identities" "identities ! k = i" by (metis in_set_conv_nth)
    with i ok(6) [of f k] have "map_of (registry_by_fingerprint r) f = Some k" by simp
    with i \<open>identities ! k = i\<close> ok(2) show "authorize r f = Inr i" by (simp add: authorize_def)
  qed
qed

section \<open>Properties\<close>

text \<open>
  C19.  In a registry that was accepted, no two identities share a client identifier, a certificate
  fingerprint or a tunnel address, no client has the server's address or an address of a family the
  server lacks, and every stored index is in range.  A fingerprint authorizes exactly the enabled
  identity that lists it; it is unknown exactly when no identity lists it.
\<close>

theorem registry_authorizes:
  assumes "registry_new server_ipv4 server_ipv6 identities = Inr r"
  shows "(\<forall>j k. j < k \<and> k < length identities \<longrightarrow> no_sharing (identities ! j) (identities ! k)) \<and>
    (\<forall>i \<in> set identities. identity_fits server_ipv4 server_ipv6 i) \<and>
    (\<forall>f k. map_of (registry_by_fingerprint r) f = Some k \<longrightarrow> k < length (registry_identities r)) \<and>
    (\<forall>f i. authorize r f = Inr i \<longleftrightarrow> i \<in> set identities \<and> f \<in> set (identity_fingerprints i) \<and> identity_enabled i) \<and>
    (\<forall>f. authorize r f = Inl UnknownFingerprint \<longleftrightarrow> (\<forall>i \<in> set identities. f \<notin> set (identity_fingerprints i)))"
proof (intro conjI)
  show "\<forall>j k. j < k \<and> k < length identities \<longrightarrow> no_sharing (identities ! j) (identities ! k)"
    "\<forall>i \<in> set identities. identity_fits server_ipv4 server_ipv6 i"
    using registry_new_ok(1) [OF assms]
    by (simp_all add: identities_ok_def sorted_wrt_iff_nth_less list_all_iff)
  show "\<forall>f k. map_of (registry_by_fingerprint r) f = Some k \<longrightarrow> k < length (registry_identities r)"
    using registry_new_ok(6) [OF assms] registry_new_ok(2) [OF assms] by simp
qed (use authorize_iff [OF assms] in blast)+

definition hex_lower :: "u8 \<Rightarrow> u8" where
  "hex_lower b = (if 0x41 \<le> b \<and> b \<le> 0x46 then b + 0x20 else b)"

lemma hex_digits:
  "list_all (\<lambda>n. decode_hex (HEX ! n) = Inr (word_of_nat n) \<and> HEX ! n < 128) [0..<16]"
  "list_all (\<lambda>k. case decode_hex (word_of_nat k) of
     Inl _ \<Rightarrow> False | Inr n \<Rightarrow> n < 16 \<and> HEX ! unat n = hex_lower (word_of_nat k))
     ([48..<58] @ [65..<71] @ [97..<103])"
  by code_simp+

lemma decode_hex_nibble:
  assumes "n < 16"
  shows "decode_hex (HEX ! unat n) = Inr n" and "HEX ! unat n < 128"
proof -
  have "unat n \<in> set [0..<16]" using assms by (simp add: word_less_nat_alt)
  then have "decode_hex (HEX ! unat n) = Inr (word_of_nat (unat n)) \<and> HEX ! unat n < 128"
    using hex_digits(1) unfolding list_all_iff by (rule bspec [rotated])
  then show "decode_hex (HEX ! unat n) = Inr n" and "HEX ! unat n < 128" by simp_all
qed

lemma decode_hex_digit:
  assumes "decode_hex v = Inr n"
  shows "n < 16 \<and> HEX ! unat n = hex_lower v"
proof -
  have "unat v \<in> set ([48..<58] @ [65..<71] @ [97..<103])"
    using assms unfolding set_append set_upt
    by (auto simp: decode_hex_def word_le_nat_alt split: if_splits)
  then have "case decode_hex (word_of_nat (unat v)) of
     Inl _ \<Rightarrow> False | Inr n \<Rightarrow> n < 16 \<and> HEX ! unat n = hex_lower (word_of_nat (unat v))"
    using hex_digits(2) unfolding list_all_iff by (rule bspec [rotated])
  then show ?thesis by (simp add: assms)
qed

lemma nibble_mask: "(0x0f :: u8) = mask 4"
  by (simp add: mask_eq_exp_minus_1)

lemma nibbles: "push_bit 4 (drop_bit 4 b) OR (b AND 0x0f) = (b :: u8)"
  unfolding nibble_mask by (intro bit_word_eqI) (auto simp: bit_simps)

lemma nibble_bits:
  assumes "h < (16 :: u8)" and "bit h n"
  shows "n < 4"
proof (rule ccontr)
  assume "\<not> n < 4"
  then have "(2 :: nat) ^ 4 \<le> 2 ^ n" by (intro power_increasing) simp_all
  moreover have "unat h < 16" using assms(1) by (simp add: word_less_nat_alt)
  ultimately have "unat h div 2 ^ n = 0" by simp
  then have "\<not> bit (unat h) n" by (simp add: bit_iff_odd)
  with assms(2) show False by (simp add: bit_unsigned_iff bit_imp_le_length)
qed

lemma nibbles_joined:
  assumes "h < (16 :: u8)" and "l < 16"
  shows "drop_bit 4 (push_bit 4 h OR l) = h" and "(push_bit 4 h OR l) AND 0x0f = l"
proof -
  have "\<not> bit l (4 + n)" for n using nibble_bits [OF assms(2), of "4 + n"] by auto
  then show "drop_bit 4 (push_bit 4 h OR l) = h" and "(push_bit 4 h OR l) AND 0x0f = l"
    unfolding nibble_mask using nibble_bits [OF assms(1)] nibble_bits [OF assms(2)]
    by (auto intro!: bit_word_eqI simp: bit_simps)
qed

lemma nibble_less: "drop_bit 4 b < (16 :: u8)" "b AND 0x0f < (16 :: u8)"
proof -
  have "unat (drop_bit 4 b) < 16" using unat_lt [of b] by (simp add: drop_bit_eq_div unat_div)
  then show "drop_bit 4 b < (16 :: u8)" by (simp add: word_less_nat_alt)
  have "b AND 0x0f \<le> (0x0f :: u8)" by (rule word_and_le1)
  then show "b AND 0x0f < (16 :: u8)" by (simp add: word_less_nat_alt word_le_nat_alt)
qed

lemma length_to_hex [simp]: "length (to_hex fp) = 2 * length (fingerprint_bytes fp)"
  by (simp add: to_hex_def length_concat comp_def sum_list_triv)

lemma nth_concat_pairs:
  "i < length bs \<Longrightarrow>
     concat (map (\<lambda>b. [f b, g b]) bs) ! (i * 2) = f (bs ! i) \<and>
     concat (map (\<lambda>b. [f b, g b]) bs) ! Suc (i * 2) = g (bs ! i)"
proof (induction bs arbitrary: i)
  case (Cons b bs)
  then show ?case by (cases i) auto
qed simp

lemma parse_hex_loop_to_hex:
  assumes "\<forall>i \<in> set is. i < length bs"
  shows "parse_hex_loop (to_hex (Fingerprint bs)) is = Inr (map (\<lambda>i. bs ! i) is)"
  using assms
proof (induction "is")
  case (Cons i "is")
  then have "to_hex (Fingerprint bs) ! (i * 2) = HEX ! unat (drop_bit 4 (bs ! i))"
    "to_hex (Fingerprint bs) ! Suc (i * 2) = HEX ! unat ((bs ! i) AND 0x0f)"
    unfolding to_hex_def by (simp_all add: nth_concat_pairs)
  with Cons show ?case by (simp add: decode_hex_nibble nibble_less nibbles)
qed simp

lemma parse_hex_loop_bytes:
  assumes "parse_hex_loop value is = Inr bs" and "\<forall>i \<in> set is. Suc (i * 2) < length value"
  shows "length bs = length is \<and>
    concat (map (\<lambda>b. [HEX ! unat (drop_bit 4 b), HEX ! unat (b AND 0x0f)]) bs) =
    concat (map (\<lambda>i. [hex_lower (value ! (i * 2)), hex_lower (value ! Suc (i * 2))]) is)"
  using assms
proof (induction "is" arbitrary: bs)
  case (Cons i "is")
  then obtain h l bs' where h: "decode_hex (value ! (i * 2)) = Inr h" and l: "decode_hex (value ! Suc (i * 2)) = Inr l"
    and rest: "parse_hex_loop value is = Inr bs'" and bs: "bs = (push_bit 4 h OR l) # bs'"
    by (auto simp: Let_def result_simps)
  have hl: "h < 16" "l < 16" and lower: "HEX ! unat h = hex_lower (value ! (i * 2))"
    "HEX ! unat l = hex_lower (value ! Suc (i * 2))"
    using decode_hex_digit [OF h] decode_hex_digit [OF l] by simp_all
  obtain byte where byte: "bs = byte # bs'" "drop_bit 4 byte = h" "byte AND 0x0f = l"
    using bs nibbles_joined [OF hl] by blast
  show ?case using Cons.IH [OF rest] Cons.prems(2) lower by (simp add: byte)
qed simp

lemma concat_pairs_nth:
  "length xs = 2 * n \<Longrightarrow> concat (map (\<lambda>i. [f (xs ! (i * 2)), f (xs ! Suc (i * 2))]) [0..<n]) = map f xs"
proof (induction n arbitrary: xs)
  case (Suc n)
  let ?ys = "take (2 * n) xs"
  have "concat (map (\<lambda>i. [f (xs ! (i * 2)), f (xs ! Suc (i * 2))]) [0..<n]) =
    concat (map (\<lambda>i. [f (?ys ! (i * 2)), f (?ys ! Suc (i * 2))]) [0..<n])"
    by (intro arg_cong [where f = concat] map_cong) auto
  also have "\<dots> = map f ?ys" using Suc by (intro Suc.IH) simp
  finally have early: "concat (map (\<lambda>i. [f (xs ! (i * 2)), f (xs ! Suc (i * 2))]) [0..<n]) = map f ?ys" .
  have "xs = ?ys @ [xs ! (2 * n), xs ! Suc (2 * n)]"
    using Suc.prems by (auto simp: list_eq_iff_nth_eq nth_append less_Suc_eq)
  then have "map f xs = map f ?ys @ [f (xs ! (2 * n)), f (xs ! Suc (2 * n))]"
    by (metis list.simps(8,9) map_append)
  with early show ?case by (simp add: mult.commute)
qed simp

text \<open>
  Fingerprints and their hexadecimal form correspond: printing a fingerprint and parsing the
  result gives the fingerprint back, and a string that parses is the printed form of what it parses
  to, up to the case of its letters.
\<close>

lemma fingerprint_hex_roundtrip:
  assumes "length bs = VPN_SHA256_FINGERPRINT_LEN"
  shows "parse_hex (to_hex (Fingerprint bs)) = Inr (Fingerprint bs) \<and>
    (\<forall>value fp. parse_hex value = Inr fp \<longrightarrow>
       length (fingerprint_bytes fp) = VPN_SHA256_FINGERPRINT_LEN \<and> to_hex fp = map hex_lower value)"
proof (intro conjI allI impI)
  have "list_all (\<lambda>b. b < 128) (to_hex (Fingerprint bs))"
    by (auto simp: to_hex_def list_all_iff decode_hex_nibble nibble_less)
  moreover have "map (\<lambda>i. bs ! i) [0..<32] = bs" using assms map_nth [of bs] by (simp add: identity_consts)
  ultimately show "parse_hex (to_hex (Fingerprint bs)) = Inr (Fingerprint bs)"
    using assms by (simp add: parse_hex_def identity_consts parse_hex_loop_to_hex)
next
  fix v fp assume p: "parse_hex v = Inr fp"
  then obtain b where len: "length v = 64" and b: "parse_hex_loop v [0..<32] = Inr b" and fp: "fp = Fingerprint b"
    by (auto simp: parse_hex_def identity_consts result_simps split: if_splits)
  have "\<forall>i \<in> set [0..<32]. Suc (i * 2) < length v" using len by auto
  from parse_hex_loop_bytes [OF b this]
  show "length (fingerprint_bytes fp) = VPN_SHA256_FINGERPRINT_LEN" "to_hex fp = map hex_lower v"
    using concat_pairs_nth [of v 32 hex_lower] len by (simp_all add: fp to_hex_def identity_consts)
qed

lemma and_high_bits: "(a :: 'a::len word) AND push_bit k (- 1) = push_bit k (drop_bit k a)"
  by (intro bit_word_eqI) (auto simp: bit_simps)

lemma high_bits_eq_iff:
  assumes "(n :: 'a::len word) AND push_bit k (- 1) = n"
  shows "a AND push_bit k (- 1) = n \<longleftrightarrow> drop_bit k a = drop_bit k n"
proof
  assume eq: "a AND push_bit k (- 1) = n"
  have "drop_bit k (push_bit k (drop_bit k a)) = drop_bit k a"
    by (intro bit_word_eqI) (auto simp: bit_simps dest: bit_imp_le_length)
  with eq show "drop_bit k a = drop_bit k n" unfolding and_high_bits by metis
next
  assume "drop_bit k a = drop_bit k n"
  then have "push_bit k (drop_bit k a) = push_bit k (drop_bit k n)" by simp
  with assms show "a AND push_bit k (- 1) = n" unfolding and_high_bits by metis
qed

lemma prefix_masks:
  "prefix_mask_v4 p = push_bit (32 - unat p) (- 1)"
  "prefix_mask_v6 p = push_bit (128 - unat p) (- 1)"
  by (auto simp: prefix_mask_v4_def prefix_mask_v6_def intro!: bit_word_eqI simp: bit_simps)

text \<open>
  C40.  A network that was accepted contains exactly the addresses of its own family that agree with
  the network address in the first \<open>prefix_len\<close> bits.
\<close>

theorem network_contains_prefix:
  "(network_v4 n p = Inr net_a \<longrightarrow>
      (network_contains net_a a \<longleftrightarrow>
         (\<exists>x. a = V4 x \<and> drop_bit (32 - unat p) x = drop_bit (32 - unat p) n)) \<and> unat p \<le> 32) \<and>
   (network_v6 m p = Inr net_b \<longrightarrow>
      (network_contains net_b a \<longleftrightarrow>
         (\<exists>x. a = V6 x \<and> drop_bit (128 - unat p) x = drop_bit (128 - unat p) m)) \<and> unat p \<le> 128)"
proof (intro conjI impI)
  assume "network_v4 n p = Inr net_a"
  then have net: "net_a = V4Net n p" and mask: "n AND push_bit (32 - unat p) (- 1) = n" and le: "unat p \<le> 32"
    unfolding network_v4_def prefix_masks by (auto simp: word_less_nat_alt split: if_splits)
  show "unat p \<le> 32" by (rule le)
  show "network_contains net_a a \<longleftrightarrow> (\<exists>x. a = V4 x \<and> drop_bit (32 - unat p) x = drop_bit (32 - unat p) n)"
    unfolding net high_bits_eq_iff [OF mask, symmetric] prefix_masks(1) [symmetric] by (cases a) simp_all
next
  assume "network_v6 m p = Inr net_b"
  then have net: "net_b = V6Net m p" and mask: "m AND push_bit (128 - unat p) (- 1) = m" and le: "unat p \<le> 128"
    unfolding network_v6_def prefix_masks by (auto simp: word_less_nat_alt split: if_splits)
  show "unat p \<le> 128" by (rule le)
  show "network_contains net_b a \<longleftrightarrow> (\<exists>x. a = V6 x \<and> drop_bit (128 - unat p) x = drop_bit (128 - unat p) m)"
    unfolding net high_bits_eq_iff [OF mask, symmetric] prefix_masks(2) [symmetric] by (cases a) simp_all
qed

theorem network_contains_prefix_witness:
  "network_contains (V4Net 0x0A000000 8) (V4 0x0A0B0C0D) \<and> \<not> network_contains (V4Net 0x0A000000 8) (V4 0x0B0B0C0D)"
proof -
  have "network_v4 0x0A000000 8 = Inr (V4Net 0x0A000000 8)" by code_simp
  then show ?thesis
    using network_contains_prefix [where n = "0x0A000000" and p = 8 and net_a = "V4Net 0x0A000000 8" and a = "V4 0x0A0B0C0D"]
      network_contains_prefix [where n = "0x0A000000" and p = 8 and net_a = "V4Net 0x0A000000 8" and a = "V4 0x0B0B0C0D"]
    by (simp add: drop_bit_eq_div)
qed

text \<open>A registry with two clients, the second of them disabled.\<close>

definition sample_policy :: "u32 \<Rightarrow> VpnDataPolicy" where
  "sample_policy address =
     \<lparr>policy_client_ipv4 = Some address, policy_client_ipv6 = None,
      policy_allowed_destinations = [V4Net 0x0A000000 8]\<rparr>"

definition sample_identity :: "u8 \<Rightarrow> bool \<Rightarrow> VpnIdentity" where
  "sample_identity n enabled =
     \<lparr>identity_client_id = [0x61, n], identity_fingerprints = [Fingerprint (replicate 32 n)],
      identity_enabled = enabled, identity_data_policy = sample_policy (0x0A000100 + ucast n),
      identity_limits = identity_limits_default\<rparr>"

definition sample_registry :: VpnIdentityRegistry where
  "sample_registry =
     \<lparr>registry_server_ipv4 = Some 0x0A000101, registry_server_ipv6 = None,
      registry_identities = [sample_identity 0x32 True, sample_identity 0x33 False],
      registry_by_client_id = [([0x61, 0x33], 1), ([0x61, 0x32], 0)],
      registry_by_fingerprint = [(Fingerprint (replicate 32 0x33), 1), (Fingerprint (replicate 32 0x32), 0)]\<rparr>"

lemma sample_registry_new:
  "registry_new (Some 0x0A000101) None [sample_identity 0x32 True, sample_identity 0x33 False] = Inr sample_registry"
  by (simp add: registry_new_def registry_add_def sample_registry_def sample_identity_def sample_policy_def
      identity_validate_def validate_identity_key_def identity_limits_validate_def identity_limits_default_def
      client_id_byte_def is_ascii_alphanumeric_def identity_consts vpn_consts zip_conflict_def is_some_and_def
      valid_ipv4_tunnel_address_def ipv4_is_loopback_def ipv4_is_link_local_def ipv4_is_multicast_def
      hm_insert_def drop_bit_eq_div)

theorem registry_authorizes_witness:
  "authorize sample_registry (Fingerprint (replicate 32 0x32)) = Inr (sample_identity 0x32 True)"
  using registry_authorizes [OF sample_registry_new] by (simp add: sample_identity_def)

end
