(* ===== verification/Vpn_Quota.thy ===== *)
theory Vpn_Quota
  imports Vpn_Identity
begin

text \<open>
  Quotas of \<open>vpn_quota.rs\<close>: the token buckets that limit the datagrams and bytes of an identity,
  the process-wide budget for reassembly memory with its reservations, and the counters both
  share.  A counter saturates at the width of its type; \<open>subtract\<close> panics on underflow, which is
  the value \<open>None\<close>.
\<close>

section \<open>Constants, directions and rejections\<close>

definition VPN_DEFAULT_GLOBAL_REASSEMBLY_BYTES :: usize where
  "VPN_DEFAULT_GLOBAL_REASSEMBLY_BYTES = 64 * 1024 * 1024"

definition VPN_MAX_GLOBAL_REASSEMBLY_BYTES :: usize where
  "VPN_MAX_GLOBAL_REASSEMBLY_BYTES = 1024 * 1024 * 1024"

definition VPN_DEFAULT_GLOBAL_INFLIGHT_PACKETS :: usize where
  "VPN_DEFAULT_GLOBAL_INFLIGHT_PACKETS = 8192"

definition VPN_MAX_GLOBAL_INFLIGHT_PACKETS :: usize where
  "VPN_MAX_GLOBAL_INFLIGHT_PACKETS = 65536"

definition TOKEN_SCALE :: nat where
  "TOKEN_SCALE = 1000000000"

lemmas quota_consts = VPN_DEFAULT_GLOBAL_REASSEMBLY_BYTES_def VPN_MAX_GLOBAL_REASSEMBLY_BYTES_def
  VPN_DEFAULT_GLOBAL_INFLIGHT_PACKETS_def VPN_MAX_GLOBAL_INFLIGHT_PACKETS_def TOKEN_SCALE_def

datatype VpnPacketDirection = Uplink | Downlink

datatype VpnQuotaRejection =
    InvalidDatagramSize | PacketRateExceeded | ByteRateExceeded | IdentityReassemblyLimit
  | GlobalReassemblyLimit | IdentityInflightLimit | GlobalInflightLimit

fun VpnQuotaRejection_display :: "VpnQuotaRejection \<Rightarrow> string" where
  "VpnQuotaRejection_display InvalidDatagramSize = ''vpn_quota_invalid_datagram_size''"
| "VpnQuotaRejection_display PacketRateExceeded = ''vpn_quota_packet_rate_exceeded''"
| "VpnQuotaRejection_display ByteRateExceeded = ''vpn_quota_byte_rate_exceeded''"
| "VpnQuotaRejection_display IdentityReassemblyLimit = ''vpn_quota_identity_reassembly_limit''"
| "VpnQuotaRejection_display GlobalReassemblyLimit = ''vpn_quota_global_reassembly_limit''"
| "VpnQuotaRejection_display IdentityInflightLimit = ''vpn_quota_identity_inflight_limit''"
| "VpnQuotaRejection_display GlobalInflightLimit = ''vpn_quota_global_inflight_limit''"

section \<open>Counters\<close>

record VpnQuotaMetricCounters =
  admitted_uplink_datagrams :: nat
  admitted_uplink_bytes :: nat
  admitted_downlink_datagrams :: nat
  admitted_downlink_bytes :: nat
  stale_generation_rejections :: nat
  invalid_datagram_rejections :: nat
  packet_rate_rejections :: nat
  byte_rate_rejections :: nat
  identity_reassembly_rejections :: nat
  global_reassembly_rejections :: nat
  identity_inflight_rejections :: nat
  global_inflight_rejections :: nat
  current_reassembly_bytes :: usize
  peak_reassembly_bytes :: usize
  active_reassembly_packets :: usize
  peak_reassembly_packets :: usize

definition VpnQuotaMetricCounters_default :: VpnQuotaMetricCounters where
  "VpnQuotaMetricCounters_default =
     \<lparr>admitted_uplink_datagrams = 0, admitted_uplink_bytes = 0,
      admitted_downlink_datagrams = 0, admitted_downlink_bytes = 0,
      stale_generation_rejections = 0, invalid_datagram_rejections = 0,
      packet_rate_rejections = 0, byte_rate_rejections = 0,
      identity_reassembly_rejections = 0, global_reassembly_rejections = 0,
      identity_inflight_rejections = 0, global_inflight_rejections = 0,
      current_reassembly_bytes = 0, peak_reassembly_bytes = 0,
      active_reassembly_packets = 0, peak_reassembly_packets = 0\<rparr>"

record VpnQuotaMetricsSnapshot =
  snap_admitted_uplink_datagrams :: nat
  snap_admitted_uplink_bytes :: nat
  snap_admitted_downlink_datagrams :: nat
  snap_admitted_downlink_bytes :: nat
  snap_stale_generation_rejections :: nat
  snap_invalid_datagram_rejections :: nat
  snap_packet_rate_rejections :: nat
  snap_byte_rate_rejections :: nat
  snap_identity_reassembly_rejections :: nat
  snap_global_reassembly_rejections :: nat
  snap_identity_inflight_rejections :: nat
  snap_global_inflight_rejections :: nat
  snap_current_reassembly_bytes :: usize
  snap_peak_reassembly_bytes :: usize
  snap_active_reassembly_packets :: usize
  snap_peak_reassembly_packets :: usize

definition quota_snapshot :: "VpnQuotaMetricCounters \<Rightarrow> VpnQuotaMetricsSnapshot" where
  "quota_snapshot m =
     \<lparr>snap_admitted_uplink_datagrams = admitted_uplink_datagrams m,
      snap_admitted_uplink_bytes = admitted_uplink_bytes m,
      snap_admitted_downlink_datagrams = admitted_downlink_datagrams m,
      snap_admitted_downlink_bytes = admitted_downlink_bytes m,
      snap_stale_generation_rejections = stale_generation_rejections m,
      snap_invalid_datagram_rejections = invalid_datagram_rejections m,
      snap_packet_rate_rejections = packet_rate_rejections m,
      snap_byte_rate_rejections = byte_rate_rejections m,
      snap_identity_reassembly_rejections = identity_reassembly_rejections m,
      snap_global_reassembly_rejections = global_reassembly_rejections m,
      snap_identity_inflight_rejections = identity_inflight_rejections m,
      snap_global_inflight_rejections = global_inflight_rejections m,
      snap_current_reassembly_bytes = current_reassembly_bytes m,
      snap_peak_reassembly_bytes = peak_reassembly_bytes m,
      snap_active_reassembly_packets = active_reassembly_packets m,
      snap_peak_reassembly_packets = peak_reassembly_packets m\<rparr>"

definition record_stale_generation :: "VpnQuotaMetricCounters \<Rightarrow> VpnQuotaMetricCounters" where
  "record_stale_generation m = m\<lparr>stale_generation_rejections := sat_add_u64 (stale_generation_rejections m) 1\<rparr>"

definition record_identity_reassembly_rejection :: "VpnQuotaMetricCounters \<Rightarrow> VpnQuotaMetricCounters" where
  "record_identity_reassembly_rejection m =
     m\<lparr>identity_reassembly_rejections := sat_add_u64 (identity_reassembly_rejections m) 1\<rparr>"

definition record_identity_inflight_rejection :: "VpnQuotaMetricCounters \<Rightarrow> VpnQuotaMetricCounters" where
  "record_identity_inflight_rejection m =
     m\<lparr>identity_inflight_rejections := sat_add_u64 (identity_inflight_rejections m) 1\<rparr>"

definition record_admitted ::
  "VpnPacketDirection \<Rightarrow> usize \<Rightarrow> usize \<Rightarrow> VpnQuotaMetricCounters \<Rightarrow> VpnQuotaMetricCounters" where
  "record_admitted direction packets bytes m =
     (case direction of
        Uplink \<Rightarrow> m\<lparr>admitted_uplink_datagrams := sat_add_u64 (admitted_uplink_datagrams m) packets,
                    admitted_uplink_bytes := sat_add_u64 (admitted_uplink_bytes m) bytes\<rparr>
      | Downlink \<Rightarrow> m\<lparr>admitted_downlink_datagrams := sat_add_u64 (admitted_downlink_datagrams m) packets,
                      admitted_downlink_bytes := sat_add_u64 (admitted_downlink_bytes m) bytes\<rparr>)"

definition record_invalid_datagram :: "VpnQuotaMetricCounters \<Rightarrow> VpnQuotaMetricCounters" where
  "record_invalid_datagram m = m\<lparr>invalid_datagram_rejections := sat_add_u64 (invalid_datagram_rejections m) 1\<rparr>"

definition record_packet_rate_rejection :: "VpnQuotaMetricCounters \<Rightarrow> VpnQuotaMetricCounters" where
  "record_packet_rate_rejection m = m\<lparr>packet_rate_rejections := sat_add_u64 (packet_rate_rejections m) 1\<rparr>"

definition record_byte_rate_rejection :: "VpnQuotaMetricCounters \<Rightarrow> VpnQuotaMetricCounters" where
  "record_byte_rate_rejection m = m\<lparr>byte_rate_rejections := sat_add_u64 (byte_rate_rejections m) 1\<rparr>"

definition record_global_reassembly_rejection :: "VpnQuotaMetricCounters \<Rightarrow> VpnQuotaMetricCounters" where
  "record_global_reassembly_rejection m =
     m\<lparr>global_reassembly_rejections := sat_add_u64 (global_reassembly_rejections m) 1\<rparr>"

definition record_global_inflight_rejection :: "VpnQuotaMetricCounters \<Rightarrow> VpnQuotaMetricCounters" where
  "record_global_inflight_rejection m =
     m\<lparr>global_inflight_rejections := sat_add_u64 (global_inflight_rejections m) 1\<rparr>"

definition update_reassembly_peaks :: "usize \<Rightarrow> usize \<Rightarrow> VpnQuotaMetricCounters \<Rightarrow> VpnQuotaMetricCounters" where
  "update_reassembly_peaks bytes packets m =
     m\<lparr>peak_reassembly_bytes := max (peak_reassembly_bytes m) bytes,
       peak_reassembly_packets := max (peak_reassembly_packets m) packets\<rparr>"

section \<open>The rate limiter of an identity\<close>

definition packet_capacity :: "VpnIdentityLimits \<Rightarrow> nat" where
  "packet_capacity limits = sat_mul_u128 (limit_max_packets_per_second limits) TOKEN_SCALE"

definition byte_capacity :: "VpnIdentityLimits \<Rightarrow> nat" where
  "byte_capacity limits =
     (let burst_bytes = max (limit_max_bytes_per_second limits) VPN_MAX_IP_DATAGRAM_LEN in
      sat_mul_u128 burst_bytes TOKEN_SCALE)"

record IdentityRateState =
  rate_limits :: VpnIdentityLimits
  rate_packet_tokens :: nat
  rate_byte_tokens :: nat
  rate_last_refill :: instant

definition rate_state_new :: "VpnIdentityLimits \<Rightarrow> instant \<Rightarrow> IdentityRateState" where
  "rate_state_new limits now =
     \<lparr>rate_limits = limits, rate_packet_tokens = packet_capacity limits,
      rate_byte_tokens = byte_capacity limits, rate_last_refill = now\<rparr>"

definition refill :: "IdentityRateState \<Rightarrow> instant \<Rightarrow> IdentityRateState" where
  "refill s now =
     (case checked_duration_since now (rate_last_refill s) of
        None \<Rightarrow> s
      | Some elapsed_nanos \<Rightarrow>
          s\<lparr>rate_packet_tokens :=
              min (sat_add_u128 (rate_packet_tokens s)
                     (sat_mul_u128 elapsed_nanos (limit_max_packets_per_second (rate_limits s))))
                  (packet_capacity (rate_limits s)),
            rate_byte_tokens :=
              min (sat_add_u128 (rate_byte_tokens s)
                     (sat_mul_u128 elapsed_nanos (limit_max_bytes_per_second (rate_limits s))))
                  (byte_capacity (rate_limits s)),
            rate_last_refill := now\<rparr>)"

definition rate_reconfigure :: "IdentityRateState \<Rightarrow> VpnIdentityLimits \<Rightarrow> instant \<Rightarrow> IdentityRateState" where
  "rate_reconfigure s limits now =
     (let s = refill s now in
      s\<lparr>rate_limits := limits,
        rate_packet_tokens := min (rate_packet_tokens s) (packet_capacity limits),
        rate_byte_tokens := min (rate_byte_tokens s) (byte_capacity limits)\<rparr>)"

text \<open>\<open>try_fold(0, checked_add)\<close>.\<close>

fun checked_sum :: "usize \<Rightarrow> usize list \<Rightarrow> usize option" where
  "checked_sum acc [] = Some acc"
| "checked_sum acc (l # rest) =
     (case checked_add_usize acc l of None \<Rightarrow> None | Some acc \<Rightarrow> checked_sum acc rest)"

definition admit_datagrams ::
  "IdentityRateState \<Rightarrow> VpnQuotaMetricCounters \<Rightarrow> VpnPacketDirection \<Rightarrow> usize list \<Rightarrow> instant \<Rightarrow>
   IdentityRateState \<times> VpnQuotaMetricCounters \<times> (VpnQuotaRejection + unit)" where
  "admit_datagrams s m direction datagram_lengths now =
     (if datagram_lengths = [] \<or>
         list_ex (\<lambda>l. l = 0 \<or> l > VPN_MAX_IP_DATAGRAM_LEN) datagram_lengths
      then (s, record_invalid_datagram m, Inl InvalidDatagramSize)
      else case checked_sum 0 datagram_lengths of
          None \<Rightarrow> (s, record_invalid_datagram m, Inl InvalidDatagramSize)
        | Some datagram_bytes \<Rightarrow>
            let s = refill s now;
                packet_cost = sat_mul_u128 (length datagram_lengths) TOKEN_SCALE;
                byte_cost = sat_mul_u128 datagram_bytes TOKEN_SCALE in
            if rate_packet_tokens s < packet_cost
            then (s, record_packet_rate_rejection m, Inl PacketRateExceeded)
            else if rate_byte_tokens s < byte_cost
            then (s, record_byte_rate_rejection m, Inl ByteRateExceeded)
            else (s\<lparr>rate_packet_tokens := rate_packet_tokens s - packet_cost,
                    rate_byte_tokens := rate_byte_tokens s - byte_cost\<rparr>,
                  record_admitted direction (length datagram_lengths) datagram_bytes m, Inr ()))"

definition admit_datagram ::
  "IdentityRateState \<Rightarrow> VpnQuotaMetricCounters \<Rightarrow> VpnPacketDirection \<Rightarrow> usize \<Rightarrow> instant \<Rightarrow>
   IdentityRateState \<times> VpnQuotaMetricCounters \<times> (VpnQuotaRejection + unit)" where
  "admit_datagram s m direction datagram_len now = admit_datagrams s m direction [datagram_len] now"

section \<open>The global reassembly budget\<close>

definition try_add_bounded :: "usize \<Rightarrow> usize \<Rightarrow> usize \<Rightarrow> usize option" where
  "try_add_bounded current amount limit =
     (case checked_add_usize current amount of
        None \<Rightarrow> None
      | Some next_value \<Rightarrow> if next_value \<le> limit then Some next_value else None)"

definition subtract :: "usize \<Rightarrow> usize \<Rightarrow> usize option" where
  "subtract current amount = (if amount = 0 then Some current else checked_sub_usize current amount)"

record VpnGlobalReassemblyBudget =
  budget_byte_limit :: usize
  budget_packet_limit :: usize

definition global_budget_new :: "usize \<Rightarrow> usize \<Rightarrow> VpnGlobalReassemblyBudget option" where
  "global_budget_new byte_limit packet_limit =
     (if \<not> (VPN_MAX_IP_PACKET_LEN \<le> byte_limit \<and> byte_limit \<le> VPN_MAX_GLOBAL_REASSEMBLY_BYTES) \<or>
         packet_limit = 0 \<or> packet_limit > VPN_MAX_GLOBAL_INFLIGHT_PACKETS
      then None
      else Some \<lparr>budget_byte_limit = byte_limit, budget_packet_limit = packet_limit\<rparr>)"

record VpnGlobalReassemblyReservation =
  reserved_bytes :: usize
  reserved_packets :: usize

definition budget_release ::
  "VpnQuotaMetricCounters \<Rightarrow> usize \<Rightarrow> usize \<Rightarrow> VpnQuotaMetricCounters option" where
  "budget_release m bytes packets =
     Option.bind (subtract (current_reassembly_bytes m) bytes) (\<lambda>current_bytes.
     Option.bind (subtract (active_reassembly_packets m) packets) (\<lambda>current_packets.
     Some (m\<lparr>current_reassembly_bytes := current_bytes, active_reassembly_packets := current_packets\<rparr>)))"

definition try_reserve ::
  "VpnGlobalReassemblyBudget \<Rightarrow> VpnQuotaMetricCounters \<Rightarrow> usize \<Rightarrow> usize \<Rightarrow>
   (VpnQuotaMetricCounters \<times> (VpnQuotaRejection + VpnGlobalReassemblyReservation)) option" where
  "try_reserve b m bytes packets =
     (case try_add_bounded (current_reassembly_bytes m) bytes (budget_byte_limit b) of
        None \<Rightarrow> Some (record_global_reassembly_rejection m, Inl GlobalReassemblyLimit)
      | Some current_bytes \<Rightarrow>
          let m = m\<lparr>current_reassembly_bytes := current_bytes\<rparr> in
          (case try_add_bounded (active_reassembly_packets m) packets (budget_packet_limit b) of
             None \<Rightarrow>
               Option.bind (subtract (current_reassembly_bytes m) bytes) (\<lambda>restored.
               Some (record_global_inflight_rejection (m\<lparr>current_reassembly_bytes := restored\<rparr>),
                     Inl GlobalInflightLimit))
           | Some current_packets \<Rightarrow>
               let m = m\<lparr>active_reassembly_packets := current_packets\<rparr> in
               Some (update_reassembly_peaks current_bytes current_packets m,
                     Inr \<lparr>reserved_bytes = bytes, reserved_packets = packets\<rparr>)))"

definition reservation_drop ::
  "VpnQuotaMetricCounters \<Rightarrow> VpnGlobalReassemblyReservation \<Rightarrow> VpnQuotaMetricCounters option" where
  "reservation_drop m v = budget_release m (reserved_bytes v) (reserved_packets v)"

text \<open>
  \<open>reconcile\<close> consumes the reservation: on every path it is dropped at the end, after its amounts
  have been cleared on the successful one.  The result has the accounted bytes and packets.
\<close>

definition reconcile ::
  "VpnQuotaMetricCounters \<Rightarrow> VpnGlobalReassemblyReservation \<Rightarrow> usize \<Rightarrow> usize \<Rightarrow> usize \<Rightarrow> usize \<Rightarrow>
   (VpnQuotaMetricCounters \<times> usize \<times> usize \<times> bool) option" where
  "reconcile m v accounted_bytes accounted_packets actual_bytes actual_packets =
     (let refused = Option.bind (reservation_drop m v) (\<lambda>m. Some (m, accounted_bytes, accounted_packets, False)) in
      case checked_add_usize accounted_bytes (reserved_bytes v) of
        None \<Rightarrow> refused
      | Some total_bytes \<Rightarrow>
          (case checked_add_usize accounted_packets (reserved_packets v) of
             None \<Rightarrow> refused
           | Some total_packets \<Rightarrow>
               if actual_bytes > total_bytes \<or> actual_packets > total_packets then refused
               else Option.bind (budget_release m (total_bytes - actual_bytes) (total_packets - actual_packets)) (\<lambda>m.
                    Option.bind (reservation_drop m (v\<lparr>reserved_bytes := 0, reserved_packets := 0\<rparr>)) (\<lambda>m.
                    Some (m, actual_bytes, actual_packets, True)))))"

section \<open>Token buckets\<close>

definition rate_ok :: "IdentityRateState \<Rightarrow> bool" where
  "rate_ok s \<longleftrightarrow> rate_packet_tokens s \<le> packet_capacity (rate_limits s) \<and>
     rate_byte_tokens s \<le> byte_capacity (rate_limits s)"

lemma rate_state_new_ok: "rate_ok (rate_state_new limits now)"
  by (simp add: rate_ok_def rate_state_new_def)

lemma refill_facts:
  "rate_limits (refill s now) = rate_limits s"
  "rate_last_refill (refill s now) = max (rate_last_refill s) now"
  "rate_packet_tokens (refill s now) \<le> rate_packet_tokens s +
     limit_max_packets_per_second (rate_limits s) * (rate_last_refill (refill s now) - rate_last_refill s)"
  "rate_byte_tokens (refill s now) \<le> rate_byte_tokens s +
     limit_max_bytes_per_second (rate_limits s) * (rate_last_refill (refill s now) - rate_last_refill s)"
  "rate_ok s \<Longrightarrow> rate_ok (refill s now)"
  by (auto simp: refill_def checked_duration_since_def sat_add_u128_def sat_mul_u128_def rate_ok_def
      max_def mult.commute)

lemma rate_reconfigure_ok: "rate_ok (rate_reconfigure s limits now)"
  by (simp add: rate_reconfigure_def rate_ok_def Let_def)

lemma checked_sum_Some:
  "checked_sum acc ls = Some t \<Longrightarrow> acc \<le> usize_max \<Longrightarrow> t = acc + sum_list ls \<and> t \<le> usize_max"
  by (induction acc ls rule: checked_sum.induct)
    (auto simp: checked_add_usize_def split: option.splits if_splits)

lemma length_le_sum_list: "list_all (\<lambda>l. 0 < l) ls \<Longrightarrow> length ls \<le> sum_list (ls :: nat list)"
  by (induction ls) auto

text \<open>What one call does: it refills, and takes the exact cost exactly if it admits.\<close>

lemma admit_datagrams_cases:
  assumes "admit_datagrams s m direction ls now = (s', m', result)"
  obtains (invalid) "s' = s" and "result = Inl InvalidDatagramSize"
  | (refused) e where "s' = refill s now" and "result = Inl e"
  | (admitted) "result = Inr ()"
      and "s' = (refill s now)\<lparr>rate_packet_tokens := rate_packet_tokens (refill s now) - length ls * TOKEN_SCALE,
            rate_byte_tokens := rate_byte_tokens (refill s now) - sum_list ls * TOKEN_SCALE\<rparr>"
      and "length ls * TOKEN_SCALE \<le> rate_packet_tokens (refill s now)"
      and "sum_list ls * TOKEN_SCALE \<le> rate_byte_tokens (refill s now)"
proof (cases "ls = [] \<or> list_ex (\<lambda>l. l = 0 \<or> l > VPN_MAX_IP_DATAGRAM_LEN) ls \<or> checked_sum 0 ls = None")
  case True
  then show thesis using assms invalid by (auto simp: admit_datagrams_def split: if_splits)
next
  case False
  then obtain t where t: "checked_sum 0 ls = Some t" by auto
  then have sum: "t = sum_list ls" "sum_list ls \<le> usize_max" using checked_sum_Some [OF t] by auto
  moreover have "length ls \<le> sum_list ls"
    using False by (intro length_le_sum_list) (auto simp: list_all_iff list_ex_iff)
  ultimately have "length ls \<le> usize_max" by simp
  have exact: "sat_mul_u128 n TOKEN_SCALE = n * TOKEN_SCALE" if "n \<le> usize_max" for n
    using that by (simp add: sat_mul_u128_def u128_max_def usize_max_def TOKEN_SCALE_def)
  have "admit_datagrams s m direction ls now =
    (let s = refill s now in
     if rate_packet_tokens s < length ls * TOKEN_SCALE
     then (s, record_packet_rate_rejection m, Inl PacketRateExceeded)
     else if rate_byte_tokens s < sum_list ls * TOKEN_SCALE
     then (s, record_byte_rate_rejection m, Inl ByteRateExceeded)
     else (s\<lparr>rate_packet_tokens := rate_packet_tokens s - length ls * TOKEN_SCALE,
             rate_byte_tokens := rate_byte_tokens s - sum_list ls * TOKEN_SCALE\<rparr>,
           record_admitted direction (length ls) (sum_list ls) m, Inr ()))"
    using False sum(2) t
    by (simp add: admit_datagrams_def sum(1) exact \<open>length ls \<le> usize_max\<close> Let_def)
  with assms refused admitted show thesis by (auto simp: Let_def split: if_splits)
qed

lemma admit_datagrams_ok:
  assumes "admit_datagrams s m direction ls now = (s', m', result)" and "rate_ok s"
  shows "rate_ok s'" and "rate_limits s' = rate_limits s"
  using assms(1)
  by (cases rule: admit_datagrams_cases;
      use assms(2) refill_facts(5) [OF assms(2), of now] refill_facts(1) [of s now] in \<open>auto simp: rate_ok_def\<close>)+

section \<open>Histories of a rate limiter\<close>

text \<open>
  A sequence of calls on one limiter, with the number of datagrams and of bytes it admitted.
\<close>

fun admit_all ::
  "IdentityRateState \<Rightarrow> VpnQuotaMetricCounters \<Rightarrow> (VpnPacketDirection \<times> usize list \<times> instant) list \<Rightarrow>
   IdentityRateState \<times> VpnQuotaMetricCounters \<times> nat \<times> nat" where
  "admit_all s m [] = (s, m, 0, 0)"
| "admit_all s m ((direction, ls, now) # rest) =
     (let (s, m, result) = admit_datagrams s m direction ls now;
          (s, m, datagrams, bytes) = admit_all s m rest in
      case result of
        Inl _ \<Rightarrow> (s, m, datagrams, bytes)
      | Inr _ \<Rightarrow> (s, m, length ls + datagrams, sum_list ls + bytes))"

lemma admit_step_potential:
  assumes "admit_datagrams s m direction ls now = (s', m', result)" and "now \<le> t"
    and "rate_last_refill s \<le> t"
  defines "n \<equiv> (case result of Inl _ \<Rightarrow> 0 | Inr _ \<Rightarrow> length ls)"
    and "b \<equiv> (case result of Inl _ \<Rightarrow> 0 | Inr _ \<Rightarrow> sum_list ls)"
  shows "rate_last_refill s \<le> rate_last_refill s' \<and> rate_last_refill s' \<le> t \<and> rate_limits s' = rate_limits s \<and>
    rate_packet_tokens s' + n * TOKEN_SCALE \<le> rate_packet_tokens s +
      limit_max_packets_per_second (rate_limits s) * (rate_last_refill s' - rate_last_refill s) \<and>
    rate_byte_tokens s' + b * TOKEN_SCALE \<le> rate_byte_tokens s +
      limit_max_bytes_per_second (rate_limits s) * (rate_last_refill s' - rate_last_refill s)"
  using assms(1)
proof (cases rule: admit_datagrams_cases)
  case invalid
  then show ?thesis using assms(3) by (simp add: n_def b_def)
next
  case (refused e)
  then show ?thesis using assms(2,3) refill_facts [of s now] by (simp add: n_def b_def)
next
  case admitted
  then show ?thesis using assms(2,3) refill_facts [of s now] by (simp add: n_def b_def)
qed

lemma admit_all_potential:
  assumes "admit_all s m calls = (s', m', datagrams, bytes)"
    and "\<forall>c \<in> set calls. snd (snd c) \<le> t" and "rate_last_refill s \<le> t"
  shows "datagrams * TOKEN_SCALE \<le> rate_packet_tokens s +
      limit_max_packets_per_second (rate_limits s) * (t - rate_last_refill s) \<and>
    bytes * TOKEN_SCALE \<le> rate_byte_tokens s +
      limit_max_bytes_per_second (rate_limits s) * (t - rate_last_refill s)"
  using assms
proof (induction calls arbitrary: s m s' m' datagrams bytes)
  case (Cons c calls)
  obtain direction ls now where c: "c = (direction, ls, now)" by (cases c)
  obtain s1 m1 result where a: "admit_datagrams s m direction ls now = (s1, m1, result)" by (metis prod_cases3)
  obtain s2 m2 n b where r: "admit_all s1 m1 calls = (s2, m2, n, b)" by (metis prod_cases4)
  define dn db where "dn = (case result of Inl _ \<Rightarrow> 0 | Inr _ \<Rightarrow> length ls)"
    and "db = (case result of Inl _ \<Rightarrow> 0 | Inr _ \<Rightarrow> sum_list ls)"
  have tot: "datagrams = dn + n" "bytes = db + b"
    using Cons.prems(1) by (auto simp: c a r dn_def db_def split: sum.splits)
  have "now \<le> t" using Cons.prems(2) by (simp add: c)
  note p = admit_step_potential [OF a this Cons.prems(3), folded dn_def db_def]
  have IH: "n * TOKEN_SCALE \<le> rate_packet_tokens s1 +
      limit_max_packets_per_second (rate_limits s) * (t - rate_last_refill s1)"
    "b * TOKEN_SCALE \<le> rate_byte_tokens s1 +
      limit_max_bytes_per_second (rate_limits s) * (t - rate_last_refill s1)"
    using Cons.IH [OF r] Cons.prems(2) p by simp_all
  have split: "k * (t - rate_last_refill s) =
      k * (rate_last_refill s1 - rate_last_refill s) + k * (t - rate_last_refill s1)" for k :: nat
    using p by (simp add: distrib_left [symmetric])
  show ?case unfolding tot split add_mult_distrib using p IH by linarith
qed simp

text \<open>
  A window can start at any point of the life of a limiter, so what matters is the state it finds: a
  call first refills, which leaves no more than the capacity in the bucket however long the limiter
  was idle.
\<close>

lemma refill_idem: "rate_ok s \<Longrightarrow> rate_last_refill s \<le> now \<Longrightarrow> refill (refill s now) now = refill s now"
  by (auto simp: refill_def checked_duration_since_def rate_ok_def sat_add_u128_def sat_mul_u128_def)

lemma admit_refilled:
  assumes "rate_ok s" and "rate_last_refill s \<le> now" and "list_all (\<lambda>l. 0 < l \<and> l \<le> VPN_MAX_IP_DATAGRAM_LEN) ls"
    and "ls \<noteq> []" and "checked_sum 0 ls \<noteq> None"
  shows "admit_datagrams s m direction ls now = admit_datagrams (refill s now) m direction ls now"
proof -
  obtain n where "checked_sum 0 ls = Some n" using assms(5) by blast
  moreover have "\<not> list_ex (\<lambda>l. l = 0 \<or> l > VPN_MAX_IP_DATAGRAM_LEN) ls" using assms(3) by (auto simp: list_all_iff list_ex_iff)
  ultimately show ?thesis using assms(4) by (simp add: admit_datagrams_def refill_idem [OF assms(1,2)])
qed

lemma admit_all_window:
  assumes "admit_all s m calls = (s', m', datagrams, bytes)" and "rate_ok s"
    and "\<forall>c \<in> set calls. snd (snd c) \<in> {u..t}" and "u \<le> t"
  shows "datagrams * TOKEN_SCALE \<le> packet_capacity (rate_limits s) + limit_max_packets_per_second (rate_limits s) * (t - u) \<and>
    bytes * TOKEN_SCALE \<le> byte_capacity (rate_limits s) + limit_max_bytes_per_second (rate_limits s) * (t - u)"
  using assms(1,3)
proof (induction calls arbitrary: m s' m' datagrams bytes)
  case (Cons c calls)
  obtain direction ls now where c: "c = (direction, ls, now)" by (cases c)
  have now: "u \<le> now" "now \<le> t" and upto: "\<forall>c \<in> set (c # calls). snd (snd c) \<le> t" using Cons.prems(2) by (auto simp: c)
  have mono: "k * (t - v) \<le> k * (t - u)" if "u \<le> v" for k v :: nat using that by (simp add: diff_le_mono2)
  have within: ?case if "admit_all s1 m (c # calls) = (s', m', datagrams, bytes)" "rate_ok s1" "rate_limits s1 = rate_limits s"
      "u \<le> rate_last_refill s1" "rate_last_refill s1 \<le> t" for s1
    using admit_all_potential [OF that(1) upto that(5)] that(2) mono [OF that(4), of "limit_max_packets_per_second (rate_limits s)"]
      mono [OF that(4), of "limit_max_bytes_per_second (rate_limits s)"] unfolding rate_ok_def that(3) by linarith
  let ?valid = "ls \<noteq> [] \<and> list_all (\<lambda>l. 0 < l \<and> l \<le> VPN_MAX_IP_DATAGRAM_LEN) ls \<and> checked_sum 0 ls \<noteq> None"
  consider "t < rate_last_refill s" | "u \<le> rate_last_refill s" "rate_last_refill s \<le> t"
    | "rate_last_refill s < u" "?valid" | "rate_last_refill s < u" "\<not> ?valid" by linarith
  then show ?case
  proof cases
    case 1
    then have "\<forall>c \<in> set (c # calls). snd (snd c) \<le> rate_last_refill s" using upto by fastforce
    from admit_all_potential [OF Cons.prems(1) this order_refl] assms(2) show ?thesis by (auto simp: rate_ok_def)
  next
    case 2
    then show ?thesis using within [OF Cons.prems(1) assms(2)] by simp
  next
    case 3
    then have "admit_datagrams s m direction ls now = admit_datagrams (refill s now) m direction ls now"
      using now(1) assms(2) by (intro admit_refilled) auto
    then have "admit_all (refill s now) m (c # calls) = (s', m', datagrams, bytes)" using Cons.prems(1) by (simp add: c)
    then show ?thesis using within [of "refill s now"] refill_facts [of s now] assms(2) 3(1) now by simp
  next
    case 4
    then have "\<exists>m1 e. admit_datagrams s m direction ls now = (s, m1, Inl e)"
      by (auto simp: admit_datagrams_def list_all_iff list_ex_iff)
    then obtain m1 e where "admit_datagrams s m direction ls now = (s, m1, Inl e)" by blast
    moreover obtain s2 m2 n b where r: "admit_all s m1 calls = (s2, m2, n, b)" by (metis prod_cases4)
    ultimately have "datagrams = n" "bytes = b" using Cons.prems(1) by (simp_all add: c)
    then show ?thesis using Cons.IH [OF r] Cons.prems(2) by simp
  qed
qed simp

text \<open>The life of a limiter: calls, and new limits when the registry is reloaded.\<close>

datatype rate_call = RateAdmit VpnPacketDirection "usize list" instant | RateReconfigure VpnIdentityLimits instant

fun rate_apply :: "rate_call \<Rightarrow> IdentityRateState \<times> VpnQuotaMetricCounters \<Rightarrow> IdentityRateState \<times> VpnQuotaMetricCounters" where
  "rate_apply (RateAdmit direction ls now) (s, m) = (let (s, m, result) = admit_datagrams s m direction ls now in (s, m))"
| "rate_apply (RateReconfigure limits now) (s, m) = (rate_reconfigure s limits now, m)"

lemma rate_apply_ok: "rate_ok (fst sm) \<Longrightarrow> rate_ok (fst (rate_apply call sm))"
  by (cases "(call, sm)" rule: rate_apply.cases)
    (auto simp: rate_reconfigure_ok split: prod.splits dest: admit_datagrams_ok(1))

lemma rate_history_ok: "rate_ok (fst sm) \<Longrightarrow> rate_ok (fst (fold rate_apply calls sm))"
  by (induction calls arbitrary: sm) (simp_all add: rate_apply_ok del: split_paired_All)

text \<open>
  C18.  The rate limit holds over every window in the life of a limiter.  Whatever was called before,
  with whatever limits and clock readings, the datagrams and bytes admitted by the calls made in a
  window, while the limits do not change, never exceed the burst capacity plus the configured rate
  times the length of the window: time spent idle before the window does not add to the burst.
  Scaled by \<open>10\<^sup>9\<close>, as the code does.
\<close>

theorem rate_limit_window:
  assumes "fold rate_apply earlier (rate_state_new limits0 start, m0) = (s, m)" and "rate_limits s = limits"
    and "admit_all s m calls = (s', m', datagrams, bytes)"
    and "\<forall>c \<in> set calls. snd (snd c) \<in> {u..t}" and "u \<le> t"
  shows "datagrams * TOKEN_SCALE \<le>
      limit_max_packets_per_second limits * TOKEN_SCALE + limit_max_packets_per_second limits * (t - u) \<and>
    bytes * TOKEN_SCALE \<le>
      max (limit_max_bytes_per_second limits) VPN_MAX_IP_DATAGRAM_LEN * TOKEN_SCALE +
      limit_max_bytes_per_second limits * (t - u)"
proof -
  have "rate_ok s" using rate_history_ok [of "(rate_state_new limits0 start, m0)" earlier] assms(1) by (simp add: rate_state_new_ok)
  moreover have "packet_capacity limits \<le> limit_max_packets_per_second limits * TOKEN_SCALE"
    "byte_capacity limits \<le> max (limit_max_bytes_per_second limits) VPN_MAX_IP_DATAGRAM_LEN * TOKEN_SCALE"
    by (simp_all add: packet_capacity_def byte_capacity_def sat_mul_u128_def)
  ultimately show ?thesis using admit_all_window [OF assms(3) _ assms(4,5)] assms(2) by auto
qed

text \<open>One datagram is admitted after the limiter has been idle for \<open>10 s\<close>.\<close>

theorem rate_limit_window_witness:
  "\<exists>s m. fold rate_apply [RateAdmit Uplink [0] 7] (rate_state_new identity_limits_default 0, VpnQuotaMetricCounters_default) = (s, m) \<and>
     snd (snd (admit_all s m [(Uplink, [1200], 10000000000)])) = (1, 1200) \<and>
     1 * TOKEN_SCALE \<le> 100000 * TOKEN_SCALE + 100000 * (10000000000 - 10000000000)"
proof -
  let ?s = "rate_state_new identity_limits_default 0" and ?m = "record_invalid_datagram VpnQuotaMetricCounters_default"
  have before: "fold rate_apply [RateAdmit Uplink [0] 7] (?s, VpnQuotaMetricCounters_default) = (?s, ?m)"
    by (simp add: admit_datagrams_def)
  have eval: "snd (snd (admit_all ?s ?m [(Uplink, [1200], 10000000000)])) = (1, 1200)"
    by (simp add: admit_datagrams_def refill_def rate_state_new_def identity_limits_default_def
        packet_capacity_def byte_capacity_def vpn_consts TOKEN_SCALE_def rust_arith u128_max_def usize_max_def)
  obtain s m' n b where run: "admit_all ?s ?m [(Uplink, [1200], 10000000000)] = (s, m', n, b)" by (metis prod_cases4)
  from run eval have "n = 1" by simp
  with rate_limit_window [OF before _ run, of identity_limits_default 10000000000 10000000000]
  have "1 * TOKEN_SCALE \<le> 100000 * TOKEN_SCALE + 100000 * (10000000000 - 10000000000)"
    by (simp add: identity_limits_default_def rate_state_new_def)
  with eval before show ?thesis by blast
qed

lemma refill_saturates:
  "c \<le> e * k \<Longrightarrow> c \<le> u128_max \<Longrightarrow> min (sat_add_u128 t (sat_mul_u128 e k)) c = c"
  by (auto simp: sat_add_u128_def sat_mul_u128_def min_def)

lemma capacities:
  assumes "identity_limits_validate l = Inr ()"
  shows "packet_capacity l = limit_max_packets_per_second l * TOKEN_SCALE"
    and "byte_capacity l = max (limit_max_bytes_per_second l) VPN_MAX_IP_DATAGRAM_LEN * TOKEN_SCALE"
    and "packet_capacity l \<le> u128_max" and "byte_capacity l \<le> u128_max"
    and "TOKEN_SCALE \<le> packet_capacity l" and "0 < limit_max_bytes_per_second l"
proof -
  have l: "0 < limit_max_packets_per_second l" "limit_max_packets_per_second l \<le> 1000000"
    "0 < limit_max_bytes_per_second l" "limit_max_bytes_per_second l \<le> 4294967296"
    using assms by (auto simp: identity_limits_validate_def identity_consts split: if_splits)
  then have "max (limit_max_bytes_per_second l) VPN_MAX_IP_DATAGRAM_LEN \<le> 4294967296"
    by (simp add: vpn_consts)
  with l show "packet_capacity l = limit_max_packets_per_second l * TOKEN_SCALE"
    and "byte_capacity l = max (limit_max_bytes_per_second l) VPN_MAX_IP_DATAGRAM_LEN * TOKEN_SCALE"
    and "packet_capacity l \<le> u128_max" and "byte_capacity l \<le> u128_max"
    and "TOKEN_SCALE \<le> packet_capacity l" and "0 < limit_max_bytes_per_second l"
    by (simp_all add: packet_capacity_def byte_capacity_def sat_mul_u128_def TOKEN_SCALE_def u128_max_def)
qed

text \<open>
  The buckets never hold more than their capacity, and an idle identity is never locked out:
  once it has been idle long enough to refill both buckets, any one datagram of a legal size is
  admitted, whatever limits were validated for the identity.
\<close>

lemma idle_identity_admitted:
  assumes "identity_limits_validate (rate_limits s) = Inr ()" and "rate_ok s"
    and "0 < len" and "len \<le> VPN_MAX_IP_DATAGRAM_LEN"
    and "rate_last_refill s + TOKEN_SCALE * VPN_MAX_IP_DATAGRAM_LEN \<le> now"
  shows "snd (snd (admit_datagram s m direction len now)) = Inr () \<and>
    rate_ok (fst (admit_datagram s m direction len now))"
proof -
  let ?l = "rate_limits s" and ?e = "now - rate_last_refill s"
  note c = capacities [OF assms(1)]
  have e: "TOKEN_SCALE * VPN_MAX_IP_DATAGRAM_LEN \<le> ?e" using assms(5) by simp
  moreover have "TOKEN_SCALE \<le> TOKEN_SCALE * VPN_MAX_IP_DATAGRAM_LEN" by (simp add: vpn_consts)
  ultimately have p: "packet_capacity ?l \<le> ?e * limit_max_packets_per_second ?l"
    unfolding c(1) by (metis le_trans mult.commute mult_le_mono1)
  have "max (limit_max_bytes_per_second ?l) VPN_MAX_IP_DATAGRAM_LEN
      \<le> VPN_MAX_IP_DATAGRAM_LEN * limit_max_bytes_per_second ?l"
    using c(6) by (simp add: vpn_consts)
  then have "byte_capacity ?l \<le> TOKEN_SCALE * VPN_MAX_IP_DATAGRAM_LEN * limit_max_bytes_per_second ?l"
    unfolding c(2) by (metis mult.assoc mult.commute mult_le_mono1)
  also have "\<dots> \<le> ?e * limit_max_bytes_per_second ?l" using e by (rule mult_le_mono1)
  finally have b: "byte_capacity ?l \<le> ?e * limit_max_bytes_per_second ?l" .
  have "rate_last_refill s \<le> now" using assms(5) by simp
  then have full: "rate_packet_tokens (refill s now) = packet_capacity ?l"
    "rate_byte_tokens (refill s now) = byte_capacity ?l"
    using refill_saturates [OF p c(3)] refill_saturates [OF b c(4)]
    by (simp_all add: refill_def checked_duration_since_def)
  obtain s' m' result where a: "admit_datagrams s m direction [len] now = (s', m', result)" by (metis prod_cases3)
  have "len * TOKEN_SCALE \<le> byte_capacity ?l"
    unfolding c(2) using assms(4) by (intro mult_le_mono1) simp
  moreover have "checked_sum 0 [len] = Some len" using assms(4) by (simp add: checked_add_usize_def usize_max_def vpn_consts)
  ultimately have "result = Inr ()"
    using a assms(3,4) full c(5)
    by (auto simp: admit_datagrams_def Let_def sat_mul_u128_def not_less min.coboundedI1 split: if_splits)
  then show ?thesis using a admit_datagrams_ok(1) [OF a assms(2)] by (simp add: admit_datagram_def)
qed

section \<open>The budget as a ledger\<close>

text \<open>
  A counter shared by several holders: each adds to it under a limit, and later gives back at most
  what it holds.  The two operations are atomic, and the holders' calls interleave in any order.
\<close>

inductive ledger_step ::
  "(nat \<Rightarrow> nat \<Rightarrow> nat \<Rightarrow> nat option) \<Rightarrow> (nat \<Rightarrow> nat \<Rightarrow> nat option) \<Rightarrow> nat \<Rightarrow> 'h set \<Rightarrow>
   nat \<times> ('h \<Rightarrow> nat) \<Rightarrow> nat \<times> ('h \<Rightarrow> nat) \<Rightarrow> bool"
  for reserve release limit holders where
  take: "x \<in> holders \<Longrightarrow> reserve c amount limit = Some c' \<Longrightarrow>
    ledger_step reserve release limit holders (c, held) (c', held(x := held x + amount))"
| give: "x \<in> holders \<Longrightarrow> amount \<le> held x \<Longrightarrow> release c amount = Some c' \<Longrightarrow>
    ledger_step reserve release limit holders (c, held) (c', held(x := held x - amount))"

locale bounded_counter =
  fixes reserve :: "nat \<Rightarrow> nat \<Rightarrow> nat \<Rightarrow> nat option" and release :: "nat \<Rightarrow> nat \<Rightarrow> nat option"
  assumes reserve_Some: "reserve c amount limit = Some c' \<Longrightarrow> c' = c + amount \<and> c' \<le> limit"
    and reserve_fits: "limit \<le> usize_max \<Longrightarrow> c + amount \<le> limit \<Longrightarrow> reserve c amount limit = Some (c + amount)"
    and release_Some: "release c amount = Some c' \<longleftrightarrow> amount \<le> c \<and> c' = c - amount"
begin

lemma sum_update:
  assumes "finite holders" and "x \<in> holders"
  shows "sum (held(x := v)) holders + held x = sum held holders + (v :: nat)"
  using assms by (simp add: sum.remove [of holders x] sum.remove [of holders x "held(x := v)"])

lemma ledger_balanced:
  assumes "ledger_step reserve release limit holders s s'" and "finite holders"
    and "fst s = sum (snd s) holders" and "fst s \<le> limit"
  shows "fst s' = sum (snd s') holders \<and> fst s' \<le> limit"
  using assms(1)
proof cases
  case (take x c amount c' held)
  then show ?thesis
    using assms(2-4) reserve_Some [of c amount limit c'] sum_update [OF assms(2), of x held "held x + amount"] by simp
next
  case (give x amount held c c')
  then show ?thesis
    using assms(2-4) sum_update [OF assms(2), of x held "held x - amount"]
    by (auto simp: release_Some)
qed

lemma ledger_history_balanced:
  assumes "(ledger_step reserve release limit holders)\<^sup>*\<^sup>* s s'" and "finite holders"
    and "fst s = sum (snd s) holders" and "fst s \<le> limit"
  shows "fst s' = sum (snd s') holders \<and> fst s' \<le> limit"
  using assms by (induction rule: rtranclp_induct) (auto dest: ledger_balanced)

lemma release_never_fails:
  assumes "finite holders" and "x \<in> holders" and "amount \<le> held x" and "c = sum held holders"
  shows "\<exists>c'. release c amount = Some c'"
proof -
  have "held x \<le> sum held holders" using assms(1,2) by (simp add: sum.remove)
  with assms show ?thesis by (simp add: release_Some)
qed

end

lemma subtract_eq: "subtract c amount = (if amount \<le> c then Some (c - amount) else None)"
  by (auto simp: subtract_def checked_sub_usize_def)

lemma try_add_bounded_eq:
  "limit \<le> usize_max \<Longrightarrow> try_add_bounded c amount limit = (if c + amount \<le> limit then Some (c + amount) else None)"
  by (auto simp: try_add_bounded_def checked_add_usize_def)

interpretation quota_counter: bounded_counter try_add_bounded subtract
  by unfold_locales
    (auto simp: subtract_eq try_add_bounded_def checked_add_usize_def split: option.splits if_splits)

text \<open>
  C17.  The global budget cannot be overdrawn or underflow, however the sessions' reservations and
  releases interleave at the granularity of the atomic updates: the counter is always the sum of
  what the sessions hold and never above the limit, and giving back at most one's own holding never
  trips the underflow panic.
\<close>

theorem global_budget_ledger:
  assumes "(ledger_step try_add_bounded subtract limit holders)\<^sup>*\<^sup>* (0, \<lambda>_. 0) (c, held)"
    and "finite holders"
  shows "c = sum held holders \<and> c \<le> limit \<and>
    (\<forall>x \<in> holders. \<forall>amount \<le> held x. subtract c amount \<noteq> None)"
proof -
  have bal: "c = sum held holders" "c \<le> limit"
    using quota_counter.ledger_history_balanced [OF assms] by simp_all
  then show ?thesis using quota_counter.release_never_fails [OF assms(2)] by blast
qed

theorem global_budget_ledger_witness:
  "(3 :: nat) + 4 = sum ((\<lambda>_. 0)(0 := 3, Suc 0 := 4)) {0, Suc 0} \<and> subtract 7 4 \<noteq> None"
proof -
  let ?s = "ledger_step try_add_bounded subtract 10 {0, Suc 0}"
  have "?s (0, \<lambda>_. 0) (3, (\<lambda>_. 0)(0 := 0 + 3))"
    by (rule take) (simp_all add: try_add_bounded_eq usize_max_def)
  moreover have "?s (3, (\<lambda>_. 0)(0 := 3)) (7, ((\<lambda>_. 0)(0 := 3))(Suc 0 := ((\<lambda>_. 0)(0 := 3)) (Suc 0) + 4))"
    by (rule take) (simp_all add: try_add_bounded_eq usize_max_def)
  ultimately have "?s\<^sup>*\<^sup>* (0, \<lambda>_. 0) (7, (\<lambda>_. 0)(0 := 3, Suc 0 := 4))" by simp
  from global_budget_ledger [OF this] show ?thesis by simp
qed

section \<open>Reservations\<close>

text \<open>The effect of the compound operations on the two counters.\<close>

definition budget_counts :: "VpnQuotaMetricCounters \<Rightarrow> nat \<times> nat" where
  "budget_counts m = (current_reassembly_bytes m, active_reassembly_packets m)"

lemma budget_release_eq:
  "bytes \<le> current_reassembly_bytes m \<Longrightarrow> packets \<le> active_reassembly_packets m \<Longrightarrow>
     budget_release m bytes packets =
       Some (m\<lparr>current_reassembly_bytes := current_reassembly_bytes m - bytes,
               active_reassembly_packets := active_reassembly_packets m - packets\<rparr>)"
  by (simp add: budget_release_def subtract_eq)

lemma try_reserve_cases:
  assumes "budget_byte_limit b \<le> usize_max" and "budget_packet_limit b \<le> usize_max"
  obtains (refused) m' e where "try_reserve b m bytes packets = Some (m', Inl e)"
      and "budget_counts m' = budget_counts m" and "e = GlobalReassemblyLimit \<or> e = GlobalInflightLimit"
  | (reserved) m' where "try_reserve b m bytes packets =
        Some (m', Inr \<lparr>reserved_bytes = bytes, reserved_packets = packets\<rparr>)"
      and "current_reassembly_bytes m' = current_reassembly_bytes m + bytes"
      and "active_reassembly_packets m' = active_reassembly_packets m + packets"
      and "current_reassembly_bytes m' \<le> budget_byte_limit b"
      and "active_reassembly_packets m' \<le> budget_packet_limit b"
proof (cases "current_reassembly_bytes m + bytes \<le> budget_byte_limit b")
  case False
  then show thesis
    using refused assms
    by (simp add: try_reserve_def try_add_bounded_eq budget_counts_def record_global_reassembly_rejection_def)
next
  case bytes: True
  show thesis
  proof (cases "active_reassembly_packets m + packets \<le> budget_packet_limit b")
    case False
    then show thesis
      using refused assms bytes
      by (simp add: try_reserve_def try_add_bounded_eq subtract_eq budget_counts_def
          record_global_inflight_rejection_def)
  next
    case True
    then show thesis
      using reserved assms bytes
      by (simp add: try_reserve_def try_add_bounded_eq update_reassembly_peaks_def)
  qed
qed

lemma reconcile_eq:
  assumes "accounted_bytes + reserved_bytes v \<le> current_reassembly_bytes m"
    and "accounted_packets + reserved_packets v \<le> active_reassembly_packets m"
    and "current_reassembly_bytes m \<le> usize_max" and "active_reassembly_packets m \<le> usize_max"
    and "actual_bytes \<le> accounted_bytes + reserved_bytes v"
    and "actual_packets \<le> accounted_packets + reserved_packets v"
  shows "reconcile m v accounted_bytes accounted_packets actual_bytes actual_packets =
    Some (m\<lparr>current_reassembly_bytes := current_reassembly_bytes m - (accounted_bytes + reserved_bytes v - actual_bytes),
            active_reassembly_packets := active_reassembly_packets m - (accounted_packets + reserved_packets v - actual_packets)\<rparr>,
          actual_bytes, actual_packets, True)"
  using assms by (simp add: reconcile_def checked_add_usize_def budget_release_eq reservation_drop_def)

end
