(* ===== verification/Vpn_Policy.thy ===== *)
theory Vpn_Policy
  imports Vpn_Quota
begin

text \<open>
  The data policy of \<open>vpn_data_policy.rs\<close>: which IP packets an identity may send and receive, and
  the counters of what was forwarded and refused.
\<close>

datatype VpnDataPolicyError =
    Packet VpnPacketError | UplinkSourceSpoofed | DestinationPolicyRejected | DownlinkDestinationMismatch

fun VpnDataPolicyError_display :: "VpnDataPolicyError \<Rightarrow> string" where
  "VpnDataPolicyError_display (Packet e) = ''vpn_data_policy_packet:'' @ VpnPacketError_display e"
| "VpnDataPolicyError_display UplinkSourceSpoofed = ''vpn_data_policy_uplink_source_spoofed''"
| "VpnDataPolicyError_display DestinationPolicyRejected = ''vpn_data_policy_destination_rejected''"
| "VpnDataPolicyError_display DownlinkDestinationMismatch = ''vpn_data_policy_downlink_destination_mismatch''"

section \<open>Counters\<close>

record VpnDataPolicyMetricCounters =
  forwarded_uplink_packets :: nat
  forwarded_uplink_bytes :: nat
  forwarded_downlink_packets :: nat
  forwarded_downlink_bytes :: nat
  malformed_packet_rejections :: nat
  uplink_source_spoof_rejections :: nat
  destination_policy_rejections :: nat
  downlink_destination_rejections :: nat

definition VpnDataPolicyMetricCounters_default :: VpnDataPolicyMetricCounters where
  "VpnDataPolicyMetricCounters_default =
     \<lparr>forwarded_uplink_packets = 0,
      forwarded_uplink_bytes = 0,
      forwarded_downlink_packets = 0,
      forwarded_downlink_bytes = 0,
      malformed_packet_rejections = 0,
      uplink_source_spoof_rejections = 0,
      destination_policy_rejections = 0,
      downlink_destination_rejections = 0\<rparr>"

record VpnDataPolicyMetricsSnapshot =
  policy_snap_forwarded_uplink_packets :: nat
  policy_snap_forwarded_uplink_bytes :: nat
  policy_snap_forwarded_downlink_packets :: nat
  policy_snap_forwarded_downlink_bytes :: nat
  policy_snap_malformed_packet_rejections :: nat
  policy_snap_uplink_source_spoof_rejections :: nat
  policy_snap_destination_policy_rejections :: nat
  policy_snap_downlink_destination_rejections :: nat

definition policy_snapshot :: "VpnDataPolicyMetricCounters \<Rightarrow> VpnDataPolicyMetricsSnapshot" where
  "policy_snapshot m =
     \<lparr>policy_snap_forwarded_uplink_packets = forwarded_uplink_packets m,
      policy_snap_forwarded_uplink_bytes = forwarded_uplink_bytes m,
      policy_snap_forwarded_downlink_packets = forwarded_downlink_packets m,
      policy_snap_forwarded_downlink_bytes = forwarded_downlink_bytes m,
      policy_snap_malformed_packet_rejections = malformed_packet_rejections m,
      policy_snap_uplink_source_spoof_rejections = uplink_source_spoof_rejections m,
      policy_snap_destination_policy_rejections = destination_policy_rejections m,
      policy_snap_downlink_destination_rejections = downlink_destination_rejections m\<rparr>"

definition record_malformed_packet :: "VpnDataPolicyMetricCounters \<Rightarrow> VpnDataPolicyMetricCounters" where
  "record_malformed_packet m = m\<lparr>malformed_packet_rejections := sat_add_u64 (malformed_packet_rejections m) 1\<rparr>"

definition policy_record ::
  "VpnPacketDirection \<Rightarrow> usize \<Rightarrow> VpnDataPolicyError + VpnIpPacketMeta \<Rightarrow>
   VpnDataPolicyMetricCounters \<Rightarrow> VpnDataPolicyMetricCounters" where
  "policy_record direction packet_len result m =
     (case result of
        Inr _ \<Rightarrow>
          (case direction of
             Uplink \<Rightarrow> m\<lparr>forwarded_uplink_packets := sat_add_u64 (forwarded_uplink_packets m) 1,
                         forwarded_uplink_bytes := sat_add_u64 (forwarded_uplink_bytes m) packet_len\<rparr>
           | Downlink \<Rightarrow> m\<lparr>forwarded_downlink_packets := sat_add_u64 (forwarded_downlink_packets m) 1,
                           forwarded_downlink_bytes := sat_add_u64 (forwarded_downlink_bytes m) packet_len\<rparr>)
      | Inl (Packet _) \<Rightarrow> record_malformed_packet m
      | Inl UplinkSourceSpoofed \<Rightarrow>
          m\<lparr>uplink_source_spoof_rejections := sat_add_u64 (uplink_source_spoof_rejections m) 1\<rparr>
      | Inl DestinationPolicyRejected \<Rightarrow>
          m\<lparr>destination_policy_rejections := sat_add_u64 (destination_policy_rejections m) 1\<rparr>
      | Inl DownlinkDestinationMismatch \<Rightarrow>
          m\<lparr>downlink_destination_rejections := sat_add_u64 (downlink_destination_rejections m) 1\<rparr>)"

section \<open>The policy check\<close>

definition validate_vpn_ip_packet_policy ::
  "VpnDataPolicy \<Rightarrow> VpnPacketDirection \<Rightarrow> bytes \<Rightarrow> VpnDataPolicyError + VpnIpPacketMeta" where
  "validate_vpn_ip_packet_policy policy direction packet =
     try_then (map_err Packet (inspect_vpn_ip_packet packet)) (\<lambda>metadata.
       case direction of
         Uplink \<Rightarrow>
           if \<not> permits_source policy (meta_source metadata) then Inl UplinkSourceSpoofed
           else if \<not> allows_destination policy (meta_destination metadata) then Inl DestinationPolicyRejected
           else Inr metadata
       | Downlink \<Rightarrow>
           if \<not> permits_source policy (meta_destination metadata) then Inl DownlinkDestinationMismatch
           else if \<not> allows_destination policy (meta_source metadata) then Inl DestinationPolicyRejected
           else Inr metadata)"

text \<open>The client's end of a packet and the other end.\<close>

definition client_end :: "VpnPacketDirection \<Rightarrow> VpnIpPacketMeta \<Rightarrow> IpAddr" where
  "client_end direction metadata =
     (case direction of Uplink \<Rightarrow> meta_source metadata | Downlink \<Rightarrow> meta_destination metadata)"

definition remote_end :: "VpnPacketDirection \<Rightarrow> VpnIpPacketMeta \<Rightarrow> IpAddr" where
  "remote_end direction metadata =
     (case direction of Uplink \<Rightarrow> meta_destination metadata | Downlink \<Rightarrow> meta_source metadata)"

lemma policy_accepts:
  "validate_vpn_ip_packet_policy policy direction packet = Inr metadata \<longleftrightarrow>
     inspect_vpn_ip_packet packet = Inr metadata \<and> permits_source policy (client_end direction metadata) \<and>
     allows_destination policy (remote_end direction metadata)"
  by (auto simp: validate_vpn_ip_packet_policy_def client_end_def remote_end_def result_simps
      split: VpnPacketDirection.splits if_splits)

text \<open>
  A packet passes the policy exactly if it is a well-formed IP packet whose client end is the
  identity's own tunnel address and whose other end lies in one of the identity's networks, of the
  same address family.  So no accepted uplink packet carries a spoofed source, and no accepted
  downlink packet is addressed to another client.
\<close>

lemma policy_accepts_own_traffic:
  "validate_vpn_ip_packet_policy policy direction packet = Inr metadata \<longleftrightarrow>
     inspect_vpn_ip_packet packet = Inr metadata \<and>
     (case client_end direction metadata of
        V4 a \<Rightarrow> policy_client_ipv4 policy = Some a \<and>
          (\<exists>b. remote_end direction metadata = V4 b \<and>
             list_ex (\<lambda>net. network_contains net (V4 b)) (policy_allowed_destinations policy))
      | V6 a \<Rightarrow> policy_client_ipv6 policy = Some a \<and>
          (\<exists>b. remote_end direction metadata = V6 b \<and>
             list_ex (\<lambda>net. network_contains net (V6 b)) (policy_allowed_destinations policy)))"
proof -
  have "(\<exists>a b. client_end direction metadata = V4 a \<and> remote_end direction metadata = V4 b) \<or>
    (\<exists>a b. client_end direction metadata = V6 a \<and> remote_end direction metadata = V6 b)"
    if "inspect_vpn_ip_packet packet = Inr metadata"
    using inspect_vpn_ip_packet_family [OF that]
    by (auto simp: client_end_def remote_end_def split: VpnPacketDirection.splits)
  then show ?thesis unfolding policy_accepts allows_destination_def by (auto split: IpAddr.splits)
qed

end
