(* ===== verification/Vpn_Reassembler.thy ===== *)
theory Vpn_Reassembler
  imports Vpn_Packet
begin

text \<open>
  The bounded reassembler of \<open>src/src/vpn.rs\<close>: partial packets keyed by packet id, the
  ingestion of one datagram, expiry, and eviction of the least recently updated packet when
  the packet or byte limit would be exceeded.
\<close>

section \<open>State\<close>

record VpnReassemblyLimits =
  max_inflight_packets :: usize
  max_buffered_bytes :: usize
  fragment_timeout :: duration

record VpnReassemblyStats =
  fragments_received :: nat
  fragments_rejected :: nat
  duplicate_fragments :: nat
  packets_completed :: nat
  completed_bytes :: nat
  packets_expired :: nat
  packets_evicted :: nat

definition VpnReassemblyStats_default :: VpnReassemblyStats where
  "VpnReassemblyStats_default =
     \<lparr>fragments_received = 0, fragments_rejected = 0, duplicate_fragments = 0,
      packets_completed = 0, completed_bytes = 0, packets_expired = 0, packets_evicted = 0\<rparr>"

definition VpnReassemblyLimits_default :: VpnReassemblyLimits where
  "VpnReassemblyLimits_default =
     \<lparr>max_inflight_packets = VPN_DEFAULT_MAX_INFLIGHT_PACKETS,
      max_buffered_bytes = VPN_DEFAULT_MAX_REASSEMBLY_BYTES,
      fragment_timeout = VPN_DEFAULT_FRAGMENT_TIMEOUT\<rparr>"

record PartialPacket =
  pp_total_len :: usize
  pp_fragments :: "(usize \<times> bytes) list"
  pp_received_bytes :: usize
  pp_updated_at :: instant

definition PartialPacket_new :: "usize \<Rightarrow> instant \<Rightarrow> PartialPacket" where
  "PartialPacket_new len now =
     \<lparr>pp_total_len = len, pp_fragments = [], pp_received_bytes = 0, pp_updated_at = now\<rparr>"

record VpnReassembler =
  re_limits :: VpnReassemblyLimits
  re_packets :: "(u32 \<times> PartialPacket) list"
  re_buffered_bytes :: usize
  re_stats :: VpnReassemblyStats

definition VpnReassembler_new :: "VpnReassemblyLimits \<Rightarrow> VpnPacketError + VpnReassembler" where
  "VpnReassembler_new l =
     (if max_inflight_packets l = 0 \<or> max_buffered_bytes l < VPN_MAX_IP_PACKET_LEN \<or>
         fragment_timeout l = 0
      then Inl InvalidReassemblyLimits
      else Inr \<lparr>re_limits = l, re_packets = [], re_buffered_bytes = 0, re_stats = VpnReassemblyStats_default\<rparr>)"

definition inflight_packets :: "VpnReassembler \<Rightarrow> usize" where
  "inflight_packets r = length (re_packets r)"

definition contains_packet :: "VpnReassembler \<Rightarrow> u32 \<Rightarrow> bool" where
  "contains_packet r packet_id \<longleftrightarrow> map_of (re_packets r) packet_id \<noteq> None"

section \<open>Scanning the fragments already held\<close>

text \<open>
  The loop over the fragments in offset order that both \<open>additional_buffered_bytes\<close> and
  \<open>ingest_inner\<close> run: it stops at an identical fragment or at the first overlapping one.
\<close>

datatype scan_result = ScanDuplicate | ScanOverlap | ScanFresh

fun scan_fragments :: "usize \<Rightarrow> bytes \<Rightarrow> usize \<Rightarrow> (usize \<times> bytes) list \<Rightarrow> scan_result" where
  "scan_fragments offset payload fragment_end [] = ScanFresh"
| "scan_fragments offset payload fragment_end ((existing_offset, existing_payload) # rest) =
     (let existing_end = existing_offset + length existing_payload in
      if existing_offset = offset \<and> existing_payload = payload then ScanDuplicate
      else if offset < existing_end \<and> existing_offset < fragment_end then ScanOverlap
      else scan_fragments offset payload fragment_end rest)"

definition additional_buffered_bytes :: "VpnReassembler \<Rightarrow> VpnFragment \<Rightarrow> VpnPacketError + usize" where
  "additional_buffered_bytes r f =
     (case map_of (re_packets r) (frag_packet_id f) of
        None \<Rightarrow> Inr (length (frag_payload f))
      | Some partial \<Rightarrow>
          if pp_total_len partial \<noteq> frag_total_len f then Inl FragmentTotalChanged
          else case checked_add_usize (frag_offset f) (length (frag_payload f)) of
              None \<Rightarrow> Inl FragmentBounds
            | Some fragment_end \<Rightarrow>
                (case scan_fragments (frag_offset f) (frag_payload f) fragment_end (pp_fragments partial) of
                   ScanDuplicate \<Rightarrow> Inr 0
                 | ScanOverlap \<Rightarrow> Inl FragmentOverlap
                 | ScanFresh \<Rightarrow>
                     if length (pp_fragments partial) \<ge> VPN_MAX_FRAGMENTS_PER_PACKET
                     then Inl FragmentLimitExceeded
                     else Inr (length (frag_payload f))))"

definition fragment_will_complete :: "VpnReassembler \<Rightarrow> VpnFragment \<Rightarrow> bool" where
  "fragment_will_complete r f =
     (let received = (case map_of (re_packets r) (frag_packet_id f) of
                        None \<Rightarrow> 0 | Some partial \<Rightarrow> pp_received_bytes partial) in
      case checked_add_usize received (length (frag_payload f)) of
        None \<Rightarrow> False
      | Some received \<Rightarrow> received = frag_total_len f)"

section \<open>Removal, eviction and expiry\<close>

definition remove_packet :: "VpnReassembler \<Rightarrow> u32 \<Rightarrow> VpnReassembler" where
  "remove_packet r packet_id =
     (case map_of (re_packets r) packet_id of
        None \<Rightarrow> r
      | Some partial \<Rightarrow>
          r\<lparr>re_packets := hm_remove packet_id (re_packets r),
            re_buffered_bytes := re_buffered_bytes r - pp_received_bytes partial\<rparr>)"

definition count_evicted :: "VpnReassembler \<Rightarrow> VpnReassembler" where
  "count_evicted r =
     r\<lparr>re_stats := re_stats r\<lparr>packets_evicted := sat_add_u64 (packets_evicted (re_stats r)) 1\<rparr>\<rparr>"

definition oldest_packet_updated_at :: "VpnReassembler \<Rightarrow> u32 option \<Rightarrow> (u32 \<times> instant) option" where
  "oldest_packet_updated_at r excluded_packet_id =
     map_option (\<lambda>(packet_id, partial). (packet_id, pp_updated_at partial))
       (min_by_key (\<lambda>(_, partial). pp_updated_at partial)
          (filter (\<lambda>(packet_id, _). Some packet_id \<noteq> excluded_packet_id) (re_packets r)))"

definition evict_packet :: "VpnReassembler \<Rightarrow> u32 \<Rightarrow> VpnReassembler \<times> bool" where
  "evict_packet r packet_id =
     (if map_of (re_packets r) packet_id = None then (r, False)
      else (count_evicted (remove_packet r packet_id), True))"

definition reasm_clear :: "VpnReassembler \<Rightarrow> VpnReassembler" where
  "reasm_clear r = r\<lparr>re_packets := [], re_buffered_bytes := 0\<rparr>"

definition reject_decoded_fragment :: "VpnReassembler \<Rightarrow> u32 \<Rightarrow> VpnReassembler" where
  "reject_decoded_fragment r packet_id =
     remove_packet
       (r\<lparr>re_stats := re_stats r\<lparr>fragments_received := sat_add_u64 (fragments_received (re_stats r)) 1,
                             fragments_rejected := sat_add_u64 (fragments_rejected (re_stats r)) 1\<rparr>\<rparr>)
       packet_id"

definition expired_ids :: "VpnReassembler \<Rightarrow> instant \<Rightarrow> u32 list" where
  "expired_ids r now =
     map fst (filter (\<lambda>(_, partial). now - pp_updated_at partial \<ge> fragment_timeout (re_limits r)) (re_packets r))"

definition reasm_expire :: "VpnReassembler \<Rightarrow> instant \<Rightarrow> VpnReassembler \<times> usize" where
  "reasm_expire r now =
     (let expired = expired_ids r now;
          count = length expired;
          r' = foldl remove_packet r expired in
      (r'\<lparr>re_stats := re_stats r'\<lparr>packets_expired := sat_add_u64 (packets_expired (re_stats r')) count\<rparr>\<rparr>,
       count))"

definition evict_oldest :: "VpnReassembler \<Rightarrow> VpnReassembler \<times> bool" where
  "evict_oldest r =
     (case min_by_key (\<lambda>(_, partial). pp_updated_at partial) (re_packets r) of
        None \<Rightarrow> (r, False)
      | Some (packet_id, _) \<Rightarrow> (count_evicted (remove_packet r packet_id), True))"

text \<open>
  The two loops of \<open>make_room\<close>.  Each iteration that continues has removed a packet, so the
  number of packets bounds both.
\<close>

lemma evict_oldest_shrinks:
  "evict_oldest r = (r', True) \<Longrightarrow> length (re_packets r') < length (re_packets r)"
proof -
  assume ev: "evict_oldest r = (r', True)"
  then obtain packet_id partial where m:
    "min_by_key (\<lambda>(_, partial). pp_updated_at partial) (re_packets r) = Some (packet_id, partial)"
    and r': "r' = count_evicted (remove_packet r packet_id)"
    by (auto simp: evict_oldest_def split: option.splits)
  have mem: "(packet_id, partial) \<in> set (re_packets r)" using min_by_key_Some [OF m] by simp
  then obtain p where p: "map_of (re_packets r) packet_id = Some p"
    by (metis map_of_eq_None_iff not_None_eq fst_conv image_eqI)
  have "length (hm_remove packet_id (re_packets r)) < length (re_packets r)"
    using mem by (rule hm_remove_shrinks)
  then show ?thesis by (simp add: r' count_evicted_def remove_packet_def p)
qed

function make_room_packets :: "VpnReassembler \<Rightarrow> VpnReassembler" where
  "make_room_packets r =
     (if length (re_packets r) \<ge> max_inflight_packets (re_limits r)
      then (case evict_oldest r of (r', True) \<Rightarrow> make_room_packets r' | (r', False) \<Rightarrow> r')
      else r)"
  by pat_completeness auto
termination
  by (relation "measure (\<lambda>r. length (re_packets r))") (auto simp: evict_oldest_shrinks)

function make_room_bytes :: "VpnReassembler \<Rightarrow> usize \<Rightarrow> VpnReassembler" where
  "make_room_bytes r incoming_bytes =
     (if sat_add_usize (re_buffered_bytes r) incoming_bytes > max_buffered_bytes (re_limits r)
      then (case evict_oldest r of
              (r', True) \<Rightarrow> make_room_bytes r' incoming_bytes | (r', False) \<Rightarrow> r')
      else r)"
  by pat_completeness auto
termination
  by (relation "measure (\<lambda>(r, _). length (re_packets r))") (auto simp: evict_oldest_shrinks)

declare make_room_packets.simps [simp del] make_room_bytes.simps [simp del]

definition make_room :: "VpnReassembler \<Rightarrow> usize \<Rightarrow> VpnReassembler" where
  "make_room r incoming_bytes = make_room_bytes (make_room_packets r) incoming_bytes"

section \<open>Ingestion\<close>

fun assemble :: "bytes \<Rightarrow> (usize \<times> bytes) list \<Rightarrow> VpnPacketError + bytes" where
  "assemble packet [] = Inr packet"
| "assemble packet ((offset, payload) # rest) =
     (if offset \<noteq> length packet then Inl FragmentBounds else assemble (packet @ payload) rest)"

definition finish_packet :: "PartialPacket \<Rightarrow> VpnPacketError + bytes" where
  "finish_packet partial =
     (case assemble [] (pp_fragments partial) of
        Inl e \<Rightarrow> Inl e
      | Inr packet \<Rightarrow>
          if length packet \<noteq> pp_total_len partial then Inl FragmentBounds
          else case inspect_vpn_ip_packet packet of Inl e \<Rightarrow> Inl e | Inr _ \<Rightarrow> Inr packet)"

definition store_partial :: "VpnReassembler \<Rightarrow> u32 \<Rightarrow> PartialPacket \<Rightarrow> VpnReassembler" where
  "store_partial r packet_id partial =
     (let r' = make_room r (pp_received_bytes partial) in
      r'\<lparr>re_buffered_bytes := re_buffered_bytes r' + pp_received_bytes partial,
         re_packets := hm_insert packet_id partial (re_packets r')\<rparr>)"

text \<open>What \<open>ingest_inner\<close> does once the partial packet has been brought up to date.\<close>

definition settle_partial ::
  "VpnReassembler \<Rightarrow> u32 \<Rightarrow> PartialPacket \<Rightarrow> VpnReassembler \<times> (VpnPacketError + bytes option)" where
  "settle_partial r packet_id partial =
     (if pp_received_bytes partial = pp_total_len partial
      then (r, case finish_packet partial of Inl e \<Rightarrow> Inl e | Inr packet \<Rightarrow> Inr (Some packet))
      else (store_partial r packet_id partial, Inr None))"

definition ingest_inner ::
  "VpnReassembler \<Rightarrow> instant \<Rightarrow> bytes \<Rightarrow> VpnReassembler \<times> (VpnPacketError + bytes option)" where
  "ingest_inner r now datagram =
     (case decode_vpn_ip_fragment datagram of
        Inl e \<Rightarrow> (r, Inl e)
      | Inr f \<Rightarrow>
          let packet_id = frag_packet_id f;
              partial = (case map_of (re_packets r) packet_id of
                           Some partial \<Rightarrow> partial
                         | None \<Rightarrow> PartialPacket_new (frag_total_len f) now);
              r = remove_packet r packet_id in
          if pp_total_len partial \<noteq> frag_total_len f then (r, Inl FragmentTotalChanged)
          else case checked_add_usize (frag_offset f) (length (frag_payload f)) of
              None \<Rightarrow> (r, Inl FragmentBounds)
            | Some fragment_end \<Rightarrow>
                (case scan_fragments (frag_offset f) (frag_payload f) fragment_end (pp_fragments partial) of
                   ScanOverlap \<Rightarrow> (r, Inl FragmentOverlap)
                 | ScanDuplicate \<Rightarrow>
                     settle_partial
                       (r\<lparr>re_stats := re_stats r\<lparr>duplicate_fragments :=
                            sat_add_u64 (duplicate_fragments (re_stats r)) 1\<rparr>\<rparr>)
                       packet_id partial
                 | ScanFresh \<Rightarrow>
                     if length (pp_fragments partial) \<ge> VPN_MAX_FRAGMENTS_PER_PACKET
                     then (r, Inl FragmentLimitExceeded)
                     else (case checked_add_usize (pp_received_bytes partial) (length (frag_payload f)) of
                             None \<Rightarrow> (r, Inl FragmentBounds)
                           | Some received \<Rightarrow>
                               settle_partial r packet_id
                                 (partial\<lparr>pp_fragments :=
                                            bt_insert (frag_offset f) (frag_payload f) (pp_fragments partial),
                                          pp_received_bytes := received,
                                          pp_updated_at := now\<rparr>))))"

definition record_ingest ::
  "VpnReassembler \<Rightarrow> (VpnPacketError + bytes option) \<Rightarrow> VpnReassembler" where
  "record_ingest r result =
     (case result of
        Inr (Some packet) \<Rightarrow>
          r\<lparr>re_stats := re_stats r\<lparr>packets_completed := sat_add_u64 (packets_completed (re_stats r)) 1,
                               completed_bytes := sat_add_u64 (completed_bytes (re_stats r)) (length packet)\<rparr>\<rparr>
      | Inr None \<Rightarrow> r
      | Inl _ \<Rightarrow>
          r\<lparr>re_stats := re_stats r\<lparr>fragments_rejected := sat_add_u64 (fragments_rejected (re_stats r)) 1\<rparr>\<rparr>)"

definition reasm_ingest ::
  "VpnReassembler \<Rightarrow> instant \<Rightarrow> bytes \<Rightarrow> VpnReassembler \<times> (VpnPacketError + bytes option)" where
  "reasm_ingest r now datagram =
     (let r = r\<lparr>re_stats := re_stats r\<lparr>fragments_received := sat_add_u64 (fragments_received (re_stats r)) 1\<rparr>\<rparr>;
          r = fst (reasm_expire r now);
          (r, result) = ingest_inner r now datagram in
      (record_ingest r result, result))"

section \<open>Fragment lists\<close>

text \<open>
  The fragments of a partial packet are non-empty, lie inside the packet, and each ends
  before the next begins.
\<close>

abbreviation before :: "nat \<times> bytes \<Rightarrow> nat \<times> bytes \<Rightarrow> bool" where
  "before x y \<equiv> fst x + length (snd x) \<le> fst y"

definition frags_ok :: "nat \<Rightarrow> nat \<Rightarrow> (nat \<times> bytes) list \<Rightarrow> bool" where
  "frags_ok lo hi m \<longleftrightarrow>
     sorted_wrt before m \<and> (\<forall>x \<in> set m. snd x \<noteq> [] \<and> lo \<le> fst x \<and> fst x + length (snd x) \<le> hi)"

abbreviation frag_bytes :: "(nat \<times> bytes) list \<Rightarrow> nat" where
  "frag_bytes \<equiv> hm_total length"

lemma frags_ok_Nil [simp]: "frags_ok lo hi []"
  by (simp add: frags_ok_def)

lemma frags_ok_Cons:
  "frags_ok lo hi (x # m) \<longleftrightarrow>
     snd x \<noteq> [] \<and> lo \<le> fst x \<and> fst x + length (snd x) \<le> hi \<and>
     frags_ok (fst x + length (snd x)) hi m"
  by (force simp: frags_ok_def)

lemma frags_ok_bytes:
  "frags_ok lo hi m \<Longrightarrow> lo \<le> hi \<Longrightarrow> frag_bytes m \<le> hi - lo"
proof (induction m arbitrary: lo)
  case Nil
  then show ?case by simp
next
  case (Cons x m)
  then have "frag_bytes m \<le> hi - (fst x + length (snd x))" by (simp add: frags_ok_Cons)
  with Cons.prems show ?case by (auto simp: frags_ok_Cons)
qed

lemma frags_ok_full_tiles:
  "frags_ok lo hi m \<Longrightarrow> lo \<le> hi \<Longrightarrow> frag_bytes m = hi - lo \<Longrightarrow> tiles lo m"
proof (induction m arbitrary: lo)
  case Nil
  then show ?case by simp
next
  case (Cons x m)
  let ?e = "fst x + length (snd x)"
  have ok: "frags_ok ?e hi m" and le: "lo \<le> fst x" "?e \<le> hi"
    using Cons.prems(1) by (simp_all add: frags_ok_Cons)
  have "frag_bytes m \<le> hi - ?e" using frags_ok_bytes [OF ok] le by simp
  then have "fst x = lo" and "frag_bytes m = hi - ?e" using Cons.prems(3) le by simp_all
  then show ?case using Cons.IH [OF ok] le by (cases x) simp
qed

lemma frag_bytes_concat: "frag_bytes m = length (concat (map snd m))"
  by (simp add: hm_total_def length_concat comp_def)

lemma assemble_tiles:
  "tiles (length packet) m \<Longrightarrow> assemble packet m = Inr (packet @ concat (map snd m))"
  by (induction packet m rule: assemble.induct) auto

lemma frags_ok_fst_inj:
  assumes "frags_ok lo hi m" and "(a, b) \<in> set m" and "(a, c) \<in> set m"
  shows "b = c"
  using assms
proof (induction m arbitrary: lo)
  case Nil
  then show ?case by simp
next
  case (Cons x m)
  have "0 < length (snd x)" and "\<forall>y \<in> set m. fst x + length (snd x) \<le> fst y"
    using Cons.prems(1) by (auto simp: frags_ok_def)
  then have "\<forall>y \<in> set m. fst x < fst y" by (metis less_add_same_cancel1 less_le_trans)
  with Cons show ?case by (auto simp: frags_ok_Cons)
qed

lemma scan_Fresh:
  "scan_fragments off payload fend m = ScanFresh \<Longrightarrow>
     (\<forall>x \<in> set m. fst x + length (snd x) \<le> off \<or> fend \<le> fst x)"
  by (induction off payload fend m rule: scan_fragments.induct) (auto simp: Let_def split: if_splits)

lemma scan_Duplicate:
  "scan_fragments off payload fend m = ScanDuplicate \<Longrightarrow> (off, payload) \<in> set m"
  by (induction off payload fend m rule: scan_fragments.induct) (auto simp: Let_def split: if_splits)

lemma scan_Duplicate_iff:
  assumes "frags_ok lo hi m" and "payload \<noteq> []" and "fend = off + length payload"
  shows "scan_fragments off payload fend m = ScanDuplicate \<longleftrightarrow> (off, payload) \<in> set m"
proof
  assume "(off, payload) \<in> set m"
  then show "scan_fragments off payload fend m = ScanDuplicate" using assms(1)
  proof (induction m arbitrary: lo)
    case Nil
    then show ?case by simp
  next
    case (Cons x m)
    show ?case
    proof (cases "x = (off, payload)")
      case True
      then show ?thesis by simp
    next
      case False
      with Cons.prems have "(off, payload) \<in> set m" and "fst x + length (snd x) \<le> off"
        by (auto simp: frags_ok_def)
      with False Cons show ?thesis by (cases x) (auto simp: Let_def frags_ok_Cons)
    qed
  qed
qed (rule scan_Duplicate)

lemma bt_insert_fresh:
  assumes "frags_ok lo hi m" and "payload \<noteq> []" and "lo \<le> off" and "off + length payload \<le> hi"
    and "\<forall>x \<in> set m. fst x + length (snd x) \<le> off \<or> off + length payload \<le> fst x"
  shows "frags_ok lo hi (bt_insert off payload m)"
    and "frag_bytes (bt_insert off payload m) = length payload + frag_bytes m"
    and "set (bt_insert off payload m) = insert (off, payload) (set m)"
    and "length (bt_insert off payload m) = Suc (length m)"
proof -
  have pos: "0 < length payload" using assms(2) by simp
  have "frags_ok lo hi (bt_insert off payload m) \<and>
    frag_bytes (bt_insert off payload m) = length payload + frag_bytes m \<and>
    set (bt_insert off payload m) = insert (off, payload) (set m) \<and>
    length (bt_insert off payload m) = Suc (length m)"
    using assms(1,3,5)
  proof (induction m arbitrary: lo)
    case Nil
    with assms(2,4) show ?case by (simp add: frags_ok_def)
  next
    case (Cons x m)
    obtain a b where x: "x = (a, b)" by (cases x)
    have b: "b \<noteq> []" "lo \<le> a" "a + length b \<le> hi" "frags_ok (a + length b) hi m"
      using Cons.prems(1) by (simp_all add: x frags_ok_Cons)
    have "0 < length b" using b(1) by simp
    show ?case
    proof (cases "off < a")
      case True
      then have "off + length payload \<le> a" using Cons.prems(3) \<open>0 < length b\<close> by (auto simp: x)
      with True b assms(2,4) Cons.prems(2) show ?thesis by (simp add: x frags_ok_Cons)
    next
      case False
      then have "a + length b \<le> off" using Cons.prems(3) pos by (auto simp: x)
      moreover from this have "off \<noteq> a" using \<open>0 < length b\<close> by linarith
      moreover have "frags_ok (a + length b) hi (bt_insert off payload m) \<and>
        frag_bytes (bt_insert off payload m) = length payload + frag_bytes m \<and>
        set (bt_insert off payload m) = insert (off, payload) (set m) \<and>
        length (bt_insert off payload m) = Suc (length m)"
        using Cons.IH [OF b(4) \<open>a + length b \<le> off\<close>] Cons.prems(3) by simp
      ultimately show ?thesis using False b(1-3) by (auto simp: x frags_ok_Cons)
    qed
  qed
  then show "frags_ok lo hi (bt_insert off payload m)"
    and "frag_bytes (bt_insert off payload m) = length payload + frag_bytes m"
    and "set (bt_insert off payload m) = insert (off, payload) (set m)"
    and "length (bt_insert off payload m) = Suc (length m)" by auto
qed

section \<open>The invariant of the reassembler\<close>

definition partial_ok :: "PartialPacket \<Rightarrow> bool" where
  "partial_ok p \<longleftrightarrow> pp_total_len p \<le> 65535 \<and> frags_ok 0 (pp_total_len p) (pp_fragments p) \<and>
     pp_received_bytes p = frag_bytes (pp_fragments p) \<and> length (pp_fragments p) \<le> 64"

definition limits_ok :: "VpnReassemblyLimits \<Rightarrow> bool" where
  "limits_ok l \<longleftrightarrow> 0 < max_inflight_packets l \<and> VPN_MAX_IP_PACKET_LEN \<le> max_buffered_bytes l \<and>
     max_buffered_bytes l < usize_max \<and> 0 < fragment_timeout l"

definition reasm_wf :: "VpnReassembler \<Rightarrow> bool" where
  "reasm_wf r \<longleftrightarrow> hm_wf (re_packets r) \<and> limits_ok (re_limits r) \<and>
     re_buffered_bytes r = hm_total pp_received_bytes (re_packets r) \<and>
     (\<forall>e \<in> set (re_packets r). partial_ok (snd e) \<and> pp_received_bytes (snd e) < pp_total_len (snd e))"

definition reasm_inv :: "VpnReassembler \<Rightarrow> bool" where
  "reasm_inv r \<longleftrightarrow> reasm_wf r \<and> inflight_packets r \<le> max_inflight_packets (re_limits r) \<and>
     re_buffered_bytes r \<le> max_buffered_bytes (re_limits r)"

text \<open>\<open>shrunk r' r\<close>: the same limits and no entry that \<open>r\<close> does not have.\<close>

definition shrunk :: "VpnReassembler \<Rightarrow> VpnReassembler \<Rightarrow> bool" where
  "shrunk r' r \<longleftrightarrow> re_limits r' = re_limits r \<and> set (re_packets r') \<subseteq> set (re_packets r)"

lemma shrunk_refl [simp]: "shrunk r r"
  by (simp add: shrunk_def)

lemma shrunk_trans: "shrunk a b \<Longrightarrow> shrunk b c \<Longrightarrow> shrunk a c"
  by (auto simp: shrunk_def)

lemma shrunk_usage:
  assumes "shrunk r' r" and "reasm_wf r'" and "reasm_wf r"
  shows "re_buffered_bytes r' \<le> re_buffered_bytes r" and "inflight_packets r' \<le> inflight_packets r"
proof -
  have sub: "set (re_packets r') \<subseteq> set (re_packets r)" and wf: "hm_wf (re_packets r')"
    using assms by (simp_all add: shrunk_def reasm_wf_def)
  show "re_buffered_bytes r' \<le> re_buffered_bytes r"
    using hm_total_mono [OF sub wf] assms(2,3) by (simp add: reasm_wf_def)
  show "inflight_packets r' \<le> inflight_packets r"
    using hm_total_mono [OF sub wf, of "\<lambda>_. 1"]
    by (simp add: inflight_packets_def hm_total_def comp_def sum_list_triv)
qed

lemma shrunk_inv: "shrunk r' r \<Longrightarrow> reasm_wf r' \<Longrightarrow> reasm_inv r \<Longrightarrow> reasm_inv r'"
  using shrunk_usage [of r' r] by (auto simp: reasm_inv_def shrunk_def)

lemma stats_update [simp]:
  "reasm_wf (re_stats_update f r) = reasm_wf r"
  "reasm_inv (re_stats_update f r) = reasm_inv r"
  "shrunk (re_stats_update f r) r' = shrunk r r'"
  "shrunk r' (re_stats_update f r) = shrunk r' r"
  "inflight_packets (re_stats_update f r) = inflight_packets r"
  by (simp_all add: reasm_wf_def reasm_inv_def inflight_packets_def shrunk_def)

lemma count_evicted_simps [simp]:
  "reasm_wf (count_evicted r) = reasm_wf r"
  "reasm_inv (count_evicted r) = reasm_inv r"
  "shrunk (count_evicted r) r' = shrunk r r'"
  "re_packets (count_evicted r) = re_packets r"
  "re_limits (count_evicted r) = re_limits r"
  "re_buffered_bytes (count_evicted r) = re_buffered_bytes r"
  by (simp_all add: count_evicted_def)

lemma VpnReassembler_new_inv:
  assumes "VpnReassembler_new l = Inr r" and "max_buffered_bytes l < usize_max"
  shows "reasm_inv r" and "re_limits r = l" and "re_packets r = []"
  using assms
  by (auto simp: VpnReassembler_new_def reasm_inv_def reasm_wf_def limits_ok_def inflight_packets_def
      split: if_splits)

subsection \<open>Removal, expiry and eviction\<close>

lemma remove_packet_simps [simp]:
  "re_packets (remove_packet r packet_id) = hm_remove packet_id (re_packets r)"
  "re_limits (remove_packet r packet_id) = re_limits r"
  "re_stats (remove_packet r packet_id) = re_stats r"
  by (simp_all add: remove_packet_def hm_remove_absent split: option.splits)

lemma remove_packet_shrunk [simp]: "shrunk (remove_packet r packet_id) r"
  by (auto simp: shrunk_def set_hm_remove)

lemma remove_packet_wf [simp]:
  assumes "reasm_wf r"
  shows "reasm_wf (remove_packet r packet_id)"
proof (cases "map_of (re_packets r) packet_id")
  case None
  with assms show ?thesis by (simp add: remove_packet_def)
next
  case (Some p)
  with assms show ?thesis
    using hm_total_remove [of "re_packets r" packet_id p pp_received_bytes]
    by (simp add: reasm_wf_def remove_packet_def set_hm_remove)
qed

lemma remove_packet_usage:
  assumes "reasm_wf r" and "map_of (re_packets r) packet_id = Some p"
  shows "re_buffered_bytes r = re_buffered_bytes (remove_packet r packet_id) + pp_received_bytes p"
    and "inflight_packets r = Suc (inflight_packets (remove_packet r packet_id))"
  using assms hm_total_remove [of "re_packets r" packet_id p pp_received_bytes]
    hm_size_remove [of "re_packets r" packet_id p]
  by (simp_all add: reasm_wf_def remove_packet_def inflight_packets_def)

lemma remove_packet_inv [simp]: "reasm_inv r \<Longrightarrow> reasm_inv (remove_packet r packet_id)"
  using shrunk_inv [OF remove_packet_shrunk] by (simp add: reasm_inv_def)

lemma remove_packets_fold:
  "re_packets (foldl remove_packet r ids) = filter (\<lambda>e. fst e \<notin> set ids) (re_packets r)"
  "re_limits (foldl remove_packet r ids) = re_limits r"
  "re_stats (foldl remove_packet r ids) = re_stats r"
  by (induction ids arbitrary: r) (auto simp: AList.delete_eq split_def intro!: filter_cong)

lemma remove_packets_wf: "reasm_wf r \<Longrightarrow> reasm_wf (foldl remove_packet r ids)"
  by (induction ids arbitrary: r) auto

lemma expire_packets:
  assumes "reasm_wf r"
  shows "re_packets (fst (reasm_expire r now)) =
    filter (\<lambda>e. now - pp_updated_at (snd e) < fragment_timeout (re_limits r)) (re_packets r)"
proof -
  have wf: "hm_wf (re_packets r)" using assms by (simp add: reasm_wf_def)
  have "filter (\<lambda>e. fst e \<notin> set (expired_ids r now)) (re_packets r) =
    filter (\<lambda>e. now - pp_updated_at (snd e) < fragment_timeout (re_limits r)) (re_packets r)"
  proof (rule filter_cong [OF refl])
    fix e assume e: "e \<in> set (re_packets r)"
    have "fst e \<in> set (expired_ids r now) \<longleftrightarrow> e \<in> set (re_packets r) \<and>
      fragment_timeout (re_limits r) \<le> now - pp_updated_at (snd e)"
      using e wf by (force simp: expired_ids_def split_def distinct_map inj_on_def)
    with e show "(fst e \<notin> set (expired_ids r now)) =
      (now - pp_updated_at (snd e) < fragment_timeout (re_limits r))" by auto
  qed
  then show ?thesis by (simp add: reasm_expire_def Let_def remove_packets_fold)
qed

lemma expire_wf [simp]: "reasm_wf r \<Longrightarrow> reasm_wf (fst (reasm_expire r now))"
  by (simp add: reasm_expire_def Let_def remove_packets_wf)

lemma expire_limits [simp]: "re_limits (fst (reasm_expire r now)) = re_limits r"
  by (simp add: reasm_expire_def Let_def remove_packets_fold)

lemma expire_shrunk [simp]: "shrunk (fst (reasm_expire r now)) r"
  by (auto simp: reasm_expire_def Let_def shrunk_def remove_packets_fold)

lemma expire_inv [simp]: "reasm_inv r \<Longrightarrow> reasm_inv (fst (reasm_expire r now))"
  using shrunk_inv [OF expire_shrunk] by (simp add: reasm_inv_def)

lemma evict_oldest_cases:
  assumes "evict_oldest r = (r', evicted)"
  shows "evicted \<longleftrightarrow> re_packets r \<noteq> []" and "\<not> evicted \<Longrightarrow> r' = r" and "shrunk r' r"
    and "reasm_wf r \<Longrightarrow> reasm_wf r'"
    and "evicted \<Longrightarrow> \<exists>e \<in> set (re_packets r). r' = count_evicted (remove_packet r (fst e)) \<and>
      (\<forall>k \<in> set (re_packets r). pp_updated_at (snd e) \<le> pp_updated_at (snd k))"
  using assms min_by_key_None [of "\<lambda>(_, partial). pp_updated_at partial" "re_packets r"]
  by (auto simp: evict_oldest_def split_def split: option.splits
      dest!: min_by_key_Some intro!: bexI [rotated])

lemma make_room_packets_spec:
  assumes "reasm_wf r"
  shows "reasm_wf (make_room_packets r) \<and> shrunk (make_room_packets r) r \<and>
    inflight_packets (make_room_packets r) < max_inflight_packets (re_limits r)"
  using assms
proof (induction r rule: make_room_packets.induct)
  case (1 r)
  obtain r' evicted where ev: "evict_oldest r = (r', evicted)" by force
  note c = evict_oldest_cases [OF ev]
  show ?case
  proof (cases "max_inflight_packets (re_limits r) \<le> length (re_packets r)")
    case False
    then show ?thesis
      using "1.prems" by (simp add: make_room_packets.simps [of r] inflight_packets_def)
  next
    case True
    then have evicted: evicted using c(1) "1.prems" by (auto simp: reasm_wf_def limits_ok_def)
    then have "reasm_wf (make_room_packets r') \<and> shrunk (make_room_packets r') r' \<and>
      inflight_packets (make_room_packets r') < max_inflight_packets (re_limits r')"
      using "1.IH" [OF True ev [symmetric]] "1.prems" c(4) by simp
    moreover have "re_limits r' = re_limits r" using c(3) by (simp add: shrunk_def)
    ultimately show ?thesis
      using True ev evicted c(3) shrunk_trans by (auto simp: make_room_packets.simps [of r])
  qed
qed

lemma make_room_bytes_spec:
  assumes "reasm_wf r" and "incoming \<le> 65535"
  shows "reasm_wf (make_room_bytes r incoming) \<and> shrunk (make_room_bytes r incoming) r \<and>
    re_buffered_bytes (make_room_bytes r incoming) + incoming \<le> max_buffered_bytes (re_limits r)"
  using assms
proof (induction r incoming rule: make_room_bytes.induct)
  case (1 r incoming)
  obtain r' evicted where ev: "evict_oldest r = (r', evicted)" by force
  note c = evict_oldest_cases [OF ev]
  have lim: "65535 \<le> max_buffered_bytes (re_limits r)" "max_buffered_bytes (re_limits r) < usize_max"
    using "1.prems" by (auto simp: reasm_wf_def limits_ok_def)
  show ?case
  proof (cases "sat_add_usize (re_buffered_bytes r) incoming > max_buffered_bytes (re_limits r)")
    case False
    then show ?thesis
      using "1.prems" lim by (auto simp: make_room_bytes.simps [of r] sat_add_usize_def)
  next
    case True
    then have "re_packets r \<noteq> []"
      using "1.prems" lim by (auto simp: reasm_wf_def sat_add_usize_def)
    then have evicted: evicted using c(1) by simp
    then have "reasm_wf (make_room_bytes r' incoming) \<and> shrunk (make_room_bytes r' incoming) r' \<and>
      re_buffered_bytes (make_room_bytes r' incoming) + incoming \<le> max_buffered_bytes (re_limits r')"
      using "1.IH" [OF True ev [symmetric]] "1.prems" c(4) by simp
    moreover have "re_limits r' = re_limits r" using c(3) by (simp add: shrunk_def)
    ultimately show ?thesis
      using True ev evicted c(3) shrunk_trans by (auto simp: make_room_bytes.simps [of r])
  qed
qed

lemma make_room_spec:
  assumes "reasm_wf r" and "incoming \<le> 65535"
  shows "reasm_wf (make_room r incoming)" and "shrunk (make_room r incoming) r"
    and "inflight_packets (make_room r incoming) < max_inflight_packets (re_limits r)"
    and "re_buffered_bytes (make_room r incoming) + incoming \<le> max_buffered_bytes (re_limits r)"
proof -
  let ?p = "make_room_packets r"
  note p = make_room_packets_spec [OF assms(1)]
  then have b: "reasm_wf (make_room_bytes ?p incoming)" "shrunk (make_room_bytes ?p incoming) ?p"
    "re_buffered_bytes (make_room_bytes ?p incoming) + incoming \<le> max_buffered_bytes (re_limits ?p)"
    using make_room_bytes_spec [OF _ assms(2)] by blast+
  have "re_limits ?p = re_limits r" using p by (simp add: shrunk_def)
  then show "reasm_wf (make_room r incoming)" and "shrunk (make_room r incoming) r"
    and "inflight_packets (make_room r incoming) < max_inflight_packets (re_limits r)"
    and "re_buffered_bytes (make_room r incoming) + incoming \<le> max_buffered_bytes (re_limits r)"
    using p b shrunk_usage(2) [of "make_room_bytes ?p incoming" ?p] shrunk_trans
    by (auto simp: make_room_def)
qed

lemma make_room_id:
  assumes "inflight_packets r < max_inflight_packets (re_limits r)"
    and "re_buffered_bytes r + incoming \<le> max_buffered_bytes (re_limits r)"
  shows "make_room r incoming = r"
  using assms
  by (simp add: make_room_def make_room_packets.simps [of r] make_room_bytes.simps [of r]
      inflight_packets_def sat_add_usize_def)

subsection \<open>Ingestion\<close>

lemma partial_ok_bytes: "partial_ok p \<Longrightarrow> pp_received_bytes p \<le> pp_total_len p \<and> pp_total_len p \<le> 65535"
  using frags_ok_bytes [of 0 "pp_total_len p"] by (simp add: partial_ok_def)

lemma store_partial_spec:
  assumes "reasm_wf r" and "map_of (re_packets r) packet_id = None"
    and "partial_ok p" and "pp_received_bytes p < pp_total_len p"
  shows "reasm_inv (store_partial r packet_id p)"
    and "re_buffered_bytes (store_partial r packet_id p) \<le> re_buffered_bytes r + pp_received_bytes p"
    and "inflight_packets (store_partial r packet_id p) \<le> Suc (inflight_packets r)"
    and "map_of (re_packets (store_partial r packet_id p)) packet_id = Some p"
    and "re_limits (store_partial r packet_id p) = re_limits r"
proof -
  let ?r = "make_room r (pp_received_bytes p)"
  have "pp_received_bytes p \<le> 65535" using partial_ok_bytes [OF assms(3)] by linarith
  note m = make_room_spec [OF assms(1) this]
  have lim: "re_limits ?r = re_limits r" and sub: "set (re_packets ?r) \<subseteq> set (re_packets r)"
    using m(2) by (simp_all add: shrunk_def)
  have "packet_id \<notin> fst ` set (re_packets ?r)"
    using assms(2) sub by (auto simp: map_of_eq_None_iff)
  then have fresh: "map_of (re_packets ?r) packet_id = None" by (simp add: map_of_eq_None_iff)
  have wf: "reasm_wf (store_partial r packet_id p)"
    using m(1) assms(3,4) fresh
    by (auto simp: store_partial_def Let_def reasm_wf_def hm_total_insert_fresh set_hm_insert)
  show "reasm_inv (store_partial r packet_id p)"
    using wf m(3,4) lim fresh
    by (simp add: reasm_inv_def store_partial_def Let_def inflight_packets_def hm_size_insert_fresh)
  show "re_buffered_bytes (store_partial r packet_id p) \<le> re_buffered_bytes r + pp_received_bytes p"
    using shrunk_usage(1) [OF m(2,1) assms(1)] by (simp add: store_partial_def Let_def)
  show "inflight_packets (store_partial r packet_id p) \<le> Suc (inflight_packets r)"
    using shrunk_usage(2) [OF m(2,1) assms(1)] fresh
    by (simp add: store_partial_def Let_def inflight_packets_def hm_size_insert_fresh)
  show "map_of (re_packets (store_partial r packet_id p)) packet_id = Some p"
    and "re_limits (store_partial r packet_id p) = re_limits r"
    using lim by (simp_all add: store_partial_def Let_def)
qed

lemma finish_packet_full:
  assumes "partial_ok p" and "pp_received_bytes p = pp_total_len p"
  shows "finish_packet p =
    (case inspect_vpn_ip_packet (concat (map snd (pp_fragments p))) of
       Inl e \<Rightarrow> Inl e | Inr _ \<Rightarrow> Inr (concat (map snd (pp_fragments p))))"
proof -
  have full: "frag_bytes (pp_fragments p) = pp_total_len p"
    using assms unfolding partial_ok_def by metis
  have "frags_ok 0 (pp_total_len p) (pp_fragments p)" using assms(1) unfolding partial_ok_def by blast
  then have "tiles 0 (pp_fragments p)"
    by (rule frags_ok_full_tiles) (use full in simp_all)
  then have "assemble [] (pp_fragments p) = Inr (concat (map snd (pp_fragments p)))"
    using assemble_tiles [of "[]" "pp_fragments p"] by simp
  then show ?thesis using full by (simp add: finish_packet_def frag_bytes_concat)
qed

lemma settle_partial_spec:
  assumes "reasm_inv r" and "map_of (re_packets r) packet_id = None" and "partial_ok p"
    and "settle_partial r packet_id p = (r', result)"
  shows "reasm_inv r'" and "re_limits r' = re_limits r"
    and "re_buffered_bytes r' \<le> re_buffered_bytes r + pp_received_bytes p"
    and "inflight_packets r' \<le> Suc (inflight_packets r)"
    and "pp_received_bytes p = pp_total_len p \<Longrightarrow> r' = r"
proof -
  have wf: "reasm_wf r" using assms(1) by (simp add: reasm_inv_def)
  have "reasm_inv r' \<and> re_limits r' = re_limits r \<and>
    re_buffered_bytes r' \<le> re_buffered_bytes r + pp_received_bytes p \<and>
    inflight_packets r' \<le> Suc (inflight_packets r) \<and>
    (pp_received_bytes p = pp_total_len p \<longrightarrow> r' = r)"
  proof (cases "pp_received_bytes p = pp_total_len p")
    case True
    with assms(1,4) show ?thesis by (auto simp: settle_partial_def)
  next
    case False
    then have "pp_received_bytes p < pp_total_len p" using partial_ok_bytes [OF assms(3)] by simp
    with store_partial_spec [OF wf assms(2,3)] assms(4) False show ?thesis
      by (auto simp: settle_partial_def)
  qed
  then show "reasm_inv r'" and "re_limits r' = re_limits r"
    and "re_buffered_bytes r' \<le> re_buffered_bytes r + pp_received_bytes p"
    and "inflight_packets r' \<le> Suc (inflight_packets r)"
    and "pp_received_bytes p = pp_total_len p \<Longrightarrow> r' = r" by auto
qed

text \<open>The partial packet a fragment is added to, and the packet after adding it.\<close>

definition partial_for :: "VpnReassembler \<Rightarrow> instant \<Rightarrow> VpnFragment \<Rightarrow> PartialPacket" where
  "partial_for r now f =
     (case map_of (re_packets r) (frag_packet_id f) of
        Some p \<Rightarrow> p | None \<Rightarrow> PartialPacket_new (frag_total_len f) now)"

definition add_fragment :: "PartialPacket \<Rightarrow> instant \<Rightarrow> VpnFragment \<Rightarrow> PartialPacket" where
  "add_fragment p now f =
     p\<lparr>pp_fragments := bt_insert (frag_offset f) (frag_payload f) (pp_fragments p),
       pp_received_bytes := pp_received_bytes p + length (frag_payload f), pp_updated_at := now\<rparr>"

definition bump_duplicate :: "VpnReassembler \<Rightarrow> VpnReassembler" where
  "bump_duplicate r =
     r\<lparr>re_stats := re_stats r\<lparr>duplicate_fragments :=
       sat_add_u64 (duplicate_fragments (re_stats r)) 1\<rparr>\<rparr>"

lemma bump_duplicate_simps [simp]:
  "reasm_wf (bump_duplicate r) = reasm_wf r"
  "reasm_inv (bump_duplicate r) = reasm_inv r"
  "shrunk (bump_duplicate r) r' = shrunk r r'"
  "re_packets (bump_duplicate r) = re_packets r"
  "re_limits (bump_duplicate r) = re_limits r"
  "re_buffered_bytes (bump_duplicate r) = re_buffered_bytes r"
  "inflight_packets (bump_duplicate r) = inflight_packets r"
  by (simp_all add: bump_duplicate_def)

lemma partial_for_ok:
  assumes "reasm_wf r" and "fragment_ok f"
  shows "partial_ok (partial_for r now f)"
  using assms
  by (auto simp: partial_for_def partial_ok_def PartialPacket_new_def reasm_wf_def fragment_ok_def
      split: option.splits dest!: map_of_SomeD)

lemma add_fragment_ok:
  assumes "partial_ok p" and "fragment_ok f" and "pp_total_len p = frag_total_len f"
    and "length (pp_fragments p) < 64"
    and "\<forall>x \<in> set (pp_fragments p). fst x + length (snd x) \<le> frag_offset f \<or>
      frag_offset f + length (frag_payload f) \<le> fst x"
  shows "partial_ok (add_fragment p now f)"
  using assms bt_insert_fresh [of 0 "pp_total_len p" "pp_fragments p" "frag_payload f" "frag_offset f"]
  by (simp add: partial_ok_def add_fragment_def fragment_ok_def)

lemma ingest_inner_outcome:
  assumes "reasm_inv r" and "decode_vpn_ip_fragment datagram = Inr f"
  obtains
    (rejected) e e' where
      "ingest_inner r now datagram = (remove_packet r (frag_packet_id f), Inl e)"
      and "additional_buffered_bytes r f = Inl e'"
      and "map_of (re_packets r) (frag_packet_id f) \<noteq> None"
  | (duplicate) p where "map_of (re_packets r) (frag_packet_id f) = Some p" and "partial_ok p"
      and "pp_received_bytes p < pp_total_len p"
      and "(frag_offset f, frag_payload f) \<in> set (pp_fragments p)"
      and "ingest_inner r now datagram =
        settle_partial (bump_duplicate (remove_packet r (frag_packet_id f))) (frag_packet_id f) p"
      and "additional_buffered_bytes r f = Inr 0"
  | (fresh) p where "p = partial_for r now f" and "partial_ok p"
      and "pp_total_len p = frag_total_len f" and "partial_ok (add_fragment p now f)"
      and "\<forall>x \<in> set (pp_fragments p). fst x + length (snd x) \<le> frag_offset f \<or>
        frag_offset f + length (frag_payload f) \<le> fst x"
      and "ingest_inner r now datagram =
        settle_partial (remove_packet r (frag_packet_id f)) (frag_packet_id f) (add_fragment p now f)"
      and "additional_buffered_bytes r f = Inr (length (frag_payload f))"
proof -
  let ?p = "partial_for r now f" and ?id = "frag_packet_id f"
  let ?scan = "scan_fragments (frag_offset f) (frag_payload f)
    (frag_offset f + length (frag_payload f)) (pp_fragments ?p)"
  have wf: "reasm_wf r" using assms(1) by (simp add: reasm_inv_def)
  have fok: "fragment_ok f" using decode_vpn_ip_fragment_ok [OF assms(2)] .
  have pok: "partial_ok ?p" using partial_for_ok [OF wf fok] .
  have off: "checked_add_usize (frag_offset f) (length (frag_payload f)) =
    Some (frag_offset f + length (frag_payload f))"
    using fok by (simp add: fragment_ok_def rust_arith)
  have len: "length (frag_payload f) \<le> 65535" using fok by (simp add: fragment_ok_def)
  have rec: "checked_add_usize (pp_received_bytes ?p) (length (frag_payload f)) =
    Some (pp_received_bytes ?p + length (frag_payload f))"
    using partial_ok_bytes [OF pok] len by (simp add: rust_arith)
  have eq: "ingest_inner r now datagram =
    (let r1 = remove_packet r ?id in
     if pp_total_len ?p \<noteq> frag_total_len f then (r1, Inl FragmentTotalChanged)
     else case ?scan of
         ScanOverlap \<Rightarrow> (r1, Inl FragmentOverlap)
       | ScanDuplicate \<Rightarrow> settle_partial (bump_duplicate r1) ?id ?p
       | ScanFresh \<Rightarrow>
           if length (pp_fragments ?p) \<ge> 64 then (r1, Inl FragmentLimitExceeded)
           else settle_partial r1 ?id (add_fragment ?p now f))"
    unfolding ingest_inner_def assms(2) Let_def sum.case partial_for_def [symmetric]
      add_fragment_def bump_duplicate_def
    by (simp add: off rec split: scan_result.split)
  have known: "map_of (re_packets r) ?id = Some ?p" if "map_of (re_packets r) ?id \<noteq> None"
    using that by (auto simp: partial_for_def)
  have absent: "pp_total_len ?p = frag_total_len f" "?scan = ScanFresh" "length (pp_fragments ?p) < 64"
    if "map_of (re_packets r) ?id = None"
    using that by (simp_all add: partial_for_def PartialPacket_new_def)
  have add_absent: "additional_buffered_bytes r f = Inr (length (frag_payload f))"
    if "map_of (re_packets r) ?id = None"
    using that by (simp add: additional_buffered_bytes_def)
  have add_known: "additional_buffered_bytes r f =
    (if pp_total_len ?p \<noteq> frag_total_len f then Inl FragmentTotalChanged
     else case ?scan of
         ScanDuplicate \<Rightarrow> Inr 0
       | ScanOverlap \<Rightarrow> Inl FragmentOverlap
       | ScanFresh \<Rightarrow> if length (pp_fragments ?p) \<ge> 64 then Inl FragmentLimitExceeded
                       else Inr (length (frag_payload f)))"
    if "map_of (re_packets r) ?id \<noteq> None"
    using known [OF that] by (simp add: additional_buffered_bytes_def off)
  show thesis
  proof (cases "pp_total_len ?p = frag_total_len f \<and> ?scan \<noteq> ScanOverlap \<and>
      (?scan = ScanFresh \<longrightarrow> length (pp_fragments ?p) < 64)")
    case False
    then have some: "map_of (re_packets r) ?id \<noteq> None" using absent by (metis scan_result.distinct(6))
    from False show ?thesis
      using rejected [OF _ _ some] eq add_known [OF some]
      by (auto simp: Let_def split: scan_result.splits if_splits)
  next
    case True
    show ?thesis
    proof (cases ?scan)
      case ScanDuplicate
      then have some: "map_of (re_packets r) ?id \<noteq> None" using absent by (metis scan_result.distinct(3))
      have "pp_received_bytes ?p < pp_total_len ?p"
        using map_of_SomeD [OF known [OF some]] wf by (auto simp: reasm_wf_def)
      then show ?thesis
        using duplicate [OF known [OF some] pok] scan_Duplicate [OF ScanDuplicate] True ScanDuplicate
          eq add_known [OF some] by (simp add: Let_def)
    next
      case ScanFresh
      have "partial_ok (add_fragment ?p now f)"
        using add_fragment_ok [OF pok fok] True ScanFresh scan_Fresh [OF ScanFresh] by simp
      then show ?thesis
        using fresh [OF refl pok] True ScanFresh scan_Fresh [OF ScanFresh] eq add_absent add_known
        by (cases "map_of (re_packets r) ?id = None") (simp_all add: Let_def)
    next
      case ScanOverlap
      with True show ?thesis by simp
    qed
  qed
qed

text \<open>What one datagram does to the invariant and to the two quantities that are budgeted.\<close>

lemma remove_packet_le:
  "reasm_wf r \<Longrightarrow> re_buffered_bytes (remove_packet r packet_id) \<le> re_buffered_bytes r"
  "reasm_wf r \<Longrightarrow> inflight_packets (remove_packet r packet_id) \<le> inflight_packets r"
  using shrunk_usage [OF remove_packet_shrunk] by simp_all

lemma ingest_inner_undecodable:
  "decode_vpn_ip_fragment datagram = Inl e \<Longrightarrow> ingest_inner r now datagram = (r, Inl e)"
  by (simp add: ingest_inner_def)

lemma ingest_inner_usage:
  assumes "reasm_inv r" and "decode_vpn_ip_fragment datagram = Inr f"
    and "ingest_inner r now datagram = (r', result)"
  shows "reasm_inv r' \<and> re_limits r' = re_limits r \<and>
    re_buffered_bytes r' \<le> re_buffered_bytes r +
      (case additional_buffered_bytes r f of Inl _ \<Rightarrow> 0 | Inr n \<Rightarrow> n) \<and>
    inflight_packets r' \<le> inflight_packets r + (if contains_packet r (frag_packet_id f) then 0 else 1)"
  using assms(1,2)
proof (cases rule: ingest_inner_outcome [where now = now])
  case (rejected e e')
  with assms have "r' = remove_packet r (frag_packet_id f)" and "reasm_wf r"
    by (simp_all add: reasm_inv_def)
  with rejected assms(1) remove_packet_le [of r "frag_packet_id f"] show ?thesis by simp
next
  case (duplicate p)
  let ?r = "bump_duplicate (remove_packet r (frag_packet_id f))"
  have wf: "reasm_wf r" using assms(1) by (simp add: reasm_inv_def)
  have inv: "reasm_inv ?r" using assms(1) by simp
  have none: "map_of (re_packets ?r) (frag_packet_id f) = None" by (simp add: map_of_remove)
  have "settle_partial ?r (frag_packet_id f) p = (r', result)" using duplicate assms(3) by simp
  note s = settle_partial_spec [OF inv none duplicate(2) this]
  show ?thesis
    using s duplicate remove_packet_usage [OF wf duplicate(1)] by (simp add: contains_packet_def)
next
  case (fresh p)
  let ?r = "remove_packet r (frag_packet_id f)"
  have wf: "reasm_wf r" using assms(1) by (simp add: reasm_inv_def)
  have inv: "reasm_inv ?r" using assms(1) by simp
  have none: "map_of (re_packets ?r) (frag_packet_id f) = None" by (simp add: map_of_remove)
  have "settle_partial ?r (frag_packet_id f) (add_fragment p now f) = (r', result)"
    using fresh assms(3) by simp
  note s = settle_partial_spec [OF inv none fresh(4) this]
  show ?thesis
  proof (cases "map_of (re_packets r) (frag_packet_id f)")
    case None
    then have "?r = r" and "pp_received_bytes p = 0"
      using fresh(1) by (simp_all add: remove_packet_def partial_for_def PartialPacket_new_def)
    with None s fresh show ?thesis by (simp add: contains_packet_def add_fragment_def)
  next
    case (Some q)
    then have "q = p" using fresh(1) by (simp add: partial_for_def)
    with Some s fresh remove_packet_usage [OF wf Some] show ?thesis
      by (simp add: contains_packet_def add_fragment_def)
  qed
qed

lemma ingest_inner_completed:
  assumes "reasm_inv r" and "ingest_inner r now datagram = (r', Inr (Some packet))"
  obtains f meta where "decode_vpn_ip_fragment datagram = Inr f"
    and "inspect_vpn_ip_packet packet = Inr meta" and "length packet = frag_total_len f"
    and "r' = remove_packet r (frag_packet_id f)"
proof (cases "decode_vpn_ip_fragment datagram")
  case (Inl e)
  with assms(2) show thesis by (simp add: ingest_inner_undecodable)
next
  case (Inr f)
  note result = that
  have settled: thesis if ok: "partial_ok q" and tot: "pp_total_len q = frag_total_len f"
    and eq: "ingest_inner r now datagram = settle_partial (remove_packet r (frag_packet_id f)) (frag_packet_id f) q"
    for q
  proof -
    have full: "pp_received_bytes q = pp_total_len q"
      using eq assms(2) by (auto simp: settle_partial_def split: if_splits)
    then have "finish_packet q = Inr packet" and r': "r' = remove_packet r (frag_packet_id f)"
      using eq assms(2) by (auto simp: settle_partial_def split: sum.splits)
    then have p: "packet = concat (map snd (pp_fragments q))"
      and insp: "\<exists>meta. inspect_vpn_ip_packet packet = Inr meta"
      using finish_packet_full [OF ok full] by (auto split: sum.splits)
    have "pp_received_bytes q = frag_bytes (pp_fragments q)" using ok unfolding partial_ok_def by blast
    then have "length packet = frag_total_len f"
      using p full tot by (metis frag_bytes_concat)
    with Inr insp r' result show thesis by blast
  qed
  from assms(1) Inr show thesis
  proof (cases rule: ingest_inner_outcome [where now = now])
    case (rejected e e')
    with assms(2) show ?thesis by simp
  next
    case (duplicate p)
    with assms(2) show ?thesis by (simp add: settle_partial_def)
  next
    case (fresh p)
    with settled [of "add_fragment p now f"] show ?thesis by (simp add: add_fragment_def)
  qed
qed

subsection \<open>The public \<open>ingest\<close>\<close>

definition count_received :: "VpnReassembler \<Rightarrow> VpnReassembler" where
  "count_received r =
     r\<lparr>re_stats := re_stats r\<lparr>fragments_received := sat_add_u64 (fragments_received (re_stats r)) 1\<rparr>\<rparr>"

lemma count_received_simps [simp]:
  "reasm_wf (count_received r) = reasm_wf r"
  "reasm_inv (count_received r) = reasm_inv r"
  "shrunk r' (count_received r) = shrunk r' r"
  "re_packets (count_received r) = re_packets r"
  "re_limits (count_received r) = re_limits r"
  "re_buffered_bytes (count_received r) = re_buffered_bytes r"
  "inflight_packets (count_received r) = inflight_packets r"
  by (simp_all add: count_received_def shrunk_def)

lemma record_ingest_simps [simp]:
  "reasm_inv (record_ingest r result) = reasm_inv r"
  "reasm_wf (record_ingest r result) = reasm_wf r"
  "re_packets (record_ingest r result) = re_packets r"
  "re_limits (record_ingest r result) = re_limits r"
  "re_buffered_bytes (record_ingest r result) = re_buffered_bytes r"
  "inflight_packets (record_ingest r result) = inflight_packets r"
  "contains_packet (record_ingest r result) packet_id = contains_packet r packet_id"
  by (auto simp: record_ingest_def contains_packet_def split: sum.splits option.splits)

lemma reasm_ingest_inner:
  assumes "reasm_ingest r now datagram = (r', result)"
  obtains r'' where "ingest_inner (fst (reasm_expire (count_received r) now)) now datagram = (r'', result)"
    and "r' = record_ingest r'' result"
  using assms by (auto simp: reasm_ingest_def count_received_def Let_def split: prod.splits)

lemma reasm_ingest_inv:
  assumes "reasm_inv r" and "reasm_ingest r now datagram = (r', result)"
  shows "reasm_inv r'" and "re_limits r' = re_limits r"
proof -
  obtain r'' where i: "ingest_inner (fst (reasm_expire (count_received r) now)) now datagram = (r'', result)"
    and r': "r' = record_ingest r'' result" using reasm_ingest_inner [OF assms(2)] .
  have "reasm_inv (fst (reasm_expire (count_received r) now))" using assms(1) by simp
  then have "reasm_inv r'' \<and> re_limits r'' = re_limits r"
    using i ingest_inner_usage [OF _ _ i]
    by (cases "decode_vpn_ip_fragment datagram") (auto simp: ingest_inner_undecodable)
  then show "reasm_inv r'" and "re_limits r' = re_limits r" using r' by simp_all
qed

lemma expire_nothing:
  assumes "expired_ids r now = []"
  shows "re_packets (fst (reasm_expire (count_received r) now)) = re_packets r"
    and "re_buffered_bytes (fst (reasm_expire (count_received r) now)) = re_buffered_bytes r"
proof -
  have "expired_ids (count_received r) now = []" using assms by (simp add: expired_ids_def)
  then show "re_packets (fst (reasm_expire (count_received r) now)) = re_packets r"
    and "re_buffered_bytes (fst (reasm_expire (count_received r) now)) = re_buffered_bytes r"
    by (simp_all add: reasm_expire_def Let_def)
qed

lemma query_cong:
  assumes "re_packets r = re_packets r'"
  shows "additional_buffered_bytes r f = additional_buffered_bytes r' f"
    and "fragment_will_complete r f = fragment_will_complete r' f"
    and "contains_packet r packet_id = contains_packet r' packet_id"
    and "inflight_packets r = inflight_packets r'"
  using assms
  by (simp_all add: additional_buffered_bytes_def inflight_packets_def contains_packet_def
      fragment_will_complete_def)

lemma reasm_ingest_usage:
  assumes "reasm_inv r" and "decode_vpn_ip_fragment datagram = Inr f"
    and "reasm_ingest r now datagram = (r', result)"
    and "expired_ids r now = []"
  shows "re_buffered_bytes r' \<le> re_buffered_bytes r +
      (case additional_buffered_bytes r f of Inl _ \<Rightarrow> 0 | Inr n \<Rightarrow> n)"
    and "inflight_packets r' \<le> inflight_packets r + (if contains_packet r (frag_packet_id f) then 0 else 1)"
proof -
  obtain r'' where i: "ingest_inner (fst (reasm_expire (count_received r) now)) now datagram = (r'', result)"
    and r': "r' = record_ingest r'' result" using reasm_ingest_inner [OF assms(3)] .
  note e = expire_nothing [OF assms(4)]
  show "re_buffered_bytes r' \<le> re_buffered_bytes r +
      (case additional_buffered_bytes r f of Inl _ \<Rightarrow> 0 | Inr n \<Rightarrow> n)"
    and "inflight_packets r' \<le> inflight_packets r + (if contains_packet r (frag_packet_id f) then 0 else 1)"
    using ingest_inner_usage [OF _ assms(2) i] assms(1) e r' query_cong [OF e(1)] by simp_all
qed

lemma ingest_inner_completing:
  assumes "reasm_inv r" and "decode_vpn_ip_fragment datagram = Inr f"
    and "fragment_will_complete r f" and "additional_buffered_bytes r f = Inr n" and "0 < n"
  shows "fst (ingest_inner r now datagram) = remove_packet r (frag_packet_id f)"
  using assms(1,2)
proof (cases rule: ingest_inner_outcome [where now = now])
  case (fresh p)
  have "pp_received_bytes p + length (frag_payload f) = frag_total_len f"
    using assms(3) fresh(1)
    by (auto simp: fragment_will_complete_def Let_def partial_for_def PartialPacket_new_def
        checked_add_usize_def split: option.splits if_splits)
  with fresh show ?thesis by (simp add: settle_partial_def add_fragment_def)
qed (use assms in auto)

lemma reasm_ingest_completing:
  assumes "reasm_inv r" and "decode_vpn_ip_fragment datagram = Inr f"
    and "reasm_ingest r now datagram = (r', result)" and "expired_ids r now = []"
    and "fragment_will_complete r f" and "additional_buffered_bytes r f = Inr n" and "0 < n"
  shows "re_buffered_bytes r' \<le> re_buffered_bytes r" and "inflight_packets r' \<le> inflight_packets r"
proof -
  let ?e = "fst (reasm_expire (count_received r) now)"
  obtain r'' where i: "ingest_inner ?e now datagram = (r'', result)"
    and r': "r' = record_ingest r'' result" using reasm_ingest_inner [OF assms(3)] .
  note e = expire_nothing [OF assms(4)]
  have inv: "reasm_inv ?e" using assms(1) by simp
  have "r'' = remove_packet ?e (frag_packet_id f)"
    using ingest_inner_completing [OF inv assms(2) _ _ assms(7), of now] assms(5,6) i query_cong [OF e(1)]
    by simp
  then show "re_buffered_bytes r' \<le> re_buffered_bytes r" and "inflight_packets r' \<le> inflight_packets r"
    using r' e remove_packet_le [of ?e "frag_packet_id f"] inv query_cong(4) [OF e(1)]
    by (simp_all add: reasm_inv_def)
qed

end
