(* ===== verification/Vpn_Delivery.thy ===== *)
theory Vpn_Delivery
  imports Vpn_Reassembler
begin

text \<open>
  Delivery of a fragmented packet: the datagrams that \<open>encode_vpn_ip_fragments\<close> produces for an IP
  packet, arriving in any order and with any repetitions, make \<open>VpnReassembler::ingest\<close>
  return exactly that packet, once, when the last missing fragment arrives.
\<close>

section \<open>The fragments of one packet\<close>

lemma tiles_frags_ok:
  "tiles off m \<Longrightarrow> \<forall>x \<in> set m. snd x \<noteq> [] \<Longrightarrow> off + frag_bytes m \<le> hi \<Longrightarrow> frags_ok off hi m"
  by (induction off m rule: tiles.induct) (auto simp: frags_ok_Cons add.assoc)

lemma frags_ok_keys: "frags_ok lo hi m \<Longrightarrow> sorted_wrt (<) (map fst m) \<and> (\<forall>x \<in> set m. lo \<le> fst x)"
proof (induction m arbitrary: lo)
  case (Cons x m)
  have pos: "0 < length (snd x)" and ok: "frags_ok (fst x + length (snd x)) hi m" and "lo \<le> fst x"
    using Cons.prems by (simp_all add: frags_ok_Cons)
  have "fst x < fst y \<and> lo \<le> fst y" if "y \<in> set m" for y
  proof -
    have "fst x + length (snd x) \<le> fst y" using Cons.IH [OF ok] that by blast
    with pos \<open>lo \<le> fst x\<close> show ?thesis by linarith
  qed
  with Cons.IH [OF ok] \<open>lo \<le> fst x\<close> show ?case by simp
qed simp

lemma frags_ok_sorted: "frags_ok lo hi m \<Longrightarrow> sorted (map fst m)"
  and frags_ok_hm_wf: "frags_ok lo hi m \<Longrightarrow> hm_wf m"
  using frags_ok_keys [of lo hi m] strict_sorted_iff [of "map fst m"] by blast+

lemma frags_ok_distinct: "frags_ok lo hi m \<Longrightarrow> distinct m"
  using frags_ok_hm_wf [of lo hi m] by (simp add: distinct_map)

lemma frags_ok_unique:
  assumes "frags_ok lo hi m" and "frags_ok lo' hi' n" and "set m = set n"
  shows "m = n"
proof (rule map_sorted_distinct_set_unique)
  show "inj_on fst (set m \<union> set n)"
    using frags_ok_fst_inj [OF assms(1)] assms(3) by (auto simp: inj_on_def)
qed (use assms frags_ok_sorted frags_ok_hm_wf in blast)+

lemma frags_ok_disjoint:
  assumes "frags_ok lo hi m" and "x \<in> set m" and "y \<in> set m" and "x \<noteq> y"
  shows "before x y \<or> before y x"
  using assms
proof (induction m arbitrary: lo)
  case (Cons z m)
  then show ?case by (auto simp: frags_ok_def)
qed simp

lemma frag_bytes_sum: "distinct m \<Longrightarrow> frag_bytes m = (\<Sum>x \<in> set m. length (snd x))"
  by (simp add: hm_total_def sum_list_distinct_conv_sum_set)

text \<open>A proper subset of a packet's fragments holds fewer bytes than the packet.\<close>

lemma frag_bytes_subset:
  assumes "frags_ok lo hi m" and "frags_ok lo' hi' n" and "set m \<subset> set n"
  shows "frag_bytes m < frag_bytes n"
proof -
  obtain x where x: "x \<in> set n" "x \<notin> set m" using assms(3) by auto
  have "0 < length (snd x)" using x assms(2) by (auto simp: frags_ok_def)
  then have "(\<Sum>y \<in> set m. length (snd y)) < (\<Sum>y \<in> insert x (set m). length (snd y))"
    using x by simp
  also have "\<dots> \<le> (\<Sum>y \<in> set n. length (snd y))"
    using x assms(3) by (intro sum_mono2) auto
  finally show ?thesis
    using frags_ok_distinct [OF assms(1)] frags_ok_distinct [OF assms(2)] by (simp add: frag_bytes_sum)
qed

lemma scan_disjoint:
  assumes "\<forall>x \<in> set m. x = (off, payload) \<or> before x (off, payload) \<or> before (off, payload) x"
  shows "scan_fragments off payload (off + length payload) m \<noteq> ScanOverlap"
  using assms
proof (induction m)
  case (Cons x m)
  then show ?case by (cases x) (auto simp: Let_def)
qed simp

section \<open>A delivery in progress\<close>

text \<open>
  \<open>delivering T id plen S r\<close>: of packet \<open>id\<close>, of \<open>plen\<close> bytes, exactly the fragments \<open>S\<close> are
  buffered, the last of them since one of the instants \<open>T\<close>; and there is room for the whole packet
  beside the other packets that are being reassembled, so nothing is evicted on its account.
\<close>

definition delivering ::
  "instant set \<Rightarrow> u32 \<Rightarrow> nat \<Rightarrow> (nat \<times> bytes) set \<Rightarrow> VpnReassembler \<Rightarrow> bool" where
  "delivering T packet_id plen S r \<longleftrightarrow> reasm_inv r \<and>
     inflight_packets (remove_packet r packet_id) < max_inflight_packets (re_limits r) \<and>
     re_buffered_bytes (remove_packet r packet_id) + plen \<le> max_buffered_bytes (re_limits r) \<and>
     (case map_of (re_packets r) packet_id of
        None \<Rightarrow> S = {}
      | Some p \<Rightarrow> S \<noteq> {} \<and> pp_total_len p = plen \<and> set (pp_fragments p) = S \<and> pp_updated_at p \<in> T)"

lemma delivering_start:
  assumes "reasm_inv r" and "\<not> contains_packet r packet_id"
    and "inflight_packets r < max_inflight_packets (re_limits r)"
    and "re_buffered_bytes r + plen \<le> max_buffered_bytes (re_limits r)"
  shows "delivering T packet_id plen {} r"
  using assms by (simp add: delivering_def contains_packet_def remove_packet_def)

lemma delivering_shrunk:
  assumes "delivering T packet_id plen S r" and "reasm_wf r'" and "shrunk r' r"
    and "map_of (re_packets r') packet_id = map_of (re_packets r) packet_id"
  shows "delivering T packet_id plen S r'"
proof -
  have wf: "reasm_wf (remove_packet r' packet_id)" "reasm_wf (remove_packet r packet_id)"
    using assms(1,2) by (simp_all add: delivering_def reasm_inv_def)
  have "shrunk (remove_packet r' packet_id) (remove_packet r packet_id)"
    using assms(3) by (auto simp: shrunk_def set_hm_remove)
  note u = shrunk_usage [OF this wf]
  have "reasm_inv r'" using shrunk_inv [OF assms(3,2)] assms(1) by (simp add: delivering_def)
  with u assms(1,3,4) show ?thesis by (auto simp: delivering_def shrunk_def)
qed

lemma delivering_expire:
  assumes "delivering T packet_id plen S r"
    and "\<forall>t \<in> T. now - t < fragment_timeout (re_limits r)"
  shows "delivering T packet_id plen S (fst (reasm_expire (count_received r) now))"
proof -
  let ?e = "fst (reasm_expire (count_received r) now)"
  have wf: "reasm_wf r" using assms(1) by (simp add: delivering_def reasm_inv_def)
  then have wfe: "reasm_wf ?e" by simp
  have packets: "re_packets ?e =
    filter (\<lambda>e. now - pp_updated_at (snd e) < fragment_timeout (re_limits r)) (re_packets r)"
    using expire_packets [of "count_received r" now] wf by simp
  have "map_of (re_packets ?e) packet_id = map_of (re_packets r) packet_id"
  proof (cases "map_of (re_packets r) packet_id")
    case None
    then have "packet_id \<notin> fst ` set (re_packets ?e)" by (auto simp: packets map_of_eq_None_iff)
    then have "map_of (re_packets ?e) packet_id = None" by (simp add: map_of_eq_None_iff)
    with None show ?thesis by simp
  next
    case (Some p)
    with assms have "now - pp_updated_at p < fragment_timeout (re_limits r)" by (auto simp: delivering_def)
    with map_of_SomeD [OF Some] have "(packet_id, p) \<in> set (re_packets ?e)" by (simp add: packets)
    moreover have "hm_wf (re_packets ?e)" using wfe by (simp add: reasm_wf_def)
    ultimately show ?thesis using Some map_of_is_SomeI by metis
  qed
  with delivering_shrunk [OF assms(1) wfe] show ?thesis
    using expire_shrunk [of "count_received r" now] by simp
qed

lemma store_in_room:
  assumes "reasm_inv r" and "map_of (re_packets r) packet_id = None" and "partial_ok p"
    and "pp_received_bytes p < pp_total_len p" and "pp_fragments p \<noteq> []" and "pp_updated_at p \<in> T"
    and "inflight_packets r < max_inflight_packets (re_limits r)"
    and "re_buffered_bytes r + pp_total_len p \<le> max_buffered_bytes (re_limits r)"
  shows "delivering T packet_id (pp_total_len p) (set (pp_fragments p)) (store_partial r packet_id p)"
proof -
  let ?s = "store_partial r packet_id p"
  have wf: "reasm_wf r" using assms(1) by (simp add: reasm_inv_def)
  note st = store_partial_spec [OF wf assms(2-4)]
  have "make_room r (pp_received_bytes p) = r" using make_room_id assms(4,7,8) by simp
  then have "set (re_packets (remove_packet ?s packet_id)) \<subseteq> set (re_packets r)"
    by (auto simp: store_partial_def Let_def set_hm_remove set_hm_insert)
  then have "shrunk (remove_packet ?s packet_id) r" using st(5) by (simp add: shrunk_def)
  from shrunk_usage [OF this _ wf] st(1)
  have "re_buffered_bytes (remove_packet ?s packet_id) \<le> re_buffered_bytes r"
    and "inflight_packets (remove_packet ?s packet_id) \<le> inflight_packets r"
    by (simp_all add: reasm_inv_def)
  with assms(5-8) st show ?thesis by (simp add: delivering_def)
qed

lemma delivering_partial:
  assumes "delivering T packet_id plen S r" and "map_of (re_packets r) packet_id = Some p"
  shows "set (pp_fragments p) = S" and "pp_total_len p = plen" and "partial_ok p"
    and "pp_updated_at p \<in> T" and "pp_fragments p \<noteq> []"
  using assms by (auto simp: delivering_def reasm_inv_def reasm_wf_def dest!: map_of_SomeD)

lemma fragment_not_rejected:
  assumes "delivering T packet_id plen S r" and "S \<subset> set frags" and "(off, payload) \<in> set frags"
    and "frags_ok 0 plen frags" and "length frags \<le> 64" and "plen \<le> 65535"
    and f: "f = \<lparr>frag_packet_id = packet_id, frag_total_len = plen, frag_offset = off, frag_payload = payload\<rparr>"
  shows "additional_buffered_bytes r f \<noteq> Inl e"
proof (cases "map_of (re_packets r) packet_id")
  case None
  then show ?thesis by (simp add: additional_buffered_bytes_def f)
next
  case (Some p)
  note p = delivering_partial [OF assms(1) Some]
  have "\<forall>x \<in> set (pp_fragments p). x = (off, payload) \<or> before x (off, payload) \<or> before (off, payload) x"
    using frags_ok_disjoint [OF assms(4) _ assms(3)] p(1) assms(2) by blast
  note scan = scan_disjoint [OF this]
  have "distinct (pp_fragments p)" using p(3) frags_ok_distinct unfolding partial_ok_def by blast
  then have "length (pp_fragments p) = card S" using p(1) distinct_card by metis
  also have "\<dots> < card (set frags)" using assms(2) by (intro psubset_card_mono) simp_all
  finally have "length (pp_fragments p) < 64" using card_length [of frags] assms(5) by linarith
  moreover have "off + length payload \<le> plen" using assms(3,4) by (auto simp: frags_ok_def)
  ultimately show ?thesis
    using Some p(2) scan assms(6)
    by (simp add: additional_buffered_bytes_def f checked_add_usize_def usize_max_def split: scan_result.split)
qed

text \<open>
  One fragment of the packet: it completes the packet, or joins the fragments that are buffered.
\<close>

lemma settle_delivery:
  assumes "delivering T packet_id plen S r" and "set (pp_fragments p) \<subseteq> set frags"
    and p: "partial_ok p" "pp_total_len p = plen" "pp_updated_at p \<in> T" "pp_fragments p \<noteq> []"
    and frags: "frags_ok 0 plen frags" "frag_bytes frags = plen"
    and r: "reasm_inv r1" "shrunk r1 (remove_packet r packet_id)" "map_of (re_packets r1) packet_id = None"
    and "settle_partial r1 packet_id p = (r', result)"
  shows "if set (pp_fragments p) = set frags
    then \<not> contains_packet r' packet_id \<and> result =
      (case inspect_vpn_ip_packet (concat (map snd frags)) of
         Inl e \<Rightarrow> Inl e | Inr _ \<Rightarrow> Inr (Some (concat (map snd frags))))
    else result = Inr None \<and> delivering T packet_id plen (set (pp_fragments p)) r'"
proof -
  have ok: "frags_ok 0 plen (pp_fragments p)" and rec: "pp_received_bytes p = frag_bytes (pp_fragments p)"
    using p(1,2) unfolding partial_ok_def by auto
  show ?thesis
  proof (cases "set (pp_fragments p) = set frags")
    case True
    then have eq: "pp_fragments p = frags" using frags_ok_unique ok frags(1) by blast
    then have full: "pp_received_bytes p = pp_total_len p" using rec frags(2) p(2) by metis
    have "finish_packet p = (case inspect_vpn_ip_packet (concat (map snd frags)) of
        Inl e \<Rightarrow> Inl e | Inr _ \<Rightarrow> Inr (concat (map snd frags)))"
      using finish_packet_full [OF p(1) full] unfolding eq .
    moreover have "r' = r1 \<and> result = (case finish_packet p of Inl e \<Rightarrow> Inl e | Inr packet \<Rightarrow> Inr (Some packet))"
      using full assms(12) by (simp add: settle_partial_def)
    ultimately show ?thesis
      using r(3) unfolding if_P [OF True] contains_packet_def by (simp split: sum.split)
  next
    case False
    then have "set (pp_fragments p) \<subset> set frags" using assms(2) by blast
    then have "frag_bytes (pp_fragments p) < plen"
      using frag_bytes_subset [OF ok frags(1)] frags(2) by metis
    then have lt: "pp_received_bytes p < pp_total_len p" using rec p(2) by metis
    have wf: "reasm_wf (remove_packet r packet_id)" using assms(1) by (simp add: delivering_def reasm_inv_def)
    have lim: "re_limits r1 = re_limits r" using r(2) by (simp add: shrunk_def)
    have "inflight_packets r1 < max_inflight_packets (re_limits r1)"
      "re_buffered_bytes r1 + pp_total_len p \<le> max_buffered_bytes (re_limits r1)"
      using shrunk_usage [OF r(2) _ wf] r(1) assms(1) lim p(2)
      by (simp_all add: delivering_def reasm_inv_def)
    from store_in_room [OF r(1,3) p(1) lt p(4,3) this]
    have "delivering T packet_id plen (set (pp_fragments p)) (store_partial r1 packet_id p)"
      unfolding p(2) .
    moreover have "r' = store_partial r1 packet_id p \<and> result = Inr None"
      using lt assms(12) by (simp add: settle_partial_def)
    ultimately show ?thesis unfolding if_not_P [OF False] by simp
  qed
qed

lemma deliver_fragment_inner:
  assumes "delivering T packet_id plen S r" and "now \<in> T" and "S \<subset> set frags"
    and "(off, payload) \<in> set frags"
    and frags: "frags_ok 0 plen frags" "frag_bytes frags = plen" "length frags \<le> 64" "plen \<le> 65535"
    and "decode_vpn_ip_fragment datagram =
      Inr \<lparr>frag_packet_id = packet_id, frag_total_len = plen, frag_offset = off, frag_payload = payload\<rparr>"
    and i: "ingest_inner r now datagram = (r', result)"
  shows "if insert (off, payload) S = set frags
    then \<not> contains_packet r' packet_id \<and> result =
      (case inspect_vpn_ip_packet (concat (map snd frags)) of
         Inl e \<Rightarrow> Inl e | Inr _ \<Rightarrow> Inr (Some (concat (map snd frags))))
    else result = Inr None \<and> delivering T packet_id plen (insert (off, payload) S) r'"
proof -
  have inv: "reasm_inv r" using assms(1) by (simp add: delivering_def)
  from inv assms(9) show ?thesis
  proof (cases rule: ingest_inner_outcome [where now = now])
    case (rejected e e')
    then show ?thesis using fragment_not_rejected [OF assms(1,3,4) frags(1,3,4) refl] by blast
  next
    case (duplicate p)
    then have known: "map_of (re_packets r) packet_id = Some p" by simp
    note p = delivering_partial [OF assms(1) known]
    have ins: "insert (off, payload) S = set (pp_fragments p)" using duplicate p(1) by auto
    have sub: "set (pp_fragments p) \<subseteq> set frags" using p(1) assms(3) by blast
    have "settle_partial (bump_duplicate (remove_packet r packet_id)) packet_id p = (r', result)"
      using duplicate i by simp
    from settle_delivery [OF assms(1) sub p(3,2,4,5) frags(1,2) _ _ _ this] inv
    show ?thesis unfolding ins by (simp add: map_of_remove)
  next
    case (fresh p)
    obtain q where q_def: "q = add_fragment p now
      \<lparr>frag_packet_id = packet_id, frag_total_len = plen, frag_offset = off, frag_payload = payload\<rparr>"
      by blast
    have qf: "pp_fragments q = bt_insert off payload (pp_fragments p)" "pp_total_len q = pp_total_len p"
      "pp_updated_at q = now" by (simp_all add: q_def add_fragment_def)
    have S: "set (pp_fragments p) = S"
      using fresh(1) delivering_partial(1) [OF assms(1)] assms(1)
      by (auto simp: partial_for_def delivering_def PartialPacket_new_def split: option.splits)
    have pok: "frags_ok 0 plen (pp_fragments p)" and plen: "pp_total_len p = plen"
      using fresh(2,3) by (simp_all add: partial_ok_def)
    have "payload \<noteq> []" and "off + length payload \<le> plen"
      using assms(4) frags(1) by (auto simp: frags_ok_def)
    then have q: "set (pp_fragments q) = insert (off, payload) S"
      using bt_insert_fresh(3) [OF pok, of payload off] fresh(5) S qf(1) by simp
    then have ne: "pp_fragments q \<noteq> []" by (metis insert_not_empty set_empty)
    have sub: "set (pp_fragments q) \<subseteq> set frags" unfolding q using assms(3,4) by blast
    have qok: "partial_ok q" and st: "settle_partial (remove_packet r packet_id) packet_id q = (r', result)"
      using fresh(4,6) i by (simp_all add: q_def)
    have "pp_total_len q = plen" and "pp_updated_at q \<in> T" using qf plen assms(2) by simp_all
    from settle_delivery [OF assms(1) sub qok this ne frags(1,2) _ _ _ st] inv
    show ?thesis unfolding q by (simp add: map_of_remove)
  qed
qed

lemma deliver_fragment:
  assumes "delivering T packet_id plen S r" and "\<forall>t \<in> T. now - t < fragment_timeout (re_limits r)"
    and "now \<in> T" and "S \<subset> set frags" and "(off, payload) \<in> set frags"
    and frags: "frags_ok 0 plen frags" "frag_bytes frags = plen" "length frags \<le> 64" "plen \<le> 65535"
    and "decode_vpn_ip_fragment datagram =
      Inr \<lparr>frag_packet_id = packet_id, frag_total_len = plen, frag_offset = off, frag_payload = payload\<rparr>"
    and i: "reasm_ingest r now datagram = (r', result)"
  shows "if insert (off, payload) S = set frags
    then \<not> contains_packet r' packet_id \<and> result =
      (case inspect_vpn_ip_packet (concat (map snd frags)) of
         Inl e \<Rightarrow> Inl e | Inr _ \<Rightarrow> Inr (Some (concat (map snd frags))))
    else result = Inr None \<and> delivering T packet_id plen (insert (off, payload) S) r'"
proof -
  obtain r'' where i: "ingest_inner (fst (reasm_expire (count_received r) now)) now datagram = (r'', result)"
    and r': "r' = record_ingest r'' result" using reasm_ingest_inner [OF i] .
  have kept: "delivering T packet_id plen S' r'" if "delivering T packet_id plen S' r''" for S'
    using that delivering_shrunk [OF that, of r'] by (simp add: r' shrunk_def delivering_def reasm_inv_def)
  show ?thesis
    using deliver_fragment_inner [OF delivering_expire [OF assms(1,2)] assms(3-5) frags assms(10) i] kept
    by (simp add: r' split: if_splits)
qed

section \<open>The whole delivery\<close>

text \<open>The datagrams of a sequence of arrivals, ingested one after the other.\<close>

fun reasm_ingest_all ::
  "VpnReassembler \<Rightarrow> (instant \<times> bytes) list \<Rightarrow> VpnReassembler \<times> (VpnPacketError + bytes option) list" where
  "reasm_ingest_all r [] = (r, [])"
| "reasm_ingest_all r ((now, datagram) # rest) =
     (let (r, result) = reasm_ingest r now datagram; (r, results) = reasm_ingest_all r rest
      in (r, result # results))"

lemma reasm_ingest_all_append:
  "reasm_ingest_all r (xs @ ys) =
     (let (r, results) = reasm_ingest_all r xs; (r, results') = reasm_ingest_all r ys
      in (r, results @ results'))"
  by (induction r xs rule: reasm_ingest_all.induct) (simp_all add: Let_def split: prod.split)

lemma reasm_ingest_all_inv:
  "reasm_inv r \<Longrightarrow> reasm_inv (fst (reasm_ingest_all r xs)) \<and>
     re_limits (fst (reasm_ingest_all r xs)) = re_limits r"
proof (induction r xs rule: reasm_ingest_all.induct)
  case (2 r now datagram rest)
  obtain r' result where i: "reasm_ingest r now datagram = (r', result)" by force
  show ?case
    using "2.IH" [OF i [symmetric] refl] reasm_ingest_inv [OF "2.prems" i] i
    by (auto simp: Let_def split: prod.split)
qed simp

lemma deliver_early:
  assumes "delivering T packet_id plen S r"
    and "\<forall>t \<in> T. \<forall>t' \<in> T. t - t' < fragment_timeout (re_limits r)"
    and "\<forall>a \<in> set arrivals. fst a \<in> T" and "S \<union> snd ` set arrivals \<subset> set frags"
    and frags: "frags_ok 0 plen frags" "frag_bytes frags = plen" "length frags \<le> 64" "plen \<le> 65535"
    and enc: "\<And>x. x \<in> set frags \<Longrightarrow> decode_vpn_ip_fragment (enc x) =
      Inr \<lparr>frag_packet_id = packet_id, frag_total_len = plen, frag_offset = fst x, frag_payload = snd x\<rparr>"
    and "reasm_ingest_all r (map (\<lambda>(t, x). (t, enc x)) arrivals) = (r', results)"
  shows "results = replicate (length arrivals) (Inr None) \<and>
    delivering T packet_id plen (S \<union> snd ` set arrivals) r' \<and> re_limits r' = re_limits r"
  using assms(1-4,10)
proof (induction arrivals arbitrary: r S results)
  case (Cons a arrivals)
  obtain now x where a: "a = (now, x)" by (cases a)
  obtain r1 result where i: "reasm_ingest r now (enc x) = (r1, result)" by force
  obtain results' where rest: "reasm_ingest_all r1 (map (\<lambda>(t, x). (t, enc x)) arrivals) = (r', results')"
    and results: "results = result # results'"
    using Cons.prems(5) i by (auto simp: a Let_def split: prod.splits)
  have x: "x \<in> set frags" and now: "now \<in> T" using Cons.prems(3,4) by (auto simp: a)
  have S: "S \<subset> set frags" "insert x S \<noteq> set frags" using Cons.prems(4) by (auto simp: a)
  have inv: "reasm_inv r" using Cons.prems(1) by (simp add: delivering_def)
  have lim: "re_limits r1 = re_limits r" using reasm_ingest_inv [OF inv i] by simp
  have "\<forall>t \<in> T. now - t < fragment_timeout (re_limits r)" using Cons.prems(2) now by blast
  from deliver_fragment [OF Cons.prems(1) this now S(1) _ frags enc [OF x] i]
  have "result = Inr None" and d: "delivering T packet_id plen (insert x S) r1"
    using S(2) x by simp_all
  moreover have "results' = replicate (length arrivals) (Inr None) \<and>
    delivering T packet_id plen (insert x S \<union> snd ` set arrivals) r' \<and> re_limits r' = re_limits r1"
    using Cons.IH [OF d _ _ _ rest] Cons.prems(2-4) lim by (simp add: a)
  ultimately show ?case using results lim by (simp add: a)
qed simp

lemma deliver_complete:
  assumes "delivering T packet_id plen {} r"
    and "\<forall>t \<in> T. \<forall>t' \<in> T. t - t' < fragment_timeout (re_limits r)"
    and "\<forall>a \<in> set arrivals. fst a \<in> T" and "now \<in> T"
    and "snd ` set arrivals \<subset> set frags" and "insert x (snd ` set arrivals) = set frags"
    and frags: "frags_ok 0 plen frags" "frag_bytes frags = plen" "length frags \<le> 64" "plen \<le> 65535"
    and enc: "\<And>x. x \<in> set frags \<Longrightarrow> decode_vpn_ip_fragment (enc x) =
      Inr \<lparr>frag_packet_id = packet_id, frag_total_len = plen, frag_offset = fst x, frag_payload = snd x\<rparr>"
    and insp: "inspect_vpn_ip_packet (concat (map snd frags)) = Inr meta"
    and all: "reasm_ingest_all r (map (\<lambda>(t, x). (t, enc x)) arrivals @ [(now, enc x)]) = (r', results)"
  shows "results = replicate (length arrivals) (Inr None) @ [Inr (Some (concat (map snd frags)))] \<and>
    \<not> contains_packet r' packet_id"
proof -
  obtain r1 results1 where e: "reasm_ingest_all r (map (\<lambda>(t, x). (t, enc x)) arrivals) = (r1, results1)"
    by force
  obtain r2 result where f: "reasm_ingest r1 now (enc x) = (r2, result)" by force
  have r': "r' = r2" "results = results1 @ [result]"
    using all by (simp_all add: reasm_ingest_all_append e f)
  have sub: "{} \<union> snd ` set arrivals \<subset> set frags" using assms(5) by simp
  from deliver_early [OF assms(1-3) sub frags enc e]
  have early: "results1 = replicate (length arrivals) (Inr None)"
    "delivering T packet_id plen (snd ` set arrivals) r1" "re_limits r1 = re_limits r" by simp_all
  have x: "x \<in> set frags" using assms(6) by blast
  have times: "\<forall>t \<in> T. now - t < fragment_timeout (re_limits r1)" using assms(2,4) early(3) by simp
  from deliver_fragment [OF early(2) times assms(4,5) _ frags enc [OF x] f]
  have "\<not> contains_packet r2 packet_id \<and> result = Inr (Some (concat (map snd frags)))"
    using assms(6) x insp by simp
  with early(1) r' show ?thesis by simp
qed

text \<open>The fragments of an encoded packet, and the datagrams that carry them.\<close>

lemma encoded_fragments:
  assumes "encode_vpn_ip_fragments packet_id packet max_datagram_len = Inr datagrams"
  obtains frags enc where "set datagrams = enc ` set frags"
    and "frags_ok 0 (length packet) frags" and "frag_bytes frags = length packet"
    and "length frags \<le> 64" and "length packet \<le> 65535" and "concat (map snd frags) = packet"
    and "\<And>x. x \<in> set frags \<Longrightarrow> decode_vpn_ip_fragment (enc x) =
      Inr \<lparr>frag_packet_id = packet_id, frag_total_len = length packet, frag_offset = fst x, frag_payload = snd x\<rparr>"
    and "inj_on enc (set frags)" and "\<exists>meta. inspect_vpn_ip_packet packet = Inr meta"
proof -
  obtain meta where meta: "inspect_vpn_ip_packet packet = Inr meta"
    and max: "VPN_MIN_QUIC_DATAGRAM_LEN \<le> max_datagram_len"
    using assms by (auto simp: encode_vpn_ip_fragments_def split: sum.splits if_splits)
  let ?frags = "packet_fragments (max_datagram_len - 12) packet"
  let ?enc = "\<lambda>x. fragment_datagram packet_id (of_nat (length packet)) (of_nat (fst x)) (snd x)"
  have cap: "0 < max_datagram_len - 12" using max by simp
  have len: "length packet \<le> 65535" using inspect_vpn_ip_packet_length [OF meta] by auto
  have all: "concat (map snd ?frags) = packet" using payloads_packet_fragments [OF cap] .
  have set: "set datagrams = ?enc ` set ?frags"
    using encode_vpn_ip_fragments_eq(1) [OF meta max, of packet_id] assms by (simp add: split_def)
  have bytes: "frag_bytes ?frags = length packet" using all by (simp add: frag_bytes_concat)
  have "\<forall>x \<in> set ?frags. snd x \<noteq> []" using packet_fragments_payload by fastforce
  then have ok: "frags_ok 0 (length packet) ?frags"
    using tiles_frags_ok [OF tiles_packet_fragments [OF cap]] bytes by simp
  have dec: "decode_vpn_ip_fragment (?enc x) =
      Inr \<lparr>frag_packet_id = packet_id, frag_total_len = length packet, frag_offset = fst x, frag_payload = snd x\<rparr>"
    if "x \<in> set ?frags" for x
  proof -
    have le: "fst x + length (snd x) \<le> length packet" and ne: "snd x \<noteq> []"
      using packet_fragments_bounds [OF cap, of "fst x" "snd x"]
        packet_fragments_payload [of "fst x" "snd x"] that by auto
    then show ?thesis using decode_packet_fragment [OF ne le len] by simp
  qed
  have inj: "inj_on ?enc (set ?frags)"
  proof (rule inj_onI)
    fix x y assume xy: "x \<in> set ?frags" "y \<in> set ?frags" and eq: "?enc x = ?enc y"
    from dec [OF xy(1)] dec [OF xy(2)] show "x = y" unfolding eq by (simp add: prod_eq_iff)
  qed
  have ex: "\<exists>meta. inspect_vpn_ip_packet packet = Inr meta" using meta by (rule exI)
  note encode_vpn_ip_fragments_eq(2) [OF meta max]
  then show thesis
    by (rule that [of ?enc ?frags, OF set ok bytes _ len all dec inj ex])
qed

text \<open>
  C1.  The datagrams of an encoded packet, arriving in any order, with repetitions before the last
  missing one, and interleaved with the expiry of other packets, reassemble to exactly that packet.
  Every arrival before the last missing one returns \<open>Ok(None)\<close>; that one returns \<open>Ok(Some(packet))\<close>,
  and the packet is no longer buffered.  This holds if the arrivals lie within one fragment timeout,
  the reassembler has room for one more packet of this length, and nothing is buffered under its
  identifier before.  Nothing is claimed of arrivals after the last missing one: the reassembler
  forgets a packet once it has returned it.
\<close>

theorem reassembly_any_order:
  assumes "encode_vpn_ip_fragments packet_id packet max_datagram_len = Inr datagrams"
    and "reasm_inv r" and "\<not> contains_packet r packet_id"
    and "inflight_packets r < max_inflight_packets (re_limits r)"
    and "re_buffered_bytes r + length packet \<le> max_buffered_bytes (re_limits r)"
    and "snd ` set early \<subset> set datagrams" and "insert final (snd ` set early) = set datagrams"
    and "\<forall>t \<in> insert now (fst ` set early). \<forall>t' \<in> insert now (fst ` set early).
      t - t' < fragment_timeout (re_limits r)"
  shows "snd (reasm_ingest_all r (early @ [(now, final)])) =
      replicate (length early) (Inr None) @ [Inr (Some packet)] \<and>
    \<not> contains_packet (fst (reasm_ingest_all r (early @ [(now, final)]))) packet_id"
proof (rule encoded_fragments [OF assms(1)])
  fix enc :: "nat \<times> bytes \<Rightarrow> bytes" and frags
  assume set: "set datagrams = enc ` set frags"
    and frags: "frags_ok 0 (length packet) frags" "frag_bytes frags = length packet"
      "length frags \<le> 64" "length packet \<le> 65535" and all: "concat (map snd frags) = packet"
    and enc: "\<And>x. x \<in> set frags \<Longrightarrow> decode_vpn_ip_fragment (enc x) =
      Inr \<lparr>frag_packet_id = packet_id, frag_total_len = length packet, frag_offset = fst x, frag_payload = snd x\<rparr>"
    and inj: "inj_on enc (set frags)" and meta: "\<exists>meta. inspect_vpn_ip_packet packet = Inr meta"
  define dec where "dec = the_inv_into (set frags) enc"
  let ?arrivals = "map (\<lambda>a. (fst a, dec (snd a))) early"
  have dec: "dec d \<in> set frags \<and> enc (dec d) = d" if "d \<in> set datagrams" for d
    using that f_the_inv_into_f [OF inj] the_inv_into_into [OF inj _ subset_refl]
    unfolding set dec_def by blast
  have early: "map (\<lambda>(t, x). (t, enc x)) ?arrivals = early"
    using assms(6) dec by (auto simp: comp_def split_def intro!: map_idI)
  have inj_dec: "inj_on dec (set datagrams)" using dec by (metis inj_onI)
  have range: "dec ` set datagrams = set frags"
    using the_inv_into_onto [OF inj] by (simp add: dec_def set)
  have snds: "snd ` set ?arrivals = dec ` snd ` set early" by (simp add: image_image)
  have sub: "snd ` set ?arrivals \<subset> set frags"
    unfolding snds range [symmetric] using inj_dec assms(6) by (rule image_strict_mono)
  have ins: "insert (dec final) (snd ` set ?arrivals) = set frags"
    unfolding snds range [symmetric] assms(7) [symmetric] by simp
  have final: "enc (dec final) = final" using dec assms(7) by blast
  obtain meta where meta: "inspect_vpn_ip_packet (concat (map snd frags)) = Inr meta"
    using meta unfolding all by blast
  obtain r' results where run: "reasm_ingest_all r (early @ [(now, final)]) = (r', results)" by force
  then have run': "reasm_ingest_all r (map (\<lambda>(t, x). (t, enc x)) ?arrivals @ [(now, enc (dec final))]) = (r', results)"
    unfolding early final .
  have times: "\<forall>a \<in> set ?arrivals. fst a \<in> insert now (fst ` set early)" by auto
  have "results = replicate (length ?arrivals) (Inr None) @ [Inr (Some (concat (map snd frags)))] \<and>
    \<not> contains_packet r' packet_id"
    using deliver_complete [OF delivering_start [OF assms(2-5)] assms(8) times insertI1 sub ins frags enc meta run']
    by blast
  then show ?thesis unfolding run all by simp
qed

lemma sample_packet_encode:
  "encode_vpn_ip_fragments 7 sample_packet 1036 =
     Inr [fragment_datagram 7 1100 0 (take 1024 sample_packet),
          fragment_datagram 7 1100 1024 (drop 1024 sample_packet)]"
  using encode_vpn_ip_fragments_eq(1) [OF sample_packet_inspect, of 1036 7]
  by (simp add: packet_fragments_def chunks.simps sample_packet_def)

definition sample_reassembler :: VpnReassembler where
  "sample_reassembler =
     \<lparr>re_limits = VpnReassemblyLimits_default, re_packets = [], re_buffered_bytes = 0,
      re_stats = VpnReassemblyStats_default\<rparr>"

lemma sample_reassembler_inv: "reasm_inv sample_reassembler"
  by (simp add: sample_reassembler_def reasm_inv_def reasm_wf_def limits_ok_def inflight_packets_def
      VpnReassemblyLimits_default_def usize_max_def vpn_consts)

theorem reassembly_any_order_witness:
  "snd (reasm_ingest_all sample_reassembler
      ([(5, fragment_datagram 7 1100 1024 (drop 1024 sample_packet)),
        (6, fragment_datagram 7 1100 1024 (drop 1024 sample_packet))] @
       [(9, fragment_datagram 7 1100 0 (take 1024 sample_packet))])) =
    [Inr None, Inr None, Inr (Some sample_packet)]"
proof -
  let ?a = "fragment_datagram 7 1100 0 (take 1024 sample_packet)"
  let ?b = "fragment_datagram 7 1100 1024 (drop 1024 sample_packet)"
  have "length ?a \<noteq> length ?b" by (simp add: fragment_datagram_def sample_packet_def)
  then have ne: "?a \<noteq> ?b" by metis
  have "snd (reasm_ingest_all sample_reassembler ([(5, ?b), (6, ?b)] @ [(9, ?a)])) =
      replicate (length [(5 :: instant, ?b), (6, ?b)]) (Inr None) @ [Inr (Some sample_packet)] \<and>
    \<not> contains_packet (fst (reasm_ingest_all sample_reassembler ([(5, ?b), (6, ?b)] @ [(9, ?a)]))) 7"
  proof (rule reassembly_any_order [OF sample_packet_encode sample_reassembler_inv])
    show "snd ` set [(5 :: instant, ?b), (6, ?b)] \<subset> set [?a, ?b]" using ne by auto
  qed (auto simp: sample_reassembler_def contains_packet_def inflight_packets_def
      VpnReassemblyLimits_default_def vpn_consts sample_packet_def)
  then show ?thesis by (simp del: reasm_ingest_all.simps)
qed

end
