(* ===== verification/Vpn_Reassembler_History.thy ===== *)
theory Vpn_Reassembler_History
  imports Vpn_Delivery
begin

text \<open>
  What holds of a reassembler after any sequence of calls, and of the packets it returns.
\<close>

section \<open>A packet that travels in one fragment\<close>

definition sample_short_packet :: bytes where
  "sample_short_packet = [0x45, 0, 0, 20] @ replicate 16 0"

definition sample_datagram :: bytes where
  "sample_datagram = fragment_datagram 7 20 0 sample_short_packet"

lemma sample_ingest:
  "reasm_ingest sample_reassembler 5 sample_datagram =
     (fst (reasm_ingest sample_reassembler 5 sample_datagram), Inr (Some sample_short_packet))"
proof -
  have ne: "sample_short_packet \<noteq> []" and len: "length sample_short_packet = 20"
    by (simp_all add: sample_short_packet_def)
  have insp: "\<exists>meta. inspect_vpn_ip_packet sample_short_packet = Inr meta"
    by (simp add: inspect_vpn_ip_packet_def inspect_ipv4_packet_def sample_short_packet_def
        from_be_def be_nat_def)
  have "decode_vpn_ip_fragment sample_datagram = Inr \<lparr>frag_packet_id = 7, frag_total_len = 20,
      frag_offset = 0, frag_payload = sample_short_packet\<rparr>"
    using decode_fragment_datagram [OF ne, of 0 20 7] len by (simp add: sample_datagram_def)
  then show ?thesis
    using insp len
    by (auto simp: reasm_ingest_def ingest_inner_def reasm_expire_def expired_ids_def remove_packet_def
        sample_reassembler_def PartialPacket_new_def settle_partial_def finish_packet_def
        checked_add_usize_def usize_max_def)
qed

section \<open>Every history of a reassembler\<close>

text \<open>The calls that change a reassembler, as one step relation.\<close>

inductive reasm_step :: "VpnReassembler \<Rightarrow> VpnReassembler \<Rightarrow> bool" where
  step_ingest: "reasm_step r (fst (reasm_ingest r now datagram))"
| step_expire: "reasm_step r (fst (reasm_expire r now))"
| step_evict: "reasm_step r (fst (evict_packet r packet_id))"
| step_reject: "reasm_step r (reject_decoded_fragment r packet_id)"
| step_clear: "reasm_step r (reasm_clear r)"

lemma evict_packet_inv: "reasm_inv r \<Longrightarrow> reasm_inv (fst (evict_packet r packet_id))"
  by (simp add: evict_packet_def)

lemma reject_decoded_fragment_shrunk: "shrunk (reject_decoded_fragment r packet_id) r"
  by (auto simp: reject_decoded_fragment_def shrunk_def set_hm_remove)

lemma reject_decoded_fragment_inv: "reasm_inv r \<Longrightarrow> reasm_inv (reject_decoded_fragment r packet_id)"
  by (simp add: reject_decoded_fragment_def)

lemma reasm_clear_inv: "reasm_inv r \<Longrightarrow> reasm_inv (reasm_clear r)"
  by (simp add: reasm_clear_def reasm_inv_def reasm_wf_def inflight_packets_def)

lemma reasm_step_inv:
  assumes "reasm_step r r'" and "reasm_inv r"
  shows "reasm_inv r' \<and> re_limits r' = re_limits r"
  using assms
proof (cases rule: reasm_step.cases)
  case (step_ingest now datagram)
  then show ?thesis using reasm_ingest_inv [OF assms(2)] by (metis prod.collapse)
qed (simp_all add: evict_packet_inv reject_decoded_fragment_inv reasm_clear_inv,
     simp_all add: evict_packet_def reject_decoded_fragment_def reasm_clear_def)

lemma reasm_history_inv:
  assumes "reasm_step\<^sup>*\<^sup>* r r'" and "reasm_inv r"
  shows "reasm_inv r' \<and> re_limits r' = re_limits r"
  using assms by (induction rule: rtranclp_induct) (auto dest: reasm_step_inv)

text \<open>
  C15.  Whatever sequence of datagrams, expiries, evictions, rejections and clears a reassembler goes
  through, it never holds more packets or more bytes than its limits allow, its byte counter is the
  number of bytes it holds, no packet has more than 64 fragments, and the stored fragments of a
  packet are disjoint, lie inside it and do not fill it.  The byte limit is assumed to be below
  \<open>usize::MAX\<close>, so that the byte counter cannot overflow.
\<close>

theorem reassembler_limits:
  assumes "VpnReassembler_new limits = Inr r0" and "max_buffered_bytes limits < usize_max"
    and "reasm_step\<^sup>*\<^sup>* r0 r"
  shows "inflight_packets r \<le> max_inflight_packets limits \<and>
    re_buffered_bytes r \<le> max_buffered_bytes limits \<and>
    re_buffered_bytes r = (\<Sum>(_, p) \<leftarrow> re_packets r. length (concat (map snd (pp_fragments p)))) \<and>
    (\<forall>(_, p) \<in> set (re_packets r). length (pp_fragments p) \<le> VPN_MAX_FRAGMENTS_PER_PACKET \<and>
       frags_ok 0 (pp_total_len p) (pp_fragments p) \<and>
       length (concat (map snd (pp_fragments p))) < pp_total_len p)"
proof -
  have inv: "reasm_inv r" and lim: "re_limits r = limits"
    using reasm_history_inv [OF assms(3)] VpnReassembler_new_inv [OF assms(1,2)] by auto
  have wf: "reasm_wf r" using inv by (simp add: reasm_inv_def)
  have p: "partial_ok q" "pp_received_bytes q < pp_total_len q"
    "pp_received_bytes q = length (concat (map snd (pp_fragments q)))" if "(k, q) \<in> set (re_packets r)" for k q
    using that wf unfolding reasm_wf_def partial_ok_def frag_bytes_concat [symmetric] by auto
  have "re_buffered_bytes r = hm_total pp_received_bytes (re_packets r)" using wf by (simp add: reasm_wf_def)
  also have "\<dots> = (\<Sum>(_, p) \<leftarrow> re_packets r. length (concat (map snd (pp_fragments p))))"
    unfolding hm_total_def split_def using p(3) by (intro arg_cong [where f = sum_list] map_cong) auto
  finally have sum: "re_buffered_bytes r = (\<Sum>(_, p) \<leftarrow> re_packets r. length (concat (map snd (pp_fragments p))))" .
  have "length (pp_fragments q) \<le> VPN_MAX_FRAGMENTS_PER_PACKET \<and> frags_ok 0 (pp_total_len q) (pp_fragments q) \<and>
    length (concat (map snd (pp_fragments q))) < pp_total_len q" if "(k, q) \<in> set (re_packets r)" for k q
    using p(1) [OF that] p(2) [OF that] unfolding p(3) [OF that] partial_ok_def by simp
  then have "\<forall>(_, p) \<in> set (re_packets r). length (pp_fragments p) \<le> VPN_MAX_FRAGMENTS_PER_PACKET \<and>
       frags_ok 0 (pp_total_len p) (pp_fragments p) \<and>
       length (concat (map snd (pp_fragments p))) < pp_total_len p" by blast
  moreover have "inflight_packets r \<le> max_inflight_packets limits" "re_buffered_bytes r \<le> max_buffered_bytes limits"
    using inv lim by (simp_all add: reasm_inv_def)
  ultimately show ?thesis using sum by (intro conjI)
qed

lemma sample_reassembler_new: "VpnReassembler_new VpnReassemblyLimits_default = Inr sample_reassembler"
  by (simp add: VpnReassembler_new_def sample_reassembler_def VpnReassemblyLimits_default_def vpn_consts)

theorem reassembler_limits_witness:
  "inflight_packets (fst (reasm_ingest sample_reassembler 5 sample_datagram)) \<le> 1024 \<and>
   re_buffered_bytes (fst (reasm_ingest sample_reassembler 5 sample_datagram)) \<le> 8388608"
proof -
  have "max_buffered_bytes VpnReassemblyLimits_default < usize_max"
    by (simp add: VpnReassemblyLimits_default_def vpn_consts usize_max_def)
  from reassembler_limits [OF sample_reassembler_new this r_into_rtranclp [of reasm_step, OF step_ingest]]
  have "inflight_packets (fst (reasm_ingest sample_reassembler 5 sample_datagram)) \<le>
      max_inflight_packets VpnReassemblyLimits_default \<and>
    re_buffered_bytes (fst (reasm_ingest sample_reassembler 5 sample_datagram)) \<le>
      max_buffered_bytes VpnReassemblyLimits_default" by blast
  then show ?thesis by (simp add: VpnReassemblyLimits_default_def vpn_consts)
qed

text \<open>
  A packet that \<open>ingest\<close> returns is a well-formed IP packet whose length is the total length the
  last fragment carried, and its identifier is no longer buffered.
\<close>

lemma reassembled_packet_valid:
  assumes "reasm_inv r" and "reasm_ingest r now datagram = (r', Inr (Some packet))"
  shows "\<exists>f meta. decode_vpn_ip_fragment datagram = Inr f \<and> inspect_vpn_ip_packet packet = Inr meta \<and>
    length packet = frag_total_len f \<and> \<not> contains_packet r' (frag_packet_id f)"
proof -
  obtain r'' where i: "ingest_inner (fst (reasm_expire (count_received r) now)) now datagram =
      (r'', Inr (Some packet))" and r': "r' = record_ingest r'' (Inr (Some packet))"
    using reasm_ingest_inner [OF assms(2)] .
  have "reasm_inv (fst (reasm_expire (count_received r) now))" using assms(1) by simp
  from this i show ?thesis
  proof (rule ingest_inner_completed)
    fix f meta
    assume "decode_vpn_ip_fragment datagram = Inr f" and "inspect_vpn_ip_packet packet = Inr meta"
      and "length packet = frag_total_len f"
      and "r'' = remove_packet (fst (reasm_expire (count_received r) now)) (frag_packet_id f)"
    moreover from this have "\<not> contains_packet r' (frag_packet_id f)"
      by (simp add: r' contains_packet_def map_of_remove)
    ultimately show ?thesis by blast
  qed
qed

lemma ingest_inner_error:
  assumes "reasm_inv r" and "decode_vpn_ip_fragment datagram = Inr f"
    and "ingest_inner r now datagram = (r', Inl e)"
  shows "r' = remove_packet r (frag_packet_id f)"
  using assms(1,2)
proof (cases rule: ingest_inner_outcome [where now = now])
  case (duplicate p)
  with assms(3) show ?thesis by (simp add: settle_partial_def)
next
  case (fresh p)
  with assms(3) show ?thesis by (auto simp: settle_partial_def split: if_splits)
qed (use assms(3) in simp)

text \<open>
  A fragment that \<open>ingest\<close> refuses takes its packet with it: after an error on a decodable
  fragment nothing of that packet is buffered any more, and every other unexpired packet is kept;
  after an error on an undecodable datagram exactly the unexpired packets are kept.
\<close>

lemma refused_fragment_drops_packet:
  assumes "reasm_inv r" and "reasm_ingest r now datagram = (r', Inl e)"
  shows "set (re_packets r') = {(k, p) \<in> set (re_packets r).
    now - pp_updated_at p < fragment_timeout (re_limits r) \<and>
    (\<forall>f. decode_vpn_ip_fragment datagram = Inr f \<longrightarrow> k \<noteq> frag_packet_id f)}"
proof -
  let ?e = "fst (reasm_expire (count_received r) now)"
  obtain r'' where i: "ingest_inner ?e now datagram = (r'', Inl e)" and r': "r' = record_ingest r'' (Inl e)"
    using reasm_ingest_inner [OF assms(2)] .
  have wf: "reasm_wf (count_received r)" using assms(1) by (simp add: reasm_inv_def)
  have inv: "reasm_inv ?e" using assms(1) by simp
  have young: "set (re_packets ?e) = {(k, p) \<in> set (re_packets r).
      now - pp_updated_at p < fragment_timeout (re_limits r)}"
    using expire_packets [OF wf, of now] by auto
  show ?thesis
  proof (cases "decode_vpn_ip_fragment datagram")
    case (Inl e')
    with i young r' show ?thesis by (simp add: ingest_inner_undecodable)
  next
    case (Inr f)
    have "r'' = remove_packet ?e (frag_packet_id f)"
      using ingest_inner_error [OF inv Inr i] .
    with young r' Inr show ?thesis by (auto simp: set_hm_remove)
  qed
qed

text \<open>
  \<open>expire\<close> removes exactly the packets that have not been updated for the fragment timeout,
  and returns how many they were.
\<close>

lemma expire_removes_stale:
  assumes "reasm_inv r" and "reasm_expire r now = (r', count)"
  shows "re_packets r' = filter (\<lambda>(_, p). now < pp_updated_at p + fragment_timeout (re_limits r)) (re_packets r) \<and>
    count + inflight_packets r' = inflight_packets r"
proof -
  have wf: "reasm_wf r" using assms(1) by (simp add: reasm_inv_def)
  then have pos: "0 < fragment_timeout (re_limits r)" by (simp add: reasm_wf_def limits_ok_def)
  have p: "re_packets r' = filter (\<lambda>e. now - pp_updated_at (snd e) < fragment_timeout (re_limits r)) (re_packets r)"
    using expire_packets [OF wf, of now] assms(2) by simp
  have c: "count = length (filter (\<lambda>e. \<not> now - pp_updated_at (snd e) < fragment_timeout (re_limits r)) (re_packets r))"
    using assms(2) by (auto simp: reasm_expire_def Let_def expired_ids_def split_def not_less)
  have "re_packets r' = filter (\<lambda>(_, p). now < pp_updated_at p + fragment_timeout (re_limits r)) (re_packets r)"
    unfolding p using pos by (intro filter_cong) auto
  moreover have "count + inflight_packets r' = inflight_packets r"
    unfolding inflight_packets_def p c by (subst add.commute) (rule sum_length_filter_compl)
  ultimately show ?thesis by simp
qed

section \<open>Eviction order\<close>

definition evicts_oldest :: "VpnReassembler \<Rightarrow> VpnReassembler \<Rightarrow> bool" where
  "evicts_oldest r r' \<longleftrightarrow> set (re_packets r') \<subseteq> set (re_packets r) \<and>
     (\<forall>v \<in> set (re_packets r) - set (re_packets r'). \<forall>e \<in> set (re_packets r').
        pp_updated_at (snd v) \<le> pp_updated_at (snd e))"

lemma evicts_oldest_refl [simp]: "evicts_oldest r r"
  by (simp add: evicts_oldest_def)

lemma evicts_oldest_trans: "evicts_oldest a b \<Longrightarrow> evicts_oldest b c \<Longrightarrow> evicts_oldest a c"
  unfolding evicts_oldest_def by blast

lemma evict_oldest_order:
  assumes "reasm_wf r" and "evict_oldest r = (r', evicted)"
  shows "evicts_oldest r r'"
proof (cases evicted)
  case False
  with evict_oldest_cases(2) [OF assms(2)] show ?thesis by simp
next
  case True
  then obtain e where e: "e \<in> set (re_packets r)" "r' = count_evicted (remove_packet r (fst e))"
    "\<forall>k \<in> set (re_packets r). pp_updated_at (snd e) \<le> pp_updated_at (snd k)"
    using evict_oldest_cases(5) [OF assms(2)] by blast
  have sub: "set (re_packets r') \<subseteq> set (re_packets r)" unfolding e(2) by (auto simp: set_hm_remove)
  have "v = e" if "v \<in> set (re_packets r)" "v \<notin> set (re_packets r')" for v
    using that e(1,2) assms(1)
    by (auto simp: set_hm_remove reasm_wf_def distinct_map inj_on_def)
  with e(3) sub show ?thesis unfolding evicts_oldest_def by blast
qed

lemma make_room_packets_order: "reasm_wf r \<Longrightarrow> evicts_oldest r (make_room_packets r)"
proof (induction r rule: make_room_packets.induct)
  case (1 r)
  obtain r' evicted where ev: "evict_oldest r = (r', evicted)" by force
  note first = evict_oldest_order [OF "1.prems" ev]
  show ?case
  proof (cases "length (re_packets r) \<ge> max_inflight_packets (re_limits r) \<and> evicted")
    case True
    then have "evicts_oldest r' (make_room_packets r')"
      using "1.IH" [OF _ ev [symmetric]] evict_oldest_cases(4) [OF ev "1.prems"] by simp
    with first have "evicts_oldest r (make_room_packets r')" by (rule evicts_oldest_trans)
    with True ev show ?thesis by (simp add: make_room_packets.simps [of r])
  next
    case False
    with ev first show ?thesis by (auto simp: make_room_packets.simps [of r])
  qed
qed

lemma make_room_bytes_order: "reasm_wf r \<Longrightarrow> evicts_oldest r (make_room_bytes r incoming)"
proof (induction r incoming rule: make_room_bytes.induct)
  case (1 r incoming)
  obtain r' evicted where ev: "evict_oldest r = (r', evicted)" by force
  note first = evict_oldest_order [OF "1.prems" ev]
  show ?case
  proof (cases "sat_add_usize (re_buffered_bytes r) incoming > max_buffered_bytes (re_limits r) \<and> evicted")
    case True
    then have "evicts_oldest r' (make_room_bytes r' incoming)"
      using "1.IH" [OF _ ev [symmetric]] evict_oldest_cases(4) [OF ev "1.prems"] by simp
    with first have "evicts_oldest r (make_room_bytes r' incoming)" by (rule evicts_oldest_trans)
    with True ev show ?thesis by (simp add: make_room_bytes.simps [of r])
  next
    case False
    with ev first show ?thesis by (auto simp: make_room_bytes.simps [of r])
  qed
qed

text \<open>
  Room is made oldest first, and none when it is not needed: a packet that survives
  \<open>make_room\<close> is at least as recent as every packet that was evicted, nothing is evicted when one more
  packet and its bytes already fit, and afterwards they do fit.
\<close>

lemma make_room_lru:
  assumes "reasm_wf r" and "incoming \<le> VPN_MAX_IP_PACKET_LEN"
  shows "evicts_oldest r (make_room r incoming) \<and>
    inflight_packets (make_room r incoming) < max_inflight_packets (re_limits r) \<and>
    re_buffered_bytes (make_room r incoming) + incoming \<le> max_buffered_bytes (re_limits r) \<and>
    (inflight_packets r < max_inflight_packets (re_limits r) \<and>
     re_buffered_bytes r + incoming \<le> max_buffered_bytes (re_limits r) \<longrightarrow> make_room r incoming = r)"
proof -
  have "evicts_oldest r (make_room r incoming)"
    unfolding make_room_def
    using evicts_oldest_trans [OF make_room_packets_order [OF assms(1)]]
      make_room_bytes_order make_room_packets_spec [OF assms(1)] by blast
  then show ?thesis using make_room_spec [OF assms(1)] assms(2) make_room_id by simp
qed

end
