(* ===== verification/Vpn_Data_Path.thy ===== *)
theory Vpn_Data_Path
  imports Vpn_Policy Vpn_Reassembler_History
begin

text \<open>
  The data path of one session (\<open>vpn_data_path.rs\<close>): the two reassemblers of a session, the
  accounting of their memory against the identity's limit and the global budget, and the
  operations that encode and ingest packets.  An operation takes the handle's state and the shared
  state it reaches through reference-counted pointers: the identity's rate limiter and the two
  sets of counters.  \<open>None\<close> is a panic.
\<close>

section \<open>State\<close>

record VpnDataPacket =
  data_packet_bytes :: bytes
  data_packet_metadata :: VpnIpPacketMeta

datatype VpnDataPathError =
    StaleGeneration | NegotiatedPacketTooLarge | Quota VpnQuotaRejection | Fragment VpnPacketError
  | Policy VpnDataPolicyError | ResourceAccountingInvariant

fun VpnDataPathError_display :: "VpnDataPathError \<Rightarrow> string" where
  "VpnDataPathError_display StaleGeneration = ''vpn_data_path_stale_generation''"
| "VpnDataPathError_display NegotiatedPacketTooLarge = ''vpn_data_path_negotiated_packet_too_large''"
| "VpnDataPathError_display (Quota e) = ''vpn_data_path_quota:'' @ VpnQuotaRejection_display e"
| "VpnDataPathError_display (Fragment e) = ''vpn_data_path_fragment:'' @ VpnPacketError_display e"
| "VpnDataPathError_display (Policy e) = ''vpn_data_path_policy:'' @ VpnDataPolicyError_display e"
| "VpnDataPathError_display ResourceAccountingInvariant = ''vpn_data_path_resource_accounting_invariant''"

record VpnDataPathState =
  path_active :: bool
  path_uplink :: VpnReassembler
  path_downlink :: VpnReassembler
  path_accounted_bytes :: usize
  path_accounted_packets :: usize

record VpnDataPathInner =
  inner_policy :: VpnDataPolicy
  inner_max_ip_packet_len :: usize
  inner_max_reassembly_bytes :: usize
  inner_session_generation :: u64
  inner_global_budget :: VpnGlobalReassemblyBudget
  inner_runtime_bound :: bool
  inner_state :: VpnDataPathState

record VpnPathShared =
  shared_rate :: IdentityRateState
  shared_quota :: VpnQuotaMetricCounters
  shared_policy :: VpnDataPolicyMetricCounters

record VpnDataPathSnapshot =
  path_snap_session_generation :: u64
  path_snap_active :: bool
  path_snap_buffered_reassembly_bytes :: usize
  path_snap_inflight_reassembly_packets :: usize
  path_snap_uplink_reassembly :: VpnReassemblyStats
  path_snap_downlink_reassembly :: VpnReassemblyStats

section \<open>The two reassemblers\<close>

definition path_reassembler :: "VpnDataPathState \<Rightarrow> VpnPacketDirection \<Rightarrow> VpnReassembler" where
  "path_reassembler st direction = (case direction of Uplink \<Rightarrow> path_uplink st | Downlink \<Rightarrow> path_downlink st)"

definition path_set_reassembler :: "VpnDataPathState \<Rightarrow> VpnPacketDirection \<Rightarrow> VpnReassembler \<Rightarrow> VpnDataPathState" where
  "path_set_reassembler st direction r =
     (case direction of Uplink \<Rightarrow> st\<lparr>path_uplink := r\<rparr> | Downlink \<Rightarrow> st\<lparr>path_downlink := r\<rparr>)"

definition path_buffered_bytes :: "VpnDataPathState \<Rightarrow> usize" where
  "path_buffered_bytes st =
     sat_add_usize (re_buffered_bytes (path_uplink st)) (re_buffered_bytes (path_downlink st))"

definition path_inflight_packets :: "VpnDataPathState \<Rightarrow> usize" where
  "path_inflight_packets st =
     sat_add_usize (inflight_packets (path_uplink st)) (inflight_packets (path_downlink st))"

definition path_usage :: "VpnDataPathState \<Rightarrow> usize \<times> usize" where
  "path_usage st = (path_buffered_bytes st, path_inflight_packets st)"

definition path_expire :: "VpnDataPathState \<Rightarrow> instant \<Rightarrow> VpnDataPathState" where
  "path_expire st now =
     st\<lparr>path_uplink := fst (reasm_expire (path_uplink st) now),
        path_downlink := fst (reasm_expire (path_downlink st) now)\<rparr>"

definition path_clear :: "VpnDataPathState \<Rightarrow> VpnDataPathState" where
  "path_clear st = st\<lparr>path_uplink := reasm_clear (path_uplink st), path_downlink := reasm_clear (path_downlink st)\<rparr>"

definition evict_in :: "VpnDataPathState \<Rightarrow> VpnPacketDirection \<Rightarrow> u32 \<Rightarrow> VpnDataPathState \<times> bool" where
  "evict_in st direction packet_id =
     (let (r, evicted) = evict_packet (path_reassembler st direction) packet_id
      in (path_set_reassembler st direction r, evicted))"

definition path_evict_oldest ::
  "VpnDataPathState \<Rightarrow> VpnPacketDirection \<Rightarrow> u32 \<Rightarrow> bool \<Rightarrow> VpnDataPathState \<times> bool" where
  "path_evict_oldest st direction packet_id existing_packet =
     (let uplink_excluded = then_some (direction = Uplink \<and> existing_packet) packet_id;
          downlink_excluded = then_some (direction = Downlink \<and> existing_packet) packet_id;
          uplink = oldest_packet_updated_at (path_uplink st) uplink_excluded;
          downlink = oldest_packet_updated_at (path_downlink st) downlink_excluded in
      case (uplink, downlink) of
        (Some (packet_id, _), None) \<Rightarrow> evict_in st Uplink packet_id
      | (None, Some (packet_id, _)) \<Rightarrow> evict_in st Downlink packet_id
      | (Some (uplink_id, uplink_at), Some (downlink_id, downlink_at)) \<Rightarrow>
          if uplink_at \<le> downlink_at then evict_in st Uplink uplink_id
          else evict_in st Downlink downlink_id
      | (None, None) \<Rightarrow> (st, False))"

abbreviation path_packets :: "VpnDataPathState \<Rightarrow> nat" where
  "path_packets st \<equiv> length (re_packets (path_uplink st)) + length (re_packets (path_downlink st))"

lemma oldest_packet_updated_at_mem:
  assumes "oldest_packet_updated_at r excluded = Some (packet_id, at)"
  shows "\<exists>p. (packet_id, p) \<in> set (re_packets r) \<and> pp_updated_at p = at \<and> Some packet_id \<noteq> excluded"
proof -
  obtain p where "min_by_key (\<lambda>(_, partial). pp_updated_at partial)
      (filter (\<lambda>(packet_id, _). Some packet_id \<noteq> excluded) (re_packets r)) = Some (packet_id, p)"
    and "pp_updated_at p = at"
    using assms by (auto simp: oldest_packet_updated_at_def)
  with min_by_key_Some show ?thesis by fastforce
qed

lemma evict_packet_shrinks:
  assumes "(packet_id, p) \<in> set (re_packets r)"
  shows "length (re_packets (fst (evict_packet r packet_id))) < length (re_packets r)"
    and "snd (evict_packet r packet_id)"
proof -
  have "map_of (re_packets r) packet_id \<noteq> None" using weak_map_of_SomeI [OF assms] by simp
  then show "length (re_packets (fst (evict_packet r packet_id))) < length (re_packets r)"
    and "snd (evict_packet r packet_id)"
    using hm_remove_shrinks [OF assms] by (auto simp: evict_packet_def)
qed

lemma path_evict_oldest_cases:
  assumes "path_evict_oldest st direction packet_id existing_packet = (st', evicted)"
  obtains (none) "\<not> evicted" and "st' = st"
      and "\<forall>(k, p) \<in> set (re_packets (path_uplink st)). direction = Uplink \<and> existing_packet \<and> k = packet_id"
      and "\<forall>(k, p) \<in> set (re_packets (path_downlink st)). direction = Downlink \<and> existing_packet \<and> k = packet_id"
  | (uplink) k p where "evicted" and "st' = st\<lparr>path_uplink := fst (evict_packet (path_uplink st) k)\<rparr>"
      and "(k, p) \<in> set (re_packets (path_uplink st))" and "\<not> (direction = Uplink \<and> existing_packet \<and> k = packet_id)"
  | (downlink) k p where "evicted" and "st' = st\<lparr>path_downlink := fst (evict_packet (path_downlink st) k)\<rparr>"
      and "(k, p) \<in> set (re_packets (path_downlink st))" and "\<not> (direction = Downlink \<and> existing_packet \<and> k = packet_id)"
proof -
  let ?u = "oldest_packet_updated_at (path_uplink st) (then_some (direction = Uplink \<and> existing_packet) packet_id)"
  let ?d = "oldest_packet_updated_at (path_downlink st) (then_some (direction = Downlink \<and> existing_packet) packet_id)"
  have up: thesis if u: "?u = Some (k, at)" and e: "evict_in st Uplink k = (st', evicted)" for k at
  proof -
    obtain p where p: "(k, p) \<in> set (re_packets (path_uplink st))"
      and k: "Some k \<noteq> then_some (direction = Uplink \<and> existing_packet) packet_id"
      using oldest_packet_updated_at_mem [OF u] by blast
    have "snd (evict_packet (path_uplink st) k)" using evict_packet_shrinks(2) [OF p] .
    with e k p show thesis
      by (intro uplink [of k p])
        (auto simp: evict_in_def path_reassembler_def path_set_reassembler_def then_some_def
          split: prod.splits if_splits)
  qed
  have down: thesis if u: "?d = Some (k, at)" and e: "evict_in st Downlink k = (st', evicted)" for k at
  proof -
    obtain p where p: "(k, p) \<in> set (re_packets (path_downlink st))"
      and k: "Some k \<noteq> then_some (direction = Downlink \<and> existing_packet) packet_id"
      using oldest_packet_updated_at_mem [OF u] by blast
    have "snd (evict_packet (path_downlink st) k)" using evict_packet_shrinks(2) [OF p] .
    with e k p show thesis
      by (intro downlink [of k p])
        (auto simp: evict_in_def path_reassembler_def path_set_reassembler_def then_some_def
          split: prod.splits if_splits)
  qed
  have excluded_only: "b \<and> k = packet_id" if "oldest_packet_updated_at r (then_some b packet_id) = None"
    and "(k, p) \<in> set (re_packets r)" for r b k p
    using that by (auto simp: oldest_packet_updated_at_def min_by_key_None filter_empty_conv then_some_def
        split: if_splits)
  consider "?u = None" "?d = None" | k at where "?u = Some (k, at)" "evict_in st Uplink k = (st', evicted)"
    | k at where "?d = Some (k, at)" "evict_in st Downlink k = (st', evicted)"
    using assms by (auto simp: path_evict_oldest_def Let_def split: option.splits if_splits)
  then show thesis
  proof cases
    case 1
    then have "(st', evicted) = (st, False)" using assms by (simp add: path_evict_oldest_def)
    moreover have "\<forall>(k, p) \<in> set (re_packets (path_uplink st)). direction = Uplink \<and> existing_packet \<and> k = packet_id"
      "\<forall>(k, p) \<in> set (re_packets (path_downlink st)). direction = Downlink \<and> existing_packet \<and> k = packet_id"
      by (auto dest: excluded_only [OF 1(1)] excluded_only [OF 1(2)])
    ultimately show thesis using none by simp
  qed (use up down in blast)+
qed

section \<open>Accounting\<close>

lemma path_evict_oldest_shrinks:
  "path_evict_oldest st direction packet_id existing_packet = (st', True) \<Longrightarrow> path_packets st' < path_packets st"
  by (erule path_evict_oldest_cases) (auto dest: evict_packet_shrinks(1))

text \<open>
  The loop of \<open>make_identity_room\<close>: every iteration that continues has evicted a packet.
\<close>

definition sum_exceeds :: "usize \<Rightarrow> usize \<Rightarrow> usize \<Rightarrow> bool" where
  "sum_exceeds current additional limit =
     (case checked_add_usize current additional of None \<Rightarrow> True | Some next_value \<Rightarrow> next_value > limit)"

function make_identity_room ::
  "usize \<Rightarrow> VpnDataPathState \<Rightarrow> VpnQuotaMetricCounters \<Rightarrow> VpnPacketDirection \<Rightarrow> u32 \<Rightarrow> bool \<Rightarrow> usize \<Rightarrow> usize \<Rightarrow>
   VpnDataPathState \<times> VpnQuotaMetricCounters \<times> (VpnQuotaRejection + unit)" where
  "make_identity_room byte_limit st m direction packet_id existing_packet additional_bytes additional_packets =
     (let count_exceeded = sum_exceeds (path_inflight_packets st) additional_packets VPN_DEFAULT_MAX_INFLIGHT_PACKETS;
          bytes_exceeded = sum_exceeds (path_buffered_bytes st) additional_bytes byte_limit in
      if \<not> count_exceeded \<and> \<not> bytes_exceeded then (st, m, Inr ())
      else case path_evict_oldest st direction packet_id existing_packet of
          (st', True) \<Rightarrow>
            make_identity_room byte_limit st' m direction packet_id existing_packet additional_bytes additional_packets
        | (st', False) \<Rightarrow>
            if count_exceeded then (st', record_identity_inflight_rejection m, Inl IdentityInflightLimit)
            else (st', record_identity_reassembly_rejection m, Inl IdentityReassemblyLimit))"
  by pat_completeness auto
termination
  by (relation "measure (\<lambda>(_, st, _). path_packets st)") (auto simp: path_evict_oldest_shrinks)

declare make_identity_room.simps [simp del]

definition reconcile_shrink ::
  "VpnDataPathState \<Rightarrow> VpnQuotaMetricCounters \<Rightarrow> (VpnDataPathState \<times> VpnQuotaMetricCounters \<times> bool) option" where
  "reconcile_shrink st m =
     (let (actual_bytes, actual_packets) = path_usage st in
      if actual_bytes > path_accounted_bytes st \<or> actual_packets > path_accounted_packets st
      then Some (st, m, False)
      else Option.bind (budget_release m (path_accounted_bytes st - actual_bytes)
                          (path_accounted_packets st - actual_packets)) (\<lambda>m.
           Some (st\<lparr>path_accounted_bytes := actual_bytes, path_accounted_packets := actual_packets\<rparr>, m, True)))"

definition release_all_accounted ::
  "VpnDataPathState \<Rightarrow> VpnQuotaMetricCounters \<Rightarrow> (VpnDataPathState \<times> VpnQuotaMetricCounters) option" where
  "release_all_accounted st m =
     Option.bind (budget_release m (path_accounted_bytes st) (path_accounted_packets st)) (\<lambda>m.
     Some (st\<lparr>path_accounted_bytes := 0, path_accounted_packets := 0\<rparr>, m))"

definition fail_accounting ::
  "VpnDataPathState \<Rightarrow> VpnQuotaMetricCounters \<Rightarrow>
   (VpnDataPathState \<times> VpnQuotaMetricCounters \<times> VpnDataPathError) option" where
  "fail_accounting st m =
     Option.bind (release_all_accounted (path_clear st) m) (\<lambda>(st, m). Some (st, m, ResourceAccountingInvariant))"

type_synonym 'a locked = "(VpnDataPathState \<times> VpnQuotaMetricCounters \<times> (VpnDataPathError + 'a)) option"

text \<open>\<open>if !self.reconcile_shrink(..) { return Err(self.fail_accounting(..)); }\<close>, and then go on.\<close>

definition shrink_or_fail ::
  "VpnDataPathState \<Rightarrow> VpnQuotaMetricCounters \<Rightarrow>
   (VpnDataPathState \<Rightarrow> VpnQuotaMetricCounters \<Rightarrow> 'a locked) \<Rightarrow> 'a locked" where
  "shrink_or_fail st m go_on =
     Option.bind (reconcile_shrink st m) (\<lambda>(st, m, ok).
       if ok then go_on st m
       else Option.bind (fail_accounting st m) (\<lambda>(st, m, e). Some (st, m, Inl e)))"

definition ingest_in ::
  "VpnDataPathState \<Rightarrow> VpnPacketDirection \<Rightarrow> instant \<Rightarrow> bytes \<Rightarrow>
   VpnDataPathState \<times> (VpnPacketError + bytes option)" where
  "ingest_in st direction now datagram =
     (let (r, result) = reasm_ingest (path_reassembler st direction) now datagram
      in (path_set_reassembler st direction r, result))"

text \<open>The reservation, the insertion and the reconciliation of \<open>ingest_datagram\<close>.\<close>

definition reserve_and_ingest ::
  "VpnDataPathInner \<Rightarrow> VpnPacketDirection \<Rightarrow> bytes \<Rightarrow> instant \<Rightarrow> usize \<Rightarrow> usize \<Rightarrow>
   VpnDataPathState \<Rightarrow> VpnQuotaMetricCounters \<Rightarrow> (VpnPacketError + bytes option) locked" where
  "reserve_and_ingest inner direction datagram now additional_bytes additional_packets st m =
     Option.bind (try_reserve (inner_global_budget inner) m additional_bytes additional_packets) (\<lambda>(m, reserved).
       case reserved of
         Inl e \<Rightarrow> Some (st, m, Inl (Quota e))
       | Inr reservation \<Rightarrow>
           let (st, result) = ingest_in st direction now datagram;
               (actual_bytes, actual_packets) = path_usage st in
           Option.bind (reconcile m reservation (path_accounted_bytes st) (path_accounted_packets st)
                          actual_bytes actual_packets) (\<lambda>(m, accounted_bytes, accounted_packets, ok).
           if \<not> ok then Option.bind (fail_accounting st m) (\<lambda>(st, m, e). Some (st, m, Inl e))
           else Some (st\<lparr>path_accounted_bytes := accounted_bytes, path_accounted_packets := accounted_packets\<rparr>,
                      m, Inr result)))"

text \<open>The branch of \<open>ingest_datagram\<close> for a fragment that adds bytes.\<close>

definition ingest_growing ::
  "VpnDataPathInner \<Rightarrow> VpnDataPathState \<Rightarrow> VpnQuotaMetricCounters \<Rightarrow> VpnPacketDirection \<Rightarrow> bytes \<Rightarrow> instant \<Rightarrow>
   VpnFragment \<Rightarrow> bool \<Rightarrow> usize \<Rightarrow> (VpnPacketError + bytes option) locked" where
  "ingest_growing inner st m direction datagram now fragment existing_packet additional_bytes =
     (let completes_packet = fragment_will_complete (path_reassembler st direction) fragment;
          (st, m, room) = make_identity_room (inner_max_reassembly_bytes inner) st m direction
            (frag_packet_id fragment) existing_packet
            (if completes_packet then 0 else additional_bytes)
            (if \<not> existing_packet \<and> \<not> completes_packet then 1 else 0) in
      case room of
        Inl e \<Rightarrow> Some (st, m, Inl (Quota e))
      | Inr _ \<Rightarrow>
          let additional_packets = (if \<not> existing_packet then 1 else 0) in
          shrink_or_fail st m (reserve_and_ingest inner direction datagram now additional_bytes additional_packets))"

text \<open>The part of \<open>ingest_datagram\<close> that follows expiry, up to the release of the lock.\<close>

definition ingest_expired ::
  "VpnDataPathInner \<Rightarrow> VpnPacketDirection \<Rightarrow> bytes \<Rightarrow> instant \<Rightarrow> VpnDataPathState \<Rightarrow> VpnQuotaMetricCounters \<Rightarrow>
   (VpnPacketError + bytes option) locked" where
  "ingest_expired inner direction datagram now st m =
     (case decode_vpn_ip_fragment datagram of
        Inl expected \<Rightarrow>
          let (st, actual) = ingest_in st direction now datagram in
          shrink_or_fail st m (\<lambda>st m.
            Some (st, m, Inl (Fragment (case actual of Inl e \<Rightarrow> e | Inr _ \<Rightarrow> expected))))
      | Inr fragment \<Rightarrow>
          if frag_total_len fragment > inner_max_ip_packet_len inner
          then shrink_or_fail
                 (path_set_reassembler st direction
                    (reject_decoded_fragment (path_reassembler st direction) (frag_packet_id fragment))) m
                 (\<lambda>st m. Some (st, m, Inl NegotiatedPacketTooLarge))
          else
            let existing_packet = contains_packet (path_reassembler st direction) (frag_packet_id fragment);
                additional_bytes = additional_buffered_bytes (path_reassembler st direction) fragment;
                unaccounted = (let (st, result) = ingest_in st direction now datagram in
                               shrink_or_fail st m (\<lambda>st m. Some (st, m, Inr result))) in
            (case additional_bytes of
               Inl _ \<Rightarrow> unaccounted
             | Inr additional_bytes \<Rightarrow>
                 if additional_bytes = 0 then unaccounted
                 else ingest_growing inner st m direction datagram now fragment existing_packet additional_bytes))"

definition ingest_locked ::
  "VpnDataPathInner \<Rightarrow> VpnDataPathState \<Rightarrow> VpnQuotaMetricCounters \<Rightarrow> VpnPacketDirection \<Rightarrow> bytes \<Rightarrow> instant \<Rightarrow>
   (VpnPacketError + bytes option) locked" where
  "ingest_locked inner st m direction datagram now =
     shrink_or_fail (path_expire st now) m (ingest_expired inner direction datagram now)"

section \<open>Operations of a handle\<close>

definition path_new_policy_inactive ::
  "VpnDataPolicy \<Rightarrow> VpnIdentityLimits \<Rightarrow> usize \<Rightarrow> u64 \<Rightarrow> VpnGlobalReassemblyBudget \<Rightarrow>
   VpnPacketError + VpnDataPathInner" where
  "path_new_policy_inactive policy limits max_ip_packet_len session_generation global_budget =
     (if \<not> (VPN_MIN_IP_PACKET_LEN \<le> max_ip_packet_len \<and> max_ip_packet_len \<le> VPN_MAX_IP_PACKET_LEN)
      then Inl InvalidReassemblyLimits
      else let max_reassembly_bytes = limit_max_reassembly_bytes limits;
               reassembly_limits = \<lparr>max_inflight_packets = VPN_DEFAULT_MAX_INFLIGHT_PACKETS,
                                    max_buffered_bytes = max_reassembly_bytes,
                                    fragment_timeout = VPN_DEFAULT_FRAGMENT_TIMEOUT\<rparr> in
        try_then (VpnReassembler_new reassembly_limits) (\<lambda>uplink.
        try_then (VpnReassembler_new reassembly_limits) (\<lambda>downlink.
        Inr \<lparr>inner_policy = policy, inner_max_ip_packet_len = max_ip_packet_len,
             inner_max_reassembly_bytes = max_reassembly_bytes,
             inner_session_generation = session_generation,
             inner_global_budget = global_budget, inner_runtime_bound = False,
             inner_state = \<lparr>path_active = False, path_uplink = uplink, path_downlink = downlink,
                            path_accounted_bytes = 0, path_accounted_packets = 0\<rparr>\<rparr>)))"

definition path_new_inactive ::
  "VpnIdentity \<Rightarrow> usize \<Rightarrow> u64 \<Rightarrow> VpnGlobalReassemblyBudget \<Rightarrow> VpnPacketError + VpnDataPathInner" where
  "path_new_inactive identity max_ip_packet_len session_generation global_budget =
     path_new_policy_inactive (identity_data_policy identity) (identity_limits identity)
       max_ip_packet_len session_generation global_budget"

definition encode_ip_packet ::
  "VpnDataPathInner \<Rightarrow> VpnPathShared \<Rightarrow> VpnPacketDirection \<Rightarrow> u32 \<Rightarrow> bytes \<Rightarrow> usize \<Rightarrow> instant \<Rightarrow>
   VpnPathShared \<times> (VpnDataPathError + bytes list)" where
  "encode_ip_packet inner env direction packet_id packet max_datagram_len now =
     (if \<not> path_active (inner_state inner)
      then (env\<lparr>shared_quota := record_stale_generation (shared_quota env)\<rparr>, Inl StaleGeneration)
      else if length packet > inner_max_ip_packet_len inner then (env, Inl NegotiatedPacketTooLarge)
      else case validate_vpn_ip_packet_policy (inner_policy inner) direction packet of
          Inl e \<Rightarrow>
            (env\<lparr>shared_policy := policy_record direction (length packet) (Inl e) (shared_policy env)\<rparr>, Inl (Policy e))
        | Inr metadata \<Rightarrow>
            (case encode_vpn_ip_fragments packet_id packet max_datagram_len of
               Inl e \<Rightarrow> (env, Inl (Fragment e))
             | Inr fragments \<Rightarrow>
                 let (rate, quota, admitted) =
                       admit_datagrams (shared_rate env) (shared_quota env) direction (map length fragments) now;
                     env = env\<lparr>shared_rate := rate, shared_quota := quota\<rparr> in
                 (case admitted of
                    Inl e \<Rightarrow> (env, Inl (Quota e))
                  | Inr _ \<Rightarrow>
                      (env\<lparr>shared_policy := policy_record direction (length packet) (Inr metadata) (shared_policy env)\<rparr>,
                       Inr fragments))))"

fun is_malformed_ip :: "VpnPacketError \<Rightarrow> bool" where
  "is_malformed_ip InvalidIpVersion = True"
| "is_malformed_ip InvalidIpv4Header = True"
| "is_malformed_ip InvalidIpv4Length = True"
| "is_malformed_ip InvalidIpv6Length = True"
| "is_malformed_ip Ipv6JumbogramUnsupported = True"
| "is_malformed_ip _ = False"

text \<open>What \<open>ingest_datagram\<close> makes of the reassembly result once it has released the lock.\<close>

definition finish_ingest ::
  "VpnDataPathInner \<Rightarrow> VpnDataPolicyMetricCounters \<Rightarrow> VpnPacketDirection \<Rightarrow> VpnPacketError + bytes option \<Rightarrow>
   VpnDataPolicyMetricCounters \<times> (VpnDataPathError + VpnDataPacket option)" where
  "finish_ingest inner pm direction result =
     (case result of
        Inr (Some packet) \<Rightarrow>
          let policy = validate_vpn_ip_packet_policy (inner_policy inner) direction packet in
          (policy_record direction (length packet) policy pm,
           try_then (map_err Policy policy) (\<lambda>metadata.
             Inr (Some \<lparr>data_packet_bytes = packet, data_packet_metadata = metadata\<rparr>)))
      | Inr None \<Rightarrow> (pm, Inr None)
      | Inl e \<Rightarrow> (if is_malformed_ip e then record_malformed_packet pm else pm, Inl (Fragment e)))"

definition ingest_datagram ::
  "VpnDataPathInner \<Rightarrow> VpnPathShared \<Rightarrow> VpnPacketDirection \<Rightarrow> bytes \<Rightarrow> instant \<Rightarrow>
   (VpnDataPathInner \<times> VpnPathShared \<times> (VpnDataPathError + VpnDataPacket option)) option" where
  "ingest_datagram inner env direction datagram now =
     (if \<not> path_active (inner_state inner)
      then Some (inner, env\<lparr>shared_quota := record_stale_generation (shared_quota env)\<rparr>, Inl StaleGeneration)
      else let (rate, quota, admitted) =
                 admit_datagram (shared_rate env) (shared_quota env) direction (length datagram) now;
               env = env\<lparr>shared_rate := rate, shared_quota := quota\<rparr> in
        case admitted of
          Inl e \<Rightarrow> Some (inner, env, Inl (Quota e))
        | Inr _ \<Rightarrow>
            Option.bind (ingest_locked inner (inner_state inner) (shared_quota env) direction datagram now) (\<lambda>(st, m, locked).
            let inner = inner\<lparr>inner_state := st\<rparr>; env = env\<lparr>shared_quota := m\<rparr> in
            case locked of
              Inl e \<Rightarrow> Some (inner, env, Inl e)
            | Inr result \<Rightarrow>
                let (pm, final) = finish_ingest inner (shared_policy env) direction result in
                Some (inner, env\<lparr>shared_policy := pm\<rparr>, final)))"

definition expire_reassembly ::
  "VpnDataPathInner \<Rightarrow> VpnPathShared \<Rightarrow> instant \<Rightarrow> (VpnDataPathInner \<times> VpnPathShared \<times> usize) option" where
  "expire_reassembly inner env now =
     (let before_packets = path_inflight_packets (inner_state inner) in
      Option.bind (shrink_or_fail (path_expire (inner_state inner) now) (shared_quota env)
                     (\<lambda>st m. Some (st, m, Inr ()))) (\<lambda>(st, m, _).
      Some (inner\<lparr>inner_state := st\<rparr>, env\<lparr>shared_quota := m\<rparr>, before_packets - path_inflight_packets st)))"

definition path_snapshot :: "VpnDataPathInner \<Rightarrow> VpnDataPathSnapshot" where
  "path_snapshot inner =
     (let st = inner_state inner in
      \<lparr>path_snap_session_generation = inner_session_generation inner,
       path_snap_active = path_active st,
       path_snap_buffered_reassembly_bytes = path_buffered_bytes st,
       path_snap_inflight_reassembly_packets = path_inflight_packets st,
       path_snap_uplink_reassembly = re_stats (path_uplink st),
       path_snap_downlink_reassembly = re_stats (path_downlink st)\<rparr>)"

definition path_activate :: "VpnDataPathInner \<Rightarrow> VpnDataPathInner" where
  "path_activate inner = inner\<lparr>inner_state := (inner_state inner)\<lparr>path_active := True\<rparr>\<rparr>"

definition path_deactivate ::
  "VpnDataPathInner \<Rightarrow> VpnQuotaMetricCounters \<Rightarrow> (VpnDataPathInner \<times> VpnQuotaMetricCounters) option" where
  "path_deactivate inner m =
     Option.bind (release_all_accounted (path_clear ((inner_state inner)\<lparr>path_active := False\<rparr>)) m) (\<lambda>(st, m).
     Some (inner\<lparr>inner_state := st\<rparr>, m))"

definition try_bind_runtime :: "VpnDataPathInner \<Rightarrow> VpnDataPathInner \<times> bool" where
  "try_bind_runtime inner =
     (if inner_runtime_bound inner then (inner, False) else (inner\<lparr>inner_runtime_bound := True\<rparr>, True))"

definition unbind_runtime :: "VpnDataPathInner \<Rightarrow> VpnDataPathInner" where
  "unbind_runtime inner = inner\<lparr>inner_runtime_bound := False\<rparr>"

definition path_drop :: "VpnDataPathInner \<Rightarrow> VpnQuotaMetricCounters \<Rightarrow> VpnQuotaMetricCounters option" where
  "path_drop inner m =
     budget_release m (path_accounted_bytes (inner_state inner)) (path_accounted_packets (inner_state inner))"

end
