(* ===== verification/Vpn_Accounting.thy ===== *)
theory Vpn_Accounting
  imports Vpn_Data_Path
begin

text \<open>
  The memory accounting of a data path: what every operation of \<open>vpn_data_path.rs\<close> keeps of the
  identity's limits, of the agreement between the handle's books and its reassemblers, and of the
  share of the global budget that belongs to other sessions.
\<close>

section \<open>The invariant\<close>

abbreviation path_bytes :: "VpnDataPathState \<Rightarrow> nat" where
  "path_bytes st \<equiv> re_buffered_bytes (path_uplink st) + re_buffered_bytes (path_downlink st)"

definition path_limits :: "VpnDataPathInner \<Rightarrow> VpnReassemblyLimits" where
  "path_limits inner =
     \<lparr>max_inflight_packets = VPN_DEFAULT_MAX_INFLIGHT_PACKETS,
      max_buffered_bytes = inner_max_reassembly_bytes inner,
      fragment_timeout = VPN_DEFAULT_FRAGMENT_TIMEOUT\<rparr>"

definition path_wf :: "VpnDataPathInner \<Rightarrow> VpnDataPathState \<Rightarrow> bool" where
  "path_wf inner st \<longleftrightarrow> reasm_inv (path_uplink st) \<and> reasm_inv (path_downlink st) \<and>
     re_limits (path_uplink st) = path_limits inner \<and> re_limits (path_downlink st) = path_limits inner"

text \<open>Within the identity's limits, both directions together.\<close>

definition path_fits :: "VpnDataPathInner \<Rightarrow> VpnDataPathState \<Rightarrow> bool" where
  "path_fits inner st \<longleftrightarrow> path_wf inner st \<and> path_bytes st \<le> inner_max_reassembly_bytes inner \<and>
     path_packets st \<le> VPN_DEFAULT_MAX_INFLIGHT_PACKETS"

definition covered :: "VpnDataPathState \<Rightarrow> bool" where
  "covered st \<longleftrightarrow> path_bytes st \<le> path_accounted_bytes st \<and> path_packets st \<le> path_accounted_packets st"

definition exact :: "VpnDataPathState \<Rightarrow> bool" where
  "exact st \<longleftrightarrow> path_accounted_bytes st = path_bytes st \<and> path_accounted_packets st = path_packets st"

text \<open>
  The global counters are the handle's accounted share plus the share of all others, and stay
  within the budget.
\<close>

definition books ::
  "VpnGlobalReassemblyBudget \<Rightarrow> nat \<times> nat \<Rightarrow> VpnDataPathState \<Rightarrow> VpnQuotaMetricCounters \<Rightarrow> bool" where
  "books b others st m \<longleftrightarrow>
     current_reassembly_bytes m = path_accounted_bytes st + fst others \<and>
     active_reassembly_packets m = path_accounted_packets st + snd others \<and>
     current_reassembly_bytes m \<le> budget_byte_limit b \<and> active_reassembly_packets m \<le> budget_packet_limit b \<and>
     budget_byte_limit b \<le> usize_max \<and> budget_packet_limit b \<le> usize_max"

definition settled ::
  "VpnDataPathInner \<Rightarrow> nat \<times> nat \<Rightarrow> VpnDataPathState \<Rightarrow> VpnQuotaMetricCounters \<Rightarrow> bool" where
  "settled inner others st m \<longleftrightarrow>
     path_fits inner st \<and> exact st \<and> books (inner_global_budget inner) others st m"

lemma path_usage_eq:
  assumes "path_fits inner st"
  shows "path_buffered_bytes st = path_bytes st" and "path_inflight_packets st = path_packets st"
proof -
  have "inner_max_reassembly_bytes inner < usize_max"
    using assms by (auto simp: path_fits_def path_wf_def reasm_inv_def reasm_wf_def limits_ok_def path_limits_def)
  with assms show "path_buffered_bytes st = path_bytes st" and "path_inflight_packets st = path_packets st"
    by (simp_all add: path_fits_def path_buffered_bytes_def path_inflight_packets_def sat_add_usize_def
        inflight_packets_def VPN_DEFAULT_MAX_INFLIGHT_PACKETS_def usize_max_def)
qed

lemma path_limit_bounds:
  assumes "path_wf inner st"
  shows "65535 \<le> inner_max_reassembly_bytes inner" and "inner_max_reassembly_bytes inner < usize_max"
  using assms
  by (auto simp: path_wf_def reasm_inv_def reasm_wf_def limits_ok_def path_limits_def VPN_MAX_IP_PACKET_LEN_def)

section \<open>Settling the books\<close>

definition balance :: "VpnDataPathState \<Rightarrow> VpnDataPathState" where
  "balance st = st\<lparr>path_accounted_bytes := path_bytes st, path_accounted_packets := path_packets st\<rparr>"

lemma balance_simps [simp]:
  "path_uplink (balance st) = path_uplink st" "path_downlink (balance st) = path_downlink st"
  "path_active (balance st) = path_active st" "path_reassembler (balance st) direction = path_reassembler st direction"
  "path_fits inner (balance st) = path_fits inner st" "exact (balance st)"
  by (simp_all add: balance_def path_reassembler_def path_fits_def path_wf_def exact_def
      split: VpnPacketDirection.splits)

lemma shrink_or_fail_settles:
  assumes "path_fits inner st" and "covered st" and "books (inner_global_budget inner) others st m"
  obtains m' where "shrink_or_fail st m k = k (balance st) m'" and "settled inner others (balance st) m'"
proof -
  let ?m = "m\<lparr>current_reassembly_bytes := current_reassembly_bytes m - (path_accounted_bytes st - path_bytes st),
    active_reassembly_packets := active_reassembly_packets m - (path_accounted_packets st - path_packets st)\<rparr>"
  have "reconcile_shrink st m = Some (balance st, ?m, True)"
    using assms(2,3) budget_release_eq [of "path_accounted_bytes st - path_bytes st" m
        "path_accounted_packets st - path_packets st"]
    by (simp add: reconcile_shrink_def path_usage_def path_usage_eq [OF assms(1)] covered_def books_def balance_def)
  then have "shrink_or_fail st m k = k (balance st) ?m" by (simp add: shrink_or_fail_def)
  moreover have "books (inner_global_budget inner) others (balance st) ?m"
    using assms(2,3) by (auto simp: books_def covered_def balance_def)
  then have "settled inner others (balance st) ?m" using assms(1) by (simp add: settled_def)
  ultimately show thesis by (rule that)
qed

section \<open>Changes to the reassemblers\<close>

text \<open>\<open>path_shrunk st' st\<close>: same books, and no entry that \<open>st\<close> does not have.\<close>

definition path_shrunk :: "VpnDataPathState \<Rightarrow> VpnDataPathState \<Rightarrow> bool" where
  "path_shrunk st' st \<longleftrightarrow> shrunk (path_uplink st') (path_uplink st) \<and> shrunk (path_downlink st') (path_downlink st) \<and>
     path_accounted_bytes st' = path_accounted_bytes st \<and> path_accounted_packets st' = path_accounted_packets st \<and>
     path_active st' = path_active st"

lemma path_shrunk_refl [simp]: "path_shrunk st st"
  by (simp add: path_shrunk_def)

lemma path_shrunk_trans: "path_shrunk a b \<Longrightarrow> path_shrunk b c \<Longrightarrow> path_shrunk a c"
  by (auto simp: path_shrunk_def intro: shrunk_trans)

lemma path_shrunk_keeps:
  assumes "path_shrunk st' st" and "path_wf inner st'" and "path_fits inner st"
  shows "path_fits inner st'" and "path_bytes st' \<le> path_bytes st" and "path_packets st' \<le> path_packets st"
    and "covered st \<Longrightarrow> covered st'" and "books b others st' m \<longleftrightarrow> books b others st m"
proof -
  have u: "re_buffered_bytes (path_uplink st') \<le> re_buffered_bytes (path_uplink st)"
    "inflight_packets (path_uplink st') \<le> inflight_packets (path_uplink st)"
    using assms shrunk_usage [of "path_uplink st'" "path_uplink st"]
    by (simp_all add: path_shrunk_def path_wf_def path_fits_def reasm_inv_def)
  have d: "re_buffered_bytes (path_downlink st') \<le> re_buffered_bytes (path_downlink st)"
    "inflight_packets (path_downlink st') \<le> inflight_packets (path_downlink st)"
    using assms shrunk_usage [of "path_downlink st'" "path_downlink st"]
    by (simp_all add: path_shrunk_def path_wf_def path_fits_def reasm_inv_def)
  show b: "path_bytes st' \<le> path_bytes st" and p: "path_packets st' \<le> path_packets st"
    using u d by (simp_all add: inflight_packets_def)
  show "path_fits inner st'" using assms b p by (simp add: path_fits_def)
  show "covered st \<Longrightarrow> covered st'" and "books b others st' m \<longleftrightarrow> books b others st m"
    using assms(1) b p by (simp_all add: path_shrunk_def covered_def books_def)
qed

lemma path_expire_shrunk:
  assumes "path_wf inner st"
  shows "path_shrunk (path_expire st now) st" and "path_wf inner (path_expire st now)"
  using assms by (simp_all add: path_shrunk_def path_expire_def path_wf_def)

lemma expired_ids_shrunk: "shrunk r' r \<Longrightarrow> expired_ids r now = [] \<Longrightarrow> expired_ids r' now = []"
  by (force simp: shrunk_def expired_ids_def filter_empty_conv)

lemma expired_ids_expire: "reasm_wf r \<Longrightarrow> expired_ids (fst (reasm_expire r now)) now = []"
  using expire_packets [of r now] by (auto simp: expired_ids_def filter_empty_conv)

definition fresh_at :: "instant \<Rightarrow> VpnDataPathState \<Rightarrow> bool" where
  "fresh_at now st \<longleftrightarrow> expired_ids (path_uplink st) now = [] \<and> expired_ids (path_downlink st) now = []"

lemma fresh_at_shrunk: "path_shrunk st' st \<Longrightarrow> fresh_at now st \<Longrightarrow> fresh_at now st'"
  using expired_ids_shrunk by (auto simp: path_shrunk_def fresh_at_def)

lemma fresh_at_expire: "path_wf inner st \<Longrightarrow> fresh_at now (path_expire st now)"
  by (simp add: fresh_at_def path_expire_def path_wf_def reasm_inv_def expired_ids_expire)

lemma path_reassembler_wf:
  "path_wf inner st \<Longrightarrow> reasm_inv (path_reassembler st direction) \<and>
     re_limits (path_reassembler st direction) = path_limits inner"
  by (cases direction) (simp_all add: path_reassembler_def path_wf_def)

lemma path_set_reassembler_simps [simp]:
  "path_accounted_bytes (path_set_reassembler st direction r) = path_accounted_bytes st"
  "path_accounted_packets (path_set_reassembler st direction r) = path_accounted_packets st"
  "path_active (path_set_reassembler st direction r) = path_active st"
  "path_reassembler (path_set_reassembler st direction r) direction = r"
  by (simp_all add: path_set_reassembler_def path_reassembler_def split: VpnPacketDirection.splits)

lemma path_set_reassembler_wf:
  "path_wf inner st \<Longrightarrow> reasm_inv r \<Longrightarrow> re_limits r = path_limits inner \<Longrightarrow>
     path_wf inner (path_set_reassembler st direction r)"
  by (cases direction) (simp_all add: path_set_reassembler_def path_wf_def)

lemma path_set_reassembler_usage:
  "path_bytes (path_set_reassembler st direction r) + re_buffered_bytes (path_reassembler st direction) =
     path_bytes st + re_buffered_bytes r"
  "path_packets (path_set_reassembler st direction r) + inflight_packets (path_reassembler st direction) =
     path_packets st + inflight_packets r"
  by (simp_all add: path_set_reassembler_def path_reassembler_def inflight_packets_def
      split: VpnPacketDirection.splits)

lemma path_set_reassembler_shrunk:
  "shrunk r (path_reassembler st direction) \<Longrightarrow> path_shrunk (path_set_reassembler st direction r) st"
  by (simp add: path_shrunk_def path_set_reassembler_def path_reassembler_def split: VpnPacketDirection.splits)

section \<open>Room for a fragment\<close>

lemma query_cong_entry:
  assumes "map_of (re_packets r) (frag_packet_id f) = map_of (re_packets r') (frag_packet_id f)"
  shows "additional_buffered_bytes r f = additional_buffered_bytes r' f"
    and "fragment_will_complete r f = fragment_will_complete r' f"
    and "contains_packet r (frag_packet_id f) = contains_packet r' (frag_packet_id f)"
  using assms by (simp_all add: additional_buffered_bytes_def contains_packet_def fragment_will_complete_def)

text \<open>A fragment never takes a packet beyond the length its header announces.\<close>

lemma growth_bound:
  assumes "reasm_inv r" and "decode_vpn_ip_fragment datagram = Inr f"
    and "additional_buffered_bytes r f = Inr n" and "0 < n"
  shows "(case map_of (re_packets r) (frag_packet_id f) of None \<Rightarrow> 0 | Some p \<Rightarrow> pp_received_bytes p) + n \<le> 65535"
  using assms(1,2)
proof (cases rule: ingest_inner_outcome [where now = 0])
  case (fresh p)
  then show ?thesis
    using partial_ok_bytes [OF fresh(4)] assms(3)
    by (auto simp: add_fragment_def partial_for_def PartialPacket_new_def split: option.splits)
qed (use assms in auto)

lemma unchanged_without_growth:
  assumes "reasm_inv r" and "decode_vpn_ip_fragment datagram = Inr f"
    and "additional_buffered_bytes r f = Inr 0 \<or> additional_buffered_bytes r f = Inl e"
  shows "contains_packet r (frag_packet_id f)"
  using assms(1,2)
proof (cases rule: ingest_inner_outcome [where now = 0])
  case (fresh p)
  then show ?thesis using assms(3) decode_vpn_ip_fragment_ok [OF assms(2)] by (auto simp: fragment_ok_def)
qed (auto simp: contains_packet_def)

lemma only_key_usage:
  assumes "reasm_wf r" and "\<forall>(k, p) \<in> set (re_packets r). k = packet_id"
  shows "re_buffered_bytes r =
      (case map_of (re_packets r) packet_id of None \<Rightarrow> 0 | Some p \<Rightarrow> pp_received_bytes p)"
    and "length (re_packets r) = (case map_of (re_packets r) packet_id of None \<Rightarrow> 0 | Some p \<Rightarrow> 1)"
proof -
  have "hm_wf (re_packets r)" and b: "re_buffered_bytes r = hm_total pp_received_bytes (re_packets r)"
    using assms(1) by (simp_all add: reasm_wf_def)
  with assms(2) have "re_packets r = [] \<or> (\<exists>p. re_packets r = [(packet_id, p)])"
    by (cases "re_packets r"; cases "tl (re_packets r)") auto
  then show "re_buffered_bytes r =
      (case map_of (re_packets r) packet_id of None \<Rightarrow> 0 | Some p \<Rightarrow> pp_received_bytes p)"
    and "length (re_packets r) = (case map_of (re_packets r) packet_id of None \<Rightarrow> 0 | Some p \<Rightarrow> 1)"
    using b by auto
qed

text \<open>
  One eviction keeps the packet that is being extended; when nothing else can be evicted, only that
  packet is left.
\<close>

definition entry :: "VpnDataPathState \<Rightarrow> VpnPacketDirection \<Rightarrow> u32 \<Rightarrow> PartialPacket option" where
  "entry st direction packet_id = map_of (re_packets (path_reassembler st direction)) packet_id"

lemma evict_packet_facts:
  assumes "reasm_inv r"
  shows "shrunk (fst (evict_packet r k)) r" and "reasm_inv (fst (evict_packet r k))"
    and "re_limits (fst (evict_packet r k)) = re_limits r"
    and "map_of (re_packets (fst (evict_packet r k))) = (map_of (re_packets r))(k := None)"
  using assms evict_packet_inv [OF assms, of k] by (auto simp: evict_packet_def)

lemma path_evict_oldest_keeps:
  assumes "path_wf inner st" and "path_evict_oldest st direction packet_id existing = (st', True)"
    and "existing \<longleftrightarrow> entry st direction packet_id \<noteq> None"
  shows "path_wf inner st'" and "path_shrunk st' st" and "entry st' direction packet_id = entry st direction packet_id"
proof -
  have inv: "reasm_inv (path_uplink st)" "reasm_inv (path_downlink st)"
    using assms(1) by (simp_all add: path_wf_def)
  note u = evict_packet_facts [OF inv(1)] and d = evict_packet_facts [OF inv(2)]
  from assms(2) show "path_wf inner st'"
    by (cases rule: path_evict_oldest_cases) (use assms(1) u d in \<open>auto simp: path_wf_def\<close>)
  from assms(2) show "path_shrunk st' st"
    by (cases rule: path_evict_oldest_cases) (use u d in \<open>auto simp: path_shrunk_def\<close>)
  from assms(2) show "entry st' direction packet_id = entry st direction packet_id"
    by (cases rule: path_evict_oldest_cases)
      (use assms(3) u d in \<open>auto simp: entry_def path_reassembler_def split: VpnPacketDirection.splits\<close>)
qed

lemma path_evict_oldest_exhausted:
  assumes "path_wf inner st" and "path_evict_oldest st direction packet_id existing = (st', False)"
  shows "path_bytes st = (case entry st direction packet_id of None \<Rightarrow> 0 | Some p \<Rightarrow> pp_received_bytes p)"
    and "path_packets st = (case entry st direction packet_id of None \<Rightarrow> 0 | Some p \<Rightarrow> 1)"
proof -
  have wf: "reasm_wf (path_uplink st)" "reasm_wf (path_downlink st)"
    using assms(1) by (simp_all add: path_wf_def reasm_inv_def)
  have only: "\<forall>(k, p) \<in> set (re_packets (path_uplink st)). direction = Uplink \<and> k = packet_id"
    "\<forall>(k, p) \<in> set (re_packets (path_downlink st)). direction = Downlink \<and> k = packet_id"
    using assms(2) by (cases rule: path_evict_oldest_cases; fastforce)+
  have empty: "re_buffered_bytes r = 0 \<and> re_packets r = []" if "reasm_wf r" "set (re_packets r) = {}" for r
    using that by (simp add: reasm_wf_def)
  have "path_bytes st = (case entry st direction packet_id of None \<Rightarrow> 0 | Some p \<Rightarrow> pp_received_bytes p) \<and>
    path_packets st = (case entry st direction packet_id of None \<Rightarrow> 0 | Some p \<Rightarrow> 1)"
  proof (cases direction)
    case Uplink
    then have "\<forall>(k, p) \<in> set (re_packets (path_uplink st)). k = packet_id" using only by auto
    moreover have "set (re_packets (path_downlink st)) = {}"
      using only Uplink by (cases "re_packets (path_downlink st)") auto
    ultimately show ?thesis
      using only_key_usage [OF wf(1)] empty [OF wf(2)] Uplink by (simp add: entry_def path_reassembler_def)
  next
    case Downlink
    then have "\<forall>(k, p) \<in> set (re_packets (path_downlink st)). k = packet_id" using only by auto
    moreover have "set (re_packets (path_uplink st)) = {}"
      using only Downlink by (cases "re_packets (path_uplink st)") auto
    ultimately show ?thesis
      using only_key_usage [OF wf(2)] empty [OF wf(1)] Downlink by (simp add: entry_def path_reassembler_def)
  qed
  then show "path_bytes st = (case entry st direction packet_id of None \<Rightarrow> 0 | Some p \<Rightarrow> pp_received_bytes p)"
    and "path_packets st = (case entry st direction packet_id of None \<Rightarrow> 0 | Some p \<Rightarrow> 1)" by simp_all
qed

text \<open>
  So \<open>make_identity_room\<close> always succeeds: its two rejections are unreachable for a path within its
  limits.
\<close>

lemma sum_exceeds_eq: "limit \<le> usize_max \<Longrightarrow> sum_exceeds current additional limit \<longleftrightarrow> limit < current + additional"
  by (auto simp: sum_exceeds_def checked_add_usize_def)

lemma make_identity_room_succeeds:
  assumes "path_fits inner st" and "existing \<longleftrightarrow> entry st direction packet_id \<noteq> None"
    and "(case entry st direction packet_id of None \<Rightarrow> 0 | Some p \<Rightarrow> pp_received_bytes p) + more_bytes \<le> 65535"
    and "(case entry st direction packet_id of None \<Rightarrow> 0 | Some p \<Rightarrow> 1) + more_packets \<le> 1"
  shows "\<exists>st'. make_identity_room (inner_max_reassembly_bytes inner) st m direction packet_id existing
      more_bytes more_packets = (st', m, Inr ()) \<and>
    path_fits inner st' \<and> path_shrunk st' st \<and> entry st' direction packet_id = entry st direction packet_id \<and>
    path_bytes st' + more_bytes \<le> inner_max_reassembly_bytes inner \<and>
    path_packets st' + more_packets \<le> VPN_DEFAULT_MAX_INFLIGHT_PACKETS"
  using assms
proof (induction "path_packets st" arbitrary: st rule: less_induct)
  case less
  let ?limit = "inner_max_reassembly_bytes inner"
  have wf: "path_wf inner st" using less.prems(1) by (simp add: path_fits_def)
  note lim = path_limit_bounds [OF wf]
  note unfolded = make_identity_room.simps [of ?limit st m direction packet_id existing more_bytes more_packets]
  have count: "sum_exceeds (path_inflight_packets st) more_packets VPN_DEFAULT_MAX_INFLIGHT_PACKETS \<longleftrightarrow>
      VPN_DEFAULT_MAX_INFLIGHT_PACKETS < path_packets st + more_packets"
    and bytes: "sum_exceeds (path_buffered_bytes st) more_bytes ?limit \<longleftrightarrow> ?limit < path_bytes st + more_bytes"
    using lim path_usage_eq [OF less.prems(1)]
    by (simp_all add: sum_exceeds_eq VPN_DEFAULT_MAX_INFLIGHT_PACKETS_def usize_max_def)
  show ?case
  proof (cases "VPN_DEFAULT_MAX_INFLIGHT_PACKETS < path_packets st + more_packets \<or> ?limit < path_bytes st + more_bytes")
    case False
    then show ?thesis using less.prems(1) unfolded count bytes by simp
  next
    case True
    obtain st' evicted where e: "path_evict_oldest st direction packet_id existing = (st', evicted)" by fastforce
    have evicted
    proof (rule ccontr)
      assume "\<not> evicted"
      with e have "path_evict_oldest st direction packet_id existing = (st', False)" by simp
      from path_evict_oldest_exhausted [OF wf this] True less.prems(3,4) lim(1) show False
        by (simp add: VPN_DEFAULT_MAX_INFLIGHT_PACKETS_def)
    qed
    with e have e: "path_evict_oldest st direction packet_id existing = (st', True)" by simp
    note k = path_evict_oldest_keeps [OF wf e less.prems(2)]
    have fits: "path_fits inner st'" using path_shrunk_keeps(1) [OF k(2,1) less.prems(1)] .
    have "make_identity_room ?limit st m direction packet_id existing more_bytes more_packets =
        make_identity_room ?limit st' m direction packet_id existing more_bytes more_packets"
      using True unfolded count bytes e by auto
    with less.hyps [OF path_evict_oldest_shrinks [OF e] fits] less.prems(2-4) k
    show ?thesis by (auto intro: path_shrunk_trans)
  qed
qed

section \<open>Ingesting one datagram\<close>

definition unreachable_errors :: "VpnDataPathError set" where
  "unreachable_errors = {ResourceAccountingInvariant, Quota IdentityReassemblyLimit, Quota IdentityInflightLimit}"

definition expected_result :: "VpnDataPathInner \<Rightarrow> VpnDataPathError + VpnPacketError + bytes option \<Rightarrow> bool" where
  "expected_result inner result =
     (case result of
        Inl e \<Rightarrow> e \<notin> unreachable_errors
      | Inr (Inr (Some packet)) \<Rightarrow>
          length packet \<le> inner_max_ip_packet_len inner \<and> (\<exists>meta. inspect_vpn_ip_packet packet = Inr meta)
      | Inr _ \<Rightarrow> True)"

text \<open>The run returns, with the books settled and one of the expected results.\<close>

definition settles ::
  "VpnDataPathInner \<Rightarrow> nat \<times> nat \<Rightarrow> bool \<Rightarrow> (VpnPacketError + bytes option) locked \<Rightarrow> bool" where
  "settles inner others active run =
     (\<exists>st m result. run = Some (st, m, result) \<and> settled inner others st m \<and> path_active st = active \<and>
        expected_result inner result)"

lemma settles_now:
  "settled inner others st m \<Longrightarrow> expected_result inner result \<Longrightarrow> path_active st = active \<Longrightarrow>
     settles inner others active (Some (st, m, result))"
  by (simp add: settles_def)

lemma settles_after_shrink:
  assumes "path_fits inner st" and "covered st" and "books (inner_global_budget inner) others st m"
    and "expected_result inner result" and "path_active st = active"
  shows "settles inner others active (shrink_or_fail st m (\<lambda>st m. Some (st, m, result)))"
proof -
  obtain m' where "shrink_or_fail st m (\<lambda>st m. Some (st, m, result)) = Some (balance st, m', result)"
    and "settled inner others (balance st) m'"
    using shrink_or_fail_settles [OF assms(1-3)] .
  with assms(4,5) show ?thesis by (simp add: settles_def)
qed

lemma ingest_in_wf:
  assumes "path_wf inner st" and "ingest_in st direction now datagram = (st', result)"
  shows "path_wf inner st'" and "path_accounted_bytes st' = path_accounted_bytes st"
    and "path_accounted_packets st' = path_accounted_packets st" and "path_active st' = path_active st"
    and "books b others st' m \<longleftrightarrow> books b others st m"
proof -
  obtain r where r: "reasm_ingest (path_reassembler st direction) now datagram = (r, result)"
    and st': "st' = path_set_reassembler st direction r"
    using assms(2) by (auto simp: ingest_in_def split: prod.splits)
  have "reasm_inv r" and "re_limits r = path_limits inner"
    using reasm_ingest_inv [OF _ r] path_reassembler_wf [OF assms(1), of direction] by simp_all
  then show "path_wf inner st'" using path_set_reassembler_wf [OF assms(1)] st' by simp
  show "path_accounted_bytes st' = path_accounted_bytes st"
    and "path_accounted_packets st' = path_accounted_packets st" and "path_active st' = path_active st"
    and "books b others st' m \<longleftrightarrow> books b others st m"
    by (simp_all add: st' books_def)
qed

lemma ingest_in_shrinks:
  assumes "path_fits inner st" and "ingest_in st direction now datagram = (st', result)"
    and "reasm_ingest (path_reassembler st direction) now datagram = (r, result)"
    and "re_buffered_bytes r \<le> re_buffered_bytes (path_reassembler st direction) \<and>
      inflight_packets r \<le> inflight_packets (path_reassembler st direction)"
  shows "path_fits inner st'" and "covered st \<Longrightarrow> covered st'"
proof -
  have wf: "path_wf inner st" using assms(1) by (simp add: path_fits_def)
  have st': "st' = path_set_reassembler st direction r" using assms(2,3) by (simp add: ingest_in_def)
  have b: "path_bytes st' \<le> path_bytes st" and p: "path_packets st' \<le> path_packets st"
    using assms(4) path_set_reassembler_usage [of st direction r] by (simp_all add: st')
  show "path_fits inner st'" using ingest_in_wf(1) [OF wf assms(2)] assms(1) b p by (simp add: path_fits_def)
  show "covered st \<Longrightarrow> covered st'" using ingest_in_wf(2,3) [OF wf assms(2)] b p by (simp add: covered_def)
qed

lemma reasm_ingest_undecodable_usage:
  assumes "reasm_inv r" and "decode_vpn_ip_fragment datagram = Inl e" and "reasm_ingest r now datagram = (r', result)"
  shows "re_buffered_bytes r' \<le> re_buffered_bytes r \<and> inflight_packets r' \<le> inflight_packets r"
    and "result = Inl e"
proof -
  let ?e = "fst (reasm_expire (count_received r) now)"
  obtain r'' where i: "ingest_inner ?e now datagram = (r'', result)" and r': "r' = record_ingest r'' result"
    using reasm_ingest_inner [OF assms(3)] .
  have "r'' = ?e" and "result = Inl e" using i ingest_inner_undecodable [OF assms(2), of ?e now] by auto
  moreover have "reasm_wf r" using assms(1) by (simp add: reasm_inv_def)
  then have "re_buffered_bytes ?e \<le> re_buffered_bytes r" "inflight_packets ?e \<le> inflight_packets r"
    using shrunk_usage [OF expire_shrunk, of "count_received r" now] by simp_all
  ultimately show "re_buffered_bytes r' \<le> re_buffered_bytes r \<and> inflight_packets r' \<le> inflight_packets r"
    and "result = Inl e" using r' by simp_all
qed

lemma reasm_ingest_no_growth:
  assumes "reasm_inv r" and "decode_vpn_ip_fragment datagram = Inr f" and "expired_ids r now = []"
    and "additional_buffered_bytes r f = Inr 0 \<or> additional_buffered_bytes r f = Inl e"
    and "reasm_ingest r now datagram = (r', result)"
  shows "re_buffered_bytes r' \<le> re_buffered_bytes r \<and> inflight_packets r' \<le> inflight_packets r"
  using reasm_ingest_usage [OF assms(1,2,5,3)] unchanged_without_growth [OF assms(1,2,4)] assms(4) by auto

lemma ingest_in_expected:
  assumes "path_wf inner st" and "decode_vpn_ip_fragment datagram = Inr f"
    and "frag_total_len f \<le> inner_max_ip_packet_len inner"
    and "ingest_in st direction now datagram = (st', result)"
  shows "expected_result inner (Inr result)"
proof -
  let ?r = "path_reassembler st direction"
  have inv: "reasm_inv ?r" using path_reassembler_wf [OF assms(1)] by simp
  obtain r where r: "reasm_ingest ?r now datagram = (r, result)"
    using assms(4) by (auto simp: ingest_in_def split: prod.splits)
  obtain r'' where i: "ingest_inner (fst (reasm_expire (count_received ?r) now)) now datagram = (r'', result)"
    using reasm_ingest_inner [OF r] by blast
  have inv': "reasm_inv (fst (reasm_expire (count_received ?r) now))" using inv by simp
  have "length packet \<le> inner_max_ip_packet_len inner \<and> (\<exists>meta. inspect_vpn_ip_packet packet = Inr meta)"
    if complete: "result = Inr (Some packet)" for packet
  proof -
    obtain f' meta where f: "decode_vpn_ip_fragment datagram = Inr f'" "inspect_vpn_ip_packet packet = Inr meta"
      "length packet = frag_total_len f'"
      by (rule ingest_inner_completed [OF inv' i [unfolded complete]])
    have "f' = f" using f(1) assms(2) by simp
    then show ?thesis using f(2,3) assms(3) by simp
  qed
  then show ?thesis by (auto simp: expected_result_def split: sum.splits option.splits)
qed

text \<open>A fragment that adds bytes, once there is room for it.\<close>

lemma ingest_in_grows:
  fixes st direction f
  defines "r \<equiv> path_reassembler st direction"
  assumes fits: "path_fits inner st" and fresh: "fresh_at now st" and f: "decode_vpn_ip_fragment datagram = Inr f"
    and more: "additional_buffered_bytes r f = Inr n" "0 < n"
    and room: "path_bytes st + (if fragment_will_complete r f then 0 else n) \<le> inner_max_reassembly_bytes inner"
      "path_packets st + (if \<not> contains_packet r (frag_packet_id f) \<and> \<not> fragment_will_complete r f then 1 else 0)
         \<le> VPN_DEFAULT_MAX_INFLIGHT_PACKETS"
    and run: "ingest_in st direction now datagram = (st', result)"
  shows "path_fits inner st'" and "path_bytes st' \<le> path_bytes st + n"
    and "path_packets st' \<le> path_packets st + (if contains_packet r (frag_packet_id f) then 0 else 1)"
proof -
  have wf: "path_wf inner st" using fits by (simp add: path_fits_def)
  have inv: "reasm_inv r" using path_reassembler_wf [OF wf] by (simp add: r_def)
  have none: "expired_ids r now = []"
    using fresh by (simp add: r_def fresh_at_def path_reassembler_def split: VpnPacketDirection.splits)
  obtain r' where r': "reasm_ingest r now datagram = (r', result)" and st': "st' = path_set_reassembler st direction r'"
    using run by (auto simp: ingest_in_def r_def split: prod.splits)
  note use = path_set_reassembler_usage [of st direction r', folded st' r_def]
  note grows = reasm_ingest_usage [OF inv f r' none]
  show b: "path_bytes st' \<le> path_bytes st + n"
    and p: "path_packets st' \<le> path_packets st + (if contains_packet r (frag_packet_id f) then 0 else 1)"
    using grows more(1) use by auto
  have "path_bytes st' \<le> inner_max_reassembly_bytes inner \<and> path_packets st' \<le> VPN_DEFAULT_MAX_INFLIGHT_PACKETS"
  proof (cases "fragment_will_complete r f")
    case True
    with reasm_ingest_completing [OF inv f r' none True more] room use show ?thesis by simp
  next
    case False
    with b p room show ?thesis by (auto split: if_splits)
  qed
  with ingest_in_wf(1) [OF wf run] show "path_fits inner st'" by (simp add: path_fits_def)
qed

lemma reserve_and_ingest_settles:
  assumes settled: "settled inner others st m"
    and run: "ingest_in st direction now datagram = (st', result)" and result: "expected_result inner (Inr result)"
    and fits: "path_fits inner st'" and bytes: "path_bytes st' \<le> path_bytes st + n"
    and packets: "path_packets st' \<le> path_packets st + k"
  shows "settles inner others (path_active st) (reserve_and_ingest inner direction datagram now n k st m)"
proof -
  let ?b = "inner_global_budget inner"
  have wf: "path_wf inner st" using settled by (simp add: settled_def path_fits_def)
  have bk: "books ?b others st m" and ex: "exact st" using settled by (simp_all add: settled_def)
  then have lim: "budget_byte_limit ?b \<le> usize_max" "budget_packet_limit ?b \<le> usize_max" by (simp_all add: books_def)
  then show ?thesis
  proof (cases rule: try_reserve_cases [where m = m and bytes = n and packets = k])
    case (refused m' e)
    then have "settled inner others st m'" using settled by (simp add: settled_def books_def budget_counts_def)
    moreover have "expected_result inner (Inl (Quota e))"
      using refused(3) by (auto simp: expected_result_def unreachable_errors_def)
    ultimately show ?thesis using refused(1) by (simp add: reserve_and_ingest_def settles_def)
  next
    case (reserved m')
    let ?v = "\<lparr>reserved_bytes = n, reserved_packets = k\<rparr>"
    note same = ingest_in_wf [OF wf run]
    have acc: "path_accounted_bytes st' = path_bytes st" "path_accounted_packets st' = path_packets st"
      using same(2,3) ex by (simp_all add: exact_def)
    have cur: "current_reassembly_bytes m' = path_bytes st + fst others + n"
      "active_reassembly_packets m' = path_packets st + snd others + k"
      using reserved(2,3) bk ex by (simp_all add: books_def exact_def)
    obtain m'' where m'': "reconcile m' ?v (path_bytes st) (path_packets st) (path_bytes st') (path_packets st') =
        Some (m'', path_bytes st', path_packets st', True)"
      and after: "current_reassembly_bytes m'' = path_bytes st' + fst others"
        "active_reassembly_packets m'' = path_packets st' + snd others"
      using reconcile_eq [of "path_bytes st" ?v m' "path_packets st" "path_bytes st'" "path_packets st'"]
        reserved(4,5) lim cur bytes packets by simp
    have "reserve_and_ingest inner direction datagram now n k st m = Some (balance st', m'', Inr result)"
      using reserved(1) run m'' by (simp add: reserve_and_ingest_def path_usage_def path_usage_eq [OF fits] acc balance_def)
    moreover have "books ?b others (balance st') m''"
      using after reserved(4,5) cur bytes packets lim by (simp add: books_def balance_def)
    then have "settled inner others (balance st') m''" using fits by (simp add: settled_def)
    ultimately show ?thesis using result same(4) by (simp add: settles_def)
  qed
qed

lemma ingest_growing_settles:
  fixes st direction f
  defines "r \<equiv> path_reassembler st direction"
  assumes settled: "settled inner others st m" and fresh: "fresh_at now st"
    and f: "decode_vpn_ip_fragment datagram = Inr f" "frag_total_len f \<le> inner_max_ip_packet_len inner"
    and more: "additional_buffered_bytes r f = Inr n" "0 < n"
  shows "settles inner others (path_active st)
    (ingest_growing inner st m direction datagram now f (contains_packet r (frag_packet_id f)) n)"
proof -
  let ?id = "frag_packet_id f" and ?b = "inner_global_budget inner" and ?done = "fragment_will_complete r f"
  let ?mb = "if ?done then 0 else n"
    and ?mp = "if \<not> contains_packet r ?id \<and> \<not> ?done then 1 else (0 :: nat)"
  have fits: "path_fits inner st" and bk: "books ?b others st m" and cov: "covered st"
    using settled by (simp_all add: settled_def exact_def covered_def)
  have inv: "reasm_inv r" using fits by (auto simp: r_def path_fits_def dest: path_reassembler_wf)
  have existing: "contains_packet r ?id \<longleftrightarrow> entry st direction ?id \<noteq> None"
    by (simp add: contains_packet_def entry_def r_def)
  have small: "(case entry st direction ?id of None \<Rightarrow> 0 | Some p \<Rightarrow> pp_received_bytes p) + ?mb \<le> 65535"
    "(case entry st direction ?id of None \<Rightarrow> 0 | Some p \<Rightarrow> 1) + ?mp \<le> 1"
    using growth_bound [OF inv f(1) more]
    by (auto simp: entry_def r_def contains_packet_def split: option.splits)
  obtain st' where room: "make_identity_room (inner_max_reassembly_bytes inner) st m direction ?id
      (contains_packet r ?id) ?mb ?mp = (st', m, Inr ())"
    and fits': "path_fits inner st'" and sh: "path_shrunk st' st"
    and same: "entry st' direction ?id = entry st direction ?id"
    and enough: "path_bytes st' + ?mb \<le> inner_max_reassembly_bytes inner"
      "path_packets st' + ?mp \<le> VPN_DEFAULT_MAX_INFLIGHT_PACKETS"
    using make_identity_room_succeeds [OF fits existing small, of m] by blast
  let ?r' = "path_reassembler st' direction"
  have q: "additional_buffered_bytes ?r' f = Inr n" "fragment_will_complete ?r' f = ?done"
    "contains_packet ?r' ?id = contains_packet r ?id"
    using query_cong_entry [of ?r' f r] same more(1) by (simp_all add: entry_def r_def)
  have cov': "covered st'" and bk': "books ?b others st' m"
    using path_shrunk_keeps [OF sh _ fits] fits' cov bk by (simp_all add: path_fits_def)
  obtain m' where shrink: "shrink_or_fail st' m
      (reserve_and_ingest inner direction datagram now n (if \<not> contains_packet r ?id then 1 else 0)) =
      reserve_and_ingest inner direction datagram now n (if \<not> contains_packet r ?id then 1 else 0) (balance st') m'"
    and settled': "settled inner others (balance st') m'"
    using shrink_or_fail_settles [OF fits' cov' bk'] .
  have bal: "path_fits inner (balance st')" "fresh_at now (balance st')" "path_wf inner (balance st')"
    using fits' fresh_at_shrunk [OF sh fresh] by (simp_all add: fresh_at_def path_fits_def path_wf_def)
  obtain s result where run: "ingest_in (balance st') direction now datagram = (s, result)" by fastforce
  have "path_fits inner s" and "path_bytes s \<le> path_bytes (balance st') + n"
    and "path_packets s \<le> path_packets (balance st') + (if \<not> contains_packet r ?id then 1 else 0)"
    using ingest_in_grows [OF bal(1,2) f(1) _ more(2) _ _ run] q enough by (simp_all split: if_splits)
  with reserve_and_ingest_settles [OF settled' run ingest_in_expected [OF bal(3) f run]]
  have "settles inner others (path_active st')
      (reserve_and_ingest inner direction datagram now n (if \<not> contains_packet r ?id then 1 else 0) (balance st') m')"
    by simp
  then show ?thesis
    using room shrink sh by (simp add: ingest_growing_def r_def [symmetric] path_shrunk_def Let_def)
qed

lemma ingest_expired_settles:
  assumes "settled inner others st m" and "fresh_at now st"
  shows "settles inner others (path_active st) (ingest_expired inner direction datagram now st m)"
proof -
  let ?b = "inner_global_budget inner" and ?r = "path_reassembler st direction"
  have fits: "path_fits inner st" and bk: "books ?b others st m" and cov: "covered st"
    using assms by (simp_all add: settled_def exact_def covered_def)
  then have wf: "path_wf inner st" by (simp add: path_fits_def)
  then have inv: "reasm_inv ?r" by (auto dest: path_reassembler_wf)
  have none: "expired_ids ?r now = []"
    using assms(2) by (simp add: fresh_at_def path_reassembler_def split: VpnPacketDirection.splits)
  obtain s result where run: "ingest_in st direction now datagram = (s, result)" by fastforce
  then obtain r where r: "reasm_ingest ?r now datagram = (r, result)" by (auto simp: ingest_in_def split: prod.splits)
  note same = ingest_in_wf [OF wf run]
  have bk': "books ?b others s m" using same(5) bk by simp
  show ?thesis
  proof (cases "decode_vpn_ip_fragment datagram")
    case (Inl e)
    note shrinks = ingest_in_shrinks [OF fits run r reasm_ingest_undecodable_usage(1) [OF inv Inl r]]
    have "expected_result inner (Inl (Fragment e'))" for e'
      by (simp add: expected_result_def unreachable_errors_def)
    then show ?thesis
      using settles_after_shrink [OF shrinks(1) shrinks(2) [OF cov] bk' _ same(4)] Inl run
      by (simp add: ingest_expired_def)
  next
    case (Inr f)
    show ?thesis
    proof (cases "frag_total_len f > inner_max_ip_packet_len inner")
      case True
      let ?s = "path_set_reassembler st direction (reject_decoded_fragment ?r (frag_packet_id f))"
      have sh: "path_shrunk ?s st" using path_set_reassembler_shrunk reject_decoded_fragment_shrunk by blast
      have "re_limits (reject_decoded_fragment ?r (frag_packet_id f)) = path_limits inner"
        using reject_decoded_fragment_shrunk path_reassembler_wf [OF wf] by (simp add: shrunk_def)
      then have "path_wf inner ?s" using path_set_reassembler_wf [OF wf] reject_decoded_fragment_inv [OF inv] by simp
      note kept = path_shrunk_keeps [OF sh this fits]
      have "expected_result inner (Inl NegotiatedPacketTooLarge)"
        by (simp add: expected_result_def unreachable_errors_def)
      with settles_after_shrink [OF kept(1) kept(4) [OF cov] kept(5) [THEN iffD2, OF bk]] True Inr
      show ?thesis by (simp add: ingest_expired_def)
    next
      case False
      then have small: "frag_total_len f \<le> inner_max_ip_packet_len inner" by simp
      note expected = ingest_in_expected [OF wf Inr small run]
      have unaccounted: "settles inner others (path_active st) (shrink_or_fail s m (\<lambda>st m. Some (st, m, Inr result)))"
        if "additional_buffered_bytes ?r f = Inr 0 \<or> additional_buffered_bytes ?r f = Inl e" for e
      proof -
        note shrinks = ingest_in_shrinks [OF fits run r reasm_ingest_no_growth [OF inv Inr none that r]]
        show ?thesis using settles_after_shrink [OF shrinks(1) shrinks(2) [OF cov] bk' expected same(4)] .
      qed
      show ?thesis
      proof (cases "additional_buffered_bytes ?r f")
        case (Inl e)
        with unaccounted Inr False run show ?thesis by (simp add: ingest_expired_def)
      next
        case more: (Inr n)
        with unaccounted ingest_growing_settles [OF assms Inr small more] Inr False run show ?thesis
          by (simp add: ingest_expired_def)
      qed
    qed
  qed
qed

lemma ingest_locked_settles:
  assumes "settled inner others st m"
  shows "settles inner others (path_active st) (ingest_locked inner st m direction datagram now)"
proof -
  let ?st = "path_expire st now"
  have fits: "path_fits inner st" and bk: "books (inner_global_budget inner) others st m" and cov: "covered st"
    using assms by (simp_all add: settled_def exact_def covered_def)
  then have wf: "path_wf inner st" by (simp add: path_fits_def)
  note kept = path_shrunk_keeps [OF path_expire_shrunk [OF wf, of now] fits]
  obtain m' where shrink: "ingest_locked inner st m direction datagram now =
      ingest_expired inner direction datagram now (balance ?st) m'"
    and settled: "settled inner others (balance ?st) m'"
    using shrink_or_fail_settles [OF kept(1) kept(4) [OF cov] kept(5) [THEN iffD2, OF bk]]
    unfolding ingest_locked_def .
  have "fresh_at now (balance ?st)" using fresh_at_expire [OF wf, of now] by (simp add: fresh_at_def)
  from ingest_expired_settles [OF settled this] show ?thesis by (simp add: shrink path_expire_def)
qed

end
