(* ===== verification/Vpn_Path_System.thy ===== *)
theory Vpn_Path_System
  imports Vpn_Accounting
begin

text \<open>
  Any number of data paths that share one global budget and one set of counters, and every
  interleaving of their operations: the limits of each identity, the global budget, and the absence
  of panics and of accounting failures.
\<close>

section \<open>Operations on one handle\<close>

datatype PathOp =
    Ingest VpnPacketDirection bytes instant
  | Encode VpnPacketDirection u32 bytes usize instant
  | Expire instant
  | Activate | Deactivate | Bind | Unbind

fun path_run :: "PathOp \<Rightarrow> VpnDataPathInner \<Rightarrow> VpnPathShared \<Rightarrow> (VpnDataPathInner \<times> VpnPathShared) option" where
  "path_run (Ingest direction datagram now) inner env =
     map_option (\<lambda>(inner, env, _). (inner, env)) (ingest_datagram inner env direction datagram now)"
| "path_run (Encode direction packet_id packet max_datagram_len now) inner env =
     Some (inner, fst (encode_ip_packet inner env direction packet_id packet max_datagram_len now))"
| "path_run (Expire now) inner env = map_option (\<lambda>(inner, env, _). (inner, env)) (expire_reassembly inner env now)"
| "path_run Activate inner env = Some (path_activate inner, env)"
| "path_run Deactivate inner env =
     map_option (\<lambda>(inner, m). (inner, env\<lparr>shared_quota := m\<rparr>)) (path_deactivate inner (shared_quota env))"
| "path_run Bind inner env = Some (fst (try_bind_runtime inner), env)"
| "path_run Unbind inner env = Some (unbind_runtime inner, env)"

definition inner_settled :: "nat \<times> nat \<Rightarrow> VpnDataPathInner \<Rightarrow> VpnPathShared \<Rightarrow> bool" where
  "inner_settled others inner env = settled inner others (inner_state inner) (shared_quota env)"

text \<open>Only the state and the runtime flag of a handle ever change.\<close>

definition same_handle :: "VpnDataPathInner \<Rightarrow> VpnDataPathInner \<Rightarrow> bool" where
  "same_handle inner' inner \<longleftrightarrow> inner_policy inner' = inner_policy inner \<and>
     inner_max_ip_packet_len inner' = inner_max_ip_packet_len inner \<and>
     inner_max_reassembly_bytes inner' = inner_max_reassembly_bytes inner \<and>
     inner_session_generation inner' = inner_session_generation inner \<and>
     inner_global_budget inner' = inner_global_budget inner"

lemma same_handle_refl [simp]: "same_handle inner inner"
  by (simp add: same_handle_def)

lemma same_handle_state [simp]:
  "same_handle (inner\<lparr>inner_state := st\<rparr>) inner" "same_handle (inner\<lparr>inner_runtime_bound := b\<rparr>) inner"
  by (simp_all add: same_handle_def)

lemma settled_same_handle [simp]:
  "settled (inner\<lparr>inner_state := st'\<rparr>) others st m = settled inner others st m"
  "settled (inner\<lparr>inner_runtime_bound := b\<rparr>) others st m = settled inner others st m"
  by (simp_all add: settled_def path_fits_def path_wf_def path_limits_def)

lemma settled_counts:
  "budget_counts m' = budget_counts m \<Longrightarrow> settled inner others st m' = settled inner others st m"
  by (simp add: settled_def books_def budget_counts_def)

lemma record_counts [simp]:
  "budget_counts (record_stale_generation m) = budget_counts m"
  "budget_counts (record_invalid_datagram m) = budget_counts m"
  "budget_counts (record_packet_rate_rejection m) = budget_counts m"
  "budget_counts (record_byte_rate_rejection m) = budget_counts m"
  "budget_counts (record_admitted direction packets bytes m) = budget_counts m"
  by (simp_all add: budget_counts_def record_stale_generation_def record_invalid_datagram_def
      record_packet_rate_rejection_def record_byte_rate_rejection_def record_admitted_def
      split: VpnPacketDirection.splits)

lemma admit_datagrams_counts:
  "admit_datagrams s m direction ls now = (s', m', result) \<Longrightarrow> budget_counts m' = budget_counts m"
  by (auto simp: admit_datagrams_def Let_def split: if_splits option.splits)

lemma encode_ip_packet_counts:
  "budget_counts (shared_quota (fst (encode_ip_packet inner env direction packet_id packet max_len now))) =
     budget_counts (shared_quota env)"
  by (auto simp: encode_ip_packet_def Let_def dest: admit_datagrams_counts split: sum.splits prod.splits)

text \<open>What \<open>ingest_datagram\<close> returns: the handle and the books as they should be, and one of the
  expected results.\<close>

lemma ingest_datagram_settled:
  assumes "inner_settled others inner env"
  obtains inner' env' result where "ingest_datagram inner env direction datagram now = Some (inner', env', result)"
    and "inner_settled others inner' env'" and "same_handle inner' inner"
    and "path_active (inner_state inner') = path_active (inner_state inner)"
    and "\<And>e. result = Inl e \<Longrightarrow> e \<notin> unreachable_errors"
    and "\<And>p. result = Inr (Some p) \<Longrightarrow> path_active (inner_state inner) \<and>
      length (data_packet_bytes p) \<le> inner_max_ip_packet_len inner \<and>
      validate_vpn_ip_packet_policy (inner_policy inner) direction (data_packet_bytes p) = Inr (data_packet_metadata p)"
proof (cases "path_active (inner_state inner)")
  case False
  let ?env = "env\<lparr>shared_quota := record_stale_generation (shared_quota env)\<rparr>"
  have "inner_settled others inner ?env" using assms by (simp add: inner_settled_def settled_def books_def record_stale_generation_def)
  with False show thesis
    by (intro that [of inner ?env "Inl StaleGeneration"]) (simp_all add: ingest_datagram_def unreachable_errors_def)
next
  case active: True
  obtain rate m admitted where a: "admit_datagram (shared_rate env) (shared_quota env) direction (length datagram) now =
      (rate, m, admitted)" by (metis prod_cases3)
  let ?env = "env\<lparr>shared_rate := rate, shared_quota := m\<rparr>"
  have settled: "settled inner others (inner_state inner) m"
    using assms settled_counts [OF admit_datagrams_counts [OF a [unfolded admit_datagram_def]]]
    by (simp add: inner_settled_def)
  show thesis
  proof (cases admitted)
    case (Inl e)
    have "e \<noteq> IdentityReassemblyLimit \<and> e \<noteq> IdentityInflightLimit"
      using a Inl by (auto simp: admit_datagram_def admit_datagrams_def Let_def split: if_splits option.splits)
    with a Inl active settled show thesis
      by (intro that [of inner ?env "Inl (Quota e)"])
        (auto simp: ingest_datagram_def inner_settled_def unreachable_errors_def)
  next
    case (Inr u)
    obtain st m' locked where run: "ingest_locked inner (inner_state inner) m direction datagram now = Some (st, m', locked)"
      and st: "settled inner others st m'" "path_active st = path_active (inner_state inner)"
      and expected: "expected_result inner locked"
      using ingest_locked_settles [OF settled, of direction datagram now] unfolding settles_def by blast
    let ?inner = "inner\<lparr>inner_state := st\<rparr>"
    have settled': "settled ?inner others st m'" using st(1) by simp
    show thesis
    proof (cases locked)
      case (Inl e)
      with a Inr run active settled' st expected show thesis
        by (intro that [of ?inner "?env\<lparr>shared_quota := m'\<rparr>" "Inl e"])
          (simp_all add: ingest_datagram_def inner_settled_def expected_result_def)
    next
      case result: (Inr res)
      obtain pm final where fin: "finish_ingest ?inner (shared_policy env) direction res = (pm, final)" by fastforce
      have "e \<notin> unreachable_errors" if "final = Inl e" for e
        using fin that by (auto simp: finish_ingest_def unreachable_errors_def Let_def result_simps map_err_eq_Inl
            split: sum.splits option.splits if_splits)
      moreover have "length (data_packet_bytes p) \<le> inner_max_ip_packet_len inner \<and>
          validate_vpn_ip_packet_policy (inner_policy inner) direction (data_packet_bytes p) = Inr (data_packet_metadata p)"
        if "final = Inr (Some p)" for p
        using fin that expected result
        by (auto simp: finish_ingest_def expected_result_def Let_def result_simps split: sum.splits option.splits)
      ultimately show thesis
        using a Inr run active settled' st result fin
        by (intro that [of ?inner "?env\<lparr>shared_quota := m', shared_policy := pm\<rparr>" final])
          (simp_all add: ingest_datagram_def inner_settled_def)
    qed
  qed
qed

lemma path_clear_simps [simp]:
  "path_bytes (path_clear st) = 0" "path_packets (path_clear st) = 0"
  "path_accounted_bytes (path_clear st) = path_accounted_bytes st"
  "path_accounted_packets (path_clear st) = path_accounted_packets st"
  by (simp_all add: path_clear_def reasm_clear_def)

lemma path_clear_fits: "path_fits inner st \<Longrightarrow> path_fits inner (path_clear st)"
  using reasm_clear_inv
  by (simp add: path_fits_def path_wf_def path_clear_def reasm_clear_def)

lemma path_deactivate_settled:
  assumes "inner_settled others inner env"
  obtains inner' m where "path_deactivate inner (shared_quota env) = Some (inner', m)"
    and "inner_settled others inner' (env\<lparr>shared_quota := m\<rparr>)" and "same_handle inner' inner"
    and "\<not> path_active (inner_state inner')" and "path_accounted_bytes (inner_state inner') = 0"
    and "path_accounted_packets (inner_state inner') = 0"
proof -
  let ?st = "(path_clear ((inner_state inner)\<lparr>path_active := False\<rparr>))\<lparr>path_accounted_bytes := 0, path_accounted_packets := 0\<rparr>"
    and ?m = "(shared_quota env)\<lparr>
      current_reassembly_bytes := current_reassembly_bytes (shared_quota env) - path_accounted_bytes (inner_state inner),
      active_reassembly_packets := active_reassembly_packets (shared_quota env) - path_accounted_packets (inner_state inner)\<rparr>"
  have s: "path_fits inner (inner_state inner)" "books (inner_global_budget inner) others (inner_state inner) (shared_quota env)"
    using assms by (simp_all add: inner_settled_def settled_def)
  then have "path_fits inner ?st"
    using path_clear_fits [of inner "(inner_state inner)\<lparr>path_active := False\<rparr>"]
    by (simp add: path_fits_def path_wf_def path_clear_def)
  then have "settled inner others ?st ?m"
    using s(2) by (auto simp: settled_def exact_def books_def path_clear_def reasm_clear_def)
  moreover have "path_deactivate inner (shared_quota env) = Some (inner\<lparr>inner_state := ?st\<rparr>, ?m)"
    using s(2) by (simp add: path_deactivate_def release_all_accounted_def budget_release_eq books_def)
  ultimately show thesis
    by (intro that [of "inner\<lparr>inner_state := ?st\<rparr>" ?m])
      (simp_all add: inner_settled_def path_clear_def)
qed

lemma expire_reassembly_settled:
  assumes "inner_settled others inner env"
  obtains inner' env' where
    "expire_reassembly inner env now = Some (inner', env',
       path_packets (inner_state inner) - path_packets (inner_state inner'))"
    and "inner_settled others inner' env'" and "same_handle inner' inner"
    and "path_active (inner_state inner') = path_active (inner_state inner)"
    and "path_packets (inner_state inner') \<le> path_packets (inner_state inner)"
proof -
  let ?st = "path_expire (inner_state inner) now"
  have fits: "path_fits inner (inner_state inner)" and cov: "covered (inner_state inner)"
    and bk: "books (inner_global_budget inner) others (inner_state inner) (shared_quota env)"
    using assms by (simp_all add: inner_settled_def settled_def exact_def covered_def)
  then have "path_wf inner (inner_state inner)" by (simp add: path_fits_def)
  note kept = path_shrunk_keeps [OF path_expire_shrunk [OF this, of now] fits]
  obtain m where m: "shrink_or_fail ?st (shared_quota env) (\<lambda>st m. Some (st, m, Inr ())) = Some (balance ?st, m, Inr ())"
    "settled inner others (balance ?st) m"
    using shrink_or_fail_settles [OF kept(1) kept(4) [OF cov] kept(5) [THEN iffD2, OF bk]] .
  have "path_inflight_packets (balance ?st) = path_packets ?st"
    using path_usage_eq(2) [of inner "balance ?st"] kept(1) by simp
  moreover have "path_active ?st = path_active (inner_state inner)" by (simp add: path_expire_def)
  ultimately show thesis
    using m path_usage_eq(2) [OF fits] kept(3)
    by (intro that [of "inner\<lparr>inner_state := balance ?st\<rparr>" "env\<lparr>shared_quota := m\<rparr>"])
      (simp_all add: expire_reassembly_def inner_settled_def)
qed

lemma path_run_settled:
  assumes "inner_settled others inner env"
  obtains inner' env' where "path_run op inner env = Some (inner', env')"
    and "inner_settled others inner' env'" and "same_handle inner' inner"
proof (cases op)
  case (Ingest direction datagram now)
  obtain inner' env' result where "ingest_datagram inner env direction datagram now = Some (inner', env', result)"
    "inner_settled others inner' env'" "same_handle inner' inner"
    by (rule ingest_datagram_settled [OF assms])
  with Ingest show thesis by (intro that [of inner' env']) simp_all
next
  case (Encode direction packet_id packet max_len now)
  with assms show thesis
    by (intro that [of inner "fst (encode_ip_packet inner env direction packet_id packet max_len now)"])
      (simp_all add: inner_settled_def settled_counts [OF encode_ip_packet_counts])
next
  case (Expire now)
  obtain inner' env' n where "expire_reassembly inner env now = Some (inner', env', n)"
    "inner_settled others inner' env'" "same_handle inner' inner"
    by (rule expire_reassembly_settled [OF assms])
  with Expire show thesis by (intro that [of inner' env']) simp_all
next
  case Activate
  with assms show thesis
    by (intro that [of "path_activate inner" env])
      (simp_all add: inner_settled_def path_activate_def settled_def path_fits_def path_wf_def path_limits_def
        exact_def books_def)
next
  case Deactivate
  obtain inner' m where "path_deactivate inner (shared_quota env) = Some (inner', m)"
    "inner_settled others inner' (env\<lparr>shared_quota := m\<rparr>)" "same_handle inner' inner"
    by (rule path_deactivate_settled [OF assms])
  with Deactivate show thesis by (intro that [of inner' "env\<lparr>shared_quota := m\<rparr>"]) simp_all
next
  case Bind
  with assms show thesis
    by (intro that [of "fst (try_bind_runtime inner)" env])
      (simp_all add: inner_settled_def try_bind_runtime_def)
next
  case Unbind
  with assms show thesis
    by (intro that [of "unbind_runtime inner" env])
      (simp_all add: inner_settled_def unbind_runtime_def)
qed

section \<open>Several handles\<close>

text \<open>
  A step of the server: an operation on one of the open handles, with whatever tokens its rate
  limiter has, the creation of a handle from validated limits, or the drop of one.
\<close>

inductive system_step ::
  "VpnGlobalReassemblyBudget \<Rightarrow> VpnDataPathInner list \<times> VpnPathShared \<Rightarrow> VpnDataPathInner list \<times> VpnPathShared \<Rightarrow> bool"
  for b where
  operate: "i < length paths \<Longrightarrow> path_run op (paths ! i) (env\<lparr>shared_rate := rate\<rparr>) = Some (inner, env') \<Longrightarrow>
     system_step b (paths, env) (paths[i := inner], env')"
| create: "identity_limits_validate limits = Inr () \<Longrightarrow>
     path_new_policy_inactive policy limits max_ip_packet_len session_generation b = Inr inner \<Longrightarrow>
     system_step b (paths, env) (paths @ [inner], env)"
| remove: "i < length paths \<Longrightarrow> path_drop (paths ! i) (shared_quota env) = Some m \<Longrightarrow>
     system_step b (paths, env) (take i paths @ drop (Suc i) paths, env\<lparr>shared_quota := m\<rparr>)"

definition held_bytes :: "VpnDataPathInner list \<Rightarrow> nat" where
  "held_bytes paths = sum_list (map (\<lambda>inner. path_bytes (inner_state inner)) paths)"

definition held_packets :: "VpnDataPathInner list \<Rightarrow> nat" where
  "held_packets paths = sum_list (map (\<lambda>inner. path_packets (inner_state inner)) paths)"

definition system_inv :: "VpnGlobalReassemblyBudget \<Rightarrow> VpnDataPathInner list \<times> VpnPathShared \<Rightarrow> bool" where
  "system_inv b = (\<lambda>(paths, env).
     (\<forall>inner \<in> set paths. inner_global_budget inner = b \<and> path_fits inner (inner_state inner) \<and>
        exact (inner_state inner)) \<and>
     current_reassembly_bytes (shared_quota env) = held_bytes paths \<and>
     active_reassembly_packets (shared_quota env) = held_packets paths \<and>
     held_bytes paths \<le> budget_byte_limit b \<and> held_packets paths \<le> budget_packet_limit b \<and>
     budget_byte_limit b \<le> usize_max \<and> budget_packet_limit b \<le> usize_max)"

lemma held_split:
  "held_bytes (xs @ inner # ys) = path_bytes (inner_state inner) + held_bytes (xs @ ys)"
  "held_packets (xs @ inner # ys) = path_packets (inner_state inner) + held_packets (xs @ ys)"
  "held_bytes [] = 0" "held_packets [] = 0"
  by (simp_all add: held_bytes_def held_packets_def)

text \<open>The invariant seen from one handle.\<close>

lemma system_inv_iff:
  "system_inv b (xs @ inner # ys, env) \<longleftrightarrow>
     inner_global_budget inner = b \<and> inner_settled (held_bytes (xs @ ys), held_packets (xs @ ys)) inner env \<and>
     (\<forall>inner \<in> set (xs @ ys). inner_global_budget inner = b \<and> path_fits inner (inner_state inner) \<and>
        exact (inner_state inner))"
  by (auto simp: system_inv_def held_split inner_settled_def settled_def books_def exact_def)

lemma path_new_inv:
  assumes "identity_limits_validate limits = Inr ()"
    and "path_new_policy_inactive policy limits max_ip_packet_len session_generation b = Inr inner"
  shows "inner_global_budget inner = b" and "path_fits inner (inner_state inner)" and "exact (inner_state inner)"
    and "path_bytes (inner_state inner) = 0" and "path_packets (inner_state inner) = 0"
    and "\<not> path_active (inner_state inner)"
proof -
  have "limit_max_reassembly_bytes limits < usize_max"
    using assms(1) by (simp add: identity_limits_validate_def VPN_DEFAULT_MAX_REASSEMBLY_BYTES_def usize_max_def
        split: if_splits)
  with assms(2) show "inner_global_budget inner = b" and "path_fits inner (inner_state inner)"
    and "exact (inner_state inner)" and "path_bytes (inner_state inner) = 0"
    and "path_packets (inner_state inner) = 0" and "\<not> path_active (inner_state inner)"
    by (auto simp: path_new_policy_inactive_def Let_def VpnReassembler_new_def result_simps path_fits_def path_wf_def
        path_limits_def reasm_inv_def reasm_wf_def limits_ok_def inflight_packets_def exact_def split: if_splits)
qed

lemma path_drop_settled:
  assumes "inner_settled others inner env"
  shows "path_drop inner (shared_quota env) = Some ((shared_quota env)\<lparr>
    current_reassembly_bytes := fst others, active_reassembly_packets := snd others\<rparr>)"
  using assms
  by (simp add: inner_settled_def settled_def books_def path_drop_def budget_release_eq)

lemma inner_settled_rate [simp]: "inner_settled others inner (env\<lparr>shared_rate := rate\<rparr>) = inner_settled others inner env"
  by (simp add: inner_settled_def)

lemma system_step_inv:
  assumes "system_step b s s'" and "system_inv b s"
  shows "system_inv b s'"
  using assms
proof (cases rule: system_step.cases)
  case (operate i paths op rate env inner env')
  let ?xs = "take i paths" and ?ys = "drop (Suc i) paths"
  have s: "paths = ?xs @ paths ! i # ?ys" and s': "paths[i := inner] = ?xs @ inner # ?ys"
    using operate(3) by (simp_all add: id_take_nth_drop upd_conv_take_nth_drop)
  have "system_inv b (?xs @ paths ! i # ?ys, env)" using assms(2) operate(1) s by simp
  then have inv: "inner_global_budget (paths ! i) = b"
    "inner_settled (held_bytes (?xs @ ?ys), held_packets (?xs @ ?ys)) (paths ! i) (env\<lparr>shared_rate := rate\<rparr>)"
    "\<forall>inner \<in> set (?xs @ ?ys). inner_global_budget inner = b \<and> path_fits inner (inner_state inner) \<and>
        exact (inner_state inner)"
    unfolding system_inv_iff by simp_all
  obtain x e where "path_run op (paths ! i) (env\<lparr>shared_rate := rate\<rparr>) = Some (x, e)"
    "inner_settled (held_bytes (?xs @ ?ys), held_packets (?xs @ ?ys)) x e" "same_handle x (paths ! i)"
    by (rule path_run_settled [OF inv(2)])
  with operate(4) inv show ?thesis unfolding operate(2) s' system_inv_iff by (simp add: same_handle_def)
next
  case (create limits policy max_ip_packet_len session_generation inner paths env)
  note new = path_new_inv [OF create(3,4)]
  then show ?thesis
    using assms(2) unfolding create(1,2)
    by (auto simp: system_inv_def held_bytes_def held_packets_def)
next
  case (remove i paths env m)
  let ?xs = "take i paths" and ?ys = "drop (Suc i) paths"
  have s: "paths = ?xs @ paths ! i # ?ys" using remove(3) by (simp add: id_take_nth_drop)
  have inv: "system_inv b (?xs @ paths ! i # ?ys, env)" using assms(2) remove(1) s by simp
  then have "inner_settled (held_bytes (?xs @ ?ys), held_packets (?xs @ ?ys)) (paths ! i) env"
    unfolding system_inv_iff by simp
  from path_drop_settled [OF this] remove(4)
  have "m = (shared_quota env)\<lparr>current_reassembly_bytes := held_bytes (?xs @ ?ys),
    active_reassembly_packets := held_packets (?xs @ ?ys)\<rparr>" by simp
  moreover have "held_bytes (?xs @ ?ys) \<le> held_bytes (?xs @ paths ! i # ?ys)"
    and "held_packets (?xs @ ?ys) \<le> held_packets (?xs @ paths ! i # ?ys)" by (simp_all add: held_split)
  ultimately show ?thesis using inv unfolding remove(2) system_inv_def by auto
qed

lemma system_history_inv:
  assumes "(system_step b)\<^sup>*\<^sup>* ([], env) s" and "global_budget_new byte_limit packet_limit = Some b"
    and "budget_counts (shared_quota env) = (0, 0)"
  shows "system_inv b s"
  using assms(1)
proof (induction rule: rtranclp_induct)
  case base
  then show ?case
    using assms(2,3)
    by (auto simp: system_inv_def held_split budget_counts_def global_budget_new_def usize_max_def quota_consts
        split: if_splits)
qed (auto dest: system_step_inv)

end
