(* ===== verification/Vpn_Path_Properties.thy ===== *)
theory Vpn_Path_Properties
  imports Vpn_Path_System
begin

text \<open>
  The guarantees of the data path: memory limits and global accounting over every history of any
  number of sessions, what a packet handed to the tunnel satisfies, and what deactivation leaves.
\<close>

section \<open>A path with traffic\<close>

definition sample_uplink_packet :: bytes where
  "sample_uplink_packet = [0x45, 0, 0, 20, 0, 0, 0, 0, 0, 0, 0, 0, 10, 0, 1, 0x32, 10, 0, 0, 9]"

definition sample_uplink_datagram :: bytes where
  "sample_uplink_datagram = fragment_datagram 9 20 0 sample_uplink_packet"

definition sample_budget :: VpnGlobalReassemblyBudget where
  "sample_budget = \<lparr>budget_byte_limit = VPN_DEFAULT_GLOBAL_REASSEMBLY_BYTES, budget_packet_limit = 4096\<rparr>"

definition sample_path :: VpnDataPathInner where
  "sample_path =
     \<lparr>inner_policy = sample_policy 0x0A000132, inner_max_ip_packet_len = 1280,
      inner_max_reassembly_bytes = VPN_DEFAULT_MAX_REASSEMBLY_BYTES, inner_session_generation = 1,
      inner_global_budget = sample_budget, inner_runtime_bound = False,
      inner_state = \<lparr>path_active = False, path_uplink = sample_reassembler, path_downlink = sample_reassembler,
                     path_accounted_bytes = 0, path_accounted_packets = 0\<rparr>\<rparr>"

definition sample_shared :: VpnPathShared where
  "sample_shared =
     \<lparr>shared_rate = rate_state_new identity_limits_default 0, shared_quota = VpnQuotaMetricCounters_default,
      shared_policy = VpnDataPolicyMetricCounters_default\<rparr>"

lemma sample_budget_new: "global_budget_new VPN_DEFAULT_GLOBAL_REASSEMBLY_BYTES 4096 = Some sample_budget"
  by (simp add: global_budget_new_def sample_budget_def quota_consts vpn_consts)

lemma sample_limits: "identity_limits_validate identity_limits_default = Inr ()"
  by (simp add: identity_limits_validate_def identity_limits_default_def identity_consts vpn_consts)

lemma sample_path_new:
  "path_new_policy_inactive (sample_policy 0x0A000132) identity_limits_default 1280 1 sample_budget = Inr sample_path"
  by (simp add: path_new_policy_inactive_def Let_def VpnReassembler_new_def identity_limits_default_def sample_path_def
      sample_reassembler_def VpnReassemblyLimits_default_def vpn_consts)

lemma sample_uplink_inspect:
  "inspect_vpn_ip_packet sample_uplink_packet = Inr \<lparr>meta_source = V4 0x0A000132, meta_destination = V4 0x0A000009\<rparr>"
  by (simp add: inspect_vpn_ip_packet_def inspect_ipv4_packet_def sample_uplink_packet_def Ipv4Addr_new_def
      from_be_def be_nat_def)


lemma sample_uplink_decode:
  "decode_vpn_ip_fragment sample_uplink_datagram =
     Inr \<lparr>frag_packet_id = 9, frag_total_len = 20, frag_offset = 0, frag_payload = sample_uplink_packet\<rparr>"
  using decode_fragment_datagram [of sample_uplink_packet 0 20 9]
  by (simp add: sample_uplink_datagram_def sample_uplink_packet_def)

lemma sample_network: "network_contains (V4Net 0x0A000000 8) (V4 0x0A000009)"
proof -
  have "(0x0A000009 :: u32) AND prefix_mask_v4 8 = 0x0A000000" by code_simp
  then show ?thesis by simp
qed

lemma sample_uplink_policy:
  "validate_vpn_ip_packet_policy (sample_policy 0x0A000132) Uplink sample_uplink_packet =
     Inr \<lparr>meta_source = V4 0x0A000132, meta_destination = V4 0x0A000009\<rparr>"
  by (simp add: policy_accepts sample_uplink_inspect client_end_def remote_end_def
      allows_destination_def sample_policy_def sample_network del: network_contains.simps)

lemma sample_path_settled: "inner_settled (0, 0) (path_activate sample_path) sample_shared"
  by (simp add: inner_settled_def settled_def path_fits_def path_wf_def path_limits_def exact_def books_def
      path_activate_def sample_path_def sample_reassembler_inv sample_shared_def VpnQuotaMetricCounters_default_def
      sample_budget_def usize_max_def quota_consts sample_reassembler_def [THEN arg_cong, of re_limits]
      sample_reassembler_def [THEN arg_cong, of re_packets] sample_reassembler_def [THEN arg_cong, of re_buffered_bytes]
      VpnReassemblyLimits_default_def)

lemma sample_path_admit:
  "snd (snd (admit_datagram (rate_state_new identity_limits_default 0) VpnQuotaMetricCounters_default Uplink 32 5)) = Inr ()"
  by (simp add: admit_datagram_def admit_datagrams_def checked_add_usize_def rate_state_new_def refill_def
      checked_duration_since_def packet_capacity_def byte_capacity_def sat_mul_u128_def sat_add_u128_def u128_max_def
      usize_max_def TOKEN_SCALE_def identity_limits_default_def vpn_consts)

lemma sample_reassembler_ingest:
  "\<exists>r. reasm_ingest (fst (reasm_expire sample_reassembler 5)) 5 sample_uplink_datagram = (r, Inr (Some sample_uplink_packet)) \<and>
     re_packets r = [] \<and> re_buffered_bytes r = 0"
proof -
  have len: "length sample_uplink_packet = 20" by (simp add: sample_uplink_packet_def)
  show ?thesis
    using len sample_uplink_inspect sample_uplink_decode
    by (simp add: reasm_ingest_def ingest_inner_def reasm_expire_def expired_ids_def remove_packet_def
        sample_reassembler_def PartialPacket_new_def settle_partial_def finish_packet_def record_ingest_def
        checked_add_usize_def usize_max_def)
qed


lemma sample_expired:
  "re_packets (fst (reasm_expire sample_reassembler 5)) = []"
  "re_buffered_bytes (fst (reasm_expire sample_reassembler 5)) = 0"
  by (simp_all add: reasm_expire_def expired_ids_def sample_reassembler_def)

definition sample_expired_state :: VpnDataPathState where
  "sample_expired_state = path_expire (inner_state (path_activate sample_path)) 5"

lemma sample_expired_state_simps:
  "path_buffered_bytes sample_expired_state = 0" "path_inflight_packets sample_expired_state = 0"
  "path_accounted_bytes sample_expired_state = 0" "path_accounted_packets sample_expired_state = 0"
  "path_active sample_expired_state"
  "path_reassembler sample_expired_state Uplink = fst (reasm_expire sample_reassembler 5)"
  "path_downlink sample_expired_state = fst (reasm_expire sample_reassembler 5)"
  by (simp_all add: sample_expired_state_def path_buffered_bytes_def path_inflight_packets_def inflight_packets_def
      path_expire_def path_activate_def sample_path_def path_reassembler_def sample_expired sat_add_usize_def)

lemma sample_ingest_locked:
  assumes "budget_counts m = (0, 0)"
  shows "\<exists>st m'. ingest_locked (path_activate sample_path) (inner_state (path_activate sample_path)) m Uplink
      sample_uplink_datagram 5 = Some (st, m', Inr (Inr (Some sample_uplink_packet)))"
proof -
  obtain r where r: "reasm_ingest (fst (reasm_expire sample_reassembler 5)) 5 sample_uplink_datagram =
      (r, Inr (Some sample_uplink_packet))" "re_packets r = []" "re_buffered_bytes r = 0"
    using sample_reassembler_ingest by blast
  let ?st = "path_set_reassembler sample_expired_state Uplink r"
  have in': "ingest_in sample_expired_state Uplink 5 sample_uplink_datagram = (?st, Inr (Some sample_uplink_packet))"
    using r(1) by (simp add: ingest_in_def sample_expired_state_simps)
  have use: "path_usage ?st = (0, 0)" "path_accounted_bytes ?st = 0" "path_accounted_packets ?st = 0"
    using r(2,3) by (simp_all add: path_usage_def path_buffered_bytes_def path_inflight_packets_def inflight_packets_def
        path_set_reassembler_def sample_expired_state_simps sample_expired sat_add_usize_def)
  have len: "length sample_uplink_packet = 20" by (simp add: sample_uplink_packet_def)
  have shrink: "shrink_or_fail sample_expired_state m k = k sample_expired_state m" for k :: "_ \<Rightarrow> _ \<Rightarrow> (VpnPacketError + bytes option) locked"
  proof -
    have st: "sample_expired_state\<lparr>path_accounted_bytes := 0, path_accounted_packets := 0\<rparr> = sample_expired_state"
      by (simp add: sample_expired_state_def path_expire_def path_activate_def sample_path_def)
    have m: "m\<lparr>current_reassembly_bytes := 0, active_reassembly_packets := 0\<rparr> = m"
      using assms by (cases m) (simp add: budget_counts_def)
    have "shrink_or_fail sample_expired_state m k =
        k (sample_expired_state\<lparr>path_accounted_bytes := 0, path_accounted_packets := 0\<rparr>)
          (m\<lparr>current_reassembly_bytes := 0, active_reassembly_packets := 0\<rparr>)"
      using assms
      by (simp add: shrink_or_fail_def reconcile_shrink_def path_usage_def sample_expired_state_simps budget_release_eq
          budget_counts_def)
    then show ?thesis unfolding st m .
  qed
  have room: "make_identity_room limit sample_expired_state m Uplink 9 False 0 0 = (sample_expired_state, m, Inr ())" for limit
    by (simp add: make_identity_room.simps sample_expired_state_simps sum_exceeds_eq
        checked_add_usize_def sum_exceeds_def)
  have limit: "inner_max_ip_packet_len (path_activate sample_path) = 1280"
    by (simp add: path_activate_def sample_path_def)
  have "\<exists>m'. reserve_and_ingest (path_activate sample_path) Uplink sample_uplink_datagram 5 20 1 sample_expired_state m =
      Some (?st\<lparr>path_accounted_bytes := 0, path_accounted_packets := 0\<rparr>, m', Inr (Inr (Some sample_uplink_packet)))"
    using assms in' use
    by (simp add: reserve_and_ingest_def try_reserve_def try_add_bounded_def budget_counts_def path_activate_def
        sample_path_def sample_budget_def quota_consts checked_add_usize_def usize_max_def update_reassembly_peaks_def
        reconcile_def budget_release_eq reservation_drop_def)
  then show ?thesis
    using sample_uplink_decode len shrink room
    by (auto simp: ingest_locked_def sample_expired_state_def [symmetric] ingest_expired_def ingest_growing_def
        additional_buffered_bytes_def fragment_will_complete_def contains_packet_def sample_expired_state_simps
        sample_expired checked_add_usize_def usize_max_def limit)
qed


lemma sample_path_ingest:
  "\<exists>inner env. ingest_datagram (path_activate sample_path) sample_shared Uplink sample_uplink_datagram 5 =
     Some (inner, env, Inr (Some \<lparr>data_packet_bytes = sample_uplink_packet,
       data_packet_metadata = \<lparr>meta_source = V4 0x0A000132, meta_destination = V4 0x0A000009\<rparr>\<rparr>))"
proof -
  have len: "length sample_uplink_datagram = 32" by (simp add: sample_uplink_datagram_def sample_uplink_packet_def)
  obtain rate m where a: "admit_datagram (rate_state_new identity_limits_default 0) VpnQuotaMetricCounters_default Uplink 32 5 =
      (rate, m, Inr ())" using sample_path_admit by (metis prod.collapse)
  then have "budget_counts m = (0, 0)"
    using admit_datagrams_counts [OF a [unfolded admit_datagram_def]]
    by (simp add: budget_counts_def VpnQuotaMetricCounters_default_def)
  from sample_ingest_locked [OF this] obtain st m' where "ingest_locked (path_activate sample_path)
      (inner_state (path_activate sample_path)) m Uplink sample_uplink_datagram 5 =
      Some (st, m', Inr (Inr (Some sample_uplink_packet)))" by blast
  moreover have "path_active (inner_state (path_activate sample_path))"
    and "inner_policy (path_activate sample_path) = sample_policy 0x0A000132"
    by (simp_all add: path_activate_def sample_path_def)
  ultimately show ?thesis
    using a sample_uplink_policy
    by (simp add: ingest_datagram_def sample_shared_def len finish_ingest_def split: prod.splits)
qed

text \<open>One handle created, activated and given one datagram.\<close>

lemma sample_history:
  "\<exists>inner env. (system_step sample_budget)\<^sup>*\<^sup>* ([], sample_shared) ([inner], env) \<and>
     path_run (Ingest Uplink sample_uplink_datagram 5) (path_activate sample_path) sample_shared = Some (inner, env)"
proof -
  obtain inner env where run:
    "path_run (Ingest Uplink sample_uplink_datagram 5) (path_activate sample_path) sample_shared = Some (inner, env)"
    using sample_path_ingest by auto
  have rate: "sample_shared\<lparr>shared_rate := shared_rate sample_shared\<rparr> = sample_shared" by simp
  have "system_step sample_budget ([], sample_shared) ([] @ [sample_path], sample_shared)"
    by (rule system_step.create [OF sample_limits sample_path_new])
  moreover have "system_step sample_budget ([sample_path], sample_shared)
      ([sample_path][0 := path_activate sample_path], sample_shared)"
    by (rule system_step.operate [where op = Activate and rate = "shared_rate sample_shared"]) simp_all
  moreover have "system_step sample_budget ([path_activate sample_path], sample_shared)
      ([path_activate sample_path][0 := inner], env)"
    using run
    by (intro system_step.operate [where op = "Ingest Uplink sample_uplink_datagram 5" and rate = "shared_rate sample_shared"])
      simp_all
  ultimately have "(system_step sample_budget)\<^sup>*\<^sup>* ([], sample_shared) ([inner], env)" by simp
  with run show ?thesis by blast
qed

section \<open>Memory limits and accounting\<close>

lemma system_inv_handle:
  assumes "system_inv b (paths, env)" and "inner \<in> set paths"
  obtains others where "inner_settled others inner env"
proof -
  obtain xs ys where "paths = xs @ inner # ys" using assms(2) by (auto simp: in_set_conv_decomp)
  with assms(1) that show thesis using system_inv_iff by blast
qed

lemma settled_snapshot:
  assumes "inner_settled others inner env"
  shows "path_snap_buffered_reassembly_bytes (path_snapshot inner) = path_bytes (inner_state inner)"
    and "path_snap_inflight_reassembly_packets (path_snapshot inner) = path_packets (inner_state inner)"
    and "path_bytes (inner_state inner) \<le> inner_max_reassembly_bytes inner"
    and "path_packets (inner_state inner) \<le> VPN_DEFAULT_MAX_INFLIGHT_PACKETS"
proof -
  have "path_fits inner (inner_state inner)" using assms by (simp add: inner_settled_def settled_def)
  then show "path_snap_buffered_reassembly_bytes (path_snapshot inner) = path_bytes (inner_state inner)"
    and "path_snap_inflight_reassembly_packets (path_snapshot inner) = path_packets (inner_state inner)"
    and "path_bytes (inner_state inner) \<le> inner_max_reassembly_bytes inner"
    and "path_packets (inner_state inner) \<le> VPN_DEFAULT_MAX_INFLIGHT_PACKETS"
    using path_usage_eq [of inner "inner_state inner"] by (simp_all add: path_snapshot_def Let_def path_fits_def)
qed

lemma settled_no_panic:
  assumes "inner_settled others inner env"
  shows "path_run op inner (env\<lparr>shared_rate := rate\<rparr>) \<noteq> None" and "path_drop inner (shared_quota env) \<noteq> None"
proof -
  have "inner_settled others inner (env\<lparr>shared_rate := rate\<rparr>)" using assms by simp
  then show "path_run op inner (env\<lparr>shared_rate := rate\<rparr>) \<noteq> None" by (rule path_run_settled [where op = op]) simp
  show "path_drop inner (shared_quota env) \<noteq> None" using path_drop_settled [OF assms] by simp
qed

text \<open>
  C2.  However many data paths share the global budget and however their operations interleave:
  each path stays within its identity's byte limit and the limit of inflight packets, both
  directions together; the global counters are exactly the bytes and packets the paths hold, and
  within the budget; and no operation, and no drop of a handle, panics.
\<close>

theorem data_path_accounting:
  assumes "global_budget_new byte_limit packet_limit = Some b"
    and "budget_counts (shared_quota env) = (0, 0)"
    and "(system_step b)\<^sup>*\<^sup>* ([], env) (paths, env')"
  shows "list_all (\<lambda>inner.
      path_snap_buffered_reassembly_bytes (path_snapshot inner) \<le> inner_max_reassembly_bytes inner \<and>
      path_snap_inflight_reassembly_packets (path_snapshot inner) \<le> VPN_DEFAULT_MAX_INFLIGHT_PACKETS \<and>
      (\<forall>op rate. path_run op inner (env'\<lparr>shared_rate := rate\<rparr>) \<noteq> None) \<and>
      path_drop inner (shared_quota env') \<noteq> None) paths \<and>
    snap_current_reassembly_bytes (quota_snapshot (shared_quota env')) =
      sum_list (map (path_snap_buffered_reassembly_bytes \<circ> path_snapshot) paths) \<and>
    snap_active_reassembly_packets (quota_snapshot (shared_quota env')) =
      sum_list (map (path_snap_inflight_reassembly_packets \<circ> path_snapshot) paths) \<and>
    snap_current_reassembly_bytes (quota_snapshot (shared_quota env')) \<le> byte_limit \<and>
    snap_active_reassembly_packets (quota_snapshot (shared_quota env')) \<le> packet_limit"
proof -
  have inv: "system_inv b (paths, env')" by (rule system_history_inv [OF assms(3,1,2)])
  have b: "budget_byte_limit b = byte_limit" "budget_packet_limit b = packet_limit"
    using assms(1) by (auto simp: global_budget_new_def split: if_splits)
  have each: "path_snap_buffered_reassembly_bytes (path_snapshot inner) = path_bytes (inner_state inner) \<and>
      path_snap_inflight_reassembly_packets (path_snapshot inner) = path_packets (inner_state inner) \<and>
      path_bytes (inner_state inner) \<le> inner_max_reassembly_bytes inner \<and>
      path_packets (inner_state inner) \<le> VPN_DEFAULT_MAX_INFLIGHT_PACKETS \<and>
      (\<forall>op rate. path_run op inner (env'\<lparr>shared_rate := rate\<rparr>) \<noteq> None) \<and> path_drop inner (shared_quota env') \<noteq> None"
    if "inner \<in> set paths" for inner
    by (rule system_inv_handle [OF inv that]) (simp add: settled_snapshot settled_no_panic)
  have sums: "sum_list (map (path_snap_buffered_reassembly_bytes \<circ> path_snapshot) paths) = held_bytes paths"
    "sum_list (map (path_snap_inflight_reassembly_packets \<circ> path_snapshot) paths) = held_packets paths"
    unfolding held_bytes_def held_packets_def
    by (intro arg_cong [where f = sum_list] map_cong; simp add: each)+
  from inv b each show ?thesis unfolding sums by (simp add: system_inv_def quota_snapshot_def list_all_iff)
qed

lemma sample_shared_counts: "budget_counts (shared_quota sample_shared) = (0, 0)"
  by (simp add: budget_counts_def sample_shared_def VpnQuotaMetricCounters_default_def)

theorem data_path_accounting_witness:
  "\<exists>inner env. path_run (Ingest Uplink sample_uplink_datagram 5) (path_activate sample_path) sample_shared = Some (inner, env) \<and>
     snap_current_reassembly_bytes (quota_snapshot (shared_quota env)) =
       path_snap_buffered_reassembly_bytes (path_snapshot inner)"
proof -
  obtain inner env where h: "(system_step sample_budget)\<^sup>*\<^sup>* ([], sample_shared) ([inner], env)"
    "path_run (Ingest Uplink sample_uplink_datagram 5) (path_activate sample_path) sample_shared = Some (inner, env)"
    using sample_history by blast
  from data_path_accounting [OF sample_budget_new sample_shared_counts h(1)] h(2) show ?thesis by auto
qed

section \<open>What ingestion returns\<close>

text \<open>
  C3.  A packet that the data path hands to the tunnel was received on an active path, is a
  well-formed IP packet no longer than the negotiated length, and belongs to the identity of the
  session: its client end is the identity's tunnel address and its other end an allowed
  destination.
\<close>

theorem ingested_packet_permitted:
  assumes "global_budget_new byte_limit packet_limit = Some b" and "budget_counts (shared_quota env) = (0, 0)"
    and "(system_step b)\<^sup>*\<^sup>* ([], env) (paths, env')" and "inner \<in> set paths"
    and "ingest_datagram inner (env'\<lparr>shared_rate := rate\<rparr>) direction datagram now = Some (inner', env'', Inr (Some p))"
  shows "path_active (inner_state inner) \<and> length (data_packet_bytes p) \<le> inner_max_ip_packet_len inner \<and>
    inspect_vpn_ip_packet (data_packet_bytes p) = Inr (data_packet_metadata p) \<and>
    permits_source (inner_policy inner) (client_end direction (data_packet_metadata p)) \<and>
    allows_destination (inner_policy inner) (remote_end direction (data_packet_metadata p))"
proof -
  obtain others where "inner_settled others inner env'"
    by (rule system_inv_handle [OF system_history_inv [OF assms(3,1,2)] assms(4)])
  then have settled: "inner_settled others inner (env'\<lparr>shared_rate := rate\<rparr>)" by simp
  show ?thesis
    by (rule ingest_datagram_settled [OF settled, of direction datagram now])
      (use assms(5) in \<open>auto simp: policy_accepts\<close>)
qed

lemma sample_activated:
  "(system_step sample_budget)\<^sup>*\<^sup>* ([], sample_shared) ([path_activate sample_path], sample_shared)"
proof -
  have "system_step sample_budget ([], sample_shared) ([] @ [sample_path], sample_shared)"
    by (rule system_step.create [OF sample_limits sample_path_new])
  moreover have "system_step sample_budget ([sample_path], sample_shared)
      ([sample_path][0 := path_activate sample_path], sample_shared)"
    by (rule system_step.operate [where op = Activate and rate = "shared_rate sample_shared"]) simp_all
  ultimately show ?thesis by simp
qed

theorem ingested_packet_permitted_witness:
  "permits_source (sample_policy 0x0A000132) (client_end Uplink
     \<lparr>meta_source = V4 0x0A000132, meta_destination = V4 0x0A000009\<rparr>)"
proof -
  obtain inner env where run: "ingest_datagram (path_activate sample_path) sample_shared Uplink sample_uplink_datagram 5 =
     Some (inner, env, Inr (Some \<lparr>data_packet_bytes = sample_uplink_packet,
       data_packet_metadata = \<lparr>meta_source = V4 0x0A000132, meta_destination = V4 0x0A000009\<rparr>\<rparr>))"
    using sample_path_ingest by blast
  then have "ingest_datagram (path_activate sample_path) (sample_shared\<lparr>shared_rate := shared_rate sample_shared\<rparr>)
      Uplink sample_uplink_datagram 5 = Some (inner, env, Inr (Some \<lparr>data_packet_bytes = sample_uplink_packet,
       data_packet_metadata = \<lparr>meta_source = V4 0x0A000132, meta_destination = V4 0x0A000009\<rparr>\<rparr>))" by simp
  from ingested_packet_permitted [OF sample_budget_new sample_shared_counts sample_activated _ this]
  show ?thesis by (simp add: path_activate_def sample_path_def del: permits_source.simps)
qed

text \<open>
  C4.  The books of a data path never disagree with its reassemblers: whatever datagrams arrive,
  \<open>ingest_datagram\<close> returns, and never with \<open>ResourceAccountingInvariant\<close>, so the defensive branch
  that clears the path is dead code.  Nor is a fragment ever refused for the identity's own
  reassembly limits: evicting the oldest packets always makes room.
\<close>

theorem accounting_never_fails:
  assumes "global_budget_new byte_limit packet_limit = Some b" and "budget_counts (shared_quota env) = (0, 0)"
    and "(system_step b)\<^sup>*\<^sup>* ([], env) (paths, env')" and "inner \<in> set paths"
  shows "\<exists>inner' env'' result.
    ingest_datagram inner (env'\<lparr>shared_rate := rate\<rparr>) direction datagram now = Some (inner', env'', result) \<and>
    result \<noteq> Inl ResourceAccountingInvariant \<and> result \<noteq> Inl (Quota IdentityReassemblyLimit) \<and>
    result \<noteq> Inl (Quota IdentityInflightLimit)"
proof -
  obtain others where "inner_settled others inner env'"
    by (rule system_inv_handle [OF system_history_inv [OF assms(3,1,2)] assms(4)])
  then have settled: "inner_settled others inner (env'\<lparr>shared_rate := rate\<rparr>)" by simp
  show ?thesis
    by (rule ingest_datagram_settled [OF settled, of direction datagram now])
      (auto simp: unreachable_errors_def)
qed

theorem accounting_never_fails_witness:
  "\<exists>inner env result. ingest_datagram (path_activate sample_path)
      (sample_shared\<lparr>shared_rate := rate_state_new identity_limits_default 3\<rparr>) Downlink [0x46, 0x57] 7 = Some (inner, env, result) \<and>
     result \<noteq> Inl ResourceAccountingInvariant"
  using accounting_never_fails [OF sample_budget_new sample_shared_counts sample_activated,
      of "path_activate sample_path" "rate_state_new identity_limits_default 3" Downlink "[0x46, 0x57]" 7]
  by auto

section \<open>Deactivation\<close>

fun reactivates :: "PathOp \<Rightarrow> bool" where
  "reactivates Activate = True"
| "reactivates _ = False"

fun path_run_all :: "PathOp list \<Rightarrow> VpnDataPathInner \<times> VpnPathShared \<Rightarrow> (VpnDataPathInner \<times> VpnPathShared) option" where
  "path_run_all [] s = Some s"
| "path_run_all (op # ops) (inner, env) = Option.bind (path_run op inner env) (path_run_all ops)"

lemma path_run_inactive:
  assumes "\<not> path_active (inner_state inner)" and "\<not> reactivates op" and "path_run op inner env = Some (inner', env')"
    and "inner_settled others inner env" and "path_packets (inner_state inner) = 0"
  shows "\<not> path_active (inner_state inner')" and "inner_settled others inner' env'"
    and "path_packets (inner_state inner') = 0"
proof -
  obtain x e where "path_run op inner env = Some (x, e)" "inner_settled others x e"
    by (rule path_run_settled [OF assms(4)])
  with assms(3) show "inner_settled others inner' env'" by simp
  show "\<not> path_active (inner_state inner')" and "path_packets (inner_state inner') = 0"
  proof (atomize (full), cases op)
    case (Expire now)
    obtain x e n where "expire_reassembly inner env now = Some (x, e, n)"
      "path_active (inner_state x) = path_active (inner_state inner)"
      "path_packets (inner_state x) \<le> path_packets (inner_state inner)"
      by (rule expire_reassembly_settled [OF assms(4)])
    with Expire assms(1,3,5) show "\<not> path_active (inner_state inner') \<and> path_packets (inner_state inner') = 0" by simp
  next
    case Deactivate
    obtain x m where "path_deactivate inner (shared_quota env) = Some (x, m)" "\<not> path_active (inner_state x)"
      "path_accounted_packets (inner_state x) = 0" "inner_settled others x (env\<lparr>shared_quota := m\<rparr>)"
      by (rule path_deactivate_settled [OF assms(4)])
    with Deactivate assms(3) show "\<not> path_active (inner_state inner') \<and> path_packets (inner_state inner') = 0"
      by (auto simp: inner_settled_def settled_def exact_def)
  qed (use assms in \<open>auto simp: ingest_datagram_def try_bind_runtime_def unbind_runtime_def split: if_splits\<close>)
qed

lemma path_run_all_inactive:
  assumes "\<not> path_active (inner_state inner)" and "list_all (\<lambda>op. \<not> reactivates op) ops"
    and "inner_settled others inner env" and "path_packets (inner_state inner) = 0"
  shows "\<exists>inner' env'. path_run_all ops (inner, env) = Some (inner', env') \<and> \<not> path_active (inner_state inner') \<and>
    inner_settled others inner' env' \<and> path_packets (inner_state inner') = 0"
  using assms
proof (induction ops arbitrary: inner env)
  case (Cons op ops)
  obtain x e where run: "path_run op inner env = Some (x, e)" by (rule path_run_settled [OF Cons.prems(3)])
  have op: "\<not> reactivates op" using Cons.prems(2) by simp
  note kept = path_run_inactive [OF Cons.prems(1) op run Cons.prems(3,4)]
  from Cons.IH [OF kept(1) _ kept(2,3)] Cons.prems(2) run show ?case by simp
qed simp

lemma settled_empty:
  assumes "inner_settled others inner env" and "path_packets (inner_state inner) = 0"
  shows "path_bytes (inner_state inner) = 0" and "budget_counts (shared_quota env) = others"
proof -
  show b: "path_bytes (inner_state inner) = 0"
    using assms by (simp add: inner_settled_def settled_def path_fits_def path_wf_def reasm_inv_def reasm_wf_def)
  show "budget_counts (shared_quota env) = others"
    using assms b by (cases others) (simp add: inner_settled_def settled_def exact_def books_def budget_counts_def)
qed

text \<open>
  C5.  Deactivating a path, whatever it holds, succeeds and gives its whole share of the global
  budget back and nobody else's.  From then on, and until it is activated again, it holds no
  reassembly memory and refuses every packet in both directions as stale.
\<close>

theorem deactivated_path_silent:
  assumes "global_budget_new byte_limit packet_limit = Some b" and "budget_counts (shared_quota env) = (0, 0)"
    and "(system_step b)\<^sup>*\<^sup>* ([], env) (paths, env')" and "inner \<in> set paths"
    and "list_all (\<lambda>op. \<not> reactivates op) ops"
  shows "\<exists>gone m later env''. path_deactivate inner (shared_quota env') = Some (gone, m) \<and>
    current_reassembly_bytes m + path_snap_buffered_reassembly_bytes (path_snapshot inner) =
      current_reassembly_bytes (shared_quota env') \<and>
    active_reassembly_packets m + path_snap_inflight_reassembly_packets (path_snapshot inner) =
      active_reassembly_packets (shared_quota env') \<and>
    path_run_all ops (gone, env'\<lparr>shared_quota := m\<rparr>) = Some (later, env'') \<and>
    path_snap_buffered_reassembly_bytes (path_snapshot later) = 0 \<and>
    budget_counts (shared_quota env'') = budget_counts m \<and>
    (\<forall>direction datagram now. map_option (snd \<circ> snd) (ingest_datagram later env'' direction datagram now) =
       Some (Inl StaleGeneration)) \<and>
    (\<forall>direction packet_id packet len now. snd (encode_ip_packet later env'' direction packet_id packet len now) =
       Inl StaleGeneration)"
proof -
  obtain others where settled: "inner_settled others inner env'"
    by (rule system_inv_handle [OF system_history_inv [OF assms(3,1,2)] assms(4)])
  obtain gone m where gone: "path_deactivate inner (shared_quota env') = Some (gone, m)"
    "inner_settled others gone (env'\<lparr>shared_quota := m\<rparr>)" "\<not> path_active (inner_state gone)"
    "path_accounted_bytes (inner_state gone) = 0" "path_accounted_packets (inner_state gone) = 0"
    by (rule path_deactivate_settled [OF settled])
  have empty: "path_packets (inner_state gone) = 0"
    using gone(2,5) by (simp add: inner_settled_def settled_def exact_def)
  have counts: "budget_counts m = others" using settled_empty(2) [OF gone(2) empty] by simp
  obtain later env'' where later: "path_run_all ops (gone, env'\<lparr>shared_quota := m\<rparr>) = Some (later, env'')"
    "\<not> path_active (inner_state later)" "inner_settled others later env''" "path_packets (inner_state later) = 0"
    using path_run_all_inactive [OF gone(3) assms(5) gone(2) empty] by blast
  have "current_reassembly_bytes m + path_bytes (inner_state inner) = current_reassembly_bytes (shared_quota env') \<and>
    active_reassembly_packets m + path_packets (inner_state inner) = active_reassembly_packets (shared_quota env')"
    using settled counts by (auto simp: inner_settled_def settled_def exact_def books_def budget_counts_def)
  then show ?thesis
    using gone(1) later settled_snapshot(1,2) [OF settled] settled_snapshot(1) [OF later(3)]
      settled_empty [OF later(3,4)] counts
    by (intro exI [of _ gone] exI [of _ m] exI [of _ later] exI [of _ env''])
      (simp add: ingest_datagram_def encode_ip_packet_def)
qed

theorem deactivated_path_silent_witness:
  "\<exists>gone m later env. path_deactivate (path_activate sample_path) (shared_quota sample_shared) = Some (gone, m) \<and>
     path_run_all [Expire 4, Ingest Uplink sample_uplink_datagram 5] (gone, sample_shared\<lparr>shared_quota := m\<rparr>) = Some (later, env) \<and>
     snd (encode_ip_packet later env Downlink 1 sample_uplink_packet 1200 9) = Inl StaleGeneration"
  using deactivated_path_silent [OF sample_budget_new sample_shared_counts sample_activated,
      of "path_activate sample_path" "[Expire 4, Ingest Uplink sample_uplink_datagram 5]"]
  by fastforce

section \<open>The eviction loop\<close>

text \<open>One iteration of the loop of \<open>make_identity_room\<close> that continues.\<close>

definition room_missing :: "usize \<Rightarrow> usize \<Rightarrow> usize \<Rightarrow> VpnDataPathState \<Rightarrow> bool" where
  "room_missing byte_limit additional_bytes additional_packets st \<longleftrightarrow>
     sum_exceeds (path_inflight_packets st) additional_packets VPN_DEFAULT_MAX_INFLIGHT_PACKETS \<or>
     sum_exceeds (path_buffered_bytes st) additional_bytes byte_limit"

definition room_iteration ::
  "usize \<Rightarrow> VpnPacketDirection \<Rightarrow> u32 \<Rightarrow> bool \<Rightarrow> usize \<Rightarrow> usize \<Rightarrow> VpnDataPathState \<Rightarrow> VpnDataPathState \<Rightarrow> bool" where
  "room_iteration byte_limit direction packet_id existing additional_bytes additional_packets st st' \<longleftrightarrow>
     room_missing byte_limit additional_bytes additional_packets st \<and>
     path_evict_oldest st direction packet_id existing = (st', True)"

lemma room_iterations_bound:
  "(room_iteration byte_limit direction packet_id existing additional_bytes additional_packets ^^ n) st st' \<Longrightarrow>
     n + path_packets st' \<le> path_packets st"
proof (induction n arbitrary: st')
  case (Suc n)
  then obtain x where "(room_iteration byte_limit direction packet_id existing additional_bytes additional_packets ^^ n) st x"
    "room_iteration byte_limit direction packet_id existing additional_bytes additional_packets x st'" by auto
  with Suc.IH path_evict_oldest_shrinks [of x direction packet_id existing st'] show ?case
    by (fastforce simp: room_iteration_def)
qed simp

lemma make_identity_room_iterates:
  "\<exists>n st'. (room_iteration byte_limit direction packet_id existing additional_bytes additional_packets ^^ n) st st' \<and>
    (if \<not> room_missing byte_limit additional_bytes additional_packets st'
     then make_identity_room byte_limit st m direction packet_id existing additional_bytes additional_packets = (st', m, Inr ())
     else snd (path_evict_oldest st' direction packet_id existing) = False \<and>
       is_err (snd (snd (make_identity_room byte_limit st m direction packet_id existing additional_bytes additional_packets))))"
proof (induction byte_limit st m direction packet_id existing additional_bytes additional_packets rule: make_identity_room.induct)
  case (1 byte_limit st m direction packet_id existing additional_bytes additional_packets)
  let ?R = "room_iteration byte_limit direction packet_id existing additional_bytes additional_packets"
  show ?case
  proof (cases "room_missing byte_limit additional_bytes additional_packets st")
    case False
    then show ?thesis
      by (intro exI [of _ 0] exI [of _ st]) (simp add: make_identity_room.simps [of byte_limit st] room_missing_def)
  next
    case missing: True
    obtain x evicted where e: "path_evict_oldest st direction packet_id existing = (x, evicted)" by fastforce
    show ?thesis
    proof (cases evicted)
      case False
      then show ?thesis
        using missing e
        by (intro exI [of _ 0] exI [of _ st]) (auto simp: make_identity_room.simps [of byte_limit st] room_missing_def Let_def)
    next
      case True
      have same: "make_identity_room byte_limit st m direction packet_id existing additional_bytes additional_packets =
          make_identity_room byte_limit x m direction packet_id existing additional_bytes additional_packets"
        using missing e True by (auto simp: make_identity_room.simps [of byte_limit st] room_missing_def Let_def)
      have "\<not> (\<not> sum_exceeds (path_inflight_packets st) additional_packets VPN_DEFAULT_MAX_INFLIGHT_PACKETS \<and>
          \<not> sum_exceeds (path_buffered_bytes st) additional_bytes byte_limit)" using missing by (auto simp: room_missing_def)
      from 1 [OF refl refl this e [symmetric]] True obtain n st' where "(?R ^^ n) x st'" and
        r: "if \<not> room_missing byte_limit additional_bytes additional_packets st'
          then make_identity_room byte_limit x m direction packet_id existing additional_bytes additional_packets = (st', m, Inr ())
          else snd (path_evict_oldest st' direction packet_id existing) = False \<and>
            is_err (snd (snd (make_identity_room byte_limit x m direction packet_id existing additional_bytes additional_packets)))"
        by auto
      moreover have "?R st x" using missing e True by (simp add: room_iteration_def)
      ultimately have "(?R ^^ Suc n) st st'" by (meson relpowp_Suc_I2)
      then show ?thesis unfolding same using r by blast
    qed
  qed
qed

text \<open>
  C37.  The eviction loop that makes room for a fragment terminates: every iteration evicts a packet,
  so that there are at most as many iterations as packets in flight; and when it ends there is room,
  or there is nothing left that may be evicted and the fragment is refused.
\<close>

theorem identity_room_loop_terminates:
  "((room_iteration byte_limit direction packet_id existing additional_bytes additional_packets ^^ k) st st'' \<longrightarrow>
      k \<le> path_packets st) \<and>
   (\<exists>n st'. n \<le> path_packets st \<and>
     (room_iteration byte_limit direction packet_id existing additional_bytes additional_packets ^^ n) st st' \<and>
     (if \<not> room_missing byte_limit additional_bytes additional_packets st'
      then make_identity_room byte_limit st m direction packet_id existing additional_bytes additional_packets = (st', m, Inr ())
      else snd (path_evict_oldest st' direction packet_id existing) = False \<and>
        is_err (snd (snd (make_identity_room byte_limit st m direction packet_id existing additional_bytes additional_packets)))))"
  using room_iterations_bound make_identity_room_iterates
  by (metis (no_types, lifting) add_leD1)

theorem identity_room_loop_terminates_witness:
  "make_identity_room 65535 (inner_state sample_path) VpnQuotaMetricCounters_default Uplink 9 False 20 1 =
     (inner_state sample_path, VpnQuotaMetricCounters_default, Inr ())"
proof -
  let ?st = "inner_state sample_path"
  have empty: "path_packets ?st = 0" by (simp add: sample_path_def sample_reassembler_def)
  have room: "\<not> room_missing 65535 20 1 ?st"
    by (simp add: room_missing_def sum_exceeds_def checked_add_usize_def sample_path_def sample_reassembler_def
        path_inflight_packets_def inflight_packets_def path_buffered_bytes_def sat_add_usize_def usize_max_def vpn_consts)
  from identity_room_loop_terminates [where byte_limit = 65535 and direction = Uplink and packet_id = 9 and existing = False
      and additional_bytes = 20 and additional_packets = 1 and k = 0 and st = ?st and st'' = ?st
      and m = VpnQuotaMetricCounters_default] empty room
  show ?thesis by auto
qed

end
