(* ===== verification/Vpn_Session.thy ===== *)
theory Vpn_Session
  imports Vpn_Control Vpn_Identity
begin

text \<open>
  Negotiation and the control handshake (\<open>vpn_session.rs\<close>, \<open>verify_vpn_alpn\<close> of \<open>vpn_tls.rs\<close>).  The
  QUIC connection and its control stream are library objects: the model takes what they answer as
  arguments, and returns what the handshake writes and how it closes the connection.
\<close>

section \<open>Constants and errors\<close>

definition VPN_DEFAULT_CONTROL_HANDSHAKE_TIMEOUT :: duration where
  "VPN_DEFAULT_CONTROL_HANDSHAKE_TIMEOUT = 5 * 10 ^ 9"

definition VPN_MAX_CONTROL_HANDSHAKE_TIMEOUT :: duration where
  "VPN_MAX_CONTROL_HANDSHAKE_TIMEOUT = 30 * 10 ^ 9"

definition VPN_CLOSE_CONTROL_FAILED :: u32 where
  "VPN_CLOSE_CONTROL_FAILED = 0x105"

definition VPN_CLOSE_CONTROL_REJECTED :: u32 where
  "VPN_CLOSE_CONTROL_REJECTED = 0x106"

definition CONTROL_FAILED_REASON :: string where
  "CONTROL_FAILED_REASON = ''control_failed''"

definition CONTROL_REJECTED_REASON :: string where
  "CONTROL_REJECTED_REASON = ''control_rejected''"

datatype VpnSessionError =
    InvalidHandshakeTimeout | AlpnNotNegotiated | MultipathNotNegotiated | DatagramNotNegotiated
  | DatagramTooSmall | PeerIdentityUnavailable | StreamOpenFailed | StreamAcceptFailed
  | ControlReadFailed | ControlWriteFailed | ControlFinishFailed | ControlTimeout
  | InvalidControl VpnControlError | UnexpectedControlMessage | InvalidServerResponse
  | Rejected VpnReject

fun VpnSessionError_display :: "VpnSessionError \<Rightarrow> string" where
  "VpnSessionError_display (InvalidControl e) = ''vpn_session_invalid_control:'' @ VpnControlError_display e"
| "VpnSessionError_display (Rejected r) =
     ''vpn_session_rejected:'' @ decimal (unat (reject_reason_code (reject_reason r))) @ '':'' @
     decimal (unat (reject_retry_after_secs r))"
| "VpnSessionError_display InvalidHandshakeTimeout = ''vpn_session_invalid_handshake_timeout''"
| "VpnSessionError_display AlpnNotNegotiated = ''vpn_session_alpn_not_negotiated''"
| "VpnSessionError_display MultipathNotNegotiated = ''vpn_session_multipath_not_negotiated''"
| "VpnSessionError_display DatagramNotNegotiated = ''vpn_session_datagram_not_negotiated''"
| "VpnSessionError_display DatagramTooSmall = ''vpn_session_datagram_too_small''"
| "VpnSessionError_display PeerIdentityUnavailable = ''vpn_session_peer_identity_unavailable''"
| "VpnSessionError_display StreamOpenFailed = ''vpn_session_stream_open_failed''"
| "VpnSessionError_display StreamAcceptFailed = ''vpn_session_stream_accept_failed''"
| "VpnSessionError_display ControlReadFailed = ''vpn_session_control_read_failed''"
| "VpnSessionError_display ControlWriteFailed = ''vpn_session_control_write_failed''"
| "VpnSessionError_display ControlFinishFailed = ''vpn_session_control_finish_failed''"
| "VpnSessionError_display ControlTimeout = ''vpn_session_control_timeout''"
| "VpnSessionError_display UnexpectedControlMessage = ''vpn_session_unexpected_control_message''"
| "VpnSessionError_display InvalidServerResponse = ''vpn_session_invalid_server_response''"

section \<open>Negotiation\<close>

text \<open>\<open>VpnSessionGeneration::new\<close>: a generation is not zero.\<close>

definition session_generation_new :: "u64 \<Rightarrow> u64 option" where
  "session_generation_new value = (if value = 0 then None else Some value)"

record VpnServerNegotiationConfig =
  config_min_wire_version :: u16
  config_max_wire_version :: u16
  config_max_ip_packet_len :: u16
  config_max_datagram_len :: u16

definition negotiation_config_new ::
  "u16 \<Rightarrow> u16 \<Rightarrow> u16 \<Rightarrow> u16 \<Rightarrow> VpnControlError + VpnServerNegotiationConfig" where
  "negotiation_config_new min_wire_version max_wire_version max_ip_packet_len max_datagram_len =
     (if min_wire_version = 0 \<or> min_wire_version > max_wire_version then Inl InvalidAccept
      else let validation = \<lparr>hello_min_wire_version = min_wire_version, hello_max_wire_version = max_wire_version,
                 hello_capabilities = VPN_REQUIRED_CAPABILITIES OR VPN_CAP_IPV4,
                 hello_max_ip_packet_len = max_ip_packet_len, hello_max_datagram_len = max_datagram_len\<rparr> in
        try_then (hello_validate validation) (\<lambda>_.
        Inr \<lparr>config_min_wire_version = min_wire_version, config_max_wire_version = max_wire_version,
             config_max_ip_packet_len = max_ip_packet_len, config_max_datagram_len = max_datagram_len\<rparr>))"

definition negotiation_config_default :: VpnServerNegotiationConfig where
  "negotiation_config_default =
     \<lparr>config_min_wire_version = VPN_WIRE_VERSION_V1, config_max_wire_version = VPN_WIRE_VERSION_V1,
      config_max_ip_packet_len = of_nat VPN_MAX_IP_PACKET_LEN, config_max_datagram_len = 1200\<rparr>"

record VpnNegotiatedSession =
  session_identity :: VpnIdentity
  session_fingerprint :: VpnCertificateFingerprint
  session_accept :: VpnAccept

definition reject :: "VpnRejectReason \<Rightarrow> VpnReject" where
  "reject reason = \<lparr>reject_reason = reason, reject_retry_after_secs = 0\<rparr>"

definition ipv4_enabled :: "VpnHello \<Rightarrow> VpnIdentity \<Rightarrow> bool" where
  "ipv4_enabled hello identity \<longleftrightarrow>
     hello_capabilities hello AND VPN_CAP_IPV4 \<noteq> 0 \<and> is_some (identity_client_ipv4 identity)"

definition ipv6_enabled :: "VpnHello \<Rightarrow> VpnIdentity \<Rightarrow> bool" where
  "ipv6_enabled hello identity \<longleftrightarrow>
     hello_capabilities hello AND VPN_CAP_IPV6 \<noteq> 0 \<and> is_some (identity_client_ipv6 identity)"

definition negotiated_accept ::
  "VpnIdentityRegistry \<Rightarrow> VpnIdentity \<Rightarrow> VpnHello \<Rightarrow> VpnServerNegotiationConfig \<Rightarrow> u64 \<Rightarrow> u16 \<Rightarrow> VpnAccept" where
  "negotiated_accept registry identity hello config generation selected_wire_version =
     (let ipv4_enabled = ipv4_enabled hello identity;
          ipv6_enabled = ipv6_enabled hello identity;
          capabilities = VPN_REQUIRED_CAPABILITIES;
          capabilities = (if ipv4_enabled then capabilities OR VPN_CAP_IPV4 else capabilities);
          capabilities = (if ipv6_enabled then capabilities OR VPN_CAP_IPV6 else capabilities) in
      \<lparr>accept_selected_wire_version = selected_wire_version,
       accept_capabilities = capabilities,
       accept_max_ip_packet_len = min (hello_max_ip_packet_len hello) (config_max_ip_packet_len config),
       accept_max_datagram_len = min (hello_max_datagram_len hello) (config_max_datagram_len config),
       accept_session_generation = generation,
       accept_client_ipv4 = (if ipv4_enabled then identity_client_ipv4 identity else None),
       accept_server_ipv4 = (if ipv4_enabled then registry_server_ipv4 registry else None),
       accept_client_ipv6 = (if ipv6_enabled then identity_client_ipv6 identity else None),
       accept_server_ipv6 = (if ipv6_enabled then registry_server_ipv6 registry else None)\<rparr>)"

definition negotiate_vpn_hello ::
  "VpnIdentityRegistry \<Rightarrow> VpnCertificateFingerprint \<Rightarrow> VpnHello \<Rightarrow> VpnServerNegotiationConfig \<Rightarrow> u64 \<Rightarrow>
   VpnReject + VpnNegotiatedSession" where
  "negotiate_vpn_hello registry fingerprint hello config generation =
     (if is_err (hello_validate hello) then Inl (reject ProtocolViolation)
      else case authorize registry fingerprint of
          Inl UnknownFingerprint \<Rightarrow> Inl (reject Unauthorized)
        | Inl IdentityDisabledError \<Rightarrow> Inl (reject IdentityDisabled)
        | Inr identity \<Rightarrow>
            (case select_vpn_wire_version (hello_min_wire_version hello) (hello_max_wire_version hello)
                    (config_min_wire_version config) (config_max_wire_version config) of
               None \<Rightarrow> Inl (reject UnsupportedVersion)
             | Some selected_wire_version \<Rightarrow>
                 if \<not> ipv4_enabled hello identity \<and> \<not> ipv6_enabled hello identity then Inl (reject PolicyRejected)
                 else let accept = negotiated_accept registry identity hello config generation selected_wire_version in
                   if is_err (accept_validate accept) then Inl (reject PolicyRejected)
                   else Inr \<lparr>session_identity = identity, session_fingerprint = fingerprint, session_accept = accept\<rparr>))"

section \<open>The handshake\<close>

text \<open>
  What the connection answers: the application protocol of the TLS handshake, when there is
  handshake data of the expected type; whether multipath was negotiated; the datagram size; the
  peer's certificate chain, when there is a peer identity of the expected type.  The SHA-256 digest
  is a parameter.
\<close>

record Connection =
  conn_handshake_protocol :: "bytes option option"
  conn_is_multipath_enabled :: bool
  conn_max_datagram_size :: "usize option"
  conn_peer_identity :: "bytes list option"

text \<open>
  What the awaited stream operations come to: a value, an error, or nothing before the deadline of
  the surrounding \<open>timeout\<close>.
\<close>

datatype 'a await = Ready 'a | Failed | Elapsed

record ControlStream =
  stream_ready :: "unit await"
  stream_read_to_end :: "bytes await"
  stream_write_all :: "unit await"
  stream_finish :: bool

definition verify_vpn_alpn :: "Connection \<Rightarrow> bool" where
  "verify_vpn_alpn connection =
     (case conn_handshake_protocol connection of None \<Rightarrow> False | Some protocol \<Rightarrow> protocol = Some VPN_ALPN)"

definition vpn_certificate_fingerprint :: "(bytes \<Rightarrow> bytes) \<Rightarrow> bytes \<Rightarrow> VpnCertificateFingerprint" where
  "vpn_certificate_fingerprint sha256 certificate = Fingerprint (sha256 certificate)"

definition vpn_peer_certificate_fingerprint :: "(bytes \<Rightarrow> bytes) \<Rightarrow> Connection \<Rightarrow> VpnCertificateFingerprint option" where
  "vpn_peer_certificate_fingerprint sha256 connection =
     (case conn_peer_identity connection of
        None \<Rightarrow> None
      | Some [] \<Rightarrow> None
      | Some (leaf # _) \<Rightarrow> Some (vpn_certificate_fingerprint sha256 leaf))"

definition validate_handshake_timeout :: "duration \<Rightarrow> VpnSessionError + unit" where
  "validate_handshake_timeout value =
     (if value = 0 \<or> value > VPN_MAX_CONTROL_HANDSHAKE_TIMEOUT then Inl InvalidHandshakeTimeout else Inr ())"

definition validate_multipath :: "Connection \<Rightarrow> VpnSessionError + unit" where
  "validate_multipath connection =
     (if \<not> conn_is_multipath_enabled connection then Inl MultipathNotNegotiated else Inr ())"

definition connection_datagram_limit :: "Connection \<Rightarrow> VpnSessionError + u16" where
  "connection_datagram_limit connection =
     (case conn_max_datagram_size connection of
        None \<Rightarrow> Inl DatagramNotNegotiated
      | Some datagram_size \<Rightarrow>
          if datagram_size < VPN_MIN_QUIC_DATAGRAM_LEN then Inl DatagramTooSmall
          else Inr (case u16_try_from datagram_size of None \<Rightarrow> - 1 | Some w \<Rightarrow> w))"

definition validate_server_accept :: "VpnHello \<Rightarrow> VpnAccept \<Rightarrow> VpnSessionError + unit" where
  "validate_server_accept hello accept =
     try_then (map_err (\<lambda>_. InvalidServerResponse) (accept_validate accept)) (\<lambda>_.
     if accept_selected_wire_version accept < hello_min_wire_version hello \<or>
        accept_selected_wire_version accept > hello_max_wire_version hello \<or>
        accept_capabilities accept AND NOT (hello_capabilities hello) \<noteq> 0 \<or>
        accept_max_ip_packet_len accept > hello_max_ip_packet_len hello \<or>
        accept_max_datagram_len accept > hello_max_datagram_len hello
     then Inl InvalidServerResponse else Inr ())"

text \<open>
  A step of the handshake's future: what has been written so far, and the result.  An elapsed await
  ends the future with \<open>ControlTimeout\<close>, the error the caller's \<open>timeout\<close> is mapped to.
\<close>

definition await :: "'a await \<Rightarrow> VpnSessionError \<Rightarrow> VpnSessionError + 'a" where
  "await x e = (case x of Ready v \<Rightarrow> Inr v | Failed \<Rightarrow> Inl e | Elapsed \<Rightarrow> Inl ControlTimeout)"

definition write_control_message ::
  "ControlStream \<Rightarrow> VpnControlMessage \<Rightarrow> bytes \<times> (VpnSessionError + unit)" where
  "write_control_message stream message =
     (case encode_vpn_control_message message of
        Inl e \<Rightarrow> ([], Inl (InvalidControl e))
      | Inr encoded \<Rightarrow>
          (case await (stream_write_all stream) ControlWriteFailed of
             Inl e \<Rightarrow> ([], Inl e)
           | Inr _ \<Rightarrow> (encoded, ensure (stream_finish stream) ControlFinishFailed)))"

definition read_control_message :: "ControlStream \<Rightarrow> VpnSessionError + VpnControlMessage" where
  "read_control_message stream =
     try_then (await (stream_read_to_end stream) ControlReadFailed) (\<lambda>encoded.
     map_err InvalidControl (decode_vpn_control_message encoded))"

definition client_exchange :: "ControlStream \<Rightarrow> VpnHello \<Rightarrow> bytes \<times> (VpnSessionError + VpnAccept)" where
  "client_exchange stream hello =
     (case await (stream_ready stream) StreamOpenFailed of
        Inl e \<Rightarrow> ([], Inl e)
      | Inr _ \<Rightarrow>
          let (sent, written) = write_control_message stream (Hello hello) in
          (sent, try_then written (\<lambda>_. try_then (read_control_message stream) (\<lambda>message.
             case message of
               Accept accept \<Rightarrow> try_then (validate_server_accept hello accept) (\<lambda>_. Inr accept)
             | Reject rejection \<Rightarrow> Inl (Rejected rejection)
             | Hello _ \<Rightarrow> Inl UnexpectedControlMessage))))"

text \<open>The hello that goes on the wire: its datagram length is capped by the connection's.\<close>

definition client_hello :: "Connection \<Rightarrow> VpnHello \<Rightarrow> duration \<Rightarrow> VpnSessionError + VpnHello" where
  "client_hello connection hello handshake_timeout =
     try_then (validate_handshake_timeout handshake_timeout) (\<lambda>_.
     try_then (map_err InvalidControl (hello_validate hello)) (\<lambda>_.
     try_then (ensure (verify_vpn_alpn connection) AlpnNotNegotiated) (\<lambda>_.
     try_then (validate_multipath connection) (\<lambda>_.
     try_then (connection_datagram_limit connection) (\<lambda>limit.
     Inr (hello\<lparr>hello_max_datagram_len := min (hello_max_datagram_len hello) limit\<rparr>))))))"

definition vpn_client_control_handshake ::
  "Connection \<Rightarrow> ControlStream \<Rightarrow> VpnHello \<Rightarrow> duration \<Rightarrow>
   bytes \<times> (u32 \<times> string) option \<times> (VpnSessionError + VpnAccept)" where
  "vpn_client_control_handshake connection stream hello handshake_timeout =
     (case client_hello connection hello handshake_timeout of
        Inl e \<Rightarrow> ([], None, Inl e)
      | Inr hello \<Rightarrow>
          let (sent, result) = client_exchange stream hello in
          (sent,
           (case result of
              Inr _ \<Rightarrow> None
            | Inl ControlTimeout \<Rightarrow> None
            | Inl (Rejected _) \<Rightarrow> Some (VPN_CLOSE_CONTROL_REJECTED, CONTROL_REJECTED_REASON)
            | Inl _ \<Rightarrow> Some (VPN_CLOSE_CONTROL_FAILED, CONTROL_FAILED_REASON)),
           result))"

datatype VpnServerControlOutcome = OutcomeAccepted VpnNegotiatedSession | OutcomeRejected VpnReject

definition server_answer ::
  "ControlStream \<Rightarrow> VpnControlMessage \<Rightarrow> VpnServerControlOutcome \<Rightarrow> bytes \<times> (VpnSessionError + VpnServerControlOutcome)" where
  "server_answer stream message outcome =
     (let (sent, written) = write_control_message stream message in
      (sent, try_then written (\<lambda>_. Inr outcome)))"

definition server_exchange ::
  "ControlStream \<Rightarrow> VpnIdentityRegistry \<Rightarrow> VpnCertificateFingerprint \<Rightarrow> VpnServerNegotiationConfig \<Rightarrow> u64 \<Rightarrow>
   bytes \<times> (VpnSessionError + VpnServerControlOutcome)" where
  "server_exchange stream registry fingerprint config generation =
     (let refuse = (\<lambda>rejection. server_answer stream (Reject rejection) (OutcomeRejected rejection)) in
      case await (stream_ready stream) StreamAcceptFailed of
        Inl e \<Rightarrow> ([], Inl e)
      | Inr _ \<Rightarrow>
          (case read_control_message stream of
             Inr (Hello hello) \<Rightarrow>
               (case negotiate_vpn_hello registry fingerprint hello config generation of
                  Inr session \<Rightarrow> server_answer stream (Accept (session_accept session)) (OutcomeAccepted session)
                | Inl rejection \<Rightarrow> refuse rejection)
           | Inr _ \<Rightarrow> refuse (reject ProtocolViolation)
           | Inl (InvalidControl _) \<Rightarrow> refuse (reject ProtocolViolation)
           | Inl e \<Rightarrow> ([], Inl e)))"

definition server_setup ::
  "(bytes \<Rightarrow> bytes) \<Rightarrow> Connection \<Rightarrow> VpnServerNegotiationConfig \<Rightarrow> duration \<Rightarrow>
   VpnSessionError + VpnServerNegotiationConfig \<times> VpnCertificateFingerprint" where
  "server_setup sha256 connection config handshake_timeout =
     try_then (validate_handshake_timeout handshake_timeout) (\<lambda>_.
     try_then (ensure (verify_vpn_alpn connection) AlpnNotNegotiated) (\<lambda>_.
     try_then (validate_multipath connection) (\<lambda>_.
     try_then (connection_datagram_limit connection) (\<lambda>limit.
     case vpn_peer_certificate_fingerprint sha256 connection of
       None \<Rightarrow> Inl PeerIdentityUnavailable
     | Some fingerprint \<Rightarrow>
         Inr (config\<lparr>config_max_datagram_len := min (config_max_datagram_len config) limit\<rparr>, fingerprint)))))"

definition vpn_server_control_handshake ::
  "(bytes \<Rightarrow> bytes) \<Rightarrow> Connection \<Rightarrow> ControlStream \<Rightarrow> VpnIdentityRegistry \<Rightarrow> VpnServerNegotiationConfig \<Rightarrow> u64 \<Rightarrow> duration \<Rightarrow>
   bytes \<times> (VpnSessionError + VpnServerControlOutcome)" where
  "vpn_server_control_handshake sha256 connection stream registry config generation handshake_timeout =
     (case server_setup sha256 connection config handshake_timeout of
        Inl e \<Rightarrow> ([], Inl e)
      | Inr (config, fingerprint) \<Rightarrow> server_exchange stream registry fingerprint config generation)"

section \<open>Capabilities and sizes\<close>

lemma cap_consts:
  "VPN_CAP_IPV4 = 1" "VPN_CAP_IPV6 = 2" "VPN_REQUIRED_CAPABILITIES = 12" "VPN_KNOWN_CAPABILITIES = 15"
  by (simp_all add: VPN_CAP_IPV4_def VPN_CAP_IPV6_def VPN_REQUIRED_CAPABILITIES_def VPN_KNOWN_CAPABILITIES_def
      VPN_CAP_FRAGMENTATION_def VPN_CAP_MULTIPATH_REQUIRED_def)

lemma and_not_eq_0: "a AND NOT h = 0 \<longleftrightarrow> a AND h = (a :: 'a::len word)"
  by (auto simp: bit_word_eqI bit_eq_iff bit_and_iff bit_not_iff)

lemma single_bit_and: "(h :: u32) AND 1 \<noteq> 0 \<Longrightarrow> 1 AND h = 1" "(h :: u32) AND 2 \<noteq> 0 \<Longrightarrow> 2 AND h = 2"
proof -
  assume "h AND 1 \<noteq> 0"
  then have "bit h 0" using and_exp_eq_0_iff_not_bit [of h 0] by simp
  then show "1 AND h = 1" by (intro bit_word_eqI) (auto simp: bit_and_iff bit_1_iff)
next
  assume "h AND 2 \<noteq> 0"
  then have "bit h 1" using and_exp_eq_0_iff_not_bit [of h 1] by simp
  then show "2 AND h = 2" by (intro bit_word_eqI) (auto simp: bit_and_iff bit_2_iff)
qed

lemma offered_capabilities:
  assumes "validate_capabilities h = Inr ()"
    and "ipv4_on \<Longrightarrow> h AND VPN_CAP_IPV4 \<noteq> 0" and "ipv6_on \<Longrightarrow> h AND VPN_CAP_IPV6 \<noteq> 0" and "ipv4_on \<or> ipv6_on"
  defines "c \<equiv> VPN_REQUIRED_CAPABILITIES OR (if ipv4_on then VPN_CAP_IPV4 else 0) OR (if ipv6_on then VPN_CAP_IPV6 else 0)"
  shows "c AND NOT h = 0" and "validate_capabilities c = Inr ()"
    and "c AND VPN_CAP_IPV4 \<noteq> 0 \<longleftrightarrow> ipv4_on" and "c AND VPN_CAP_IPV6 \<noteq> 0 \<longleftrightarrow> ipv6_on"
proof -
  have "h AND 12 = 12" using assms(1) by (simp add: validate_capabilities_def cap_consts split: if_splits)
  then have "12 AND h = 12" by (simp add: and.commute)
  moreover have "ipv4_on \<Longrightarrow> 1 AND h = 1" "ipv6_on \<Longrightarrow> 2 AND h = 2"
    using assms(2,3) single_bit_and [of h] by (simp_all add: cap_consts)
  ultimately show "c AND NOT h = 0"
    unfolding and_not_eq_0 c_def cap_consts by (simp add: bit.conj_disj_distrib2)
  have "validate_capabilities 13 = Inr ()" "validate_capabilities 14 = Inr ()" "validate_capabilities 15 = Inr ()"
    by (simp_all add: validate_capabilities_def cap_consts)
  then show "validate_capabilities c = Inr ()"
    using assms(4) by (cases ipv4_on; cases ipv6_on) (simp_all add: c_def cap_consts)
  show "c AND VPN_CAP_IPV4 \<noteq> 0 \<longleftrightarrow> ipv4_on" "c AND VPN_CAP_IPV6 \<noteq> 0 \<longleftrightarrow> ipv6_on"
    by (cases ipv4_on; cases ipv6_on; simp add: c_def cap_consts)+
qed

lemma validate_sizes_min:
  "validate_sizes a b = Inr () \<Longrightarrow> validate_sizes c d = Inr () \<Longrightarrow> validate_sizes (min a c) (min b d) = Inr ()"
  by (auto simp: validate_sizes_def min_def split: if_splits)

definition config_ok :: "VpnServerNegotiationConfig \<Rightarrow> bool" where
  "config_ok config \<longleftrightarrow> config_min_wire_version config \<noteq> 0 \<and>
     config_min_wire_version config \<le> config_max_wire_version config \<and>
     validate_sizes (config_max_ip_packet_len config) (config_max_datagram_len config) = Inr ()"

lemma negotiation_config_new_ok:
  "negotiation_config_new min_version max_version max_packet max_datagram = Inr config \<Longrightarrow> config_ok config"
  by (auto simp: negotiation_config_new_def config_ok_def hello_validate_def result_simps split: if_splits)

lemma hello_validate_ok:
  "hello_validate h = Inr () \<longleftrightarrow> hello_min_wire_version h \<noteq> 0 \<and> hello_min_wire_version h \<le> hello_max_wire_version h \<and>
     validate_capabilities (hello_capabilities h) = Inr () \<and>
     validate_sizes (hello_max_ip_packet_len h) (hello_max_datagram_len h) = Inr ()"
  by (auto simp: hello_validate_def result_simps)

lemma not_is_err: "\<not> is_err x \<longleftrightarrow> x = Inr ()" for x :: "'e + unit"
  by (cases x) auto

lemma select_version_range:
  assumes "select_vpn_wire_version client_min client_max server_min server_max = Some v"
  shows "client_min \<le> v" and "v \<le> client_max" and "server_min \<le> v" and "v \<le> server_max" and "v \<noteq> 0"
proof -
  show r: "client_min \<le> v" "v \<le> client_max" "server_min \<le> v" "v \<le> server_max"
    using assms by (auto simp: select_vpn_wire_version_def Let_def split: if_splits)
  have "client_min \<noteq> 0" using assms by (auto simp: select_vpn_wire_version_def split: if_splits)
  with r(1) show "v \<noteq> 0" by auto
qed

section \<open>What negotiation agrees on\<close>

lemma negotiate_success:
  assumes "negotiate_vpn_hello registry fingerprint hello config generation = Inr session"
  obtains identity version where "hello_validate hello = Inr ()"
    and "authorize registry fingerprint = Inr identity"
    and "select_vpn_wire_version (hello_min_wire_version hello) (hello_max_wire_version hello)
      (config_min_wire_version config) (config_max_wire_version config) = Some version"
    and "ipv4_enabled hello identity \<or> ipv6_enabled hello identity"
    and "accept_validate (negotiated_accept registry identity hello config generation version) = Inr ()"
    and "session = \<lparr>session_identity = identity, session_fingerprint = fingerprint,
      session_accept = negotiated_accept registry identity hello config generation version\<rparr>"
  using assms
  by (auto simp: negotiate_vpn_hello_def Let_def not_is_err [symmetric]
      split: if_splits sum.splits option.splits VpnIdentityAuthorizationError.splits)

lemma negotiated_accept_fields:
  fixes registry identity hello config generation version
  defines "a \<equiv> negotiated_accept registry identity hello config generation version"
  shows "accept_selected_wire_version a = version"
    and "accept_max_ip_packet_len a = min (hello_max_ip_packet_len hello) (config_max_ip_packet_len config)"
    and "accept_max_datagram_len a = min (hello_max_datagram_len hello) (config_max_datagram_len config)"
    and "accept_session_generation a = generation"
    and "accept_capabilities a = VPN_REQUIRED_CAPABILITIES OR
      (if ipv4_enabled hello identity then VPN_CAP_IPV4 else 0) OR
      (if ipv6_enabled hello identity then VPN_CAP_IPV6 else 0)"
  by (simp_all add: a_def negotiated_accept_def Let_def or.assoc)

lemma negotiated_offered:
  assumes "hello_validate hello = Inr ()" and "ipv4_enabled hello identity \<or> ipv6_enabled hello identity"
  shows "accept_capabilities (negotiated_accept registry identity hello config generation version)
      AND NOT (hello_capabilities hello) = 0"
    and "validate_capabilities (accept_capabilities (negotiated_accept registry identity hello config generation version)) = Inr ()"
    and "accept_capabilities (negotiated_accept registry identity hello config generation version) AND VPN_CAP_IPV4 \<noteq> 0 \<longleftrightarrow>
      ipv4_enabled hello identity"
    and "accept_capabilities (negotiated_accept registry identity hello config generation version) AND VPN_CAP_IPV6 \<noteq> 0 \<longleftrightarrow>
      ipv6_enabled hello identity"
proof -
  have "validate_capabilities (hello_capabilities hello) = Inr ()" using assms(1) by (simp add: hello_validate_ok)
  note c = offered_capabilities [OF this _ _ assms(2)]
  show "accept_capabilities (negotiated_accept registry identity hello config generation version)
      AND NOT (hello_capabilities hello) = 0"
    "validate_capabilities (accept_capabilities (negotiated_accept registry identity hello config generation version)) = Inr ()"
    "accept_capabilities (negotiated_accept registry identity hello config generation version) AND VPN_CAP_IPV4 \<noteq> 0 \<longleftrightarrow>
      ipv4_enabled hello identity"
    "accept_capabilities (negotiated_accept registry identity hello config generation version) AND VPN_CAP_IPV6 \<noteq> 0 \<longleftrightarrow>
      ipv6_enabled hello identity"
    unfolding negotiated_accept_fields by (rule c; simp add: ipv4_enabled_def ipv6_enabled_def)+
qed

lemma negotiated_server_accept:
  assumes "negotiate_vpn_hello registry fingerprint hello config generation = Inr session"
  shows "accept_validate (session_accept session) = Inr ()"
    and "validate_server_accept hello (session_accept session) = Inr ()"
proof -
  obtain identity version where h: "hello_validate hello = Inr ()"
    and v: "select_vpn_wire_version (hello_min_wire_version hello) (hello_max_wire_version hello)
      (config_min_wire_version config) (config_max_wire_version config) = Some version"
    and on: "ipv4_enabled hello identity \<or> ipv6_enabled hello identity"
    and ok: "accept_validate (negotiated_accept registry identity hello config generation version) = Inr ()"
    and session: "session = \<lparr>session_identity = identity, session_fingerprint = fingerprint,
      session_accept = negotiated_accept registry identity hello config generation version\<rparr>"
    by (rule negotiate_success [OF assms])
  show "accept_validate (session_accept session) = Inr ()" using ok session by simp
  then show "validate_server_accept hello (session_accept session) = Inr ()"
    using select_version_range [OF v] negotiated_offered(1) [OF h on] session
    by (auto simp: validate_server_accept_def negotiated_accept_fields(1-3))
qed

text \<open>An identity as its constructor makes it.\<close>

definition constructed :: "VpnIdentity \<Rightarrow> bool" where
  "constructed i \<longleftrightarrow> (\<exists>destinations. identity_new (identity_client_id i) (identity_fingerprints i) (identity_enabled i)
     (identity_client_ipv4 i) (identity_client_ipv6 i) destinations (identity_limits i) = Inr i)"

lemma constructed_addresses:
  assumes "constructed i"
  shows "identity_client_ipv4 i = Some a \<Longrightarrow> valid_ipv4_tunnel_address a"
    and "identity_client_ipv6 i = Some b \<Longrightarrow> valid_ipv6_tunnel_address b"
  using assms
  by (auto simp: constructed_def identity_new_def data_policy_new_def result_simps is_some_and_def split: if_splits)

lemma registry_server_valid:
  assumes "registry_new server_ipv4 server_ipv6 identities = Inr registry"
  shows "server_ipv4 = Some a \<Longrightarrow> valid_ipv4_tunnel_address a" and "server_ipv6 = Some b \<Longrightarrow> valid_ipv6_tunnel_address b"
  using assms by (auto simp: registry_new_def is_some_and_def split: if_splits)

lemma address_pair:
  assumes "enabled \<Longrightarrow> is_some client" and "server = None \<Longrightarrow> client = None" and "client = None \<or> client \<noteq> server"
    and "\<And>a. client = Some a \<Longrightarrow> valid a" and "\<And>a. server = Some a \<Longrightarrow> valid a"
  shows "is_some (if enabled then client else None) \<longleftrightarrow> enabled" and "is_some (if enabled then server else None) \<longleftrightarrow> enabled"
    and "\<not> bad_address_pair valid (if enabled then client else None) (if enabled then server else None)"
  using assms by (cases enabled; cases client; cases server; auto simp: bad_address_pair_def)+

lemma negotiated_accept_valid:
  assumes "registry_new server_ipv4 server_ipv6 identities = Inr registry" and "identity \<in> set identities"
    and "constructed identity" and "config_ok config" and "generation \<noteq> 0" and "hello_validate hello = Inr ()"
    and "select_vpn_wire_version (hello_min_wire_version hello) (hello_max_wire_version hello)
      (config_min_wire_version config) (config_max_wire_version config) = Some version"
    and on: "ipv4_enabled hello identity \<or> ipv6_enabled hello identity"
  shows "accept_validate (negotiated_accept registry identity hello config generation version) = Inr ()"
proof -
  let ?a = "negotiated_accept registry identity hello config generation version"
  note r = registry_new_ok [OF assms(1)]
  have fits: "identity_fits server_ipv4 server_ipv6 identity"
    using r(1) assms(2) by (auto simp: identities_ok_def list_all_iff)
  have v: "accept_client_ipv4 ?a = (if ipv4_enabled hello identity then identity_client_ipv4 identity else None)"
    "accept_server_ipv4 ?a = (if ipv4_enabled hello identity then server_ipv4 else None)"
    "accept_client_ipv6 ?a = (if ipv6_enabled hello identity then identity_client_ipv6 identity else None)"
    "accept_server_ipv6 ?a = (if ipv6_enabled hello identity then server_ipv6 else None)"
    by (simp_all add: negotiated_accept_def Let_def r(3,4))
  have p4: "is_some (accept_client_ipv4 ?a) \<longleftrightarrow> ipv4_enabled hello identity"
    "is_some (accept_server_ipv4 ?a) \<longleftrightarrow> ipv4_enabled hello identity"
    "\<not> bad_address_pair valid_ipv4_tunnel_address (accept_client_ipv4 ?a) (accept_server_ipv4 ?a)"
    unfolding v
    using fits
      address_pair [of "ipv4_enabled hello identity" "identity_client_ipv4 identity" server_ipv4 valid_ipv4_tunnel_address,
        OF _ _ _ constructed_addresses(1) [OF assms(3)] registry_server_valid(1) [OF assms(1)]]
    by (simp_all add: identity_fits_def ipv4_enabled_def)
  have p6: "is_some (accept_client_ipv6 ?a) \<longleftrightarrow> ipv6_enabled hello identity"
    "is_some (accept_server_ipv6 ?a) \<longleftrightarrow> ipv6_enabled hello identity"
    "\<not> bad_address_pair valid_ipv6_tunnel_address (accept_client_ipv6 ?a) (accept_server_ipv6 ?a)"
    unfolding v
    using fits
      address_pair [of "ipv6_enabled hello identity" "identity_client_ipv6 identity" server_ipv6 valid_ipv6_tunnel_address,
        OF _ _ _ constructed_addresses(2) [OF assms(3)] registry_server_valid(2) [OF assms(1)]]
    by (simp_all add: identity_fits_def ipv6_enabled_def)
  have "validate_sizes (accept_max_ip_packet_len ?a) (accept_max_datagram_len ?a) = Inr ()"
    unfolding negotiated_accept_fields(2,3)
    using assms(4,6) by (intro validate_sizes_min) (simp_all add: hello_validate_ok config_ok_def)
  with negotiated_offered(2-4) [OF assms(6) on] p4 p6 select_version_range(5) [OF assms(7)] assms(5)
  show ?thesis
    unfolding accept_validate_def negotiated_accept_fields(1,4) by simp
qed

lemma negotiate_succeeds:
  assumes "registry_new server_ipv4 server_ipv6 identities = Inr registry" and "list_all constructed identities"
    and "identity \<in> set identities" and "fingerprint \<in> set (identity_fingerprints identity)" and "identity_enabled identity"
    and "config_ok config" and "generation \<noteq> 0" and "hello_validate hello = Inr ()"
    and "select_vpn_wire_version (hello_min_wire_version hello) (hello_max_wire_version hello)
      (config_min_wire_version config) (config_max_wire_version config) = Some version"
    and "ipv4_enabled hello identity \<or> ipv6_enabled hello identity"
  shows "negotiate_vpn_hello registry fingerprint hello config generation =
    Inr \<lparr>session_identity = identity, session_fingerprint = fingerprint,
      session_accept = negotiated_accept registry identity hello config generation version\<rparr>"
proof -
  have "constructed identity" using assms(2,3) by (simp add: list_all_iff)
  from negotiated_accept_valid [OF assms(1,3) this assms(6-10)]
  have "accept_validate (negotiated_accept registry identity hello config generation version) = Inr ()" .
  moreover have "authorize registry fingerprint = Inr identity" using authorize_iff(1) [OF assms(1)] assms(3-5) by simp
  ultimately show ?thesis using assms(8-10) by (simp add: negotiate_vpn_hello_def)
qed

text \<open>
  C21.  Against a registry and a configuration that their constructors accept, and a generation that
  is not zero, negotiation succeeds exactly for a valid hello of an enabled identity that lists the
  fingerprint, whose version range meets the server's and which shares an address family with the
  hello.  The final check of the composed answer never fails.
\<close>

theorem negotiation_accepts:
  assumes "registry_new server_ipv4 server_ipv6 identities = Inr registry" and "list_all constructed identities"
    and "negotiation_config_new min_version max_version max_packet max_datagram = Inr config"
    and "session_generation_new value = Some generation"
  shows "(\<exists>session. negotiate_vpn_hello registry fingerprint hello config generation = Inr session) \<longleftrightarrow>
    hello_validate hello = Inr () \<and>
    max (hello_min_wire_version hello) min_version \<le> min (hello_max_wire_version hello) max_version \<and>
    list_ex (\<lambda>i. fingerprint \<in> set (identity_fingerprints i) \<and> identity_enabled i \<and>
      (hello_capabilities hello AND VPN_CAP_IPV4 \<noteq> 0 \<and> is_some (identity_client_ipv4 i) \<or>
       hello_capabilities hello AND VPN_CAP_IPV6 \<noteq> 0 \<and> is_some (identity_client_ipv6 i))) identities"
    (is "?lhs \<longleftrightarrow> ?rhs")
proof -
  have cfg: "config_ok config" using negotiation_config_new_ok [OF assms(3)] .
  have ver: "config_min_wire_version config = min_version" "config_max_wire_version config = max_version"
    using assms(3) by (auto simp: negotiation_config_new_def result_simps Let_def split: if_splits)
  have gen: "generation \<noteq> 0" using assms(4) by (auto simp: session_generation_new_def split: if_splits)
  note auth = authorize_iff(1) [OF assms(1)]
  have meet: "(\<exists>v. select_vpn_wire_version (hello_min_wire_version hello) (hello_max_wire_version hello) min_version max_version = Some v)
    \<longleftrightarrow> max (hello_min_wire_version hello) min_version \<le> min (hello_max_wire_version hello) max_version"
    if "hello_validate hello = Inr ()"
    using that cfg by (auto simp: select_vpn_wire_version_def hello_validate_ok config_ok_def ver Let_def)
  show ?thesis
  proof
    assume ?lhs
    then obtain session where "negotiate_vpn_hello registry fingerprint hello config generation = Inr session" ..
    then show ?rhs
      by (rule negotiate_success)
        (use auth meet in \<open>auto simp: ver list_ex_iff ipv4_enabled_def ipv6_enabled_def\<close>)
  next
    assume r: ?rhs
    then obtain i where i: "i \<in> set identities" "fingerprint \<in> set (identity_fingerprints i)" "identity_enabled i"
      "ipv4_enabled hello i \<or> ipv6_enabled hello i"
      by (auto simp: list_ex_iff ipv4_enabled_def ipv6_enabled_def)
    have h: "hello_validate hello = Inr ()" using r by simp
    then obtain v where v: "select_vpn_wire_version (hello_min_wire_version hello) (hello_max_wire_version hello)
      (config_min_wire_version config) (config_max_wire_version config) = Some v" using meet r by (auto simp: ver)
    from negotiate_succeeds [OF assms(1,2) i(1-3) cfg gen h v i(4)] show ?lhs by blast
  qed
qed

definition sample_hello :: VpnHello where
  "sample_hello =
     \<lparr>hello_min_wire_version = 1, hello_max_wire_version = 3, hello_capabilities = 13,
      hello_max_ip_packet_len = 1280, hello_max_datagram_len = 1300\<rparr>"

lemma sample_capabilities: "validate_capabilities 13 = Inr ()"
  by (simp add: validate_capabilities_def cap_consts)

lemma sample_hello_valid: "hello_validate sample_hello = Inr ()"
  by (simp add: hello_validate_ok sample_hello_def sample_capabilities validate_sizes_def vpn_consts)

lemma sample_config_new:
  "negotiation_config_new VPN_WIRE_VERSION_V1 VPN_WIRE_VERSION_V1 65535 1200 = Inr negotiation_config_default"
  by (simp add: negotiation_config_new_def hello_validate_def cap_consts sample_capabilities validate_sizes_def vpn_consts
      negotiation_config_default_def VPN_WIRE_VERSION_V1_def)

lemma sample_identities_constructed:
  "list_all constructed [sample_identity 0x32 True, sample_identity 0x33 False]"
proof -
  have "constructed (sample_identity n enabled)" if "n = 0x32 \<or> n = 0x33" for n enabled
    unfolding constructed_def
    using that
    by (intro exI [of _ "[V4Net 0x0A000000 8]"])
      (auto simp: identity_new_def data_policy_new_def sample_identity_def sample_policy_def validate_identity_key_def
        identity_limits_validate_def identity_limits_default_def client_id_byte_def is_ascii_alphanumeric_def
        identity_consts vpn_consts is_some_and_def valid_ipv4_tunnel_address_def ipv4_is_loopback_def
        ipv4_is_link_local_def ipv4_is_multicast_def drop_bit_eq_div)
  then show ?thesis by simp
qed

theorem negotiation_accepts_witness:
  "\<exists>session. negotiate_vpn_hello sample_registry (Fingerprint (replicate 32 0x32)) sample_hello
     negotiation_config_default 7 = Inr session"
proof -
  have "session_generation_new 7 = Some 7" by (simp add: session_generation_new_def)
  from negotiation_accepts [OF sample_registry_new sample_identities_constructed sample_config_new this] sample_hello_valid
  show ?thesis
    by (simp add: sample_hello_def sample_identity_def sample_policy_def VPN_WIRE_VERSION_V1_def cap_consts)
qed

section \<open>The two ends of a handshake\<close>

lemma codec_roundtrip:
  assumes "encode_vpn_control_message m = Inr encoded"
  shows "decode_vpn_control_message encoded = Inr m"
proof -
  obtain message_type body where b: "control_body m = Inr (message_type, body)"
    using assms by (auto simp: encode_vpn_control_message_def result_simps)
  then have "control_dispatch message_type body = Inr m"
    by (cases m) (auto simp: result_simps control_dispatch_def control_types decode_hello_body
        decode_accept_body decode_reject_body)
  with assms b decode_control_frame [of body message_type] encode_control_frame [OF b] show ?thesis by simp
qed

lemma write_then_read:
  assumes "write_control_message writer m = (sent, Inr ())" and "stream_read_to_end reader = Ready sent"
  shows "read_control_message reader = Inr m"
proof -
  have "encode_vpn_control_message m = Inr sent"
    using assms(1) by (auto simp: write_control_message_def split: sum.splits)
  from codec_roundtrip [OF this] assms(2) show ?thesis by (simp add: read_control_message_def await_def)
qed

lemma server_answer_ok:
  "server_answer stream message outcome = (sent, Inr result) \<Longrightarrow>
     result = outcome \<and> write_control_message stream message = (sent, Inr ())"
  by (auto simp: server_answer_def result_simps split: prod.splits)

text \<open>What a server that reads a hello answers.\<close>

lemma server_exchange_hello:
  assumes "server_exchange stream registry fingerprint config generation = (sent, Inr outcome)"
    and "read_control_message stream = Inr (Hello hello)"
  shows "case outcome of
      OutcomeAccepted session \<Rightarrow> negotiate_vpn_hello registry fingerprint hello config generation = Inr session \<and>
        write_control_message stream (Accept (session_accept session)) = (sent, Inr ())
    | OutcomeRejected rejection \<Rightarrow> negotiate_vpn_hello registry fingerprint hello config generation = Inl rejection \<and>
        write_control_message stream (Reject rejection) = (sent, Inr ())"
  using assms
  by (auto simp: server_exchange_def await_def Let_def split: await.splits sum.splits dest!: server_answer_ok)

text \<open>
  C20.  When both handshakes run to their end on streams that deliver what the other side wrote, the
  two sides agree: the client returns exactly the accept that the server's session records, and
  leaves the connection open; or it reports exactly the rejection the server sent, and closes the
  connection as rejected.  No accept the server sends fails the client's own checks.
\<close>

theorem handshake_agreement:
  assumes "vpn_client_control_handshake client_connection client_stream hello client_timeout = (hello_bytes, close, result)"
    and "vpn_server_control_handshake sha256 server_connection server_stream registry config generation server_timeout =
      (answer_bytes, Inr outcome)"
    and "hello_bytes \<noteq> []" and "stream_finish client_stream"
    and "stream_read_to_end server_stream = Ready hello_bytes"
    and "stream_read_to_end client_stream = Ready answer_bytes"
  shows "case outcome of
      OutcomeAccepted session \<Rightarrow> result = Inr (session_accept session) \<and> close = None
    | OutcomeRejected rejection \<Rightarrow> result = Inl (Rejected rejection) \<and>
        close = Some (VPN_CLOSE_CONTROL_REJECTED, CONTROL_REJECTED_REASON)"
proof -
  obtain h where h: "client_hello client_connection hello client_timeout = Inr h"
    and ex: "client_exchange client_stream h = (hello_bytes, result)"
    and close: "close = (case result of Inr _ \<Rightarrow> None | Inl ControlTimeout \<Rightarrow> None
      | Inl (Rejected _) \<Rightarrow> Some (VPN_CLOSE_CONTROL_REJECTED, CONTROL_REJECTED_REASON)
      | Inl _ \<Rightarrow> Some (VPN_CLOSE_CONTROL_FAILED, CONTROL_FAILED_REASON))"
    using assms(1,3) by (auto simp: vpn_client_control_handshake_def Let_def split: sum.splits prod.splits)
  have w: "write_control_message client_stream (Hello h) = (hello_bytes, Inr ())"
    and res: "result = try_then (read_control_message client_stream) (\<lambda>message.
      case message of
        Accept accept \<Rightarrow> try_then (validate_server_accept h accept) (\<lambda>_. Inr accept)
      | Reject rejection \<Rightarrow> Inl (Rejected rejection)
      | Hello _ \<Rightarrow> Inl UnexpectedControlMessage)"
    using ex assms(3,4)
    by (auto simp: client_exchange_def write_control_message_def Let_def split: sum.splits if_splits)
  have read: "read_control_message server_stream = Inr (Hello h)" using write_then_read [OF w assms(5)] .
  obtain config' fingerprint where
    "server_exchange server_stream registry fingerprint config' generation = (answer_bytes, Inr outcome)"
    using assms(2) by (auto simp: vpn_server_control_handshake_def split: sum.splits prod.splits)
  note answer = server_exchange_hello [OF this read]
  show ?thesis
  proof (cases outcome)
    case (OutcomeAccepted session)
    then have n: "negotiate_vpn_hello registry fingerprint h config' generation = Inr session"
      and "write_control_message server_stream (Accept (session_accept session)) = (answer_bytes, Inr ())"
      using answer by simp_all
    from write_then_read [OF this(2) assms(6)] negotiated_server_accept(2) [OF n] OutcomeAccepted
    show ?thesis by (simp add: res close)
  next
    case (OutcomeRejected rejection)
    then have "write_control_message server_stream (Reject rejection) = (answer_bytes, Inr ())" using answer by simp
    from write_then_read [OF this assms(6)] OutcomeRejected show ?thesis by (simp add: res close)
  qed
qed

definition sample_connection :: Connection where
  "sample_connection =
     \<lparr>conn_handshake_protocol = Some (Some VPN_ALPN), conn_is_multipath_enabled = True,
      conn_max_datagram_size = Some 1250, conn_peer_identity = Some [[1, 2, 3]]\<rparr>"

definition sample_stream :: "bytes \<Rightarrow> ControlStream" where
  "sample_stream received =
     \<lparr>stream_ready = Ready (), stream_read_to_end = Ready received, stream_write_all = Ready (), stream_finish = True\<rparr>"

lemma sample_write:
  assumes "control_body m = Inr (message_type, body)"
  shows "write_control_message (sample_stream received) m = (control_frame message_type body, Inr ())"
  using encode_control_frame [OF assms] by (simp add: write_control_message_def sample_stream_def await_def)

lemma sample_negotiates:
  "\<exists>session. negotiate_vpn_hello sample_registry (Fingerprint (replicate 32 0x32))
     (sample_hello\<lparr>hello_max_datagram_len := 1250\<rparr>) negotiation_config_default 7 = Inr session"
proof -
  let ?h = "sample_hello\<lparr>hello_max_datagram_len := 1250\<rparr>"
  have h: "hello_validate ?h = Inr ()"
    by (simp add: hello_validate_ok sample_hello_def sample_capabilities validate_sizes_def vpn_consts)
  have v: "select_vpn_wire_version (hello_min_wire_version ?h) (hello_max_wire_version ?h)
    (config_min_wire_version negotiation_config_default) (config_max_wire_version negotiation_config_default) = Some 1"
    by (simp add: select_vpn_wire_version_def sample_hello_def negotiation_config_default_def VPN_WIRE_VERSION_V1_def)
  have "ipv4_enabled ?h (sample_identity 0x32 True)"
    by (simp add: ipv4_enabled_def sample_hello_def sample_identity_def sample_policy_def cap_consts)
  then show ?thesis
    using negotiate_succeeds [OF sample_registry_new sample_identities_constructed _ _ _
        negotiation_config_new_ok [OF sample_config_new] _ h v, of "sample_identity 0x32 True" "Fingerprint (replicate 32 0x32)" 7]
    by (simp add: sample_identity_def)
qed

lemma sample_setup:
  "client_hello sample_connection sample_hello 5 = Inr (sample_hello\<lparr>hello_max_datagram_len := 1250\<rparr>)"
  "server_setup (\<lambda>_. replicate 32 0x32) sample_connection negotiation_config_default 5 =
     Inr (negotiation_config_default, Fingerprint (replicate 32 0x32))"
  by (simp_all add: client_hello_def server_setup_def sample_connection_def verify_vpn_alpn_def validate_multipath_def
      validate_handshake_timeout_def VPN_MAX_CONTROL_HANDSHAKE_TIMEOUT_def connection_datagram_limit_def u16_try_from_def
      u16_max_def vpn_consts sample_hello_valid vpn_peer_certificate_fingerprint_def vpn_certificate_fingerprint_def)
    (simp_all add: sample_hello_def negotiation_config_default_def)

theorem handshake_agreement_witness:
  "\<exists>accept answer. snd (vpn_client_control_handshake sample_connection (sample_stream answer) sample_hello 5) = (None, Inr accept)"
proof -
  let ?h = "sample_hello\<lparr>hello_max_datagram_len := 1250\<rparr>"
  obtain session where n: "negotiate_vpn_hello sample_registry (Fingerprint (replicate 32 0x32)) ?h
    negotiation_config_default 7 = Inr session" using sample_negotiates by blast
  have "hello_validate ?h = Inr ()" using n by (auto elim: negotiate_success)
  then have hb: "control_body (Hello ?h) = Inr (VPN_CONTROL_HELLO, hello_body ?h)" by simp
  have ab: "control_body (Accept (session_accept session)) = Inr (VPN_CONTROL_ACCEPT, accept_body (session_accept session))"
    using negotiated_server_accept(1) [OF n] by simp
  let ?hb = "control_frame VPN_CONTROL_HELLO (hello_body ?h)"
    and ?ab = "control_frame VPN_CONTROL_ACCEPT (accept_body (session_accept session))"
  obtain close result where client:
    "vpn_client_control_handshake sample_connection (sample_stream ?ab) sample_hello 5 = (?hb, close, result)"
    using sample_setup(1) sample_write [OF hb, of ?ab]
    by (simp add: vpn_client_control_handshake_def client_exchange_def await_def sample_stream_def split: prod.splits)
  have r: "read_control_message (sample_stream ?hb) = Inr (Hello ?h)"
    using write_then_read [OF sample_write [OF hb], of "sample_stream ?hb"] by (simp add: sample_stream_def)
  have server: "vpn_server_control_handshake (\<lambda>_. replicate 32 0x32) sample_connection (sample_stream ?hb) sample_registry
      negotiation_config_default 7 5 = (?ab, Inr (OutcomeAccepted session))"
    using sample_setup(2) r n sample_write [OF ab, of ?hb]
    by (simp add: vpn_server_control_handshake_def server_exchange_def server_answer_def await_def sample_stream_def)
  have "?hb \<noteq> []" by (simp add: control_frame_def)
  from handshake_agreement [OF client server this]
  have "result = Inr (session_accept session) \<and> close = None" by (simp add: sample_stream_def)
  with client have "snd (vpn_client_control_handshake sample_connection (sample_stream ?ab) sample_hello 5) =
    (None, Inr (session_accept session))" by simp
  then show ?thesis by blast
qed

end
