(* ===== verification/Vpn_Client_Path.thy ===== *)
theory Vpn_Client_Path
  imports Vpn_Path_Properties Vpn_Session
begin

text \<open>
  The client's data path factory (\<open>vpn_client_data_path.rs\<close>): its configuration, and the data path it
  builds from the accept of a handshake.  The factory owns the budget, the rate limiter and the
  counters that all the paths it builds share.
\<close>

datatype VpnClientDataPathConfigError = InvalidGlobalReassemblyBytes | InvalidGlobalInflightPackets

fun VpnClientDataPathConfigError_display :: "VpnClientDataPathConfigError \<Rightarrow> string" where
  "VpnClientDataPathConfigError_display InvalidGlobalReassemblyBytes =
     ''vpn_client_data_path_invalid_global_reassembly_bytes''"
| "VpnClientDataPathConfigError_display InvalidGlobalInflightPackets =
     ''vpn_client_data_path_invalid_global_inflight_packets''"

record VpnClientDataPathConfig =
  client_allowed_destinations :: "VpnIpNetwork list"
  client_limits :: VpnIdentityLimits
  client_global_reassembly_bytes :: usize
  client_global_inflight_packets :: usize

definition client_config_new :: "VpnIpNetwork list \<Rightarrow> VpnIdentityLimits \<Rightarrow> VpnClientDataPathConfig" where
  "client_config_new allowed_destinations limits =
     \<lparr>client_allowed_destinations = allowed_destinations, client_limits = limits,
      client_global_reassembly_bytes = VPN_DEFAULT_GLOBAL_REASSEMBLY_BYTES,
      client_global_inflight_packets = VPN_DEFAULT_GLOBAL_INFLIGHT_PACKETS\<rparr>"

definition client_config_validate :: "VpnClientDataPathConfig \<Rightarrow> VpnClientDataPathConfigError + unit" where
  "client_config_validate c =
     (if \<not> (VPN_MAX_IP_PACKET_LEN \<le> client_global_reassembly_bytes c \<and>
             client_global_reassembly_bytes c \<le> VPN_MAX_GLOBAL_REASSEMBLY_BYTES)
      then Inl InvalidGlobalReassemblyBytes
      else if client_global_inflight_packets c = 0 \<or> client_global_inflight_packets c > VPN_MAX_GLOBAL_INFLIGHT_PACKETS
      then Inl InvalidGlobalInflightPackets
      else Inr ())"

definition with_global_reassembly_limits ::
  "VpnClientDataPathConfig \<Rightarrow> usize \<Rightarrow> usize \<Rightarrow> VpnClientDataPathConfigError + VpnClientDataPathConfig" where
  "with_global_reassembly_limits c bytes packets =
     (let c = c\<lparr>client_global_reassembly_bytes := bytes, client_global_inflight_packets := packets\<rparr> in
      try_then (client_config_validate c) (\<lambda>_. Inr c))"

datatype VpnClientDataPathError =
    InvalidAcceptMessage VpnControlError | InvalidPolicy VpnIdentityError | DataPath VpnPacketError

fun VpnClientDataPathError_display :: "VpnClientDataPathError \<Rightarrow> string" where
  "VpnClientDataPathError_display (InvalidAcceptMessage e) = ''vpn_client_data_path_accept:'' @ VpnControlError_display e"
| "VpnClientDataPathError_display (InvalidPolicy e) = ''vpn_client_data_path_policy:'' @ VpnIdentityError_display e"
| "VpnClientDataPathError_display (DataPath e) = ''vpn_client_data_path_core:'' @ VpnPacketError_display e"

record VpnClientDataPathFactory =
  factory_config :: VpnClientDataPathConfig
  factory_global_budget :: VpnGlobalReassemblyBudget
  factory_shared :: VpnPathShared

definition factory_new_at ::
  "VpnClientDataPathConfig \<Rightarrow> instant \<Rightarrow> VpnClientDataPathConfigError + VpnClientDataPathFactory" where
  "factory_new_at config now =
     try_then (client_config_validate config) (\<lambda>_.
     case global_budget_new (client_global_reassembly_bytes config) (client_global_inflight_packets config) of
       None \<Rightarrow>
         Inl (if \<not> (VPN_MAX_IP_PACKET_LEN \<le> client_global_reassembly_bytes config \<and>
                     client_global_reassembly_bytes config \<le> VPN_MAX_GLOBAL_REASSEMBLY_BYTES)
              then InvalidGlobalReassemblyBytes else InvalidGlobalInflightPackets)
     | Some global_budget \<Rightarrow>
         Inr \<lparr>factory_config = config, factory_global_budget = global_budget,
              factory_shared = \<lparr>shared_rate = rate_state_new (client_limits config) now,
                shared_quota = VpnQuotaMetricCounters_default, shared_policy = VpnDataPolicyMetricCounters_default\<rparr>\<rparr>)"

definition factory_build :: "VpnClientDataPathFactory \<Rightarrow> VpnAccept \<Rightarrow> VpnClientDataPathError + VpnDataPathInner" where
  "factory_build factory accept =
     try_then (map_err InvalidAcceptMessage (accept_validate accept)) (\<lambda>_.
     try_then (map_err InvalidPolicy (data_policy_new (accept_client_ipv4 accept) (accept_client_ipv6 accept)
       (client_allowed_destinations (factory_config factory)))) (\<lambda>policy.
     try_then (map_err DataPath (path_new_policy_inactive policy (client_limits (factory_config factory))
       (unat (accept_max_ip_packet_len accept)) (accept_session_generation accept)
       (factory_global_budget factory))) (\<lambda>handle.
     Inr (path_activate handle))))"

section \<open>What the factory builds\<close>

lemma accept_validate_sizes:
  "accept_validate a = Inr () \<Longrightarrow>
     VPN_MIN_IP_PACKET_LEN \<le> unat (accept_max_ip_packet_len a) \<and> unat (accept_max_ip_packet_len a) \<le> VPN_MAX_IP_PACKET_LEN"
  by (auto simp: accept_validate_def result_simps map_err_eq_Inr validate_sizes_def Let_def split: if_splits)

lemma path_new_policy_ok:
  assumes "identity_limits_validate limits = Inr ()" and "VPN_MIN_IP_PACKET_LEN \<le> len" and "len \<le> VPN_MAX_IP_PACKET_LEN"
  obtains inner where "path_new_policy_inactive policy limits len generation b = Inr inner"
    and "inner_policy inner = policy" and "inner_max_ip_packet_len inner = len"
    and "inner_session_generation inner = generation" and "inner_global_budget inner = b"
    and "inner_max_reassembly_bytes inner = limit_max_reassembly_bytes limits"
    and "\<not> path_active (inner_state inner)"
proof -
  have "VPN_MAX_IP_PACKET_LEN \<le> limit_max_reassembly_bytes limits"
    using assms(1) by (simp add: identity_limits_validate_def split: if_splits)
  with assms(2,3) that show thesis
    by (simp add: path_new_policy_inactive_def VpnReassembler_new_def Let_def VPN_DEFAULT_MAX_INFLIGHT_PACKETS_def
        VPN_DEFAULT_FRAGMENT_TIMEOUT_def)
qed

lemma factory_build_ok:
  assumes "factory_build factory accept = Inr inner"
  shows "accept_validate accept = Inr ()" and "path_active (inner_state inner)"
    and "inner_max_ip_packet_len inner = unat (accept_max_ip_packet_len accept)"
    and "inner_session_generation inner = accept_session_generation accept"
    and "inner_global_budget inner = factory_global_budget factory"
    and "data_policy_new (accept_client_ipv4 accept) (accept_client_ipv6 accept)
      (client_allowed_destinations (factory_config factory)) = Inr (inner_policy inner)"
    and "policy_client_ipv4 (inner_policy inner) = accept_client_ipv4 accept"
    and "policy_client_ipv6 (inner_policy inner) = accept_client_ipv6 accept"
  using assms
  by (auto simp: factory_build_def result_simps path_new_policy_inactive_def path_activate_def data_policy_new_def
      Let_def split: if_splits)

text \<open>
  A factory that its constructor accepts builds a path from every valid accept for which the
  configured destinations make a valid data policy; it fails only for the accept or the policy.
\<close>

lemma client_path_builds:
  assumes "factory_new_at config now = Inr factory" and "identity_limits_validate (client_limits config) = Inr ()"
  shows "(\<exists>inner. factory_build factory accept = Inr inner) \<longleftrightarrow>
    accept_validate accept = Inr () \<and>
    (\<exists>policy. data_policy_new (accept_client_ipv4 accept) (accept_client_ipv6 accept) (client_allowed_destinations config) = Inr policy)"
proof -
  have c: "factory_config factory = config"
    using assms(1) by (auto simp: factory_new_at_def result_simps split: option.splits)
  have "\<exists>inner. factory_build factory accept = Inr inner"
    if v: "accept_validate accept = Inr ()" and p: "data_policy_new (accept_client_ipv4 accept) (accept_client_ipv6 accept)
      (client_allowed_destinations config) = Inr policy" for policy
  proof -
    obtain inner where "path_new_policy_inactive policy (client_limits config) (unat (accept_max_ip_packet_len accept))
        (accept_session_generation accept) (factory_global_budget factory) = Inr inner"
      using path_new_policy_ok [OF assms(2)] accept_validate_sizes [OF v] by metis
    with v p c show ?thesis by (simp add: factory_build_def)
  qed
  then show ?thesis using factory_build_ok(1,6) c by blast
qed

definition sample_client_config :: VpnClientDataPathConfig where
  "sample_client_config = client_config_new [V4Net 0x0A000000 8] identity_limits_default"

lemma sample_factory: "\<exists>factory. factory_new_at sample_client_config 0 = Inr factory \<and>
    factory_config factory = sample_client_config \<and>
    factory_shared factory = sample_shared"
  by (simp add: factory_new_at_def client_config_validate_def global_budget_new_def sample_client_config_def
      client_config_new_def quota_consts vpn_consts sample_shared_def)

definition sample_session :: VpnNegotiatedSession where
  "sample_session =
     \<lparr>session_identity = sample_identity 0x32 True, session_fingerprint = Fingerprint (replicate 32 0x32),
      session_accept = negotiated_accept sample_registry (sample_identity 0x32 True) sample_hello
        negotiation_config_default 1 1\<rparr>"

lemma sample_session_negotiated:
  "negotiate_vpn_hello sample_registry (Fingerprint (replicate 32 0x32)) sample_hello negotiation_config_default 1 =
     Inr sample_session"
proof -
  have v: "select_vpn_wire_version (hello_min_wire_version sample_hello) (hello_max_wire_version sample_hello)
    (config_min_wire_version negotiation_config_default) (config_max_wire_version negotiation_config_default) = Some 1"
    by (simp add: select_vpn_wire_version_def sample_hello_def negotiation_config_default_def VPN_WIRE_VERSION_V1_def)
  have "ipv4_enabled sample_hello (sample_identity 0x32 True)"
    by (simp add: ipv4_enabled_def sample_hello_def sample_identity_def sample_policy_def cap_consts)
  with negotiate_succeeds [OF sample_registry_new sample_identities_constructed _ _ _
      negotiation_config_new_ok [OF sample_config_new] _ sample_hello_valid v, of "sample_identity 0x32 True"
      "Fingerprint (replicate 32 0x32)" 1]
  show ?thesis by (simp add: sample_session_def sample_identity_def)
qed

lemma sample_session_address:
  "accept_client_ipv4 (session_accept sample_session) = Some 0x0A000132"
  "accept_client_ipv6 (session_accept sample_session) = None"
  "accept_max_ip_packet_len (session_accept sample_session) = 1280"
  by (simp_all add: sample_session_def negotiated_accept_def Let_def ipv4_enabled_def ipv6_enabled_def sample_hello_def
      sample_identity_def sample_policy_def cap_consts negotiation_config_default_def vpn_consts)

lemma sample_client_policy:
  "data_policy_new (Some 0x0A000132) None [V4Net 0x0A000000 8] = Inr (sample_policy 0x0A000132)"
  by (simp add: data_policy_new_def sample_policy_def is_some_and_def valid_ipv4_tunnel_address_def
      ipv4_is_loopback_def ipv4_is_link_local_def ipv4_is_multicast_def drop_bit_eq_div identity_consts)

section \<open>Client and server policies\<close>

lemma negotiated_addresses:
  assumes "negotiate_vpn_hello registry fingerprint hello config generation = Inr session"
  shows "accept_client_ipv4 (session_accept session) = None \<or>
      accept_client_ipv4 (session_accept session) = identity_client_ipv4 (session_identity session)"
    and "accept_client_ipv6 (session_accept session) = None \<or>
      accept_client_ipv6 (session_accept session) = identity_client_ipv6 (session_identity session)"
  by (rule negotiate_success [OF assms]; simp add: negotiated_accept_def Let_def)+

text \<open>
  C22.  The policies of the two ends agree on who the client is: a packet that the client's data path
  encodes for the uplink of a negotiated session never looks spoofed to the server.  The server's
  check passes it, with the same metadata, or refuses only its destination.
\<close>

theorem negotiated_uplink_not_spoofed:
  assumes "negotiate_vpn_hello registry fingerprint hello config generation = Inr session"
    and "factory_build factory (session_accept session) = Inr inner"
    and "snd (encode_ip_packet inner env Uplink packet_id packet max_datagram_len now) = Inr datagrams"
  shows "length packet \<le> unat (accept_max_ip_packet_len (session_accept session)) \<and>
    (\<exists>metadata. inspect_vpn_ip_packet packet = Inr metadata \<and>
      validate_vpn_ip_packet_policy (identity_data_policy (session_identity session)) Uplink packet =
        (if allows_destination (identity_data_policy (session_identity session)) (meta_destination metadata)
         then Inr metadata else Inl DestinationPolicyRejected))"
proof -
  note built = factory_build_ok [OF assms(2)]
  have len: "length packet \<le> inner_max_ip_packet_len inner"
    using assms(3) by (auto simp: encode_ip_packet_def split: if_splits)
  obtain metadata where "validate_vpn_ip_packet_policy (inner_policy inner) Uplink packet = Inr metadata"
    using assms(3) by (auto simp: encode_ip_packet_def split: if_splits sum.splits)
  then have m: "inspect_vpn_ip_packet packet = Inr metadata" "permits_source (inner_policy inner) (meta_source metadata)"
    by (simp_all add: policy_accepts client_end_def)
  have "permits_source (identity_data_policy (session_identity session)) (meta_source metadata)"
    using m(2) negotiated_addresses [OF assms(1)] built(7,8) by (cases "meta_source metadata") auto
  with m(1) len built(3) show ?thesis by (simp add: validate_vpn_ip_packet_policy_def)
qed

lemma sample_encode_fragments:
  "encode_vpn_ip_fragments 1 sample_uplink_packet 1200 = Inr [fragment_datagram 1 20 0 sample_uplink_packet]"
  using encode_vpn_ip_fragments_eq(1) [OF sample_uplink_inspect, of 1200 1]
  by (simp add: packet_fragments_def chunks.simps sample_uplink_packet_def)

lemma sample_client_encode:
  assumes "path_active (inner_state inner)" and "inner_max_ip_packet_len inner = 1280"
    and "inner_policy inner = sample_policy 0x0A000132"
  shows "snd (encode_ip_packet inner sample_shared Uplink 1 sample_uplink_packet 1200 5) =
    Inr [fragment_datagram 1 20 0 sample_uplink_packet]"
proof -
  have len: "length sample_uplink_packet = 20" by (simp add: sample_uplink_packet_def)
  obtain rate m where "admit_datagrams (rate_state_new identity_limits_default 0) VpnQuotaMetricCounters_default Uplink [32] 5 =
      (rate, m, Inr ())" using sample_path_admit unfolding admit_datagram_def by (metis prod.collapse)
  with assms len sample_uplink_policy sample_encode_fragments show ?thesis
    by (simp add: encode_ip_packet_def sample_shared_def)
qed

theorem negotiated_uplink_not_spoofed_witness:
  "validate_vpn_ip_packet_policy (identity_data_policy (session_identity sample_session)) Uplink sample_uplink_packet
     \<noteq> Inl UplinkSourceSpoofed"
proof -
  obtain factory where f: "factory_new_at sample_client_config 0 = Inr factory" "factory_config factory = sample_client_config"
    using sample_factory by blast
  have d: "data_policy_new (accept_client_ipv4 (session_accept sample_session)) (accept_client_ipv6 (session_accept sample_session))
      (client_allowed_destinations (factory_config factory)) = Inr (sample_policy 0x0A000132)"
    using sample_client_policy by (simp add: sample_session_address f(2) sample_client_config_def client_config_new_def)
  have l: "identity_limits_validate (client_limits (factory_config factory)) = Inr ()"
    using sample_limits by (simp add: f(2) sample_client_config_def client_config_new_def)
  have v: "accept_validate (session_accept sample_session) = Inr ()"
    by (rule negotiated_server_accept(1) [OF sample_session_negotiated])
  obtain fresh where "path_new_policy_inactive (sample_policy 0x0A000132) (client_limits (factory_config factory))
      (unat (accept_max_ip_packet_len (session_accept sample_session))) (accept_session_generation (session_accept sample_session))
      (factory_global_budget factory) = Inr fresh"
    using path_new_policy_ok [OF l] accept_validate_sizes [OF v] by metis
  with d v have build: "factory_build factory (session_accept sample_session) = Inr (path_activate fresh)"
    by (simp add: factory_build_def)
  note built = factory_build_ok [OF build]
  have "snd (encode_ip_packet (path_activate fresh) sample_shared Uplink 1 sample_uplink_packet 1200 5) =
    Inr [fragment_datagram 1 20 0 sample_uplink_packet]"
    using built(2,3,6) d by (intro sample_client_encode) (simp_all add: sample_session_address(3))
  from negotiated_uplink_not_spoofed [OF sample_session_negotiated build this] show ?thesis by (auto split: if_splits)
qed

end
