(* ===== verification/Vpn_Coordinator.thy ===== *)
theory Vpn_Coordinator
  imports Vpn_Client_Path
begin

text \<open>
  The session coordinator of the server (\<open>vpn_active_session.rs\<close>): generations, the commit of a
  negotiated session, release, the reconciliation of active sessions with a new registry, and
  shutdown.  Data paths and rate limiters are reference counted and shared with the connection
  tasks, so they live in two stores and are referred to by their index; a store never reuses one.
  \<open>None\<close> is a panic.  An operation also returns the connections it closes.
\<close>

section \<open>Constants and errors\<close>

definition VPN_CLOSE_SESSION_REPLACED :: u32 where
  "VPN_CLOSE_SESSION_REPLACED = 0x100"

definition VPN_CLOSE_IDENTITY_REVOKED :: u32 where
  "VPN_CLOSE_IDENTITY_REVOKED = 0x101"

definition VPN_CLOSE_POLICY_CHANGED :: u32 where
  "VPN_CLOSE_POLICY_CHANGED = 0x102"

definition VPN_CLOSE_COMMIT_REJECTED :: u32 where
  "VPN_CLOSE_COMMIT_REJECTED = 0x103"

definition VPN_CLOSE_SERVER_SHUTDOWN :: u32 where
  "VPN_CLOSE_SERVER_SHUTDOWN = 0x104"

definition SESSION_REPLACED_REASON :: string where
  "SESSION_REPLACED_REASON = ''session_replaced''"

definition IDENTITY_REVOKED_REASON :: string where
  "IDENTITY_REVOKED_REASON = ''identity_revoked''"

definition POLICY_CHANGED_REASON :: string where
  "POLICY_CHANGED_REASON = ''policy_changed''"

definition COMMIT_REJECTED_REASON :: string where
  "COMMIT_REJECTED_REASON = ''session_commit_rejected''"

definition SERVER_SHUTDOWN_REASON :: string where
  "SERVER_SHUTDOWN_REASON = ''server_shutdown''"

datatype VpnSessionCommitError = CommitIdentityRevoked | CommitPolicyChanged

fun VpnSessionCommitError_display :: "VpnSessionCommitError \<Rightarrow> string" where
  "VpnSessionCommitError_display CommitIdentityRevoked = ''vpn_session_commit_identity_revoked''"
| "VpnSessionCommitError_display CommitPolicyChanged = ''vpn_session_commit_policy_changed''"

datatype VpnManagedSessionError =
    GenerationExhausted | InvalidResourceLimits | Control VpnSessionError | Commit VpnSessionCommitError

fun VpnManagedSessionError_display :: "VpnManagedSessionError \<Rightarrow> string" where
  "VpnManagedSessionError_display GenerationExhausted = ''vpn_session_generation_exhausted''"
| "VpnManagedSessionError_display InvalidResourceLimits = ''vpn_session_invalid_resource_limits''"
| "VpnManagedSessionError_display (Control e) = ''vpn_managed_session_control:'' @ VpnSessionError_display e"
| "VpnManagedSessionError_display (Commit e) = ''vpn_managed_session_commit:'' @ VpnSessionCommitError_display e"

section \<open>State\<close>

record VpnSessionCommitReport =
  report_session_generation :: u64
  report_replaced_generation :: "u64 option"

record VpnSessionReconcileReport =
  sessions_kept :: usize
  sessions_identity_revoked :: usize
  sessions_policy_changed :: usize

record VpnIdentityReloadReport =
  previous_identity_count :: usize
  identity_count :: usize
  previous_fingerprint_count :: usize
  fingerprint_count :: usize

record VpnSessionCoordinatorMetrics =
  metric_active_sessions :: usize
  metric_total_committed :: nat
  metric_replacements :: nat
  metric_commit_rejections :: nat
  metric_identity_revocations :: nat
  metric_policy_change_closes :: nat
  metric_normal_releases :: nat
  metric_shutdown_closes :: nat

definition coordinator_metrics_default :: VpnSessionCoordinatorMetrics where
  "coordinator_metrics_default =
     \<lparr>metric_active_sessions = 0, metric_total_committed = 0, metric_replacements = 0,
      metric_commit_rejections = 0, metric_identity_revocations = 0, metric_policy_change_closes = 0,
      metric_normal_releases = 0, metric_shutdown_closes = 0\<rparr>"

text \<open>A connection is known by its stable identifier, a data path and a limiter by their index.\<close>

record ActiveVpnSession =
  active_session_of :: VpnNegotiatedSession
  active_connection :: usize
  active_data_path :: nat

record VpnActiveSessionSnapshot =
  snapshot_client_id :: bytes
  snapshot_fingerprint :: VpnCertificateFingerprint
  snapshot_session_generation :: u64
  snapshot_connection_stable_id :: usize

record VpnSessionCoordinator =
  co_registry :: VpnIdentityRegistry
  co_active :: "(bytes \<times> ActiveVpnSession) list"
  co_metrics :: VpnSessionCoordinatorMetrics
  co_identity_quotas :: "(bytes \<times> nat) list"
  co_next_generation :: u64
  co_quota_metrics :: VpnQuotaMetricCounters
  co_data_metrics :: VpnDataPolicyMetricCounters
  co_global_budget :: VpnGlobalReassemblyBudget
  co_paths :: "VpnDataPathInner list"
  co_path_limiters :: "nat list"
  co_limiters :: "IdentityRateState list"

type_synonym closes = "(usize \<times> u32 \<times> string) list"

definition coordinator_with_resource_limits ::
  "VpnIdentityRegistry \<Rightarrow> u64 \<Rightarrow> usize \<Rightarrow> usize \<Rightarrow> VpnManagedSessionError + VpnSessionCoordinator" where
  "coordinator_with_resource_limits registry initial_generation global_reassembly_limit global_inflight_limit =
     (if initial_generation = 0 then Inl GenerationExhausted
      else case global_budget_new global_reassembly_limit global_inflight_limit of
          None \<Rightarrow> Inl InvalidResourceLimits
        | Some global_budget \<Rightarrow>
            Inr \<lparr>co_registry = registry, co_active = [], co_metrics = coordinator_metrics_default,
                 co_identity_quotas = [], co_next_generation = initial_generation,
                 co_quota_metrics = VpnQuotaMetricCounters_default,
                 co_data_metrics = VpnDataPolicyMetricCounters_default,
                 co_global_budget = global_budget, co_paths = [], co_path_limiters = [], co_limiters = []\<rparr>)"

definition coordinator_with_initial_generation ::
  "VpnIdentityRegistry \<Rightarrow> u64 \<Rightarrow> VpnManagedSessionError + VpnSessionCoordinator" where
  "coordinator_with_initial_generation registry initial_generation =
     coordinator_with_resource_limits registry initial_generation
       VPN_DEFAULT_GLOBAL_REASSEMBLY_BYTES VPN_DEFAULT_GLOBAL_INFLIGHT_PACKETS"

definition coordinator_new :: "VpnIdentityRegistry \<Rightarrow> VpnSessionCoordinator option" where
  "coordinator_new registry =
     (case coordinator_with_resource_limits registry 1
             VPN_DEFAULT_GLOBAL_REASSEMBLY_BYTES VPN_DEFAULT_GLOBAL_INFLIGHT_PACKETS of
        Inl _ \<Rightarrow> None | Inr c \<Rightarrow> Some c)"

section \<open>Queries and generations\<close>

definition allocate_generation ::
  "VpnSessionCoordinator \<Rightarrow> VpnSessionCoordinator \<times> (VpnManagedSessionError + u64)" where
  "allocate_generation c =
     (let current = co_next_generation c in
      if current \<noteq> 0
      then (c\<lparr>co_next_generation := current + 1\<rparr>,
            case session_generation_new current of None \<Rightarrow> Inl GenerationExhausted | Some g \<Rightarrow> Inr g)
      else (c, Inl GenerationExhausted))"

definition active_generation :: "ActiveVpnSession \<Rightarrow> u64" where
  "active_generation a = accept_session_generation (session_accept (active_session_of a))"

definition active_snapshot :: "ActiveVpnSession \<Rightarrow> VpnActiveSessionSnapshot" where
  "active_snapshot a =
     \<lparr>snapshot_client_id = identity_client_id (session_identity (active_session_of a)),
      snapshot_fingerprint = session_fingerprint (active_session_of a),
      snapshot_session_generation = active_generation a,
      snapshot_connection_stable_id = active_connection a\<rparr>"

definition active_session :: "VpnSessionCoordinator \<Rightarrow> bytes \<Rightarrow> VpnActiveSessionSnapshot option" where
  "active_session c client_id = map_option active_snapshot (map_of (co_active c) client_id)"

definition is_current :: "VpnSessionCoordinator \<Rightarrow> bytes \<Rightarrow> u64 \<Rightarrow> bool" where
  "is_current c client_id session_generation =
     is_some_and (map_of (co_active c) client_id) (\<lambda>active. active_generation active = session_generation)"

section \<open>Data paths in the store\<close>

definition co_env :: "VpnSessionCoordinator \<Rightarrow> nat \<Rightarrow> VpnPathShared" where
  "co_env c limiter =
     \<lparr>shared_rate = co_limiters c ! limiter, shared_quota = co_quota_metrics c, shared_policy = co_data_metrics c\<rparr>"

definition deactivate_path :: "VpnSessionCoordinator \<Rightarrow> nat \<Rightarrow> VpnSessionCoordinator option" where
  "deactivate_path c h =
     Option.bind (path_deactivate (co_paths c ! h) (co_quota_metrics c)) (\<lambda>(inner, m).
     Some (c\<lparr>co_paths := (co_paths c)[h := inner], co_quota_metrics := m\<rparr>))"

text \<open>A call that a connection task makes through its handle.\<close>

definition operate_path :: "VpnSessionCoordinator \<Rightarrow> nat \<Rightarrow> PathOp \<Rightarrow> VpnSessionCoordinator option" where
  "operate_path c h op =
     (let limiter = co_path_limiters c ! h in
      Option.bind (path_run op (co_paths c ! h) (co_env c limiter)) (\<lambda>(inner, env).
      Some (c\<lparr>co_paths := (co_paths c)[h := inner],
              co_limiters := (co_limiters c)[limiter := shared_rate env],
              co_quota_metrics := shared_quota env, co_data_metrics := shared_policy env\<rparr>)))"

section \<open>Commit and release\<close>

definition commit_identity ::
  "VpnIdentityRegistry \<Rightarrow> VpnNegotiatedSession \<Rightarrow> VpnSessionCommitError + VpnIdentity" where
  "commit_identity registry session =
     (case authorize registry (session_fingerprint session) of
        Inr identity \<Rightarrow>
          if identity_client_id identity = identity_client_id (session_identity session) \<and>
             has_same_session_policy (session_identity session) identity
          then Inr identity
          else if identity_client_id identity = identity_client_id (session_identity session)
          then Inl CommitPolicyChanged
          else Inl CommitIdentityRevoked
      | Inl UnknownFingerprint \<Rightarrow> Inl CommitIdentityRevoked
      | Inl IdentityDisabledError \<Rightarrow> Inl CommitIdentityRevoked)"

text \<open>\<open>entry(client_id).or_insert_with(..)\<close> on the quotas.\<close>

definition limiter_entry ::
  "VpnSessionCoordinator \<Rightarrow> bytes \<Rightarrow> VpnIdentityLimits \<Rightarrow> instant \<Rightarrow> VpnSessionCoordinator \<times> nat" where
  "limiter_entry c client_id limits now =
     (case map_of (co_identity_quotas c) client_id of
        Some limiter \<Rightarrow> (c, limiter)
      | None \<Rightarrow>
          let limiter = length (co_limiters c) in
          (c\<lparr>co_identity_quotas := hm_insert client_id limiter (co_identity_quotas c),
             co_limiters := co_limiters c @ [rate_state_new limits now]\<rparr>, limiter))"

text \<open>The part of \<open>commit_with_handle_at\<close> after the identity has been accepted.\<close>

definition commit_accepted ::
  "VpnSessionCoordinator \<Rightarrow> VpnNegotiatedSession \<Rightarrow> usize \<Rightarrow> instant \<Rightarrow> VpnIdentity \<Rightarrow>
   (VpnSessionCoordinator \<times> VpnSessionCommitReport \<times> nat \<times> ActiveVpnSession option) option" where
  "commit_accepted c session connection now identity =
     (let client_id = identity_client_id (session_identity session);
          session_generation = accept_session_generation (session_accept session);
          limits = identity_limits (session_identity session);
          (c, limiter) = limiter_entry c client_id limits now in
      case path_new_inactive identity (unat (accept_max_ip_packet_len (session_accept session)))
             session_generation (co_global_budget c) of
        Inl _ \<Rightarrow> None
      | Inr inner \<Rightarrow>
          let data_path = length (co_paths c);
              replaced = map_of (co_active c) client_id;
              c = c\<lparr>co_paths := co_paths c @ [inner], co_path_limiters := co_path_limiters c @ [limiter],
                    co_active := hm_insert client_id
                      \<lparr>active_session_of = session, active_connection = connection, active_data_path = data_path\<rparr>
                      (co_active c)\<rparr> in
          Option.bind (case replaced of None \<Rightarrow> Some c | Some old \<Rightarrow> deactivate_path c (active_data_path old)) (\<lambda>c.
          let c = c\<lparr>co_limiters := (co_limiters c)[limiter := rate_reconfigure (co_limiters c ! limiter) limits now],
                    co_paths := (co_paths c)[data_path := path_activate (co_paths c ! data_path)]\<rparr>;
              m = co_metrics c;
              m = m\<lparr>metric_total_committed := sat_add_u64 (metric_total_committed m) 1\<rparr>;
              m = (if is_some replaced then m\<lparr>metric_replacements := sat_add_u64 (metric_replacements m) 1\<rparr> else m);
              m = m\<lparr>metric_active_sessions := length (co_active c)\<rparr> in
          Some (c\<lparr>co_metrics := m\<rparr>,
                \<lparr>report_session_generation = session_generation,
                 report_replaced_generation = map_option active_generation replaced\<rparr>,
                data_path, replaced)))"

definition commit_with_handle_at ::
  "VpnSessionCoordinator \<Rightarrow> VpnNegotiatedSession \<Rightarrow> usize \<Rightarrow> instant \<Rightarrow>
   (VpnSessionCoordinator \<times> closes \<times> (VpnSessionCommitError + VpnSessionCommitReport \<times> nat)) option" where
  "commit_with_handle_at c session connection now =
     (case commit_identity (co_registry c) session of
        Inl e \<Rightarrow>
          let m = co_metrics c in
          Some (c\<lparr>co_metrics := m\<lparr>metric_commit_rejections := sat_add_u64 (metric_commit_rejections m) 1\<rparr>\<rparr>,
                [(connection, VPN_CLOSE_COMMIT_REJECTED, COMMIT_REJECTED_REASON)], Inl e)
      | Inr identity \<Rightarrow>
          Option.bind (commit_accepted c session connection now identity) (\<lambda>(c, report, data_path, replaced).
          Some (c,
                (case replaced of
                   None \<Rightarrow> []
                 | Some old \<Rightarrow> [(active_connection old, VPN_CLOSE_SESSION_REPLACED, SESSION_REPLACED_REASON)]),
                Inr (report, data_path))))"

definition release_if_current ::
  "VpnSessionCoordinator \<Rightarrow> bytes \<Rightarrow> u64 \<Rightarrow> (VpnSessionCoordinator \<times> bool) option" where
  "release_if_current c client_id session_generation =
     (if \<not> is_current c client_id session_generation then Some (c, False)
      else case map_of (co_active c) client_id of
          None \<Rightarrow> None
        | Some active \<Rightarrow>
            let c = c\<lparr>co_active := hm_remove client_id (co_active c)\<rparr> in
            Option.bind (deactivate_path c (active_data_path active)) (\<lambda>c.
            let m = co_metrics c;
                m = m\<lparr>metric_normal_releases := sat_add_u64 (metric_normal_releases m) 1\<rparr>;
                m = m\<lparr>metric_active_sessions := length (co_active c)\<rparr> in
            Some (c\<lparr>co_metrics := m\<rparr>, True)))"

section \<open>Reload and shutdown\<close>

datatype ReconcileDecision = Keep | IdentityRevoked | PolicyChanged

definition reconcile_decision ::
  "VpnIdentityRegistry \<Rightarrow> bytes \<Rightarrow> VpnNegotiatedSession \<Rightarrow> ReconcileDecision" where
  "reconcile_decision registry client_id session =
     (case authorize registry (session_fingerprint session) of
        Inr identity \<Rightarrow>
          if identity_client_id identity = client_id \<and> has_same_session_policy (session_identity session) identity
          then Keep
          else if identity_client_id identity = client_id then PolicyChanged
          else IdentityRevoked
      | Inl _ \<Rightarrow> IdentityRevoked)"

fun close_code :: "ReconcileDecision \<Rightarrow> u32" where
  "close_code IdentityRevoked = VPN_CLOSE_IDENTITY_REVOKED"
| "close_code _ = VPN_CLOSE_POLICY_CHANGED"

fun close_message :: "ReconcileDecision \<Rightarrow> string" where
  "close_message IdentityRevoked = IDENTITY_REVOKED_REASON"
| "close_message _ = POLICY_CHANGED_REASON"

definition count_decision :: "ReconcileDecision \<Rightarrow> VpnSessionReconcileReport \<Rightarrow> VpnSessionReconcileReport" where
  "count_decision d r =
     (case d of
        Keep \<Rightarrow> r\<lparr>sessions_kept := sessions_kept r + 1\<rparr>
      | IdentityRevoked \<Rightarrow> r\<lparr>sessions_identity_revoked := sessions_identity_revoked r + 1\<rparr>
      | PolicyChanged \<Rightarrow> r\<lparr>sessions_policy_changed := sessions_policy_changed r + 1\<rparr>)"

definition record_decision :: "ReconcileDecision \<Rightarrow> VpnSessionCoordinatorMetrics \<Rightarrow> VpnSessionCoordinatorMetrics" where
  "record_decision d m =
     (case d of
        Keep \<Rightarrow> m
      | IdentityRevoked \<Rightarrow> m\<lparr>metric_identity_revocations := sat_add_u64 (metric_identity_revocations m) 1\<rparr>
      | PolicyChanged \<Rightarrow> m\<lparr>metric_policy_change_closes := sat_add_u64 (metric_policy_change_closes m) 1\<rparr>)"

fun apply_decisions ::
  "VpnSessionCoordinator \<Rightarrow> VpnSessionReconcileReport \<Rightarrow> closes \<Rightarrow> (bytes \<times> ReconcileDecision) list \<Rightarrow>
   (VpnSessionCoordinator \<times> VpnSessionReconcileReport \<times> closes) option" where
  "apply_decisions c sessions closed [] = Some (c, sessions, closed)"
| "apply_decisions c sessions closed ((client_id, d) # rest) =
     (if d = Keep then apply_decisions c (count_decision d sessions) closed rest
      else case map_of (co_active c) client_id of
          None \<Rightarrow> None
        | Some active \<Rightarrow>
            Option.bind (deactivate_path (c\<lparr>co_active := hm_remove client_id (co_active c)\<rparr>) (active_data_path active)) (\<lambda>c.
            apply_decisions (c\<lparr>co_metrics := record_decision d (co_metrics c)\<rparr>) (count_decision d sessions)
              (closed @ [(active_connection active, close_code d, close_message d)]) rest))"

text \<open>\<open>identity_quotas.retain(..)\<close>: limiters of identities that are gone or disabled are forgotten.\<close>

fun retain_quotas ::
  "VpnIdentityRegistry \<Rightarrow> instant \<Rightarrow> IdentityRateState list \<Rightarrow> (bytes \<times> nat) list \<Rightarrow>
   IdentityRateState list \<times> (bytes \<times> nat) list" where
  "retain_quotas registry now limiters [] = (limiters, [])"
| "retain_quotas registry now limiters ((client_id, limiter) # rest) =
     (case registry_identity_by_client_id registry client_id of
        Some identity \<Rightarrow>
          if identity_enabled identity
          then let (limiters, kept) = retain_quotas registry now
                     (limiters[limiter := rate_reconfigure (limiters ! limiter) (identity_limits identity) now]) rest
               in (limiters, (client_id, limiter) # kept)
          else retain_quotas registry now limiters rest
      | None \<Rightarrow> retain_quotas registry now limiters rest)"

definition replace_registry ::
  "VpnSessionCoordinator \<Rightarrow> VpnIdentityRegistry \<Rightarrow> instant \<Rightarrow>
   (VpnSessionCoordinator \<times> closes \<times> VpnIdentityReloadReport \<times> VpnSessionReconcileReport) option" where
  "replace_registry c registry now =
     (let identities = \<lparr>previous_identity_count = length (registry_identities (co_registry c)),
            identity_count = length (registry_identities registry),
            previous_fingerprint_count = length (registry_by_fingerprint (co_registry c)),
            fingerprint_count = length (registry_by_fingerprint registry)\<rparr>;
          c = c\<lparr>co_registry := registry\<rparr>;
          decisions = map (\<lambda>(client_id, active).
            (client_id, reconcile_decision (co_registry c) client_id (active_session_of active))) (co_active c) in
      Option.bind (apply_decisions c \<lparr>sessions_kept = 0, sessions_identity_revoked = 0, sessions_policy_changed = 0\<rparr> [] decisions)
        (\<lambda>(c, sessions, closed).
        let c = c\<lparr>co_metrics := (co_metrics c)\<lparr>metric_active_sessions := length (co_active c)\<rparr>\<rparr>;
            (limiters, quotas) = retain_quotas (co_registry c) now (co_limiters c) (co_identity_quotas c) in
        Some (c\<lparr>co_limiters := limiters, co_identity_quotas := quotas\<rparr>, closed, identities, sessions)))"

fun deactivate_all :: "VpnSessionCoordinator \<Rightarrow> ActiveVpnSession list \<Rightarrow> VpnSessionCoordinator option" where
  "deactivate_all c [] = Some c"
| "deactivate_all c (a # rest) = Option.bind (deactivate_path c (active_data_path a)) (\<lambda>c. deactivate_all c rest)"

definition close_all :: "VpnSessionCoordinator \<Rightarrow> (VpnSessionCoordinator \<times> closes \<times> usize) option" where
  "close_all c =
     (let active = map snd (co_active c);
          m = co_metrics c;
          m = m\<lparr>metric_shutdown_closes := sat_add_u64 (metric_shutdown_closes m) (length active)\<rparr>;
          m = m\<lparr>metric_active_sessions := 0\<rparr>;
          c = c\<lparr>co_active := [], co_metrics := m\<rparr> in
      Option.bind (deactivate_all c active) (\<lambda>c.
      Some (c\<lparr>co_identity_quotas := []\<rparr>,
            map (\<lambda>a. (active_connection a, VPN_CLOSE_SERVER_SHUTDOWN, SERVER_SHUTDOWN_REASON)) active,
            length active)))"

section \<open>The managed handshake\<close>

text \<open>
  \<open>vpn_server_managed_control_handshake\<close> up to its first effect on the sessions, and the rest of it:
  other tasks may run in between.  \<open>drained\<close> tells whether the rejected peer closed the connection in
  time.
\<close>

datatype VpnManagedServerOutcome =
    ManagedActive VpnNegotiatedSession VpnSessionCommitReport nat
  | ManagedRejected VpnReject

definition managed_handshake_start ::
  "VpnSessionCoordinator \<Rightarrow> (bytes \<Rightarrow> bytes) \<Rightarrow> Connection \<Rightarrow> ControlStream \<Rightarrow> VpnServerNegotiationConfig \<Rightarrow> duration \<Rightarrow>
   VpnSessionCoordinator \<times> bytes \<times> (VpnManagedSessionError + VpnServerControlOutcome)" where
  "managed_handshake_start c sha256 connection stream config handshake_timeout =
     (case allocate_generation c of
        (c, Inl e) \<Rightarrow> (c, [], Inl e)
      | (c, Inr generation) \<Rightarrow>
          let (sent, outcome) = vpn_server_control_handshake sha256 connection stream (co_registry c) config
                generation handshake_timeout in
          (c, sent, map_err Control outcome))"

definition managed_handshake_finish ::
  "VpnSessionCoordinator \<Rightarrow> VpnServerControlOutcome \<Rightarrow> usize \<Rightarrow> bool \<Rightarrow> instant \<Rightarrow>
   (VpnSessionCoordinator \<times> closes \<times> (VpnManagedSessionError + VpnManagedServerOutcome)) option" where
  "managed_handshake_finish c outcome connection drained now =
     (case outcome of
        OutcomeAccepted session \<Rightarrow>
          Option.bind (commit_with_handle_at c session connection now) (\<lambda>(c, closed, commit).
          Some (c, closed, try_then (map_err Commit commit) (\<lambda>(report, data_path).
            Inr (ManagedActive session report data_path))))
      | OutcomeRejected rejection \<Rightarrow>
          Some (c, if drained then [] else [(connection, VPN_CLOSE_CONTROL_REJECTED, CONTROL_REJECTED_REASON)],
                Inr (ManagedRejected rejection)))"

end
