(* ===== verification/Vpn_Coordinator_Safety.thy ===== *)
theory Vpn_Coordinator_Safety
  imports Vpn_Coordinator
begin

text \<open>
  The invariant of the coordinator and its consequences: which data paths are live, which sessions
  the registry still authorizes, what the counters add up to, and that no operation panics.
\<close>

section \<open>Stored data paths\<close>

definition co_shared :: "VpnSessionCoordinator \<Rightarrow> VpnPathShared" where
  "co_shared c =
     \<lparr>shared_rate = rate_state_new identity_limits_default 0, shared_quota = co_quota_metrics c,
      shared_policy = co_data_metrics c\<rparr>"

lemma system_inv_cong:
  "shared_quota env = shared_quota env' \<Longrightarrow> system_inv b (paths, env) = system_inv b (paths, env')"
  by (simp add: system_inv_def)

lemma system_inv_run:
  assumes "system_inv b (paths, env)" and "h < length paths"
  obtains inner env' where "path_run op (paths ! h) env = Some (inner, env')"
    and "same_handle inner (paths ! h)" and "system_inv b (paths[h := inner], env')"
proof -
  obtain others where settled: "inner_settled others (paths ! h) env"
    using system_inv_handle [OF assms(1) nth_mem [OF assms(2)]] .
  obtain inner env' where run: "path_run op (paths ! h) env = Some (inner, env')" "same_handle inner (paths ! h)"
    by (rule path_run_settled [OF settled])
  have "env\<lparr>shared_rate := shared_rate env\<rparr> = env" by simp
  then have "system_step b (paths, env) (paths[h := inner], env')"
    using system_step.operate [OF assms(2), of op "shared_rate env" env] run(1) by simp
  from system_step_inv [OF this assms(1)] run that show thesis by blast
qed

lemma path_run_active:
  assumes "inner_settled others inner env" and "path_run op inner env = Some (inner', env')"
    and "op \<noteq> Activate" and "path_active (inner_state inner')"
  shows "path_active (inner_state inner) \<and> op \<noteq> Deactivate"
proof (cases op)
  case (Ingest direction datagram now)
  obtain x e r where "ingest_datagram inner env direction datagram now = Some (x, e, r)"
    "path_active (inner_state x) = path_active (inner_state inner)"
    by (rule ingest_datagram_settled [OF assms(1)])
  with Ingest assms(2,4) show ?thesis by simp
next
  case (Expire now)
  obtain x e n where "expire_reassembly inner env now = Some (x, e, n)"
    "path_active (inner_state x) = path_active (inner_state inner)"
    by (rule expire_reassembly_settled [OF assms(1)])
  with Expire assms(2,4) show ?thesis by simp
next
  case Deactivate
  obtain x m where "path_deactivate inner (shared_quota env) = Some (x, m)" "\<not> path_active (inner_state x)"
    by (rule path_deactivate_settled [OF assms(1)])
  with Deactivate assms(2,4) show ?thesis by simp
qed (use assms in \<open>auto simp: try_bind_runtime_def unbind_runtime_def split: if_splits\<close>)

lemma deactivate_path_ok:
  assumes "system_inv b (co_paths c, co_shared c)" and "h < length (co_paths c)"
  obtains inner m where "deactivate_path c h = Some (c\<lparr>co_paths := (co_paths c)[h := inner], co_quota_metrics := m\<rparr>)"
    and "system_inv b ((co_paths c)[h := inner], (co_shared c)\<lparr>shared_quota := m\<rparr>)"
    and "same_handle inner (co_paths c ! h)" and "\<not> path_active (inner_state inner)"
    and "path_deactivate (co_paths c ! h) (co_quota_metrics c) = Some (inner, m)"
proof -
  obtain others where settled: "inner_settled others (co_paths c ! h) (co_shared c)"
    using system_inv_handle [OF assms(1) nth_mem [OF assms(2)]] .
  obtain inner m where d: "path_deactivate (co_paths c ! h) (shared_quota (co_shared c)) = Some (inner, m)"
    "same_handle inner (co_paths c ! h)" "\<not> path_active (inner_state inner)"
    by (rule path_deactivate_settled [OF settled])
  obtain inner' env' where "path_run Deactivate (co_paths c ! h) (co_shared c) = Some (inner', env')"
    "system_inv b ((co_paths c)[h := inner'], env')"
    by (rule system_inv_run [OF assms])
  with d have "system_inv b ((co_paths c)[h := inner], (co_shared c)\<lparr>shared_quota := m\<rparr>)" by simp
  with d that show thesis by (simp add: deactivate_path_def co_shared_def)
qed

section \<open>The invariant\<close>

definition handles :: "VpnSessionCoordinator \<Rightarrow> nat list" where
  "handles c = map (active_data_path \<circ> snd) (co_active c)"

text \<open>
  A live data path belongs to an active session.  The converse need not hold: the runtime of a
  connection deactivates its path when it stops, before the session is released.

  The data path of an entry is the one that was made for its session.\<close>

definition entry_ok :: "VpnDataPathInner list \<Rightarrow> bytes \<times> ActiveVpnSession \<Rightarrow> bool" where
  "entry_ok paths = (\<lambda>(client_id, a).
     let session = active_session_of a; inner = paths ! active_data_path a in
     identity_client_id (session_identity session) = client_id \<and>
     inner_policy inner = identity_data_policy (session_identity session) \<and>
     inner_session_generation inner = accept_session_generation (session_accept session) \<and>
     inner_max_ip_packet_len inner = unat (accept_max_ip_packet_len (session_accept session)))"

definition limiters_ok :: "VpnSessionCoordinator \<Rightarrow> bool" where
  "limiters_ok c \<longleftrightarrow> length (co_path_limiters c) = length (co_paths c) \<and>
     (\<forall>l \<in> set (co_path_limiters c). l < length (co_limiters c)) \<and>
     (\<forall>e \<in> set (co_identity_quotas c). snd e < length (co_limiters c))"

definition co_core :: "VpnSessionCoordinator \<Rightarrow> bool" where
  "co_core c \<longleftrightarrow> hm_wf (co_active c) \<and> distinct (handles c) \<and>
     (\<forall>h \<in> set (handles c). h < length (co_paths c)) \<and>
     (\<forall>h < length (co_paths c). path_active (inner_state (co_paths c ! h)) \<longrightarrow> h \<in> set (handles c)) \<and>
     (\<forall>e \<in> set (co_active c). entry_ok (co_paths c) e) \<and> limiters_ok c \<and>
     system_inv (co_global_budget c) (co_paths c, co_shared c)"

text \<open>The registry still stands behind an entry: same client, same policy and limits, enabled.\<close>

definition authorized :: "VpnIdentityRegistry \<Rightarrow> bytes \<times> ActiveVpnSession \<Rightarrow> bool" where
  "authorized registry = (\<lambda>(client_id, a).
     \<exists>identity. authorize registry (session_fingerprint (active_session_of a)) = Inr identity \<and>
       identity_client_id identity = client_id \<and>
       has_same_session_policy (session_identity (active_session_of a)) identity)"

definition registry_built :: "VpnIdentityRegistry \<Rightarrow> bool" where
  "registry_built registry \<longleftrightarrow> (\<exists>server_ipv4 server_ipv6 identities.
     registry_new server_ipv4 server_ipv6 identities = Inr registry)"

definition co_inv :: "VpnSessionCoordinator \<Rightarrow> bool" where
  "co_inv c \<longleftrightarrow> co_core c \<and> registry_built (co_registry c) \<and>
     (\<forall>e \<in> set (co_active c). authorized (co_registry c) e) \<and>
     metric_active_sessions (co_metrics c) = length (co_active c)"

lemma same_handle_entry:
  assumes "same_handle inner (paths ! h)"
  shows "entry_ok (paths[h := inner]) e \<longleftrightarrow> entry_ok paths e"
proof (cases "h < length paths")
  case True
  with assms show ?thesis
    by (cases "active_data_path (snd e) = h") (auto simp: entry_ok_def same_handle_def Let_def split: prod.splits)
qed (simp add: list_update_beyond)

text \<open>Removing an entry and deactivating its data path.\<close>

lemma remove_session:
  assumes "co_core c" and "map_of (co_active c) k = Some a"
  obtains inner m where
    "deactivate_path (c\<lparr>co_active := hm_remove k (co_active c)\<rparr>) (active_data_path a) =
      Some (c\<lparr>co_active := hm_remove k (co_active c), co_paths := (co_paths c)[active_data_path a := inner],
        co_quota_metrics := m\<rparr>)"
    and "co_core (c\<lparr>co_active := hm_remove k (co_active c), co_paths := (co_paths c)[active_data_path a := inner],
        co_quota_metrics := m\<rparr>)"
    and "path_deactivate (co_paths c ! active_data_path a) (co_quota_metrics c) = Some (inner, m)"
    and "active_data_path a < length (co_paths c)"
proof -
  let ?h = "active_data_path a" and ?d = "c\<lparr>co_active := hm_remove k (co_active c)\<rparr>"
  have mem: "(k, a) \<in> set (co_active c)" using assms(2) by (rule map_of_SomeD)
  have dist: "distinct (handles c)" and wf: "hm_wf (co_active c)" using assms(1) by (simp_all add: co_core_def)
  have h: "?h < length (co_paths c)" using assms(1) mem by (force simp: co_core_def handles_def)
  have inv: "system_inv (co_global_budget c) (co_paths ?d, co_shared ?d)"
    using assms(1) by (simp add: co_core_def co_shared_def)
  obtain inner m where d: "deactivate_path ?d ?h = Some (?d\<lparr>co_paths := (co_paths ?d)[?h := inner], co_quota_metrics := m\<rparr>)"
    "system_inv (co_global_budget c) ((co_paths ?d)[?h := inner], (co_shared ?d)\<lparr>shared_quota := m\<rparr>)"
    "same_handle inner (co_paths ?d ! ?h)" "\<not> path_active (inner_state inner)"
    "path_deactivate (co_paths ?d ! ?h) (co_quota_metrics ?d) = Some (inner, m)"
    by (rule deactivate_path_ok [OF inv]) (use h in simp)
  have sub: "set (hm_remove k (co_active c)) = set (co_active c) - {(k, a)}"
    unfolding set_hm_remove using eq_key_imp_eq_value [OF wf] mem by fastforce
  have hs: "set (map (active_data_path \<circ> snd) (hm_remove k (co_active c))) = set (handles c) - {?h}"
  proof -
    have "inj_on (active_data_path \<circ> snd) (set (co_active c))"
      using dist unfolding handles_def distinct_map by blast
    from inj_on_image_set_diff [OF this, of "set (co_active c)" "{(k, a)}"] mem
    show ?thesis unfolding set_map sub handles_def by simp
  qed
  have hd: "distinct (map (active_data_path \<circ> snd) (hm_remove k (co_active c)))"
    using dist by (simp add: handles_def AList.delete_eq distinct_map_filter split_def)
  let ?c = "?d\<lparr>co_paths := (co_paths ?d)[?h := inner], co_quota_metrics := m\<rparr>"
  have "co_core ?c"
    unfolding co_core_def
  proof (intro conjI)
    show "hm_wf (co_active ?c)" using wf by simp
    show "distinct (handles ?c)" using hd by (simp add: handles_def)
    have hs': "set (handles ?c) = set (handles c) - {?h}" using hs by (simp add: handles_def)
    show "\<forall>h \<in> set (handles ?c). h < length (co_paths ?c)" using assms(1) hs' by (simp add: co_core_def)
    show "\<forall>h < length (co_paths ?c). path_active (inner_state (co_paths ?c ! h)) \<longrightarrow> h \<in> set (handles ?c)"
      using assms(1) hs' d(4) h by (auto simp: co_core_def nth_list_update)
    show "\<forall>e \<in> set (co_active ?c). entry_ok (co_paths ?c) e"
      using assms(1) d(3) sub same_handle_entry by (simp add: co_core_def)
    show "limiters_ok ?c" using assms(1) by (simp add: co_core_def limiters_ok_def)
    show "system_inv (co_global_budget ?c) (co_paths ?c, co_shared ?c)"
      using d(2) by (simp add: co_shared_def)
  qed
  with d(1,5) h that show thesis by simp
qed

section \<open>Reconciliation\<close>

text \<open>What the reconciliation leaves of the entries, and the connections it closes.\<close>

definition kept_entries ::
  "(bytes \<times> ReconcileDecision) list \<Rightarrow> (bytes \<times> ActiveVpnSession) list \<Rightarrow> (bytes \<times> ActiveVpnSession) list" where
  "kept_entries ds entries = filter (\<lambda>e. \<forall>d. (fst e, d) \<in> set ds \<longrightarrow> d = Keep) entries"

definition decision_closes ::
  "(bytes \<times> ActiveVpnSession) list \<Rightarrow> (bytes \<times> ReconcileDecision) list \<Rightarrow> closes" where
  "decision_closes entries ds =
     map (\<lambda>(k, d). (active_connection (the (map_of entries k)), close_code d, close_message d))
       (filter (\<lambda>(k, d). d \<noteq> Keep) ds)"

definition reconciled ::
  "VpnSessionCoordinator \<Rightarrow> VpnSessionCoordinator \<Rightarrow> (bytes \<times> ReconcileDecision) list \<Rightarrow> bool" where
  "reconciled c c' ds \<longleftrightarrow> co_core c' \<and> co_active c' = kept_entries ds (co_active c) \<and>
     co_metrics c' = fold (record_decision \<circ> snd) ds (co_metrics c) \<and>
     co_registry c' = co_registry c \<and> co_next_generation c' = co_next_generation c \<and>
     co_identity_quotas c' = co_identity_quotas c \<and> co_limiters c' = co_limiters c \<and>
     length (co_paths c') = length (co_paths c) \<and> co_path_limiters c' = co_path_limiters c \<and>
     co_global_budget c' = co_global_budget c"

lemma kept_entries_Cons:
  "k \<notin> fst ` set ds \<Longrightarrow> kept_entries ((k, Keep) # ds) entries = kept_entries ds entries"
  "k \<notin> fst ` set ds \<Longrightarrow> d \<noteq> Keep \<Longrightarrow> kept_entries ((k, d) # ds) entries = kept_entries ds (hm_remove k entries)"
  by (auto simp: kept_entries_def AList.delete_eq split_def intro!: filter_cong)

lemma decision_closes_remove:
  "k \<notin> fst ` set ds \<Longrightarrow> decision_closes (hm_remove k entries) ds = decision_closes entries ds"
  unfolding decision_closes_def by (rule map_cong) (force simp: fun_upd_def)+

lemma apply_decisions_ok:
  assumes "co_core c" and "distinct (map fst ds)" and "\<forall>(k, d) \<in> set ds. map_of (co_active c) k \<noteq> None"
  shows "\<exists>c'. apply_decisions c sessions closed ds =
      Some (c', fold (count_decision \<circ> snd) ds sessions, closed @ decision_closes (co_active c) ds) \<and>
    reconciled c c' ds"
  using assms
proof (induction ds arbitrary: c sessions closed)
  case Nil
  then show ?case by (simp add: reconciled_def kept_entries_def decision_closes_def)
next
  case (Cons x ds)
  obtain k d where x: "x = (k, d)" by fastforce
  have fresh: "k \<notin> fst ` set ds" and dist: "distinct (map fst ds)" using Cons.prems(2) by (auto simp: x)
  show ?case
  proof (cases "d = Keep")
    case True
    have "\<forall>(k, d) \<in> set ds. map_of (co_active c) k \<noteq> None" using Cons.prems(3) by auto
    from Cons.IH [OF Cons.prems(1) dist this] True fresh show ?thesis
      by (simp add: x reconciled_def kept_entries_Cons decision_closes_def record_decision_def)
  next
    case False
    obtain a where a: "map_of (co_active c) k = Some a" using Cons.prems(3) by (auto simp: x)
    obtain inner m where d: "deactivate_path (c\<lparr>co_active := hm_remove k (co_active c)\<rparr>) (active_data_path a) =
        Some (c\<lparr>co_active := hm_remove k (co_active c), co_paths := (co_paths c)[active_data_path a := inner],
          co_quota_metrics := m\<rparr>)"
      and core: "co_core (c\<lparr>co_active := hm_remove k (co_active c), co_paths := (co_paths c)[active_data_path a := inner],
          co_quota_metrics := m\<rparr>)"
      by (rule remove_session [OF Cons.prems(1) a])
    let ?c = "c\<lparr>co_active := hm_remove k (co_active c), co_paths := (co_paths c)[active_data_path a := inner],
        co_quota_metrics := m, co_metrics := record_decision d (co_metrics c)\<rparr>"
    have core': "co_core ?c" using core by (simp add: co_core_def handles_def limiters_ok_def co_shared_def)
    have "\<forall>(k', d) \<in> set ds. map_of (co_active ?c) k' \<noteq> None"
      using Cons.prems(3) fresh by (force simp: x)
    from Cons.IH [OF core' dist this, of "count_decision d sessions"
        "closed @ [(active_connection a, close_code d, close_message d)]"] d a False fresh
    show ?thesis
      by (auto simp: x reconciled_def kept_entries_Cons decision_closes_remove)
        (simp add: decision_closes_def)
  qed
qed

lemma reconcile_Keep:
  "reconcile_decision registry k (active_session_of a) = Keep \<longleftrightarrow> authorized registry (k, a)"
  by (auto simp: reconcile_decision_def authorized_def split: sum.splits)

lemma kept_entries_decisions:
  assumes "hm_wf entries"
  shows "kept_entries (map (\<lambda>(k, a). (k, D k a)) entries) entries = filter (\<lambda>(k, a). D k a = Keep) entries"
  unfolding kept_entries_def
proof (rule filter_cong [OF refl])
  fix e assume "e \<in> set entries"
  moreover obtain k a where e: "e = (k, a)" by fastforce
  ultimately have "(k, d) \<in> set (map (\<lambda>(k, a). (k, D k a)) entries) \<longleftrightarrow> d = D k a" for d
    by (force dest: eq_key_imp_eq_value [OF assms])
  then show "(\<forall>d. (fst e, d) \<in> set (map (\<lambda>(k, a). (k, D k a)) entries) \<longrightarrow> d = Keep) = (case e of (k, a) \<Rightarrow> D k a = Keep)"
    by (simp add: e)
qed

lemma retain_quotas_ok:
  assumes "retain_quotas registry now limiters quotas = (limiters', quotas')"
  shows "length limiters' = length limiters" and "set quotas' \<subseteq> set quotas"
  using assms
  by (induction quotas arbitrary: limiters limiters' quotas')
    (auto split: option.splits if_splits prod.splits, fastforce+)

lemma replace_registry_ok:
  assumes "co_core c" and "registry_built registry"
  obtains c' closed identities sessions where
    "replace_registry c registry now = Some (c', closed, identities, sessions)" and "co_inv c'"
    and "co_registry c' = registry" and "co_active c' = filter (authorized registry) (co_active c)"
    and "sessions = fold (count_decision \<circ> snd)
      (map (\<lambda>(k, a). (k, reconcile_decision registry k (active_session_of a))) (co_active c))
      \<lparr>sessions_kept = 0, sessions_identity_revoked = 0, sessions_policy_changed = 0\<rparr>"
    and "closed = decision_closes (co_active c)
      (map (\<lambda>(k, a). (k, reconcile_decision registry k (active_session_of a))) (co_active c))"
    and "co_metrics c' = (fold (record_decision \<circ> snd)
      (map (\<lambda>(k, a). (k, reconcile_decision registry k (active_session_of a))) (co_active c)) (co_metrics c))
        \<lparr>metric_active_sessions := length (co_active c')\<rparr>"
    and "co_next_generation c' = co_next_generation c" and "length (co_paths c') = length (co_paths c)"
proof -
  let ?ds = "map (\<lambda>(k, a). (k, reconcile_decision registry k (active_session_of a))) (co_active c)"
  let ?c = "c\<lparr>co_registry := registry\<rparr>"
  let ?z = "\<lparr>sessions_kept = 0, sessions_identity_revoked = 0, sessions_policy_changed = 0\<rparr>"
  have core: "co_core ?c" using assms(1) by (simp add: co_core_def handles_def limiters_ok_def co_shared_def)
  have wf: "hm_wf (co_active c)" using assms(1) by (simp add: co_core_def)
  have "distinct (map fst ?ds)" using wf by (simp add: comp_def split_def)
  moreover have "\<forall>(k, d) \<in> set ?ds. map_of (co_active ?c) k \<noteq> None" using wf by auto
  ultimately obtain c1 where a: "apply_decisions ?c ?z [] ?ds =
      Some (c1, fold (count_decision \<circ> snd) ?ds ?z, decision_closes (co_active c) ?ds)" and r: "reconciled ?c c1 ?ds"
    using apply_decisions_ok [OF core, of ?ds ?z "[]"] by auto
  obtain limiters quotas where q: "retain_quotas registry now (co_limiters c1) (co_identity_quotas c1) = (limiters, quotas)"
    by fastforce
  let ?c' = "c1\<lparr>co_metrics := (co_metrics c1)\<lparr>metric_active_sessions := length (co_active c1)\<rparr>,
    co_limiters := limiters, co_identity_quotas := quotas\<rparr>"
  have run: "replace_registry c registry now = Some (?c', decision_closes (co_active c) ?ds,
      \<lparr>previous_identity_count = length (registry_identities (co_registry c)),
            identity_count = length (registry_identities registry),
            previous_fingerprint_count = length (registry_by_fingerprint (co_registry c)),
            fingerprint_count = length (registry_by_fingerprint registry)\<rparr>,
      fold (count_decision \<circ> snd) ?ds ?z)"
    using a q r by (simp add: replace_registry_def reconciled_def Let_def)
  have act: "co_active c1 = filter (authorized registry) (co_active c)"
    using r kept_entries_decisions [OF wf] reconcile_Keep by (auto simp: reconciled_def intro: filter_cong)
  have core1: "co_core c1" using r by (simp add: reconciled_def)
  then have "limiters_ok c1" by (simp add: co_core_def)
  then have "limiters_ok ?c'" using retain_quotas_ok [OF q] by (auto simp: limiters_ok_def subset_eq)
  with core1 have "co_core ?c'" by (simp add: co_core_def handles_def co_shared_def)
  moreover have auth: "\<forall>e \<in> set (co_active c1). authorized registry e" unfolding act by simp
  moreover have same: "co_registry c1 = registry" "co_next_generation c1 = co_next_generation c"
    "length (co_paths c1) = length (co_paths c)" "co_metrics c1 = fold (record_decision \<circ> snd) ?ds (co_metrics c)"
    using r by (simp_all add: reconciled_def)
  ultimately have "co_inv ?c'" using assms(2) by (simp add: co_inv_def)
  then show thesis using run act same by (intro that [of ?c']) simp_all
qed

section \<open>Release and shutdown\<close>

lemma release_ok:
  assumes "co_inv c"
  shows "if is_current c client_id generation
    then \<exists>c'. release_if_current c client_id generation = Some (c', True) \<and> co_inv c' \<and>
      co_active c' = hm_remove client_id (co_active c) \<and> co_registry c' = co_registry c \<and>
      co_next_generation c' = co_next_generation c \<and>
      co_metrics c' = (co_metrics c)\<lparr>metric_normal_releases := sat_add_u64 (metric_normal_releases (co_metrics c)) 1,
        metric_active_sessions := length (co_active c')\<rparr>
    else release_if_current c client_id generation = Some (c, False)"
proof (cases "is_current c client_id generation")
  case True
  then obtain a where a: "map_of (co_active c) client_id = Some a"
    by (auto simp: is_current_def is_some_and_def split: option.splits)
  have core: "co_core c" using assms by (simp add: co_inv_def)
  obtain inner m where d: "deactivate_path (c\<lparr>co_active := hm_remove client_id (co_active c)\<rparr>) (active_data_path a) =
        Some (c\<lparr>co_active := hm_remove client_id (co_active c), co_paths := (co_paths c)[active_data_path a := inner],
          co_quota_metrics := m\<rparr>)"
      and core': "co_core (c\<lparr>co_active := hm_remove client_id (co_active c),
          co_paths := (co_paths c)[active_data_path a := inner], co_quota_metrics := m\<rparr>)"
    by (rule remove_session [OF core a])
  have "\<forall>e \<in> set (hm_remove client_id (co_active c)). authorized (co_registry c) e"
    using assms by (auto simp: co_inv_def set_hm_remove)
  moreover let ?c = "c\<lparr>co_active := hm_remove client_id (co_active c),
    co_paths := (co_paths c)[active_data_path a := inner], co_quota_metrics := m,
    co_metrics := (co_metrics c)\<lparr>metric_normal_releases := sat_add_u64 (metric_normal_releases (co_metrics c)) 1,
      metric_active_sessions := length (hm_remove client_id (co_active c))\<rparr>\<rparr>"
  have "co_core ?c" using core' by (simp add: co_core_def handles_def limiters_ok_def co_shared_def)
  ultimately have "co_inv ?c" using assms by (simp add: co_inv_def)
  moreover have "release_if_current c client_id generation = Some (?c, True)"
    using True a d by (simp add: release_if_current_def Let_def)
  ultimately show ?thesis using True by (auto intro!: exI [of _ ?c])
next
  case False
  then show ?thesis by (simp add: release_if_current_def)
qed

lemma deactivate_all_ok:
  assumes "system_inv b (co_paths c, co_shared c)" and "\<forall>a \<in> set as. active_data_path a < length (co_paths c)"
  shows "\<exists>paths m. deactivate_all c as = Some (c\<lparr>co_paths := paths, co_quota_metrics := m\<rparr>) \<and>
    length paths = length (co_paths c) \<and> system_inv b (paths, (co_shared c)\<lparr>shared_quota := m\<rparr>) \<and>
    (\<forall>h < length paths. path_active (inner_state (paths ! h)) \<longleftrightarrow>
       path_active (inner_state (co_paths c ! h)) \<and> h \<notin> active_data_path ` set as)"
  using assms
proof (induction as arbitrary: c)
  case Nil
  then show ?case by (intro exI [of _ "co_paths c"] exI [of _ "co_quota_metrics c"]) (simp add: co_shared_def)
next
  case (Cons a as)
  have h: "active_data_path a < length (co_paths c)" using Cons.prems(2) by simp
  obtain inner m where d: "deactivate_path c (active_data_path a) =
      Some (c\<lparr>co_paths := (co_paths c)[active_data_path a := inner], co_quota_metrics := m\<rparr>)"
    and inv: "system_inv b ((co_paths c)[active_data_path a := inner], (co_shared c)\<lparr>shared_quota := m\<rparr>)"
    and off: "\<not> path_active (inner_state inner)"
    by (rule deactivate_path_ok [OF Cons.prems(1) h])
  let ?c = "c\<lparr>co_paths := (co_paths c)[active_data_path a := inner], co_quota_metrics := m\<rparr>"
  have "system_inv b (co_paths ?c, co_shared ?c)" using inv by (simp add: co_shared_def)
  moreover have "\<forall>a \<in> set as. active_data_path a < length (co_paths ?c)" using Cons.prems(2) by simp
  ultimately obtain paths m' where r: "deactivate_all ?c as = Some (?c\<lparr>co_paths := paths, co_quota_metrics := m'\<rparr>)"
    "length paths = length (co_paths ?c)" "system_inv b (paths, (co_shared ?c)\<lparr>shared_quota := m'\<rparr>)"
    "\<forall>h < length paths. path_active (inner_state (paths ! h)) \<longleftrightarrow>
       path_active (inner_state (co_paths ?c ! h)) \<and> h \<notin> active_data_path ` set as"
    using Cons.IH [of ?c] by blast
  have "\<forall>i < length paths. path_active (inner_state (paths ! i)) \<longleftrightarrow>
       path_active (inner_state (co_paths c ! i)) \<and> i \<notin> active_data_path ` set (a # as)"
    using r(2,4) off h by (auto simp: nth_list_update)
  with d r(1-3) show ?case by (intro exI [of _ paths] exI [of _ m']) (simp add: co_shared_def)
qed

lemma close_all_ok:
  assumes "co_inv c"
  obtains c' where "close_all c = Some (c',
      map (\<lambda>a. (active_connection a, VPN_CLOSE_SERVER_SHUTDOWN, SERVER_SHUTDOWN_REASON)) (map snd (co_active c)),
      length (co_active c))"
    and "co_inv c'" and "co_active c' = []" and "co_registry c' = co_registry c"
    and "co_next_generation c' = co_next_generation c"
    and "co_metrics c' = (co_metrics c)\<lparr>
      metric_shutdown_closes := sat_add_u64 (metric_shutdown_closes (co_metrics c)) (length (co_active c)),
      metric_active_sessions := 0\<rparr>"
proof -
  let ?m = "(co_metrics c)\<lparr>
      metric_shutdown_closes := sat_add_u64 (metric_shutdown_closes (co_metrics c)) (length (co_active c)),
      metric_active_sessions := 0\<rparr>"
  let ?c = "c\<lparr>co_active := [], co_metrics := ?m\<rparr>" and ?as = "map snd (co_active c)"
  have core: "co_core c" using assms by (simp add: co_inv_def)
  then have "system_inv (co_global_budget c) (co_paths ?c, co_shared ?c)"
    and "\<forall>a \<in> set ?as. active_data_path a < length (co_paths ?c)"
    by (auto simp: co_core_def handles_def co_shared_def)
  from deactivate_all_ok [OF this] obtain paths m where
    d: "deactivate_all ?c ?as = Some (?c\<lparr>co_paths := paths, co_quota_metrics := m\<rparr>)"
      "length paths = length (co_paths c)" "system_inv (co_global_budget c) (paths, (co_shared ?c)\<lparr>shared_quota := m\<rparr>)"
      "\<forall>h < length paths. path_active (inner_state (paths ! h)) \<longleftrightarrow>
         path_active (inner_state (co_paths c ! h)) \<and> h \<notin> active_data_path ` set ?as"
    by auto
  have off: "\<not> path_active (inner_state (paths ! h))" if "h < length paths" for h
    using core d(2,4) that by (auto simp: co_core_def handles_def image_comp)
  let ?c' = "?c\<lparr>co_paths := paths, co_quota_metrics := m, co_identity_quotas := []\<rparr>"
  have "co_inv ?c'"
    using assms d(2,3) off by (simp add: co_inv_def co_core_def handles_def limiters_ok_def co_shared_def)
  then show thesis using d(1) by (intro that [of ?c']) (simp_all add: close_all_def Let_def)
qed

section \<open>Operations through a handle\<close>

lemma operate_path_ok:
  assumes "co_inv c" and "h < length (co_paths c)" and "op \<noteq> Activate"
  obtains c' where "operate_path c h op = Some c'" and "co_inv c'" and "co_active c' = co_active c"
    and "co_registry c' = co_registry c" and "co_metrics c' = co_metrics c"
    and "co_next_generation c' = co_next_generation c"
proof -
  let ?env = "co_env c (co_path_limiters c ! h)"
  have core: "co_core c" using assms(1) by (simp add: co_inv_def)
  then have inv: "system_inv (co_global_budget c) (co_paths c, ?env)"
    using system_inv_cong [of ?env "co_shared c"] by (simp add: co_core_def co_env_def co_shared_def)
  obtain inner env where run: "path_run op (co_paths c ! h) ?env = Some (inner, env)"
    "same_handle inner (co_paths c ! h)" "system_inv (co_global_budget c) ((co_paths c)[h := inner], env)"
    by (rule system_inv_run [OF inv assms(2)])
  obtain others where "inner_settled others (co_paths c ! h) ?env"
    using system_inv_handle [OF inv nth_mem [OF assms(2)]] .
  from path_run_active [OF this run(1) assms(3)]
  have act: "path_active (inner_state inner) \<Longrightarrow> path_active (inner_state (co_paths c ! h))" by blast
  let ?c = "c\<lparr>co_paths := (co_paths c)[h := inner],
    co_limiters := (co_limiters c)[co_path_limiters c ! h := shared_rate env],
    co_quota_metrics := shared_quota env, co_data_metrics := shared_policy env\<rparr>"
  have "system_inv (co_global_budget c) ((co_paths c)[h := inner], co_shared ?c)"
    using run(3) system_inv_cong [of env "co_shared ?c"] by (simp add: co_shared_def)
  moreover have "\<forall>i < length (co_paths c). path_active (inner_state ((co_paths c)[h := inner] ! i)) \<longrightarrow> i \<in> set (handles c)"
    using core act assms(2) by (simp add: co_core_def nth_list_update)
  ultimately have "co_inv ?c"
    using assms(1) same_handle_entry [OF run(2)]
    by (simp add: co_inv_def co_core_def handles_def limiters_ok_def)
  then show thesis using run(1) by (intro that [of ?c]) (simp_all add: operate_path_def)
qed

section \<open>Commit\<close>

lemma authorized_limits:
  assumes "registry_built registry" and "authorize registry fingerprint = Inr identity"
  shows "identity_limits_validate (identity_limits identity) = Inr ()"
proof -
  obtain server_ipv4 server_ipv6 identities where r: "registry_new server_ipv4 server_ipv6 identities = Inr registry"
    using assms(1) by (auto simp: registry_built_def)
  have "identity \<in> set identities" using authorize_iff(1) [OF r] assms(2) by simp
  with registry_new_ok(1) [OF r] show ?thesis
    by (auto simp: identities_ok_def list_all_iff identity_fits_def identity_validate_def result_simps)
qed

lemma limiter_entry_ok:
  assumes "co_core c" and "limiter_entry c client_id limits now = (c', limiter)"
  shows "co_core c'" and "limiter < length (co_limiters c')" and "co_active c' = co_active c"
    and "co_paths c' = co_paths c" and "co_registry c' = co_registry c" and "co_metrics c' = co_metrics c"
    and "co_next_generation c' = co_next_generation c" and "co_global_budget c' = co_global_budget c"
    and "co_quota_metrics c' = co_quota_metrics c"
proof -
  have l: "limiters_ok c" using assms(1) by (simp add: co_core_def)
  show same: "co_active c' = co_active c" "co_paths c' = co_paths c" "co_registry c' = co_registry c" "co_metrics c' = co_metrics c"
    "co_next_generation c' = co_next_generation c" "co_global_budget c' = co_global_budget c"
    "co_quota_metrics c' = co_quota_metrics c"
    using assms(2) by (auto simp: limiter_entry_def Let_def split: option.splits)
  show "limiter < length (co_limiters c')"
    using assms(2) l by (auto simp: limiter_entry_def Let_def limiters_ok_def split: option.splits dest!: map_of_SomeD)
  have "limiters_ok c'"
    using assms(2) l by (fastforce simp: limiter_entry_def Let_def limiters_ok_def set_hm_insert less_Suc_eq split: option.splits)
  moreover have "co_data_metrics c' = co_data_metrics c"
    using assms(2) by (auto simp: limiter_entry_def Let_def split: option.splits)
  ultimately show "co_core c'" using assms(1) same by (simp add: co_core_def handles_def co_shared_def)
qed

text \<open>A new session takes its place once its predecessor, if any, is gone.\<close>

lemma add_session:
  assumes core: "co_core c" and none: "map_of (co_active c) k = None" and l: "l < length (co_limiters c)"
    and limits: "identity_limits_validate limits = Inr ()"
    and new: "path_new_policy_inactive (identity_data_policy (session_identity session)) limits
      (unat (accept_max_ip_packet_len (session_accept session))) (accept_session_generation (session_accept session))
      (co_global_budget c) = Inr inner"
    and k: "identity_client_id (session_identity session) = k"
  shows "co_core (c\<lparr>co_paths := co_paths c @ [path_activate inner], co_path_limiters := co_path_limiters c @ [l],
    co_active := (k, \<lparr>active_session_of = session, active_connection = connection,
      active_data_path = length (co_paths c)\<rparr>) # co_active c\<rparr>)" (is "co_core ?c")
proof -
  let ?n = "length (co_paths c)"
  have inv: "system_inv (co_global_budget c) (co_paths c, co_shared c)" using core by (simp add: co_core_def)
  from system_step_inv [OF system_step.create [OF limits new] inv]
  have "system_inv (co_global_budget c) (co_paths c @ [inner], co_shared c)" .
  then obtain x e where "path_run Activate ((co_paths c @ [inner]) ! ?n) (co_shared c) = Some (x, e)"
    "system_inv (co_global_budget c) ((co_paths c @ [inner])[?n := x], e)"
    by (rule system_inv_run [of _ _ _ ?n Activate]) simp
  then have inv': "system_inv (co_global_budget c) (co_paths c @ [path_activate inner], co_shared c)" by simp
  have hs: "handles ?c = ?n # handles c" by (simp add: handles_def)
  have "?n \<notin> set (handles c)" using core by (auto simp: co_core_def)
  moreover have "entry_ok (co_paths c @ [path_activate inner]) e \<longleftrightarrow> entry_ok (co_paths c) e" if "e \<in> set (co_active c)" for e
    using core that by (auto simp: co_core_def handles_def entry_ok_def nth_append Let_def split: prod.splits)
  moreover have "entry_ok (co_paths c @ [path_activate inner]) (k, \<lparr>active_session_of = session,
      active_connection = connection, active_data_path = ?n\<rparr>)"
    using new k by (auto simp: entry_ok_def path_activate_def path_new_policy_inactive_def Let_def result_simps split: if_splits)
  moreover have "k \<notin> fst ` set (co_active c)" using none by (simp add: map_of_eq_None_iff)
  ultimately show ?thesis
    unfolding co_core_def hs
    using core inv' l
    by (auto simp: co_core_def limiters_ok_def co_shared_def nth_append less_Suc_eq path_activate_def)
qed

lemma co_core_bookkeeping:
  "length ls = length (co_limiters c) \<Longrightarrow> co_core c \<Longrightarrow> co_core (c\<lparr>co_limiters := ls, co_metrics := m\<rparr>)"
  by (simp add: co_core_def handles_def limiters_ok_def co_shared_def)

lemma commit_identity_ok:
  "commit_identity registry session = Inr identity \<longleftrightarrow>
     authorize registry (session_fingerprint session) = Inr identity \<and>
     identity_client_id identity = identity_client_id (session_identity session) \<and>
     has_same_session_policy (session_identity session) identity"
  by (auto simp: commit_identity_def split: sum.splits VpnIdentityAuthorizationError.splits if_splits)

definition commit_metrics :: "bool \<Rightarrow> usize \<Rightarrow> VpnSessionCoordinatorMetrics \<Rightarrow> VpnSessionCoordinatorMetrics" where
  "commit_metrics replaced n m =
     (let m = m\<lparr>metric_total_committed := sat_add_u64 (metric_total_committed m) 1\<rparr>;
          m = (if replaced then m\<lparr>metric_replacements := sat_add_u64 (metric_replacements m) 1\<rparr> else m)
      in m\<lparr>metric_active_sessions := n\<rparr>)"

text \<open>The stores and the active sessions after a commit.\<close>

lemma commit_stores:
  fixes connection :: usize
  assumes core: "co_core c" and built: "registry_built (co_registry c)" and valid: "accept_validate (session_accept session) = Inr ()"
    and id: "commit_identity (co_registry c) session = Inr identity"
  defines "k \<equiv> identity_client_id (session_identity session)"
    and "new \<equiv> \<lparr>active_session_of = session, active_connection = connection, active_data_path = length (co_paths c)\<rparr>"
  obtains d where
    "commit_accepted c session connection now identity =
      Some (d\<lparr>co_metrics := commit_metrics (is_some (map_of (co_active c) k)) (length (co_active d)) (co_metrics c)\<rparr>,
        \<lparr>report_session_generation = accept_session_generation (session_accept session),
         report_replaced_generation = map_option active_generation (map_of (co_active c) k)\<rparr>,
        length (co_paths c), map_of (co_active c) k)"
    and "co_core d" and "co_active d = hm_insert k new (co_active c)" and "co_registry d = co_registry c"
    and "co_next_generation d = co_next_generation c"
    and "length (co_paths d) = Suc (length (co_paths c))" and "path_active (inner_state (co_paths d ! length (co_paths c)))"
proof -
  have auth: "authorize (co_registry c) (session_fingerprint session) = Inr identity"
    and same: "has_same_session_policy (session_identity session) identity"
    using id by (simp_all add: commit_identity_ok)
  have lim: "identity_limits_validate (identity_limits identity) = Inr ()" by (rule authorized_limits [OF built auth])
  have pol: "identity_data_policy (session_identity session) = identity_data_policy identity"
    "identity_limits (session_identity session) = identity_limits identity"
    using same by (simp_all add: has_same_session_policy_def)
  obtain c1 l where l: "limiter_entry c k (identity_limits (session_identity session)) now = (c1, l)" by fastforce
  note e = limiter_entry_ok [OF core l]
  obtain inner where inner: "path_new_policy_inactive (identity_data_policy identity) (identity_limits identity)
      (unat (accept_max_ip_packet_len (session_accept session))) (accept_session_generation (session_accept session))
      (co_global_budget c1) = Inr inner"
    using path_new_policy_ok [OF lim] accept_validate_sizes [OF valid] by metis
  define ls where "ls = (co_limiters c1)[l := rate_reconfigure (co_limiters c1 ! l) (identity_limits identity) now]"
  have ls: "length ls = length (co_limiters c1)" by (simp add: ls_def)
  have added: "co_core (x\<lparr>co_paths := co_paths x @ [path_activate inner], co_path_limiters := co_path_limiters x @ [l],
      co_active := (k, \<lparr>active_session_of = session, active_connection = connection, active_data_path = length (co_paths x)\<rparr>) # co_active x\<rparr>)"
    if "co_core x" "map_of (co_active x) k = None" "co_limiters x = co_limiters c1" "co_global_budget x = co_global_budget c1" for x
    using add_session [OF that(1,2) _ lim, of l session inner connection] that(3,4) e(2) inner pol(1) by (simp add: k_def)
  show thesis
  proof (cases "map_of (co_active c) k")
    case None
    let ?x = "c1\<lparr>co_paths := co_paths c1 @ [path_activate inner], co_path_limiters := co_path_limiters c1 @ [l],
      co_active := (k, new) # co_active c1\<rparr>"
    have "co_core ?x" using added [OF e(1)] None e(3,4) by (simp add: new_def)
    then have "co_core (?x\<lparr>co_limiters := ls\<rparr>)" using ls by (simp add: co_core_def handles_def limiters_ok_def co_shared_def)
    then show thesis
      using None l inner e(3-8) pol
      by (intro that [of "?x\<lparr>co_limiters := ls\<rparr>"])
        (simp_all add: commit_accepted_def k_def [symmetric] path_new_inactive_def Let_def ls_def new_def hm_insert_def hm_remove_absent commit_metrics_def path_activate_def nth_append)
  next
    case (Some old)
    then have "map_of (co_active c1) k = Some old" using e(3) by simp
    from remove_session [OF e(1) this] obtain gone q where
      core2: "co_core (c1\<lparr>co_active := hm_remove k (co_active c1), co_paths := (co_paths c1)[active_data_path old := gone],
          co_quota_metrics := q\<rparr>)"
      and d: "path_deactivate (co_paths c1 ! active_data_path old) (co_quota_metrics c1) = Some (gone, q)"
      and h: "active_data_path old < length (co_paths c1)" by metis
    let ?x = "c1\<lparr>co_quota_metrics := q, co_paths := (co_paths c1)[active_data_path old := gone] @ [path_activate inner],
      co_path_limiters := co_path_limiters c1 @ [l], co_active := (k, new) # hm_remove k (co_active c1)\<rparr>"
    have upd: "(ps[i := x] @ [y])[length ps := z] = ps[i := x] @ [z]" for ps i and x y z :: VpnDataPathInner
      using list_update_length [of "ps[i := x]" y "[]" z] by simp
    have "co_core ?x" using added [OF core2] e(4) by (simp add: new_def)
    then have "co_core (?x\<lparr>co_limiters := ls\<rparr>)" using ls by (simp add: co_core_def handles_def limiters_ok_def co_shared_def)
    then show thesis
      using Some l inner e(3-8) pol d h
      by (intro that [of "?x\<lparr>co_limiters := ls\<rparr>"])
        (simp_all add: commit_accepted_def k_def [symmetric] path_new_inactive_def Let_def ls_def new_def hm_insert_def
          deactivate_path_def nth_append list_update_append1 commit_metrics_def upd path_activate_def)
  qed
qed

lemma commit_ok:
  fixes connection :: usize
  assumes inv: "co_inv c" and valid: "accept_validate (session_accept session) = Inr ()"
    and id: "commit_identity (co_registry c) session = Inr identity"
  defines "k \<equiv> identity_client_id (session_identity session)"
    and "new \<equiv> \<lparr>active_session_of = session, active_connection = connection, active_data_path = length (co_paths c)\<rparr>"
  obtains c' where
    "commit_with_handle_at c session connection now = Some (c',
      (case map_of (co_active c) k of None \<Rightarrow> []
       | Some old \<Rightarrow> [(active_connection old, VPN_CLOSE_SESSION_REPLACED, SESSION_REPLACED_REASON)]),
      Inr (\<lparr>report_session_generation = accept_session_generation (session_accept session),
        report_replaced_generation = map_option active_generation (map_of (co_active c) k)\<rparr>, length (co_paths c)))"
    and "co_inv c'" and "co_active c' = hm_insert k new (co_active c)" and "co_registry c' = co_registry c"
    and "co_next_generation c' = co_next_generation c" and "length (co_paths c') = Suc (length (co_paths c))"
    and "path_active (inner_state (co_paths c' ! length (co_paths c)))"
    and "co_metrics c' = commit_metrics (is_some (map_of (co_active c) k)) (length (co_active c')) (co_metrics c)"
proof -
  have core: "co_core c" and built: "registry_built (co_registry c)" using inv by (simp_all add: co_inv_def)
  from commit_stores [OF core built valid id, where connection = connection and now = now, folded k_def new_def]
  obtain d where d: "commit_accepted c session connection now identity =
      Some (d\<lparr>co_metrics := commit_metrics (is_some (map_of (co_active c) k)) (length (co_active d)) (co_metrics c)\<rparr>,
        \<lparr>report_session_generation = accept_session_generation (session_accept session),
         report_replaced_generation = map_option active_generation (map_of (co_active c) k)\<rparr>,
        length (co_paths c), map_of (co_active c) k)"
    "co_core d" "co_active d = hm_insert k new (co_active c)" "co_registry d = co_registry c"
    "co_next_generation d = co_next_generation c" "length (co_paths d) = Suc (length (co_paths c))"
    "path_active (inner_state (co_paths d ! length (co_paths c)))" .
  let ?c = "d\<lparr>co_metrics := commit_metrics (is_some (map_of (co_active c) k)) (length (co_active d)) (co_metrics c)\<rparr>"
  have "authorized (co_registry c) (k, new)"
    using id by (simp add: commit_identity_ok authorized_def new_def k_def)
  then have "\<forall>e \<in> set (co_active ?c). authorized (co_registry ?c) e"
    using inv d(3,4) by (auto simp: co_inv_def set_hm_insert)
  moreover have "co_core ?c" using d(2) by (simp add: co_core_def handles_def limiters_ok_def co_shared_def)
  moreover have "metric_active_sessions (co_metrics ?c) = length (co_active ?c)"
    by (simp add: commit_metrics_def Let_def)
  ultimately have "co_inv ?c" using built d(4) by (simp add: co_inv_def)
  then show thesis using d id by (intro that [of ?c]) (simp_all add: commit_with_handle_at_def split: option.splits)
qed

lemma commit_refused_ok:
  assumes "co_inv c" and "commit_identity (co_registry c) session = Inl e"
  shows "commit_with_handle_at c session connection now =
      Some (c\<lparr>co_metrics := (co_metrics c)\<lparr>metric_commit_rejections := sat_add_u64 (metric_commit_rejections (co_metrics c)) 1\<rparr>\<rparr>,
        [(connection, VPN_CLOSE_COMMIT_REJECTED, COMMIT_REJECTED_REASON)], Inl e)"
    and "co_inv (c\<lparr>co_metrics := (co_metrics c)\<lparr>metric_commit_rejections := sat_add_u64 (metric_commit_rejections (co_metrics c)) 1\<rparr>\<rparr>)"
  using assms
  by (simp_all add: commit_with_handle_at_def co_inv_def co_core_def handles_def limiters_ok_def co_shared_def Let_def)

end
