(* ===== verification/Vpn_Coordinator_History.thy ===== *)
theory Vpn_Coordinator_History
  imports Vpn_Coordinator_Safety
begin

text \<open>
  Histories of a server: handshakes, commits, releases, reloads, shutdown and the calls that
  connection tasks make on their data paths, in any order.  A handshake that has negotiated a session
  waits in a list until its task commits it; by then the registry may have changed.  The coordinator
  refines a table from clients to sessions, on which the uniqueness of generations is proved.
\<close>

section \<open>Steps of a server\<close>

type_synonym server = "VpnSessionCoordinator \<times> VpnServerControlOutcome list"

fun outcomes :: "VpnManagedSessionError + VpnServerControlOutcome \<Rightarrow> VpnServerControlOutcome list" where
  "outcomes (Inl _) = []"
| "outcomes (Inr outcome) = [outcome]"

inductive server_step :: "server \<Rightarrow> server \<Rightarrow> bool" where
  handshake: "managed_handshake_start c sha256 connection stream config handshake_timeout = (c', sent, result) \<Longrightarrow>
    server_step (c, pending) (c', pending @ outcomes result)"
| commit: "managed_handshake_finish c outcome connection drained now = Some (c', closed, result) \<Longrightarrow>
    server_step (c, xs @ outcome # ys) (c', xs @ ys)"
| release: "release_if_current c client_id generation = Some (c', released) \<Longrightarrow>
    server_step (c, pending) (c', pending)"
| reload: "registry_new server_ipv4 server_ipv6 identities = Inr registry \<Longrightarrow>
    replace_registry c registry now = Some (c', closed, report) \<Longrightarrow>
    server_step (c, pending) (c', pending)"
| shutdown: "close_all c = Some (c', closed, n) \<Longrightarrow> server_step (c, pending) (c', pending)"
| operate: "h < length (co_paths c) \<Longrightarrow> op \<noteq> Activate \<Longrightarrow> operate_path c h op = Some c' \<Longrightarrow>
    server_step (c, pending) (c', pending)"

fun accepted :: "VpnServerControlOutcome \<Rightarrow> VpnNegotiatedSession list" where
  "accepted (OutcomeAccepted session) = [session]"
| "accepted (OutcomeRejected _) = []"

definition server_inv :: "server \<Rightarrow> bool" where
  "server_inv = (\<lambda>(c, pending). co_inv c \<and>
     (\<forall>session. OutcomeAccepted session \<in> set pending \<longrightarrow> accept_validate (session_accept session) = Inr ()))"

section \<open>The table of sessions\<close>

record SessionTable =
  table_registry :: VpnIdentityRegistry
  table_sessions :: "bytes \<Rightarrow> VpnNegotiatedSession option"
  table_next :: u64
  table_pending :: "VpnNegotiatedSession list"

abbreviation session_client :: "VpnNegotiatedSession \<Rightarrow> bytes" where
  "session_client session \<equiv> identity_client_id (session_identity session)"

abbreviation session_generation :: "VpnNegotiatedSession \<Rightarrow> u64" where
  "session_generation session \<equiv> accept_session_generation (session_accept session)"

text \<open>The registry has an enabled identity with the client, policy and limits of the session.\<close>

definition permitted :: "VpnIdentityRegistry \<Rightarrow> VpnNegotiatedSession \<Rightarrow> bool" where
  "permitted registry session \<longleftrightarrow> (\<exists>identity. authorize registry (session_fingerprint session) = Inr identity \<and>
     identity_client_id identity = session_client session \<and>
     has_same_session_policy (session_identity session) identity)"

text \<open>
  What the operations of a server do to the table, and what they answer.  A handshake uses up a
  generation, whether or not it negotiates a session; a commit answers \<open>None\<close> if it is refused and
  otherwise the generation it replaces.
\<close>

definition table_handshake :: "VpnNegotiatedSession list \<Rightarrow> SessionTable \<Rightarrow> SessionTable" where
  "table_handshake negotiated t =
     (if table_next t = 0 then t
      else t\<lparr>table_next := table_next t + 1, table_pending := table_pending t @ negotiated\<rparr>)"

definition table_commit :: "VpnNegotiatedSession \<Rightarrow> SessionTable \<Rightarrow> SessionTable \<times> u64 option option" where
  "table_commit session t =
     (if permitted (table_registry t) session
      then (t\<lparr>table_sessions := (table_sessions t)(session_client session \<mapsto> session)\<rparr>,
            Some (map_option session_generation (table_sessions t (session_client session))))
      else (t, None))"

definition table_release :: "bytes \<Rightarrow> u64 \<Rightarrow> SessionTable \<Rightarrow> SessionTable \<times> bool" where
  "table_release client_id generation t =
     (if map_option session_generation (table_sessions t client_id) = Some generation
      then (t\<lparr>table_sessions := (table_sessions t)(client_id := None)\<rparr>, True)
      else (t, False))"

definition table_reload :: "VpnIdentityRegistry \<Rightarrow> SessionTable \<Rightarrow> SessionTable" where
  "table_reload registry t = t\<lparr>table_registry := registry,
     table_sessions := (\<lambda>k. Option.bind (table_sessions t k) (\<lambda>session. if permitted registry session then Some session else None))\<rparr>"

definition table_shutdown :: "SessionTable \<Rightarrow> SessionTable" where
  "table_shutdown t = t\<lparr>table_sessions := (\<lambda>_. None)\<rparr>"

text \<open>Histories of the table; work on data paths and rejected handshakes leave it alone.\<close>

inductive table_step :: "SessionTable \<Rightarrow> SessionTable \<Rightarrow> bool" where
  handshake: "negotiated = [] \<or> (\<exists>session. negotiated = [session] \<and> session_generation session = table_next t) \<Longrightarrow>
    table_step t (table_handshake negotiated t)"
| commit: "table_pending t = xs @ session # ys \<Longrightarrow>
    table_step t ((fst (table_commit session t))\<lparr>table_pending := xs @ ys\<rparr>)"
| release: "table_step t (fst (table_release client_id generation t))"
| reload: "table_step t (table_reload registry t)"
| shutdown: "table_step t (table_shutdown t)"
| other: "table_step t t"

lemmas table_operations = table_handshake_def table_commit_def table_release_def table_reload_def table_shutdown_def

definition session_table :: "server \<Rightarrow> SessionTable" where
  "session_table = (\<lambda>(c, pending).
     \<lparr>table_registry = co_registry c, table_sessions = map_option active_session_of \<circ> map_of (co_active c),
      table_next = co_next_generation c, table_pending = concat (map accepted pending)\<rparr>)"

section \<open>Refinement\<close>

lemma commit_identity_permitted:
  "(\<exists>identity. commit_identity registry session = Inr identity) \<longleftrightarrow> permitted registry session"
  by (auto simp: commit_identity_ok permitted_def)

lemma allocate_generation_eq:
  "allocate_generation c =
     (if co_next_generation c \<noteq> 0
      then (c\<lparr>co_next_generation := co_next_generation c + 1\<rparr>, Inr (co_next_generation c))
      else (c, Inl GenerationExhausted))"
  by (simp add: allocate_generation_def session_generation_new_def Let_def)

text \<open>An accepted session carries the generation it was given, and a valid accept.\<close>

lemma server_handshake_accepted:
  assumes "vpn_server_control_handshake sha256 connection stream registry config generation handshake_timeout =
    (sent, Inr (OutcomeAccepted session))"
  shows "session_generation session = generation" and "accept_validate (session_accept session) = Inr ()"
proof -
  obtain fingerprint hello config' where n: "negotiate_vpn_hello registry fingerprint hello config' generation = Inr session"
    using assms
    by (auto simp: vpn_server_control_handshake_def server_exchange_def server_answer_def Let_def result_simps
        split: sum.splits prod.splits VpnControlMessage.splits VpnSessionError.splits)
  from negotiate_success [OF n] show "session_generation session = generation"
    by (metis VpnNegotiatedSession.select_convs(3) negotiated_accept_fields(4))
  from negotiate_success [OF n] show "accept_validate (session_accept session) = Inr ()"
    by (metis VpnNegotiatedSession.select_convs(3))
qed

lemma co_inv_generation [simp]: "co_inv (c\<lparr>co_next_generation := g\<rparr>) = co_inv c"
  by (simp add: co_inv_def co_core_def handles_def limiters_ok_def co_shared_def)

lemma handshake_refines:
  assumes "server_inv (c, pending)"
    and start: "managed_handshake_start c sha256 connection stream config handshake_timeout = (c', sent, result)"
  defines "negotiated \<equiv> concat (map accepted (outcomes result))"
  shows "server_inv (c', pending @ outcomes result)"
    and "session_table (c', pending @ outcomes result) = table_handshake negotiated (session_table (c, pending))"
    and "negotiated = [] \<or> (\<exists>session. negotiated = [session] \<and> session_generation session = co_next_generation c)"
proof -
  have "server_inv (c', pending @ outcomes result) \<and>
    session_table (c', pending @ outcomes result) = table_handshake negotiated (session_table (c, pending)) \<and>
    (negotiated = [] \<or> (\<exists>session. negotiated = [session] \<and> session_generation session = co_next_generation c))"
  proof (cases "co_next_generation c = 0")
    case True
    then have "c' = c" "outcomes result = []" using start by (auto simp: managed_handshake_start_def allocate_generation_eq)
    then show ?thesis using assms(1) True by (simp add: negotiated_def table_handshake_def session_table_def)
  next
    case False
    obtain outcome where h: "vpn_server_control_handshake sha256 connection stream (co_registry c) config
        (co_next_generation c) handshake_timeout = (sent, outcome)"
      and c': "c' = c\<lparr>co_next_generation := co_next_generation c + 1\<rparr>" and r: "result = map_err Control outcome"
      using start False by (auto simp: managed_handshake_start_def allocate_generation_eq split: prod.splits)
    have table: "session_table (c', pending @ outcomes result) = table_handshake negotiated (session_table (c, pending))"
      using False by (simp add: c' session_table_def table_handshake_def negotiated_def)
    show ?thesis
    proof (cases "\<exists>session. outcome = Inr (OutcomeAccepted session)")
      case True
      then obtain session where o: "outcome = Inr (OutcomeAccepted session)" by blast
      note session = server_handshake_accepted [OF h [unfolded o]]
      have "negotiated = [session]" by (simp add: negotiated_def r o)
      then show ?thesis using table assms(1) session by (auto simp: o r c' server_inv_def)
    next
      case other: False
      have "negotiated = []" and "OutcomeAccepted session \<notin> set (outcomes result)" for session
        unfolding negotiated_def using other r by (cases outcome; auto split: sum.splits elim: accepted.elims; metis accepted.elims)+
      then show ?thesis using table assms(1) by (auto simp: c' server_inv_def)
    qed
  qed
  then show "server_inv (c', pending @ outcomes result)"
    and "session_table (c', pending @ outcomes result) = table_handshake negotiated (session_table (c, pending))"
    and "negotiated = [] \<or> (\<exists>session. negotiated = [session] \<and> session_generation session = co_next_generation c)" by blast+
qed

lemma server_inv_pending: "server_inv (c, xs @ outcome # ys) \<Longrightarrow> co_inv c' \<Longrightarrow> server_inv (c', xs @ ys)"
  by (simp add: server_inv_def)

lemma commit_refines:
  assumes inv: "server_inv (c, xs @ OutcomeAccepted session # ys)"
    and finish: "managed_handshake_finish c (OutcomeAccepted session) connection drained now = Some (c', closed, result)"
  defines "t \<equiv> session_table (c, xs @ OutcomeAccepted session # ys)"
  shows "server_inv (c', xs @ ys)"
    and "session_table (c', xs @ ys) = (fst (table_commit session t))\<lparr>table_pending := concat (map accepted (xs @ ys))\<rparr>"
    and "case snd (table_commit session t) of
        None \<Rightarrow> \<exists>e. result = Inl (Commit e)
      | Some replaced \<Rightarrow> \<exists>data_path. result = Inr (ManagedActive session
          \<lparr>report_session_generation = session_generation session, report_replaced_generation = replaced\<rparr> data_path)"
proof -
  have co: "co_inv c" and valid: "accept_validate (session_accept session) = Inr ()"
    using inv by (simp_all add: server_inv_def)
  obtain commit where run: "commit_with_handle_at c session connection now = Some (c', closed, commit)"
    and result: "result = try_then (map_err Commit commit) (\<lambda>(report, data_path). Inr (ManagedActive session report data_path))"
    using finish by (auto simp: managed_handshake_finish_def bind_eq_Some_conv)
  have "server_inv (c', xs @ ys) \<and>
    session_table (c', xs @ ys) = (fst (table_commit session t))\<lparr>table_pending := concat (map accepted (xs @ ys))\<rparr> \<and>
    (case snd (table_commit session t) of
        None \<Rightarrow> \<exists>e. result = Inl (Commit e)
      | Some replaced \<Rightarrow> \<exists>data_path. result = Inr (ManagedActive session
          \<lparr>report_session_generation = session_generation session, report_replaced_generation = replaced\<rparr> data_path))"
  proof (cases "permitted (co_registry c) session")
    case True
    then obtain identity where id: "commit_identity (co_registry c) session = Inr identity"
      using commit_identity_permitted by blast
    let ?new = "\<lparr>active_session_of = session, active_connection = connection, active_data_path = length (co_paths c)\<rparr>"
    have c': "co_inv c'" "co_active c' = hm_insert (session_client session) ?new (co_active c)"
      "co_registry c' = co_registry c" "co_next_generation c' = co_next_generation c"
      "commit = Inr (\<lparr>report_session_generation = session_generation session,
        report_replaced_generation = map_option active_generation (map_of (co_active c) (session_client session))\<rparr>, length (co_paths c))"
      using run by (auto intro: commit_ok [OF co valid id, where connection = connection and now = now])
    have "map_option active_generation (map_of (co_active c) (session_client session)) =
        map_option session_generation (table_sessions t (session_client session))"
      by (cases "map_of (co_active c) (session_client session)") (simp_all add: t_def session_table_def active_generation_def)
    then show ?thesis
      using c' True server_inv_pending [OF inv c'(1)]
      by (simp add: t_def session_table_def table_commit_def fun_upd_comp result)
  next
    case False
    then obtain e where "commit_identity (co_registry c) session = Inl e"
      using commit_identity_permitted by (metis obj_sumE)
    from commit_refused_ok(1) [OF co this, of connection now] commit_refused_ok(2) [OF co this] run
    have c': "co_inv c'" "co_active c' = co_active c" "co_registry c' = co_registry c"
      "co_next_generation c' = co_next_generation c" "commit = Inl e" by auto
    then show ?thesis using False server_inv_pending [OF inv c'(1)] by (simp add: t_def session_table_def table_commit_def result)
  qed
  then show "server_inv (c', xs @ ys)"
    and "session_table (c', xs @ ys) = (fst (table_commit session t))\<lparr>table_pending := concat (map accepted (xs @ ys))\<rparr>"
    and "case snd (table_commit session t) of
        None \<Rightarrow> \<exists>e. result = Inl (Commit e)
      | Some replaced \<Rightarrow> \<exists>data_path. result = Inr (ManagedActive session
          \<lparr>report_session_generation = session_generation session, report_replaced_generation = replaced\<rparr> data_path)" by blast+
qed

lemma rejected_refines:
  assumes "server_inv (c, xs @ OutcomeRejected rejection # ys)"
    and "managed_handshake_finish c (OutcomeRejected rejection) connection drained now = Some (c', closed, result)"
  shows "server_inv (c', xs @ ys)" and "session_table (c', xs @ ys) = session_table (c, xs @ OutcomeRejected rejection # ys)"
  using assms by (auto simp: managed_handshake_finish_def server_inv_def session_table_def)

lemma current_in_table:
  "is_current c client_id g \<longleftrightarrow>
     map_option session_generation (table_sessions (session_table (c, pending)) client_id) = Some g"
  by (auto simp: is_current_def is_some_and_def session_table_def active_generation_def split: option.splits)

lemma release_refines:
  assumes inv: "server_inv (c, pending)" and run: "release_if_current c client_id generation = Some (c', released)"
  shows "server_inv (c', pending)"
    and "(session_table (c', pending), released) = table_release client_id generation (session_table (c, pending))"
proof -
  have co: "co_inv c" using inv by (simp add: server_inv_def)
  have "server_inv (c', pending) \<and>
    (session_table (c', pending), released) = table_release client_id generation (session_table (c, pending))"
  proof (cases "is_current c client_id generation")
    case True
    from release_ok [OF co, of client_id generation] True run
    have c': "co_inv c'" "co_active c' = hm_remove client_id (co_active c)" "co_registry c' = co_registry c"
      "co_next_generation c' = co_next_generation c" "released" by auto
    have "session_table (c', pending) = (session_table (c, pending))
        \<lparr>table_sessions := (table_sessions (session_table (c, pending)))(client_id := None)\<rparr>"
      using c' by (simp add: session_table_def fun_upd_comp)
    then show ?thesis using c'(1,5) inv True current_in_table [of c client_id generation pending]
      by (simp add: server_inv_def table_release_def)
  next
    case False
    then show ?thesis using run inv current_in_table [of c client_id generation pending]
      by (simp add: release_if_current_def table_release_def)
  qed
  then show "server_inv (c', pending)"
    and "(session_table (c', pending), released) = table_release client_id generation (session_table (c, pending))" by blast+
qed

lemma authorized_permitted:
  "session_client (active_session_of a) = k \<Longrightarrow> authorized registry (k, a) = permitted registry (active_session_of a)"
  by (simp add: authorized_def permitted_def)

lemma co_core_client:
  "co_core c \<Longrightarrow> map_of (co_active c) k = Some a \<Longrightarrow> session_client (active_session_of a) = k"
  by (auto simp: co_core_def entry_ok_def Let_def dest!: map_of_SomeD)

lemma map_of_filter_entries:
  "hm_wf m \<Longrightarrow> map_of (filter P m) k = Option.bind (map_of m k) (\<lambda>v. if P (k, v) then Some v else None)"
proof (induction m)
  case (Cons e m)
  obtain k' v where e: "e = (k', v)" by fastforce
  have "map_of m k' = None" using Cons.prems by (simp add: e map_of_eq_None_iff)
  then show ?case using Cons by (auto simp: e)
qed simp

lemma reload_refines:
  assumes inv: "server_inv (c, pending)" and new: "registry_new server_ipv4 server_ipv6 identities = Inr registry"
    and run: "replace_registry c registry now = Some (c', closed, report)"
  shows "server_inv (c', pending)" and "session_table (c', pending) = table_reload registry (session_table (c, pending))"
proof -
  have core: "co_core c" using inv by (simp add: server_inv_def co_inv_def)
  have built: "registry_built registry" using new by (auto simp: registry_built_def)
  obtain identities' sessions where report: "report = (identities', sessions)" by fastforce
  have c': "co_inv c'" "co_registry c' = registry" "co_active c' = filter (authorized registry) (co_active c)"
    "co_next_generation c' = co_next_generation c"
    using run by (auto simp: report intro: replace_registry_ok [OF core built, where now = now])
  have "map_option active_session_of (map_of (co_active c') k) =
      Option.bind (map_option active_session_of (map_of (co_active c) k))
        (\<lambda>session. if permitted registry session then Some session else None)" for k
    using core co_core_client [OF core, of k] authorized_permitted
    by (cases "map_of (co_active c) k") (auto simp: c'(3) map_of_filter_entries co_core_def)
  then show "session_table (c', pending) = table_reload registry (session_table (c, pending))"
    using c' by (simp add: session_table_def table_reload_def fun_eq_iff)
  show "server_inv (c', pending)" using c'(1) inv by (simp add: server_inv_def)
qed

lemma shutdown_refines:
  assumes "server_inv (c, pending)" and "close_all c = Some (c', closed, n)"
  shows "server_inv (c', pending)" and "session_table (c', pending) = table_shutdown (session_table (c, pending))"
    and "n = card (dom (table_sessions (session_table (c, pending))))"
proof -
  have co: "co_inv c" using assms(1) by (simp add: server_inv_def)
  have c': "co_inv c'" "co_active c' = []" "co_registry c' = co_registry c" "co_next_generation c' = co_next_generation c"
    "n = length (co_active c)" using assms(2) by (auto intro: close_all_ok [OF co])
  show "server_inv (c', pending)" using c'(1) assms(1) by (simp add: server_inv_def)
  show "session_table (c', pending) = table_shutdown (session_table (c, pending))"
    using c' by (simp add: session_table_def table_shutdown_def fun_eq_iff)
  have "hm_wf (co_active c)" using co by (simp add: co_inv_def co_core_def)
  moreover have "dom (table_sessions (session_table (c, pending))) = fst ` set (co_active c)"
    by (auto simp: session_table_def dom_def map_of_eq_None_iff [symmetric] simp flip: dom_map_of_conv_image_fst)
  ultimately show "n = card (dom (table_sessions (session_table (c, pending))))"
    using c'(5) distinct_card [of "map fst (co_active c)"] by simp
qed

lemma operate_refines:
  assumes "server_inv (c, pending)" and "h < length (co_paths c)" and "op \<noteq> Activate" and "operate_path c h op = Some c'"
  shows "server_inv (c', pending)" and "session_table (c', pending) = session_table (c, pending)"
proof -
  have co: "co_inv c" using assms(1) by (simp add: server_inv_def)
  obtain d where "operate_path c h op = Some d" "co_inv d" "co_active d = co_active c" "co_registry d = co_registry c"
    "co_next_generation d = co_next_generation c"
    by (rule operate_path_ok [OF co assms(2,3)])
  then show "server_inv (c', pending)" "session_table (c', pending) = session_table (c, pending)"
    using assms(1,4) by (simp_all add: server_inv_def session_table_def)
qed

lemma server_step_refines:
  assumes "server_step s s'" and "server_inv s"
  shows "server_inv s' \<and> table_step (session_table s) (session_table s')"
  using assms
proof cases
  case (handshake c sha256 connection stream config handshake_timeout c' sent result pending)
  note R = handshake_refines [OF assms(2) [unfolded handshake(1)] handshake(3)]
  have "table_next (session_table (c, pending)) = co_next_generation c" by (simp add: session_table_def)
  with table_step.handshake [of _ "session_table (c, pending)"] R show ?thesis by (simp add: handshake(1,2))
next
  case (commit c outcome connection drained now c' closed result xs ys)
  show ?thesis
  proof (cases outcome)
    case (OutcomeAccepted session)
    note R = commit_refines [OF assms(2) [unfolded commit(1) OutcomeAccepted] commit(3) [unfolded OutcomeAccepted]]
    have "table_pending (session_table (c, xs @ OutcomeAccepted session # ys)) =
        concat (map accepted xs) @ session # concat (map accepted ys)" by (simp add: session_table_def)
    from table_step.commit [OF this] R(1,2) show ?thesis by (simp add: commit(1,2) OutcomeAccepted)
  next
    case (OutcomeRejected rejection)
    with rejected_refines [OF assms(2) [unfolded commit(1) OutcomeRejected] commit(3) [unfolded OutcomeRejected]]
    show ?thesis by (simp add: commit(1,2) table_step.other)
  qed
next
  case (release c client_id generation c' released pending)
  from release_refines [OF assms(2) [unfolded release(1)] release(3)] show ?thesis
    using table_step.release [of "session_table (c, pending)" client_id generation] by (metis fst_conv release(1,2))
next
  case (reload server_ipv4 server_ipv6 identities registry c now c' closed report pending)
  from reload_refines [OF assms(2) [unfolded reload(1)] reload(3,4)] show ?thesis
    by (simp add: reload(1,2) table_step.reload)
next
  case (shutdown c c' closed n pending)
  from shutdown_refines [OF assms(2) [unfolded shutdown(1)] shutdown(3)] show ?thesis
    by (simp add: shutdown(1,2) table_step.shutdown)
next
  case (operate h c op c' pending)
  from operate_refines [OF assms(2) [unfolded operate(1)] operate(3-5)] show ?thesis
    by (simp add: operate(1,2) table_step.other)
qed

section \<open>Generations in the table\<close>

text \<open>A generation that the counter has passed; once the counter is back at zero, all have been.\<close>

definition issued :: "SessionTable \<Rightarrow> u64 \<Rightarrow> bool" where
  "issued t g \<longleftrightarrow> table_next t = 0 \<or> g < table_next t"

definition one_holder :: "(bytes \<Rightarrow> VpnNegotiatedSession option) \<Rightarrow> bool" where
  "one_holder m \<longleftrightarrow> (\<forall>j k session session'. m j = Some session \<longrightarrow> m k = Some session' \<longrightarrow>
     session_generation session = session_generation session' \<longrightarrow> j = k)"

definition table_inv :: "SessionTable \<Rightarrow> bool" where
  "table_inv t \<longleftrightarrow>
     (\<forall>k session. table_sessions t k = Some session \<longrightarrow>
        session_client session = k \<and> permitted (table_registry t) session \<and> issued t (session_generation session) \<and>
        session_generation session \<notin> session_generation ` set (table_pending t)) \<and>
     one_holder (table_sessions t) \<and> distinct (map session_generation (table_pending t)) \<and> (\<forall>session \<in> set (table_pending t). issued t (session_generation session))"

lemma table_invD:
  assumes "table_inv t" and "table_sessions t k = Some session"
  shows "session_client session = k" and "permitted (table_registry t) session"
    and "issued t (session_generation session)"
    and "session_generation session \<notin> session_generation ` set (table_pending t)"
  using assms by (auto simp: table_inv_def)

lemma next_not_issued: "table_next t \<noteq> 0 \<Longrightarrow> \<not> issued t (table_next t)"
  by (simp add: issued_def)

lemma issued_next:
  assumes "table_next t \<noteq> 0"
  shows "issued (t\<lparr>table_next := table_next t + 1, table_pending := p\<rparr>) g \<longleftrightarrow> issued t g \<or> g = table_next t"
    and "issued (t\<lparr>table_next := table_next t + 1\<rparr>) g \<longleftrightarrow> issued t g \<or> g = table_next t"
proof -
  have le: "n + 1 = 0 \<or> g < n + 1 \<longleftrightarrow> g < n \<or> g = n" for n :: u64
  proof (cases "n + 1 = 0")
    case True
    then have "n = - 1" using add_eq_0_iff2 by blast
    then show ?thesis using word_n1_ge [of g] by (auto simp: order_le_less)
  next
    case False
    then have "unat (n + 1) = Suc (unat n)" using unatSuc [of n] by (simp add: add.commute)
    with False show ?thesis by (auto simp: word_less_nat_alt less_Suc_eq word_unat_eq_iff)
  qed
  show "issued (t\<lparr>table_next := table_next t + 1, table_pending := p\<rparr>) g \<longleftrightarrow> issued t g \<or> g = table_next t"
    and "issued (t\<lparr>table_next := table_next t + 1\<rparr>) g \<longleftrightarrow> issued t g \<or> g = table_next t"
    using assms le [of "table_next t"] by (simp_all add: issued_def)
qed

lemma issued_same [simp]:
  "issued (t\<lparr>table_pending := p\<rparr>) g = issued t g" "issued (t\<lparr>table_sessions := m\<rparr>) g = issued t g"
  "issued (t\<lparr>table_sessions := m, table_pending := p\<rparr>) g = issued t g"
  "issued (t\<lparr>table_registry := r\<rparr>) g = issued t g" "issued (t\<lparr>table_registry := r, table_sessions := m\<rparr>) g = issued t g"
  by (simp_all add: issued_def)

text \<open>A step keeps the invariant, and never brings back a generation that is gone.\<close>

definition retired :: "SessionTable \<Rightarrow> u64 \<Rightarrow> bool" where
  "retired t g \<longleftrightarrow> issued t g \<and> g \<notin> session_generation ` set (table_pending t) \<and>
     (\<forall>k session. table_sessions t k = Some session \<longrightarrow> session_generation session \<noteq> g)"

text \<open>A generation that only one client can hold.\<close>

definition held_by :: "SessionTable \<Rightarrow> bytes \<Rightarrow> u64 \<Rightarrow> bool" where
  "held_by t client_id g \<longleftrightarrow> issued t g \<and> g \<notin> session_generation ` set (table_pending t) \<and>
     (\<forall>k session. table_sessions t k = Some session \<longrightarrow> session_generation session = g \<longrightarrow> k = client_id)"

lemma one_holder_sub:
  assumes "one_holder m" and "\<And>k session. m' k = Some session \<Longrightarrow> m k = Some session"
  shows "one_holder m'"
  using assms unfolding one_holder_def by meson

lemma one_holder_commit:
  assumes "one_holder m" and "\<And>k s. m k = Some s \<Longrightarrow> session_generation s \<noteq> session_generation session"
  shows "one_holder (m(k \<mapsto> session))"
  unfolding one_holder_def
proof (intro allI impI)
  fix i j s s'
  assume "(m(k \<mapsto> session)) i = Some s" "(m(k \<mapsto> session)) j = Some s'" "session_generation s = session_generation s'"
  with assms(2) [of i s] assms(2) [of j s'] assms(1) show "i = j"
    unfolding one_holder_def by (cases "i = k"; cases "j = k"; simp)
qed

lemma table_step_inv:
  assumes "table_step t t'" and "table_inv t"
  shows "table_inv t'"
  using assms
proof cases
  case (handshake negotiated)
  show ?thesis
  proof (cases "table_next t = 0 \<or> negotiated = []")
    case True
    then show ?thesis using assms(2) handshake(1) by (auto simp: table_handshake_def table_inv_def issued_next)
  next
    case False
    then obtain session where session: "negotiated = [session]" "session_generation session = table_next t"
      using handshake(2) by blast
    note fresh = next_not_issued [of t] False
    have "session_generation session \<notin> session_generation ` set (table_pending t)"
      using fresh session(2) assms(2) by (auto simp: table_inv_def)
    moreover have "session_generation s \<noteq> session_generation session" if "table_sessions t k = Some s" for k s
      using fresh session(2) table_invD(3) [OF assms(2) that] by auto
    ultimately show ?thesis
      using handshake(1) session False assms(2) by (auto simp: table_handshake_def table_inv_def issued_next)
  qed
next
  case (commit xs session ys)
  have dist: "session_generation session \<notin> session_generation ` set (xs @ ys)"
    using assms(2) commit(2) by (auto simp: table_inv_def)
  have "session_generation s \<noteq> session_generation session" if "table_sessions t k = Some s" for k s
    using commit(2) table_invD(4) [OF assms(2) that] by auto
  then have "one_holder ((table_sessions t)(session_client session \<mapsto> session))"
    using one_holder_commit assms(2) by (simp add: table_inv_def)
  then show ?thesis using commit assms(2) dist by (auto simp: table_commit_def table_inv_def)
next
  case (release k g)
  have "one_holder (table_sessions t')"
    by (rule one_holder_sub [of "table_sessions t"])
      (use release assms(2) in \<open>auto simp: table_release_def table_inv_def split: if_splits\<close>)
  then show ?thesis using release assms(2) by (auto simp: table_release_def table_inv_def split: if_splits)
next
  case (reload registry)
  have "one_holder (table_sessions t')"
    by (rule one_holder_sub [of "table_sessions t"])
      (use reload assms(2) in \<open>auto simp: table_reload_def table_inv_def bind_eq_Some_conv split: if_splits\<close>)
  then show ?thesis using reload assms(2) by (auto simp: table_reload_def table_inv_def bind_eq_Some_conv split: if_splits)
next
  case shutdown
  then show ?thesis using assms(2) by (auto simp: table_shutdown_def table_inv_def one_holder_def)
qed simp

lemma table_step_retired: "table_step t t' \<Longrightarrow> retired t g \<Longrightarrow> retired t' g"
  by (induction rule: table_step.induct)
    (auto simp: table_operations retired_def issued_next next_not_issued bind_eq_Some_conv split: if_splits)

lemma table_step_held: "table_step t t' \<Longrightarrow> held_by t k g \<Longrightarrow> held_by t' k g"
  by (induction rule: table_step.induct)
    (auto simp: table_operations held_by_def issued_next next_not_issued bind_eq_Some_conv split: if_splits)

section \<open>Histories\<close>

lemma server_start_inv:
  assumes "registry_new server_ipv4 server_ipv6 identities = Inr registry"
    and "coordinator_with_resource_limits registry generation byte_limit packet_limit = Inr c"
  shows "server_inv (c, [])" and "table_inv (session_table (c, []))" and "co_metrics c = coordinator_metrics_default"
proof -
  obtain b where b: "global_budget_new byte_limit packet_limit = Some b"
    and c: "co_registry c = registry" "co_active c = []" "co_metrics c = coordinator_metrics_default"
      "co_identity_quotas c = []" "co_quota_metrics c = VpnQuotaMetricCounters_default" "co_global_budget c = b"
      "co_paths c = []" "co_path_limiters c = []"
    using assms(2) by (auto simp: coordinator_with_resource_limits_def split: if_splits option.splits)
  have "system_inv b ([], co_shared c)"
    by (rule system_history_inv [OF rtranclp.rtrancl_refl b]) (simp add: co_shared_def c budget_counts_def VpnQuotaMetricCounters_default_def)
  moreover have "registry_built registry" using assms(1) by (auto simp: registry_built_def)
  ultimately show "server_inv (c, [])"
    by (simp add: server_inv_def co_inv_def co_core_def c handles_def limiters_ok_def coordinator_metrics_default_def)
  show "table_inv (session_table (c, []))"
    by (simp add: session_table_def table_inv_def one_holder_def c)
  show "co_metrics c = coordinator_metrics_default" by (rule c(3))
qed

lemma server_history_refines:
  assumes "server_step\<^sup>*\<^sup>* s s'" and "server_inv s"
  shows "server_inv s' \<and> table_step\<^sup>*\<^sup>* (session_table s) (session_table s')"
  using assms
proof (induction rule: rtranclp_induct)
  case (step y z)
  then show ?case using server_step_refines [OF step.hyps(2)] by (meson rtranclp.rtrancl_into_rtrancl)
qed simp

lemma table_history_inv: "table_step\<^sup>*\<^sup>* t t' \<Longrightarrow> table_inv t \<Longrightarrow> table_inv t'"
  by (induction rule: rtranclp_induct) (auto intro: table_step_inv)

lemma table_history_retired: "table_step\<^sup>*\<^sup>* t t' \<Longrightarrow> retired t g \<Longrightarrow> retired t' g"
  by (induction rule: rtranclp_induct) (auto intro: table_step_retired)

lemma table_history_held: "table_step\<^sup>*\<^sup>* t t' \<Longrightarrow> held_by t k g \<Longrightarrow> held_by t' k g"
  by (induction rule: rtranclp_induct) (auto intro: table_step_held)

lemma held_not_current_retired:
  "held_by (session_table (c, pending)) k g \<Longrightarrow> \<not> is_current c k g \<Longrightarrow> retired (session_table (c, pending)) g"
  using current_in_table [of c k g pending] by (auto simp: held_by_def retired_def)

lemma current_held:
  assumes "table_inv (session_table (c, pending))" and "is_current c k g"
  shows "held_by (session_table (c, pending)) k g"
proof -
  obtain session where s: "table_sessions (session_table (c, pending)) k = Some session" "session_generation session = g"
    using assms(2) current_in_table by blast
  with table_invD [OF assms(1) s(1)] assms(1) show ?thesis
    unfolding held_by_def table_inv_def one_holder_def by metis
qed

lemma retired_not_current: "retired (session_table (c, pending)) g \<Longrightarrow> \<not> is_current c k g"
  using current_in_table [of c k g pending] by (auto simp: retired_def)

section \<open>Counters\<close>

text \<open>Every committed session is still active or was counted once when it ended.\<close>

definition conserved :: "VpnSessionCoordinatorMetrics \<Rightarrow> bool" where
  "conserved m \<longleftrightarrow> metric_total_committed m = u64_max \<or> metric_total_committed m < u64_max \<and>
     metric_total_committed m = metric_active_sessions m + metric_replacements m + metric_identity_revocations m +
       metric_policy_change_closes m + metric_normal_releases m + metric_shutdown_closes m"

lemma fold_record_decisions:
  fixes ds :: "(bytes \<times> ReconcileDecision) list" and m :: VpnSessionCoordinatorMetrics
  defines "m' \<equiv> fold (record_decision \<circ> snd) ds m" and "n \<equiv> length (filter (\<lambda>e. snd e \<noteq> Keep) ds)"
  shows "metric_total_committed m' = metric_total_committed m" and "metric_active_sessions m' = metric_active_sessions m"
    and "metric_replacements m' = metric_replacements m" and "metric_normal_releases m' = metric_normal_releases m"
    and "metric_shutdown_closes m' = metric_shutdown_closes m" and "metric_commit_rejections m' = metric_commit_rejections m"
    and "metric_identity_revocations m + metric_policy_change_closes m + n \<le> u64_max \<Longrightarrow>
      metric_identity_revocations m' + metric_policy_change_closes m' =
        metric_identity_revocations m + metric_policy_change_closes m + n"
proof -
  have step: "metric_total_committed (record_decision d x) = metric_total_committed x"
    "metric_active_sessions (record_decision d x) = metric_active_sessions x"
    "metric_replacements (record_decision d x) = metric_replacements x"
    "metric_normal_releases (record_decision d x) = metric_normal_releases x"
    "metric_shutdown_closes (record_decision d x) = metric_shutdown_closes x"
    "metric_commit_rejections (record_decision d x) = metric_commit_rejections x"
    "metric_identity_revocations x + metric_policy_change_closes x < u64_max \<Longrightarrow>
      metric_identity_revocations (record_decision d x) + metric_policy_change_closes (record_decision d x) =
      metric_identity_revocations x + metric_policy_change_closes x + (if d = Keep then 0 else 1)" for d x
    by (cases d; simp add: record_decision_def sat_add_u64_def)+
  show "metric_total_committed m' = metric_total_committed m" "metric_active_sessions m' = metric_active_sessions m"
    "metric_replacements m' = metric_replacements m" "metric_normal_releases m' = metric_normal_releases m"
    "metric_shutdown_closes m' = metric_shutdown_closes m" "metric_commit_rejections m' = metric_commit_rejections m"
    unfolding m'_def by (induction ds arbitrary: m) (simp_all add: step)
  show "metric_identity_revocations m + metric_policy_change_closes m + n \<le> u64_max \<Longrightarrow>
      metric_identity_revocations m' + metric_policy_change_closes m' =
        metric_identity_revocations m + metric_policy_change_closes m + n"
    unfolding m'_def n_def
  proof (induction ds arbitrary: m)
    case (Cons e ds)
    show ?case
    proof (cases "snd e = Keep")
      case True
      then show ?thesis using Cons by (simp add: record_decision_def)
    next
      case False
      then show ?thesis using Cons.prems Cons.IH [of "record_decision (snd e) m"] step(7) [of m "snd e"] by simp
    qed
  qed simp
qed

lemma conserved_commit:
  assumes "conserved m" and "metric_active_sessions m = n"
  shows "conserved (commit_metrics replaced (if replaced then n else Suc n) m)"
  using assms by (auto simp: conserved_def commit_metrics_def sat_add_u64_def Let_def)

lemma conserved_reload:
  fixes ds :: "(bytes \<times> ReconcileDecision) list"
  assumes "conserved m" and "metric_active_sessions m = length ds"
  shows "conserved ((fold (record_decision \<circ> snd) ds m)\<lparr>metric_active_sessions := length (filter (\<lambda>e. snd e = Keep) ds)\<rparr>)"
proof -
  have "length (filter (\<lambda>e. snd e = Keep) ds) + length (filter (\<lambda>e. snd e \<noteq> Keep) ds) = length ds"
    by (rule sum_length_filter_compl)
  then show ?thesis
    using assms fold_record_decisions [where ds = ds and m = m] by (auto simp: conserved_def)
qed

lemma length_insert_active:
  "hm_wf m \<Longrightarrow> length (hm_insert k v m) = (if is_some (map_of m k) then length m else Suc (length m))"
  by (cases "map_of m k") (simp_all add: hm_insert_def hm_remove_absent hm_size_remove)

lemma finish_conserved:
  assumes inv: "server_inv (c, xs @ outcome # ys)" and m: "conserved (co_metrics c)"
    and finish: "managed_handshake_finish c outcome connection drained now = Some (c', closed, result)"
  shows "conserved (co_metrics c')"
proof (cases outcome)
  case (OutcomeRejected rejection)
  then show ?thesis using m finish by (simp add: managed_handshake_finish_def)
next
  case (OutcomeAccepted session)
  have co: "co_inv c" and valid: "accept_validate (session_accept session) = Inr ()"
    using inv OutcomeAccepted by (simp_all add: server_inv_def)
  obtain d where run: "commit_with_handle_at c session connection now = Some (c', closed, d)"
    using finish by (auto simp: managed_handshake_finish_def OutcomeAccepted bind_eq_Some_conv)
  show ?thesis
  proof (cases "commit_identity (co_registry c) session")
    case (Inl e)
    then show ?thesis
      using commit_refused_ok(1) [OF co Inl, of connection now] run m by (auto simp: conserved_def)
  next
    case (Inr identity)
    have "co_metrics c' = commit_metrics (is_some (map_of (co_active c) (session_client session)))
        (length (hm_insert (session_client session) \<lparr>active_session_of = session, active_connection = connection,
          active_data_path = length (co_paths c)\<rparr> (co_active c))) (co_metrics c)"
      using run by (auto intro: commit_ok [OF co valid Inr, where connection = connection and now = now])
    then show ?thesis
      using conserved_commit [OF m, of "length (co_active c)"] co
      by (auto simp: length_insert_active co_inv_def co_core_def split: if_splits)
  qed
qed

lemma release_conserved:
  assumes co: "co_inv c" and m: "conserved (co_metrics c)"
    and run: "release_if_current c client_id generation = Some (c', released)"
  shows "conserved (co_metrics c')"
proof (cases "is_current c client_id generation")
  case True
  have wf: "hm_wf (co_active c)" "metric_active_sessions (co_metrics c) = length (co_active c)"
    using co by (simp_all add: co_inv_def co_core_def)
  obtain a where a: "map_of (co_active c) client_id = Some a"
    using True by (auto simp: is_current_def is_some_and_def split: option.splits)
  from release_ok [OF co, of client_id generation] True run
  have "co_metrics c' = (co_metrics c)\<lparr>metric_normal_releases := sat_add_u64 (metric_normal_releases (co_metrics c)) 1,
      metric_active_sessions := length (hm_remove client_id (co_active c))\<rparr>" by auto
  then show ?thesis
    using m wf hm_size_remove [OF wf(1) a] by (auto simp: conserved_def sat_add_u64_def)
next
  case False
  then show ?thesis using run m by (simp add: release_if_current_def)
qed

lemma replace_conserved:
  assumes co: "co_inv c" and m: "conserved (co_metrics c)" and built: "registry_built registry"
    and run: "replace_registry c registry now = Some (c', closed, report)"
  shows "conserved (co_metrics c')"
proof -
  have core: "co_core c" "metric_active_sessions (co_metrics c) = length (co_active c)"
    using co by (simp_all add: co_inv_def)
  let ?ds = "map (\<lambda>(k, a). (k, reconcile_decision registry k (active_session_of a))) (co_active c)"
  obtain d closed' i r where d: "replace_registry c registry now = Some (d, closed', i, r)"
      "co_active d = filter (authorized registry) (co_active c)"
      "co_metrics d = (fold (record_decision \<circ> snd) ?ds (co_metrics c))\<lparr>metric_active_sessions := length (co_active d)\<rparr>"
    by (rule replace_registry_ok [OF core(1) built])
  have "length (filter (\<lambda>e. snd e = Keep) ?ds) = length (filter (authorized registry) (co_active c))"
    by (auto simp: filter_map comp_def split_def reconcile_Keep)
  then show ?thesis
    using conserved_reload [of "co_metrics c" ?ds] m core(2) d run by simp
qed

lemma server_step_conserved:
  assumes "server_step s s'" and inv: "server_inv s" and m: "conserved (co_metrics (fst s))"
  shows "conserved (co_metrics (fst s'))"
  using assms(1)
proof cases
  case (handshake c sha256 connection stream config handshake_timeout c' sent result pending)
  then have "co_metrics c' = co_metrics c"
    by (auto simp: managed_handshake_start_def allocate_generation_eq split: prod.splits if_splits)
  then show ?thesis using m handshake by simp
next
  case commit
  then show ?thesis using inv m finish_conserved by (metis fst_conv)
next
  case release
  then show ?thesis using inv m release_conserved by (auto simp: server_inv_def)
next
  case (reload server_ipv4 server_ipv6 identities registry c now c' closed report pending)
  then have "registry_built registry" by (auto simp: registry_built_def)
  with reload show ?thesis using inv m replace_conserved by (cases report) (auto simp: server_inv_def)
next
  case (shutdown c c' closed n pending)
  have co: "co_inv c" using inv shutdown by (simp add: server_inv_def)
  have "co_metrics c' = (co_metrics c)\<lparr>
      metric_shutdown_closes := sat_add_u64 (metric_shutdown_closes (co_metrics c)) (length (co_active c)),
      metric_active_sessions := 0\<rparr>"
    using shutdown(3) by (auto intro: close_all_ok [OF co])
  then show ?thesis
    using co m shutdown(1,2) by (auto simp: conserved_def sat_add_u64_def co_inv_def)
next
  case (operate h c op c' pending)
  have co: "co_inv c" using inv operate by (simp add: server_inv_def)
  obtain d where "operate_path c h op = Some d" "co_metrics d = co_metrics c"
    by (rule operate_path_ok [OF co operate(3,4)])
  then show ?thesis using m operate by simp
qed

lemma server_history_conserved:
  assumes "server_step\<^sup>*\<^sup>* s s'" and "server_inv s" and "conserved (co_metrics (fst s))"
  shows "conserved (co_metrics (fst s'))"
  using assms
proof (induction rule: rtranclp_induct)
  case (step y z)
  then show ?case using server_step_conserved server_history_refines by blast
qed simp

end
