(* ===== verification/Flow_Allocator.thy ===== *)
theory Flow_Allocator
  imports Flow_Prelude
begin

text \<open>
  Identifiers handed out by an atomic counter that starts at a value other than zero, is incremented
  with wrap-around, and refuses once it has come back to zero.  Session generations (64 bits) and
  packet identifiers (32 bits) are both allocated this way.
\<close>

text \<open>The results of \<open>n\<close> calls of an allocator.\<close>

primrec allocations :: "('s \<Rightarrow> 's \<times> 'r) \<Rightarrow> nat \<Rightarrow> 's \<Rightarrow> 's \<times> 'r list" where
  "allocations alloc 0 s = (s, [])"
| "allocations alloc (Suc n) s =
     (let (s, r) = alloc s; (s, rs) = allocations alloc n s in (s, r # rs))"

locale one_shot_allocator =
  fixes counter :: "'s \<Rightarrow> 'w::len word" and alloc :: "'s \<Rightarrow> 's \<times> 'r"
    and granted :: "'w word \<Rightarrow> 'r" and exhausted :: 'r
  assumes alloc_fresh: "counter s \<noteq> 0 \<Longrightarrow> snd (alloc s) = granted (counter s)"
    and alloc_next: "counter s \<noteq> 0 \<Longrightarrow> counter (fst (alloc s)) = counter s + 1"
    and alloc_exhausted: "counter s = 0 \<Longrightarrow> alloc s = (s, exhausted)"
begin

text \<open>How many identifiers are left, and the one that the \<open>i\<close>-th call from now returns.\<close>

lemma left_next:
  assumes "counter s \<noteq> 0"
  shows "counter (fst (alloc s)) = 0 \<longleftrightarrow> 2 ^ LENGTH('w) - unat (counter s) = 1"
    and "counter (fst (alloc s)) \<noteq> 0 \<Longrightarrow> unat (counter (fst (alloc s))) = Suc (unat (counter s))"
proof -
  define N :: nat where "N = 2 ^ LENGTH('w)"
  have lt: "unat (counter s) < N" unfolding N_def by (rule unsigned_less)
  have "unat (counter s + 1) = Suc (unat (counter s)) mod N" unfolding N_def by (simp add: unat_word_ariths)
  then have u: "unat (counter s + 1) = (if Suc (unat (counter s)) = N then 0 else Suc (unat (counter s)))"
    using lt by simp
  then show "counter (fst (alloc s)) = 0 \<longleftrightarrow> 2 ^ LENGTH('w) - unat (counter s) = 1"
    using lt unfolding alloc_next [OF assms] unat_eq_0 [symmetric] N_def [symmetric] by auto
  show "counter (fst (alloc s)) \<noteq> 0 \<Longrightarrow> unat (counter (fst (alloc s))) = Suc (unat (counter s))"
    using u unfolding alloc_next [OF assms] unat_eq_0 [symmetric] by (simp split: if_splits)
qed

lemma allocations_exhausted: "counter s = 0 \<Longrightarrow> allocations alloc n s = (s, replicate n exhausted)"
  by (induction n) (simp_all add: alloc_exhausted)

lemma allocations_nth:
  assumes "counter s \<noteq> 0" and "i < n"
  shows "snd (allocations alloc n s) ! i =
    (if i < 2 ^ LENGTH('w) - unat (counter s) then granted (counter s + word_of_nat i) else exhausted)"
  using assms
proof (induction n arbitrary: s i)
  case (Suc n)
  obtain s' r where a: "alloc s = (s', r)" by fastforce
  have r: "r = granted (counter s)" using alloc_fresh [OF Suc.prems(1)] a by simp
  note left = left_next [OF Suc.prems(1)]
  have lt: "unat (counter s) < 2 ^ LENGTH('w)" by (rule unsigned_less)
  have nth: "snd (allocations alloc (Suc n) s) ! Suc j = snd (allocations alloc n s') ! j" for j
    by (simp add: a split_def Let_def)
  show ?case
  proof (cases i)
    case 0
    then show ?thesis using r lt by (simp add: a split_def Let_def)
  next
    case (Suc j)
    show ?thesis
    proof (cases "counter s' = 0")
      case True
      then show ?thesis using left(1) a Suc Suc.prems(2) nth allocations_exhausted [OF True, of n] by simp
    next
      case False
      have "counter s' + word_of_nat j = counter s + word_of_nat i"
        using alloc_next [OF Suc.prems(1)] a Suc by (simp add: algebra_simps)
      then show ?thesis using Suc.IH [OF False, of j] left(2) a False Suc Suc.prems(2) nth by (auto simp: algebra_simps)
    qed
  qed
qed simp

lemma length_allocations: "length (snd (allocations alloc n s)) = n"
  by (induction n arbitrary: s) (simp_all add: split_def Let_def)

text \<open>Two calls never return the same identifier, none is zero, and a refusal is final.\<close>

lemma allocations_unique:
  fixes n :: nat
  assumes "counter s \<noteq> 0" and "inj granted" and "exhausted \<notin> range granted"
  defines "rs \<equiv> snd (allocations alloc n s)"
  assumes "i < n" and "j < n" and "i \<noteq> j" and "rs ! i \<noteq> exhausted"
  shows "rs ! i \<noteq> rs ! j" and "rs ! i \<noteq> granted 0" and "rs ! j = exhausted \<Longrightarrow> i < j"
proof -
  have i: "rs ! i = granted (counter s + word_of_nat i)" "i < 2 ^ LENGTH('w) - unat (counter s)"
    using allocations_nth [OF assms(1,5)] assms(8) by (auto simp: rs_def split: if_splits)
  have u: "unat (counter s + word_of_nat k) = unat (counter s) + k" if "k < 2 ^ LENGTH('w) - unat (counter s)" for k
    using that by (simp add: unat_word_ariths unat_of_nat)
  show "rs ! i \<noteq> rs ! j"
  proof (cases "j < 2 ^ LENGTH('w) - unat (counter s)")
    case True
    then have j: "rs ! j = granted (counter s + word_of_nat j)"
      using allocations_nth [OF assms(1,6)] by (simp add: rs_def)
    have "counter s + word_of_nat i \<noteq> counter s + word_of_nat j"
      using u [OF i(2)] u [OF True] assms(7) by (metis add_left_cancel)
    then show ?thesis unfolding i(1) j using assms(2) by (simp add: inj_eq)
  next
    case False
    then have "rs ! j = exhausted" using allocations_nth [OF assms(1,6)] by (simp add: rs_def)
    then show ?thesis using assms(8) by simp
  qed
  have "counter s + word_of_nat i \<noteq> 0"
    using u [OF i(2)] assms(1) unat_eq_0 [of "counter s"] unat_0 by (metis add_is_0)
  then show "rs ! i \<noteq> granted 0" unfolding i(1) using assms(2) by (simp add: inj_eq)
  show "rs ! j = exhausted \<Longrightarrow> i < j"
  proof (rule ccontr)
    assume ex: "rs ! j = exhausted" and "\<not> i < j"
    then have "rs ! j = granted (counter s + word_of_nat j)"
      using i(2) allocations_nth [OF assms(1,6)] by (simp add: rs_def)
    with ex assms(3) show False by (metis rangeI)
  qed
qed

end

end
