(* ===== verification/Vpn_Coordinator_Properties.thy ===== *)
theory Vpn_Coordinator_Properties
  imports Vpn_Coordinator_History Flow_Allocator
begin

text \<open>
  What the session coordinator guarantees in every history of a server: which data paths are live,
  that no operation panics, that generations are never reused and stale tasks never affect a newer
  session, what a commit and a reload do, and that the counters add up.
\<close>

section \<open>A sample server\<close>

abbreviation sample_sha256 :: "bytes \<Rightarrow> bytes" where
  "sample_sha256 \<equiv> \<lambda>_. replicate 32 0x32"

abbreviation sample_hello_stream :: ControlStream where
  "sample_hello_stream \<equiv> sample_stream (control_frame VPN_CONTROL_HELLO (hello_body sample_hello))"

lemma sample_server_handshake:
  "\<exists>sent. vpn_server_control_handshake sample_sha256 sample_connection sample_hello_stream sample_registry
     negotiation_config_default 1 5 = (sent, Inr (OutcomeAccepted sample_session))"
proof -
  have hb: "control_body (Hello sample_hello) = Inr (VPN_CONTROL_HELLO, hello_body sample_hello)"
    using sample_hello_valid by simp
  have ab: "control_body (Accept (session_accept sample_session)) = Inr (VPN_CONTROL_ACCEPT, accept_body (session_accept sample_session))"
    using negotiated_server_accept(1) [OF sample_session_negotiated] by simp
  have "read_control_message sample_hello_stream = Inr (Hello sample_hello)"
    using write_then_read [OF sample_write [OF hb], of sample_hello_stream] by (simp add: sample_stream_def)
  then show ?thesis
    using sample_setup(2) sample_session_negotiated
      sample_write [OF ab, of "control_frame VPN_CONTROL_HELLO (hello_body sample_hello)"]
    by (simp add: vpn_server_control_handshake_def server_exchange_def server_answer_def await_def sample_stream_def)
qed

definition sample_coordinator :: VpnSessionCoordinator where
  "sample_coordinator =
     \<lparr>co_registry = sample_registry, co_active = [], co_metrics = coordinator_metrics_default,
      co_identity_quotas = [], co_next_generation = 1, co_quota_metrics = VpnQuotaMetricCounters_default,
      co_data_metrics = VpnDataPolicyMetricCounters_default, co_global_budget = sample_budget,
      co_paths = [], co_path_limiters = [], co_limiters = []\<rparr>"

lemma sample_coordinator_new:
  "coordinator_with_resource_limits sample_registry 1 VPN_DEFAULT_GLOBAL_REASSEMBLY_BYTES 4096 = Inr sample_coordinator"
  by (simp add: coordinator_with_resource_limits_def sample_budget_new sample_coordinator_def)

text \<open>One client has connected.\<close>

lemma sample_pending:
  "server_step (sample_coordinator, []) (sample_coordinator\<lparr>co_next_generation := 2\<rparr>, [OutcomeAccepted sample_session])"
proof -
  obtain sent where h: "vpn_server_control_handshake sample_sha256 sample_connection sample_hello_stream sample_registry
     negotiation_config_default 1 5 = (sent, Inr (OutcomeAccepted sample_session))" using sample_server_handshake by blast
  have "managed_handshake_start sample_coordinator sample_sha256 sample_connection sample_hello_stream
      negotiation_config_default 5 = (sample_coordinator\<lparr>co_next_generation := 2\<rparr>, sent, Inr (OutcomeAccepted sample_session))"
    using h by (simp add: managed_handshake_start_def allocate_generation_eq sample_coordinator_def)
  from server_step.handshake [OF this, of "[]"] show ?thesis by simp
qed

lemma sample_commits:
  "\<exists>identity. commit_identity sample_registry sample_session = Inr identity"
  "session_client sample_session = [0x61, 0x32]" "session_generation sample_session = 1"
  "accept_validate (session_accept sample_session) = Inr ()"
proof -
  obtain identity where "authorize sample_registry (Fingerprint (replicate 32 0x32)) = Inr identity"
    "identity = session_identity sample_session"
    using negotiate_success [OF sample_session_negotiated] by (metis VpnNegotiatedSession.select_convs(1))
  then show "\<exists>identity. commit_identity sample_registry sample_session = Inr identity"
    by (auto simp: commit_identity_ok sample_session_def has_same_session_policy_def)
  show "session_client sample_session = [0x61, 0x32]" by (simp add: sample_session_def sample_identity_def)
  show "session_generation sample_session = 1" by (simp add: sample_session_def negotiated_accept_fields)
  show "accept_validate (session_accept sample_session) = Inr ()"
    using negotiated_server_accept(1) [OF sample_session_negotiated] by simp
qed

lemma sample_stores:
  assumes "commit_with_handle_at (sample_coordinator\<lparr>co_next_generation := 2\<rparr>) sample_session 3 0 = Some (c, closed, result)"
  shows "co_paths c = [path_activate sample_path]" and "co_env c (co_path_limiters c ! 0) = sample_shared"
proof -
  obtain identity where id: "commit_identity sample_registry sample_session = Inr identity" using sample_commits(1) by blast
  then have "has_same_session_policy (sample_identity 0x32 True) identity"
    by (simp add: commit_identity_ok sample_session_def)
  then have "identity_data_policy identity = sample_policy 0x0A000132" "identity_limits identity = identity_limits_default"
    "identity_limits (session_identity sample_session) = identity_limits_default"
    by (simp_all add: has_same_session_policy_def sample_session_def sample_identity_def)
  then have new: "path_new_inactive identity (unat (accept_max_ip_packet_len (session_accept sample_session)))
      (session_generation sample_session) sample_budget = Inr sample_path"
    and lim: "identity_limits (session_identity sample_session) = identity_limits_default"
    using sample_path_new by (simp_all add: path_new_inactive_def sample_session_address sample_commits(3))
  have same: "rate_reconfigure (rate_state_new identity_limits_default 0) identity_limits_default 0 =
      rate_state_new identity_limits_default 0"
    by (simp add: rate_reconfigure_def rate_state_new_def refill_def checked_duration_since_def packet_capacity_def
        byte_capacity_def sat_mul_u128_def sat_add_u128_def u128_max_def TOKEN_SCALE_def identity_limits_default_def vpn_consts)
  have "co_paths c = [path_activate sample_path] \<and> co_path_limiters c = [0] \<and>
      co_limiters c = [rate_state_new identity_limits_default 0] \<and>
      co_quota_metrics c = VpnQuotaMetricCounters_default \<and> co_data_metrics c = VpnDataPolicyMetricCounters_default"
    using assms id new lim same
    by (auto simp: commit_with_handle_at_def commit_accepted_def limiter_entry_def sample_coordinator_def sample_commits(2)
        hm_insert_def Let_def)
  then show "co_paths c = [path_activate sample_path]" "co_env c (co_path_limiters c ! 0) = sample_shared"
    by (simp_all add: co_env_def sample_shared_def)
qed

lemma sample_connected:
  obtains c where "server_step\<^sup>*\<^sup>* (sample_coordinator, []) (c, [])" and "is_current c [0x61, 0x32] 1"
    and "co_registry c = sample_registry"
    and "co_active c = [([0x61, 0x32], \<lparr>active_session_of = sample_session, active_connection = 3, active_data_path = 0\<rparr>)]"
    and "co_paths c \<noteq> []" and "path_active (inner_state (co_paths c ! 0))"
    and "metric_total_committed (co_metrics c) = 1"
    and "co_paths c = [path_activate sample_path]" and "co_env c (co_path_limiters c ! 0) = sample_shared"
proof -
  let ?c = "sample_coordinator\<lparr>co_next_generation := 2\<rparr>"
  have inv: "co_inv ?c"
    using server_start_inv(1) [OF sample_registry_new sample_coordinator_new] by (simp add: server_inv_def)
  obtain identity where id: "commit_identity (co_registry ?c) sample_session = Inr identity"
    using sample_commits(1) by (auto simp: sample_coordinator_def)
  let ?new = "\<lparr>active_session_of = sample_session, active_connection = 3, active_data_path = 0\<rparr>"
  obtain c closed result where c: "commit_with_handle_at ?c sample_session 3 0 = Some (c, closed, result)"
    "co_active c = [([0x61, 0x32], ?new)]" "co_registry c = sample_registry" "length (co_paths c) = 1"
    "path_active (inner_state (co_paths c ! 0))" "metric_total_committed (co_metrics c) = 1"
    by (rule commit_ok [OF inv sample_commits(4) id, where connection = 3 and now = 0])
      (simp_all add: sample_coordinator_def sample_commits hm_insert_def commit_metrics_def Let_def
        coordinator_metrics_default_def sat_add_u64_def u64_max_def)
  have "\<exists>r. managed_handshake_finish ?c (OutcomeAccepted sample_session) 3 True 0 = Some (c, closed, r)"
    using c(1) by (simp add: managed_handshake_finish_def)
  then have "server_step (?c, [OutcomeAccepted sample_session]) (c, [])"
    using server_step.commit [of ?c "OutcomeAccepted sample_session" 3 True 0 c closed _ "[]" "[]"] by auto
  with sample_pending have "server_step\<^sup>*\<^sup>* (sample_coordinator, []) (c, [])" by (meson converse_rtranclp_into_rtranclp r_into_rtranclp)
  moreover have "is_current c [0x61, 0x32] 1"
    using c(2) sample_commits(3) by (simp add: is_current_def is_some_and_def active_generation_def)
  moreover have "co_paths c \<noteq> []" using c(4) by auto
  ultimately show thesis using that c(2,3,5,6) sample_stores [OF c(1)] by blast
qed

section \<open>Reachable servers\<close>

lemma server_reachable:
  assumes "registry_new server_ipv4 server_ipv6 identities = Inr registry"
    and "coordinator_with_resource_limits registry generation byte_limit packet_limit = Inr c0"
    and "server_step\<^sup>*\<^sup>* (c0, []) (c, pending)"
  shows "server_inv (c, pending)" and "co_inv c" and "table_inv (session_table (c, pending))" and "conserved (co_metrics c)"
proof -
  note start = server_start_inv [OF assms(1,2)]
  note history = server_history_refines [OF assms(3) start(1)]
  show "server_inv (c, pending)" using history by blast
  then show "co_inv c" by (simp add: server_inv_def)
  show "table_inv (session_table (c, pending))" using history table_history_inv start(2) by blast
  have "conserved (co_metrics (fst (c0, [])))"
    by (simp add: start(3) conserved_def coordinator_metrics_default_def u64_max_def)
  from server_history_conserved [OF assms(3) start(1) this] show "conserved (co_metrics c)" by simp
qed

text \<open>
  C8.  In every history of a server: a data path that is live belongs to the current session of
  exactly one client; the registry in force has an enabled identity for the certificate of every
  current session, with that session's client name, and the data path of the session enforces the
  policy of that identity; and the reported number of active sessions is the number of sessions.
\<close>

theorem coordinator_live_sessions:
  assumes "registry_new server_ipv4 server_ipv6 identities = Inr registry"
    and "coordinator_with_resource_limits registry generation byte_limit packet_limit = Inr c0"
    and "server_step\<^sup>*\<^sup>* (c0, []) (c, pending)"
  shows "(\<forall>h < length (co_paths c). path_active (inner_state (co_paths c ! h)) \<longrightarrow>
      (\<exists>!client_id. \<exists>a. map_of (co_active c) client_id = Some a \<and> active_data_path a = h)) \<and>
    (\<forall>client_id a. map_of (co_active c) client_id = Some a \<longrightarrow> active_data_path a < length (co_paths c) \<and>
      (\<exists>identity. authorize (co_registry c) (session_fingerprint (active_session_of a)) = Inr identity \<and>
        identity_client_id identity = client_id \<and>
        inner_policy (co_paths c ! active_data_path a) = identity_data_policy identity)) \<and>
    metric_active_sessions (co_metrics c) = length (co_active c)"
proof (intro conjI allI impI)
  note inv = server_reachable(2) [OF assms]
  then have core: "co_core c" by (simp add: co_inv_def)
  show "metric_active_sessions (co_metrics c) = length (co_active c)" using inv by (simp add: co_inv_def)
  fix h assume h: "h < length (co_paths c)" "path_active (inner_state (co_paths c ! h))"
  then have "h \<in> set (handles c)" using core by (simp add: co_core_def)
  then obtain k a where ka: "(k, a) \<in> set (co_active c)" "active_data_path a = h" by (auto simp: handles_def)
  have inj: "inj_on (active_data_path \<circ> snd) (set (co_active c))" and wf: "hm_wf (co_active c)"
    using core unfolding co_core_def handles_def distinct_map by blast+
  show "\<exists>!client_id. \<exists>a. map_of (co_active c) client_id = Some a \<and> active_data_path a = h"
  proof (rule ex1I [of _ k])
    show "\<exists>a. map_of (co_active c) k = Some a \<and> active_data_path a = h" using ka wf by auto
    fix j assume "\<exists>a. map_of (co_active c) j = Some a \<and> active_data_path a = h"
    then obtain a' where "(j, a') \<in> set (co_active c)" "active_data_path a' = h" by (blast dest: map_of_SomeD)
    then show "j = k" using inj_onD [OF inj, of "(j, a')" "(k, a)"] ka by simp
  qed
next
  note inv = server_reachable(2) [OF assms]
  fix k a assume "map_of (co_active c) k = Some a"
  then have mem: "(k, a) \<in> set (co_active c)" by (rule map_of_SomeD)
  with inv show "active_data_path a < length (co_paths c)" by (force simp: co_inv_def co_core_def handles_def)
  have "authorized (co_registry c) (k, a)" "entry_ok (co_paths c) (k, a)"
    using inv mem by (auto simp: co_inv_def co_core_def)
  then show "\<exists>identity. authorize (co_registry c) (session_fingerprint (active_session_of a)) = Inr identity \<and>
      identity_client_id identity = k \<and> inner_policy (co_paths c ! active_data_path a) = identity_data_policy identity"
    by (auto simp: authorized_def entry_ok_def Let_def has_same_session_policy_def)
qed

theorem coordinator_live_sessions_witness:
  "\<exists>c. server_step\<^sup>*\<^sup>* (sample_coordinator, []) (c, []) \<and> path_active (inner_state (co_paths c ! 0)) \<and>
     (\<exists>!client_id. \<exists>a. map_of (co_active c) client_id = Some a \<and> active_data_path a = 0)"
proof -
  obtain c where c: "server_step\<^sup>*\<^sup>* (sample_coordinator, []) (c, [])" "co_paths c \<noteq> []"
    "path_active (inner_state (co_paths c ! 0))" using sample_connected by metis
  from coordinator_live_sessions [OF sample_registry_new sample_coordinator_new c(1)] c show ?thesis by blast
qed

text \<open>
  C12.  In every history of a server no operation of the coordinator panics: releases, shutdown,
  reloads, the end of a handshake, and calls on a data path always return.
\<close>

theorem coordinator_never_panics:
  assumes "registry_new server_ipv4 server_ipv6 identities = Inr registry"
    and "coordinator_with_resource_limits registry generation byte_limit packet_limit = Inr c0"
    and "server_step\<^sup>*\<^sup>* (c0, []) (c, pending)"
  shows "release_if_current c client_id g \<noteq> None \<and> close_all c \<noteq> None \<and>
    (registry_new server_ipv4' server_ipv6' identities' = Inr registry' \<longrightarrow> replace_registry c registry' now \<noteq> None) \<and>
    (outcome \<in> set pending \<longrightarrow> managed_handshake_finish c outcome connection drained now \<noteq> None) \<and>
    (h < length (co_paths c) \<and> op \<noteq> Activate \<longrightarrow> operate_path c h op \<noteq> None)"
proof (intro conjI impI)
  note inv = server_reachable(2) [OF assms]
  show "release_if_current c client_id g \<noteq> None" using release_ok [OF inv, of client_id g] by (auto split: if_splits)
  show "close_all c \<noteq> None" by (rule close_all_ok [OF inv]) simp
  show "operate_path c h op \<noteq> None" if "h < length (co_paths c) \<and> op \<noteq> Activate"
    by (rule operate_path_ok [OF inv]) (use that in auto)
  have core: "co_core c" using inv by (simp add: co_inv_def)
  show "replace_registry c registry' now \<noteq> None" if "registry_new server_ipv4' server_ipv6' identities' = Inr registry'"
    by (rule replace_registry_ok [OF core, of registry' now]) (use that in \<open>auto simp: registry_built_def\<close>)
  assume o: "outcome \<in> set pending"
  show "managed_handshake_finish c outcome connection drained now \<noteq> None"
  proof (cases outcome)
    case (OutcomeAccepted session)
    have valid: "accept_validate (session_accept session) = Inr ()"
      using server_reachable(1) [OF assms] o OutcomeAccepted by (auto simp: server_inv_def)
    show ?thesis
    proof (cases "commit_identity (co_registry c) session")
      case (Inl e)
      from commit_refused_ok(1) [OF inv this] OutcomeAccepted show ?thesis by (simp add: managed_handshake_finish_def)
    next
      case (Inr identity)
      obtain c' closed r where "commit_with_handle_at c session connection now = Some (c', closed, r)"
        by (rule commit_ok [OF inv valid Inr, where connection = connection and now = now])
      with OutcomeAccepted show ?thesis by (simp add: managed_handshake_finish_def split: prod.splits)
    qed
  qed (simp add: managed_handshake_finish_def)
qed

theorem coordinator_never_panics_witness:
  "\<exists>c. server_step\<^sup>*\<^sup>* (sample_coordinator, []) (c, []) \<and> operate_path c 0 Deactivate \<noteq> None \<and>
     replace_registry c sample_registry 9 \<noteq> None \<and>
     managed_handshake_finish (sample_coordinator\<lparr>co_next_generation := 2\<rparr>) (OutcomeAccepted sample_session) 3 True 9 \<noteq> None"
proof -
  obtain c where c: "server_step\<^sup>*\<^sup>* (sample_coordinator, []) (c, [])" "co_paths c \<noteq> []"
    using sample_connected by metis
  note p = coordinator_never_panics [OF sample_registry_new sample_coordinator_new]
  from p [OF c(1), where h = 0 and op = Deactivate] c(2) have "operate_path c 0 Deactivate \<noteq> None" by auto
  moreover from p [OF c(1), where registry' = sample_registry and now = 9] sample_registry_new
  have "replace_registry c sample_registry 9 \<noteq> None" by blast
  moreover from p [OF r_into_rtranclp [of server_step, OF sample_pending], where outcome = "OutcomeAccepted sample_session"
      and connection = 3 and drained = True and now = 9]
  have "managed_handshake_finish (sample_coordinator\<lparr>co_next_generation := 2\<rparr>) (OutcomeAccepted sample_session) 3 True 9 \<noteq> None"
    by simp
  ultimately show ?thesis using c(1) by blast
qed

section \<open>Generations\<close>

text \<open>
  C9.  Once the session with a generation has stopped being current, that generation never becomes
  current again for any client, so a late release by the task of a replaced or revoked session
  changes nothing.
\<close>

theorem stale_generation_never_current:
  assumes "registry_new server_ipv4 server_ipv6 identities = Inr registry"
    and "coordinator_with_resource_limits registry generation byte_limit packet_limit = Inr c0"
    and "server_step\<^sup>*\<^sup>* (c0, []) (c1, pending1)" and "is_current c1 client_id g"
    and "server_step\<^sup>*\<^sup>* (c1, pending1) (c2, pending2)" and "\<not> is_current c2 client_id g"
    and "server_step\<^sup>*\<^sup>* (c2, pending2) (c3, pending3)"
  shows "\<not> is_current c3 k g \<and> release_if_current c3 k g = Some (c3, False)"
proof -
  note start = server_reachable [OF assms(1-3)]
  have two: "server_inv (c2, pending2)" "table_step\<^sup>*\<^sup>* (session_table (c1, pending1)) (session_table (c2, pending2))"
    using server_history_refines [OF assms(5) start(1)] by blast+
  have three: "table_step\<^sup>*\<^sup>* (session_table (c2, pending2)) (session_table (c3, pending3))"
    using server_history_refines [OF assms(7) two(1)] by blast
  have "held_by (session_table (c2, pending2)) client_id g"
    by (rule table_history_held [OF two(2) current_held [OF start(3) assms(4)]])
  then have "retired (session_table (c2, pending2)) g" using assms(6) by (rule held_not_current_retired)
  then have "retired (session_table (c3, pending3)) g" by (rule table_history_retired [OF three])
  then have "\<not> is_current c3 k g" by (rule retired_not_current)
  then show ?thesis by (simp add: release_if_current_def)
qed

theorem stale_generation_never_current_witness:
  "\<exists>c c'. is_current c [0x61, 0x32] 1 \<and> server_step (c, []) (c', []) \<and>
     release_if_current c' [0x61, 0x32] 1 = Some (c', False)"
proof -
  obtain c where c: "server_step\<^sup>*\<^sup>* (sample_coordinator, []) (c, [])" "is_current c [0x61, 0x32] 1"
    using sample_connected by metis
  note inv = server_reachable(2) [OF sample_registry_new sample_coordinator_new c(1)]
  obtain c' closed n where s: "close_all c = Some (c', closed, n)" "co_active c' = []" by (rule close_all_ok [OF inv])
  have step: "server_step (c, []) (c', [])" by (rule server_step.shutdown [OF s(1)])
  have "\<not> is_current c' [0x61, 0x32] 1" using s(2) by (simp add: is_current_def is_some_and_def)
  from stale_generation_never_current [OF sample_registry_new sample_coordinator_new c
      r_into_rtranclp [of server_step, OF step] this rtranclp.rtrancl_refl] c(2) step
  show ?thesis by blast
qed

interpretation generations: one_shot_allocator co_next_generation allocate_generation Inr "Inl GenerationExhausted"
  by unfold_locales (simp_all add: allocate_generation_eq)

text \<open>
  C14.  Successive calls of \<open>allocate_generation\<close> return the generations from the initial one up to
  \<open>2 ^ 64 - 1\<close>, each exactly once and never zero, and from then on report exhaustion: the counter does
  not wrap round to a generation it has handed out.
\<close>

theorem generations_never_repeat:
  assumes "coordinator_with_resource_limits registry initial_generation byte_limit packet_limit = Inr c"
    and "i < n" and "j < n"
  shows "let results = snd (allocations allocate_generation n c) in
    results ! i = (if i < 2 ^ 64 - unat initial_generation then Inr (initial_generation + word_of_nat i)
      else Inl GenerationExhausted) \<and>
    (i \<noteq> j \<and> results ! i \<noteq> Inl GenerationExhausted \<longrightarrow> results ! i \<noteq> results ! j \<and> results ! i \<noteq> Inr 0)"
proof -
  have c: "co_next_generation c = initial_generation" "initial_generation \<noteq> 0"
    using assms(1) by (auto simp: coordinator_with_resource_limits_def split: if_splits option.splits)
  then show ?thesis
    using generations.allocations_nth [of c i n] generations.allocations_unique [of c i n j] assms(2,3)
    by (simp add: Let_def inj_def image_iff)
qed

theorem generations_never_repeat_witness:
  "\<exists>c. coordinator_with_resource_limits sample_registry (- 1) VPN_DEFAULT_GLOBAL_REASSEMBLY_BYTES 4096 = Inr c \<and>
     snd (allocations allocate_generation 2 c) ! 0 = Inr (- 1) \<and>
     snd (allocations allocate_generation 2 c) ! 1 = Inl GenerationExhausted"
proof -
  let ?c = "sample_coordinator\<lparr>co_next_generation := - 1\<rparr>"
  have c: "coordinator_with_resource_limits sample_registry (- 1) VPN_DEFAULT_GLOBAL_REASSEMBLY_BYTES 4096 = Inr ?c"
    by (simp add: coordinator_with_resource_limits_def sample_budget_new sample_coordinator_def)
  have u: "unat (- 1 :: u64) = 2 ^ 64 - 1" by (simp add: unsigned_minus_1_eq_mask mask_eq_exp_minus_1)
  have "snd (allocations allocate_generation 2 ?c) ! 0 = Inr (- 1)"
    using generations_never_repeat [OF c, of 0 2 0] u by (simp add: Let_def)
  moreover have "snd (allocations allocate_generation 2 ?c) ! 1 = Inl GenerationExhausted"
    using generations_never_repeat [OF c, of 1 2 1] u by (simp add: Let_def)
  ultimately show ?thesis using c by blast
qed

section \<open>Counters and the table of sessions\<close>

text \<open>
  C13.  As long as the counter of committed sessions has not saturated, the counters balance: every
  session ever committed is active, or was replaced, revoked, closed for a changed policy, released
  or shut down, and is counted under exactly one of these.
\<close>

theorem coordinator_counters_balance:
  assumes "registry_new server_ipv4 server_ipv6 identities = Inr registry"
    and "coordinator_with_resource_limits registry generation byte_limit packet_limit = Inr c0"
    and "server_step\<^sup>*\<^sup>* (c0, []) (c, pending)" and "metric_total_committed (co_metrics c) < u64_max"
  shows "metric_total_committed (co_metrics c) =
    length (co_active c) + metric_replacements (co_metrics c) + metric_identity_revocations (co_metrics c) +
    metric_policy_change_closes (co_metrics c) + metric_normal_releases (co_metrics c) + metric_shutdown_closes (co_metrics c)"
  using server_reachable(2,4) [OF assms(1-3)] assms(4) by (simp add: conserved_def co_inv_def)

theorem coordinator_counters_balance_witness:
  "\<exists>c. server_step\<^sup>*\<^sup>* (sample_coordinator, []) (c, []) \<and> metric_total_committed (co_metrics c) = 1 \<and>
     metric_total_committed (co_metrics c) =
       length (co_active c) + metric_replacements (co_metrics c) + metric_identity_revocations (co_metrics c) +
       metric_policy_change_closes (co_metrics c) + metric_normal_releases (co_metrics c) + metric_shutdown_closes (co_metrics c)"
proof -
  obtain c where c: "server_step\<^sup>*\<^sup>* (sample_coordinator, []) (c, [])" "metric_total_committed (co_metrics c) = 1"
    using sample_connected by metis
  from coordinator_counters_balance [OF sample_registry_new sample_coordinator_new c(1)] c show ?thesis
    by (auto simp: u64_max_def)
qed

text \<open>
  C7.  The coordinator implements a table from clients to sessions.  It starts as the empty table, and
  in every history of a server each operation does to the table what its name says and answers
  accordingly: a handshake uses up the next generation, if there is one, and a session it negotiates
  carries that generation; a commit puts the session in place of the one its client had and reports
  the generation it replaced, or is refused and changes nothing, exactly as the registry in force
  decides; a release removes the entry of its client and answers yes exactly if that entry has the
  given generation; a reload keeps exactly the permitted entries; a shutdown empties the table and
  reports how many entries it had; work on data paths leaves it alone; and the queries answer from it.
\<close>

theorem coordinator_refines_table:
  assumes "registry_new server_ipv4 server_ipv6 identities = Inr registry"
    and "coordinator_with_resource_limits registry generation byte_limit packet_limit = Inr c0"
    and "server_step\<^sup>*\<^sup>* (c0, []) (c, pending)"
  defines "t \<equiv> session_table (c, pending)"
  shows "session_table (c0, []) =
      \<lparr>table_registry = registry, table_sessions = (\<lambda>_. None), table_next = generation, table_pending = []\<rparr> \<and>
    (managed_handshake_start c sha256 connection stream config handshake_timeout = (c1, sent, handshake) \<longrightarrow>
      session_table (c1, pending @ outcomes handshake) = table_handshake (concat (map accepted (outcomes handshake))) t \<and>
      (\<forall>session. handshake = Inr (OutcomeAccepted session) \<longrightarrow> session_generation session = table_next t)) \<and>
    (pending = xs @ OutcomeAccepted session # ys \<and>
      managed_handshake_finish c (OutcomeAccepted session) stable_id drained now = Some (c2, closed, result) \<longrightarrow>
      session_table (c2, xs @ ys) = (fst (table_commit session t))\<lparr>table_pending := concat (map accepted (xs @ ys))\<rparr> \<and>
      (case snd (table_commit session t) of
         None \<Rightarrow> \<exists>e. result = Inl (Commit e)
       | Some replaced \<Rightarrow> \<exists>data_path. result = Inr (ManagedActive session
           \<lparr>report_session_generation = session_generation session, report_replaced_generation = replaced\<rparr> data_path))) \<and>
    (release_if_current c client_id g = Some (c3, released) \<longrightarrow>
      (session_table (c3, pending), released) = table_release client_id g t) \<and>
    (registry_new server_ipv4' server_ipv6' identities' = Inr registry' \<and>
      replace_registry c registry' now = Some (c4, closed', report) \<longrightarrow>
      session_table (c4, pending) = table_reload registry' t) \<and>
    (close_all c = Some (c5, closed'', n) \<longrightarrow>
      session_table (c5, pending) = table_shutdown t \<and> n = card (dom (table_sessions t))) \<and>
    (h < length (co_paths c) \<and> op \<noteq> Activate \<and> operate_path c h op = Some c6 \<longrightarrow> session_table (c6, pending) = t) \<and>
    active_session c client_id = map_option
      (\<lambda>session. \<lparr>snapshot_client_id = client_id, snapshot_fingerprint = session_fingerprint session,
        snapshot_session_generation = session_generation session,
        snapshot_connection_stable_id = active_connection (the (map_of (co_active c) client_id))\<rparr>)
      (table_sessions t client_id) \<and>
    (is_current c client_id g \<longleftrightarrow> map_option session_generation (table_sessions t client_id) = Some g)"
proof -
  have inv: "server_inv (c, pending)" and core: "co_core c"
    using server_reachable(1,2) [OF assms(1-3)] by (simp_all add: co_inv_def)
  have "session_table (c0, []) =
      \<lparr>table_registry = registry, table_sessions = (\<lambda>_. None), table_next = generation, table_pending = []\<rparr>"
    using assms(2) by (auto simp: session_table_def coordinator_with_resource_limits_def fun_eq_iff split: if_splits option.splits)
  moreover have "table_next t = co_next_generation c" by (simp add: t_def session_table_def)
  moreover have "active_session c client_id = map_option
      (\<lambda>session. \<lparr>snapshot_client_id = client_id, snapshot_fingerprint = session_fingerprint session,
        snapshot_session_generation = session_generation session,
        snapshot_connection_stable_id = active_connection (the (map_of (co_active c) client_id))\<rparr>)
      (table_sessions t client_id)"
    using co_core_client [OF core, of client_id]
    by (cases "map_of (co_active c) client_id")
      (simp_all add: t_def active_session_def active_snapshot_def session_table_def active_generation_def)
  ultimately show ?thesis
    using handshake_refines(2,3) [OF inv, of sha256 connection stream config handshake_timeout c1 sent handshake]
      commit_refines(2,3) [of c xs session ys stable_id drained now c2 closed result] inv
      release_refines(2) [OF inv, of client_id g c3 released] shutdown_refines(2,3) [OF inv, of c5 closed'' n]
      reload_refines(2) [OF inv, of server_ipv4' server_ipv6' identities' registry' now c4 closed' report]
      operate_refines(2) [OF inv, of h op c6] current_in_table [of c client_id g pending]
    unfolding t_def by (intro conjI impI allI) simp_all
qed

text \<open>A connected client: its release empties the table, and a late release does nothing.\<close>

theorem coordinator_refines_table_witness:
  "\<exists>c. server_step\<^sup>*\<^sup>* (sample_coordinator, []) (c, []) \<and>
     (\<forall>c' released. release_if_current c [0x61, 0x32] 1 = Some (c', released) \<longrightarrow>
       released \<and> table_sessions (session_table (c', [])) [0x61, 0x32] = None) \<and>
     (\<forall>c' released. release_if_current c [0x61, 0x32] 2 = Some (c', released) \<longrightarrow>
       \<not> released \<and> session_table (c', []) = session_table (c, []))"
proof -
  obtain c where c: "server_step\<^sup>*\<^sup>* (sample_coordinator, []) (c, [])" "is_current c [0x61, 0x32] 1"
    using sample_connected by metis
  note table = coordinator_refines_table [OF sample_registry_new sample_coordinator_new c(1)]
  note release = table [THEN conjunct2, THEN conjunct2, THEN conjunct2, THEN conjunct1]
    and queries = table [THEN conjunct2, THEN conjunct2, THEN conjunct2, THEN conjunct2, THEN conjunct2, THEN conjunct2, THEN conjunct2, THEN conjunct2]
  have current: "map_option session_generation (table_sessions (session_table (c, [])) [0x61, 0x32]) = Some 1"
    using queries c(2) by simp
  have "(session_table (c', []), released) = table_release [0x61, 0x32] g (session_table (c, []))"
    if "release_if_current c [0x61, 0x32] g = Some (c', released)" for c' released g
    using release that by simp
  from this [of 1] this [of 2]
  have "\<And>c' released. release_if_current c [0x61, 0x32] 1 = Some (c', released) \<Longrightarrow>
      released \<and> table_sessions (session_table (c', [])) [0x61, 0x32] = None"
    "\<And>c' released. release_if_current c [0x61, 0x32] 2 = Some (c', released) \<Longrightarrow>
      \<not> released \<and> session_table (c', []) = session_table (c, [])"
    unfolding table_release_def current by fastforce+
  with c(1) show ?thesis by blast
qed

section \<open>Commit and reload\<close>

lemma handle_dead: "co_core c \<Longrightarrow> h < length (co_paths c) \<Longrightarrow> h \<notin> set (handles c) \<Longrightarrow> \<not> path_active (inner_state (co_paths c ! h))"
  by (auto simp: co_core_def)

lemma handle_of_other:
  assumes "co_core c" and "map_of (co_active c) k = Some a" and "active_data_path a \<in> (active_data_path \<circ> snd) ` S"
    and "S \<subseteq> set (co_active c)"
  shows "(k, a) \<in> S"
proof -
  have inj: "inj_on (active_data_path \<circ> snd) (set (co_active c))"
    using assms(1) unfolding co_core_def handles_def distinct_map by blast
  obtain e where e: "e \<in> S" "(active_data_path \<circ> snd) e = (active_data_path \<circ> snd) (k, a)" using assms(3) by auto
  from inj_onD [OF inj e(2)] e(1) assms(4) map_of_SomeD [OF assms(2)] show ?thesis by blast
qed

text \<open>
  C11.  The newest session of a client wins.  When a negotiated session is committed and the registry
  in force still permits it, it becomes the current session of its client, with a live data path; the
  session it replaces loses its data path and has its connection closed, and no other client is
  affected.  When the registry has changed its mind, nothing but the new connection is closed.
\<close>

theorem newest_session_wins:
  assumes "registry_new server_ipv4 server_ipv6 identities = Inr registry"
    and "coordinator_with_resource_limits registry generation byte_limit packet_limit = Inr c0"
    and "server_step\<^sup>*\<^sup>* (c0, []) (c, pending)" and "OutcomeAccepted session \<in> set pending"
    and "managed_handshake_finish c (OutcomeAccepted session) connection drained now = Some (c', closed, result)"
  shows "if permitted (co_registry c) session
    then is_current c' (session_client session) (session_generation session) \<and>
      path_active (inner_state (co_paths c' ! length (co_paths c))) \<and>
      result = Inr (ManagedActive session \<lparr>report_session_generation = session_generation session,
        report_replaced_generation = map_option active_generation (map_of (co_active c) (session_client session))\<rparr>
        (length (co_paths c))) \<and>
      (\<forall>k. k \<noteq> session_client session \<longrightarrow> map_of (co_active c') k = map_of (co_active c) k) \<and>
      (case map_of (co_active c) (session_client session) of
         None \<Rightarrow> closed = []
       | Some old \<Rightarrow> closed = [(active_connection old, VPN_CLOSE_SESSION_REPLACED, SESSION_REPLACED_REASON)] \<and>
           \<not> path_active (inner_state (co_paths c' ! active_data_path old)))
    else co_active c' = co_active c \<and> co_paths c' = co_paths c \<and> (\<exists>e. result = Inl (Commit e)) \<and>
      closed = [(connection, VPN_CLOSE_COMMIT_REJECTED, COMMIT_REJECTED_REASON)]"
proof -
  note inv = server_reachable(2) [OF assms(1-3)]
  have core: "co_core c" using inv by (simp add: co_inv_def)
  have valid: "accept_validate (session_accept session) = Inr ()"
    using server_reachable(1) [OF assms(1-3)] assms(4) by (auto simp: server_inv_def)
  let ?k = "session_client session"
  show ?thesis
  proof (cases "permitted (co_registry c) session")
    case True
    then obtain identity where id: "commit_identity (co_registry c) session = Inr identity"
      using commit_identity_permitted by blast
    let ?new = "\<lparr>active_session_of = session, active_connection = connection, active_data_path = length (co_paths c)\<rparr>"
    obtain d where d: "commit_with_handle_at c session connection now = Some (d,
        (case map_of (co_active c) ?k of None \<Rightarrow> []
         | Some old \<Rightarrow> [(active_connection old, VPN_CLOSE_SESSION_REPLACED, SESSION_REPLACED_REASON)]),
        Inr (\<lparr>report_session_generation = session_generation session,
          report_replaced_generation = map_option active_generation (map_of (co_active c) ?k)\<rparr>, length (co_paths c)))"
      "co_inv d" "co_active d = hm_insert ?k ?new (co_active c)" "length (co_paths d) = Suc (length (co_paths c))"
      "path_active (inner_state (co_paths d ! length (co_paths c)))"
      by (rule commit_ok [OF inv valid id, where connection = connection and now = now])
    have c': "c' = d" using assms(5) d(1) by (simp add: managed_handshake_finish_def)
    have dead: "\<not> path_active (inner_state (co_paths d ! active_data_path old))" if old: "map_of (co_active c) ?k = Some old" for old
    proof (rule handle_dead)
      show "co_core d" using d(2) by (simp add: co_inv_def)
      have "active_data_path old \<in> set (handles c)" using map_of_SomeD [OF old] by (force simp: handles_def)
      then have lt: "active_data_path old < length (co_paths c)" using core by (simp add: co_core_def)
      then show "active_data_path old < length (co_paths d)" using d(4) by simp
      have "active_data_path old \<notin> (active_data_path \<circ> snd) ` set (hm_remove ?k (co_active c))"
        using handle_of_other [OF core old, of "set (hm_remove ?k (co_active c))"] unfolding set_hm_remove
        by (simp only: mem_Collect_eq fst_conv) (simp add: subset_iff, blast)
      with lt show "active_data_path old \<notin> set (handles d)" by (simp add: handles_def d(3) hm_insert_def)
    qed
    have "is_current d ?k (session_generation session)"
      by (simp add: is_current_def is_some_and_def d(3) active_generation_def)
    moreover have "\<forall>k. k \<noteq> ?k \<longrightarrow> map_of (co_active d) k = map_of (co_active c) k" by (simp add: d(3))
    ultimately show ?thesis
      using True c' d(1,5) dead assms(5) by (auto simp: managed_handshake_finish_def split: option.splits)
  next
    case False
    then obtain e where "commit_identity (co_registry c) session = Inl e"
      using commit_identity_permitted by (metis obj_sumE)
    from commit_refused_ok(1) [OF inv this, of connection now] False assms(5) show ?thesis
      by (auto simp: managed_handshake_finish_def)
  qed
qed

theorem newest_session_wins_witness:
  "\<exists>c' closed result. managed_handshake_finish (sample_coordinator\<lparr>co_next_generation := 2\<rparr>)
       (OutcomeAccepted sample_session) 3 True 0 = Some (c', closed, result) \<and> is_current c' [0x61, 0x32] 1"
proof -
  let ?c = "sample_coordinator\<lparr>co_next_generation := 2\<rparr>"
  have steps: "server_step\<^sup>*\<^sup>* (sample_coordinator, []) (?c, [OutcomeAccepted sample_session])"
    using sample_pending by (rule r_into_rtranclp)
  note inv = server_reachable(2) [OF sample_registry_new sample_coordinator_new steps]
  obtain identity where id: "commit_identity (co_registry ?c) sample_session = Inr identity"
    using sample_commits(1) by (auto simp: sample_coordinator_def)
  then have p: "permitted (co_registry ?c) sample_session" using commit_identity_permitted by blast
  obtain d closed r where "commit_with_handle_at ?c sample_session 3 0 = Some (d, closed, r)"
    by (rule commit_ok [OF inv sample_commits(4) id, where connection = 3 and now = 0])
  then obtain result where run: "managed_handshake_finish ?c (OutcomeAccepted sample_session) 3 True 0 = Some (d, closed, result)"
    by (auto simp: managed_handshake_finish_def)
  from newest_session_wins [OF sample_registry_new sample_coordinator_new steps _ run] p
  have "is_current d (session_client sample_session) (session_generation sample_session)" by auto
  then show ?thesis using run sample_commits(2,3) by auto
qed

lemma fold_count_decisions:
  fixes ds :: "(bytes \<times> ReconcileDecision) list" and r :: VpnSessionReconcileReport
  defines "r' \<equiv> fold (count_decision \<circ> snd) ds r"
  shows "sessions_kept r' = sessions_kept r + length (filter (\<lambda>e. snd e = Keep) ds)"
    and "sessions_identity_revoked r' + sessions_policy_changed r' =
      sessions_identity_revoked r + sessions_policy_changed r + length (filter (\<lambda>e. snd e \<noteq> Keep) ds)"
proof -
  have step: "sessions_kept (count_decision d x) = sessions_kept x + (if d = Keep then 1 else 0)"
    "sessions_identity_revoked (count_decision d x) + sessions_policy_changed (count_decision d x) =
      sessions_identity_revoked x + sessions_policy_changed x + (if d = Keep then 0 else 1)" for d x
    by (cases d; simp add: count_decision_def)+
  show "sessions_kept r' = sessions_kept r + length (filter (\<lambda>e. snd e = Keep) ds)"
    unfolding r'_def by (induction ds arbitrary: r) (simp_all add: step(1))
  show "sessions_identity_revoked r' + sessions_policy_changed r' =
      sessions_identity_revoked r + sessions_policy_changed r + length (filter (\<lambda>e. snd e \<noteq> Keep) ds)"
    unfolding r'_def by (induction ds arbitrary: r) (simp_all add: step(2))
qed

lemma reconcile_codes:
  assumes "\<not> authorized registry (k, a)"
  defines "d \<equiv> reconcile_decision registry k (active_session_of a)"
  shows "(close_code d, close_message d) =
    (if \<exists>identity. authorize registry (session_fingerprint (active_session_of a)) = Inr identity \<and> identity_client_id identity = k
     then (VPN_CLOSE_POLICY_CHANGED, POLICY_CHANGED_REASON) else (VPN_CLOSE_IDENTITY_REVOKED, IDENTITY_REVOKED_REASON))"
  using assms by (auto simp: reconcile_decision_def authorized_def split: sum.splits)

lemma removed_path_dead:
  assumes "co_core c" and "co_core c'" and "length (co_paths c') = length (co_paths c)"
    and "co_active c' = filter P (co_active c)" and "map_of (co_active c) k = Some a" and "\<not> P (k, a)"
  shows "\<not> path_active (inner_state (co_paths c' ! active_data_path a))"
proof (rule handle_dead [OF assms(2)])
  have "active_data_path a \<in> set (handles c)" using map_of_SomeD [OF assms(5)] by (force simp: handles_def)
  then show "active_data_path a < length (co_paths c')" using assms(1,3) by (simp add: co_core_def)
  have "set (co_active c') \<subseteq> set (co_active c)" by (auto simp: assms(4))
  then show "active_data_path a \<notin> set (handles c')"
    using handle_of_other [OF assms(1,5), of "set (co_active c')"] assms(6) by (auto simp: handles_def assms(4))
qed

lemma decision_closes_mem:
  assumes "map_of entries k = Some a" and "D k a \<noteq> Keep"
  shows "(active_connection a, close_code (D k a), close_message (D k a)) \<in>
    set (decision_closes entries (map (\<lambda>(k, a). (k, D k a)) entries))"
proof -
  have "(k, D k a) \<in> set (filter (\<lambda>(k, d). d \<noteq> Keep) (map (\<lambda>(k, a). (k, D k a)) entries))"
    using map_of_SomeD [OF assms(1)] assms(2) by force
  then show ?thesis using assms(1) unfolding decision_closes_def by force
qed

text \<open>
  C10.  A reload applies the new registry at once and to everyone.  The sessions it keeps are exactly
  those the new registry permits, unchanged; every other session loses its data path and has its
  connection closed, as revoked when its certificate no longer belongs to an enabled identity of that
  client and as a change of policy otherwise; and the report accounts for every session.
\<close>

theorem reload_enforces_registry:
  assumes "registry_new server_ipv4 server_ipv6 identities = Inr registry"
    and "coordinator_with_resource_limits registry generation byte_limit packet_limit = Inr c0"
    and "server_step\<^sup>*\<^sup>* (c0, []) (c, pending)"
    and "registry_new server_ipv4' server_ipv6' identities' = Inr registry'"
    and "replace_registry c registry' now = Some (c', closed, reloaded, sessions)"
  shows "co_registry c' = registry' \<and>
    (\<forall>client_id a. map_of (co_active c) client_id = Some a \<longrightarrow>
      (if permitted registry' (active_session_of a) then map_of (co_active c') client_id = Some a
       else map_of (co_active c') client_id = None \<and> \<not> path_active (inner_state (co_paths c' ! active_data_path a)) \<and>
         (active_connection a,
          if \<exists>identity. authorize registry' (session_fingerprint (active_session_of a)) = Inr identity \<and>
            identity_client_id identity = client_id
          then (VPN_CLOSE_POLICY_CHANGED, POLICY_CHANGED_REASON)
          else (VPN_CLOSE_IDENTITY_REVOKED, IDENTITY_REVOKED_REASON)) \<in> set closed)) \<and>
    (\<forall>client_id. map_of (co_active c) client_id = None \<longrightarrow> map_of (co_active c') client_id = None) \<and>
    sessions_kept sessions = length (co_active c') \<and>
    sessions_identity_revoked sessions + sessions_policy_changed sessions = length closed \<and>
    sessions_kept sessions + length closed = length (co_active c)"
proof -
  have core: "co_core c" using server_reachable(2) [OF assms(1-3)] by (simp add: co_inv_def)
  have wf: "hm_wf (co_active c)" using core by (simp add: co_core_def)
  have built: "registry_built registry'" using assms(4) by (auto simp: registry_built_def)
  let ?d = "\<lambda>k a. reconcile_decision registry' k (active_session_of a)"
  let ?ds = "map (\<lambda>(k, a). (k, ?d k a)) (co_active c)"
  let ?z = "\<lparr>sessions_kept = 0, sessions_identity_revoked = 0, sessions_policy_changed = 0\<rparr>"
  obtain x y u v where "replace_registry c registry' now = Some (x, y, u, v)" "co_inv x" "co_registry x = registry'"
    "co_active x = filter (authorized registry') (co_active c)" "length (co_paths x) = length (co_paths c)"
    "v = fold (count_decision \<circ> snd) ?ds ?z" "y = decision_closes (co_active c) ?ds"
    by (rule replace_registry_ok [OF core built])
  then have c': "co_inv c'" "co_registry c' = registry'" "co_active c' = filter (authorized registry') (co_active c)"
    "length (co_paths c') = length (co_paths c)" "sessions = fold (count_decision \<circ> snd) ?ds ?z"
    "closed = decision_closes (co_active c) ?ds"
    using assms(5) by simp_all
  note entry = map_of_filter_entries [OF wf, of "authorized registry'", folded c'(3)]
  have kept: "length (filter (\<lambda>e. snd e = Keep) ?ds) = length (co_active c')"
    by (auto simp: c'(3) filter_map comp_def split_def reconcile_Keep)
  have n: "length closed = length (filter (\<lambda>e. snd e \<noteq> Keep) ?ds)"
    by (simp add: c'(6) decision_closes_def split_def)
  have "length (filter (\<lambda>e. snd e = Keep) ?ds) + length (filter (\<lambda>e. snd e \<noteq> Keep) ?ds) = length ?ds"
    by (rule sum_length_filter_compl)
  then have sums: "sessions_kept sessions = length (co_active c')"
    "sessions_identity_revoked sessions + sessions_policy_changed sessions = length closed"
    "sessions_kept sessions + length closed = length (co_active c)"
    using fold_count_decisions [of ?ds ?z] kept n by (simp_all add: c'(5))
  have core': "co_core c'" using c'(1) by (simp add: co_inv_def)
  have gone: "\<not> path_active (inner_state (co_paths c' ! active_data_path a)) \<and>
      (active_connection a, close_code (?d k a), close_message (?d k a)) \<in> set closed"
    if a: "map_of (co_active c) k = Some a" and not: "\<not> authorized registry' (k, a)" for k a
    using removed_path_dead [OF core core' c'(4,3) that] decision_closes_mem [OF a, of ?d] not
    by (simp add: c'(6) reconcile_Keep)
  have auth: "authorized registry' (k, a) = permitted registry' (active_session_of a)" if "map_of (co_active c) k = Some a" for k a
    by (rule authorized_permitted [OF co_core_client [OF core that]])
  show ?thesis
    using c'(2) sums gone entry auth reconcile_codes [of registry'] by (auto split: if_splits)
qed

theorem reload_enforces_registry_witness:
  "\<exists>c c' closed reloaded sessions. is_current c [0x61, 0x32] 1 \<and>
     replace_registry c sample_registry 9 = Some (c', closed, reloaded, sessions) \<and> sessions_kept sessions = 1 \<and> closed = []"
proof -
  obtain c where c: "server_step\<^sup>*\<^sup>* (sample_coordinator, []) (c, [])" "is_current c [0x61, 0x32] 1"
    "co_active c = [([0x61, 0x32], \<lparr>active_session_of = sample_session, active_connection = 3, active_data_path = 0\<rparr>)]"
    using sample_connected by metis
  have "co_core c" using server_reachable(2) [OF sample_registry_new sample_coordinator_new c(1)] by (simp add: co_inv_def)
  moreover have "registry_built sample_registry" using sample_registry_new by (auto simp: registry_built_def)
  ultimately obtain c' closed reloaded sessions
    where r: "replace_registry c sample_registry 9 = Some (c', closed, reloaded, sessions)" "co_active c' = filter (authorized sample_registry) (co_active c)"
    by (rule replace_registry_ok)
  have "permitted sample_registry sample_session" using sample_commits(1) commit_identity_permitted by blast
  then have "length (co_active c') = 1"
    unfolding r(2) c(3) using authorized_permitted [of _ "[0x61, 0x32]" sample_registry] sample_commits(2) by simp
  moreover have "length (co_active c) = 1" by (simp add: c(3))
  ultimately have "sessions_kept sessions = 1" "sessions_kept sessions + length closed = 1"
    using reload_enforces_registry [OF sample_registry_new sample_coordinator_new c(1) sample_registry_new r(1)] by linarith+
  then have "sessions_kept sessions = 1 \<and> closed = []" by simp
  then show ?thesis using c(2) r(1) by blast
qed

end
