(* ===== verification/Vpn_Runtime.thy ===== *)
theory Vpn_Runtime
  imports Vpn_Client_Path Flow_Allocator
begin

text \<open>
  The datagram runtime of a session (\<open>vpn_datagram_runtime.rs\<close>): its configuration, the budget of its
  packet queues, one iteration of the inbound and of the outbound loop, and its supervision.  The
  QUIC connection, the channels and the timer are library objects: what a \<open>select!\<close> or a call on them
  yields is an argument of the iteration.  A packet holds its lease on a queue budget from the
  reservation until it is taken out of the queue (outbound) or dropped by its consumer (inbound).
\<close>

section \<open>Configuration\<close>

definition VPN_DEFAULT_PACKET_QUEUE_PACKETS :: usize where
  "VPN_DEFAULT_PACKET_QUEUE_PACKETS = 1024"

definition VPN_DEFAULT_PACKET_QUEUE_BYTES :: usize where
  "VPN_DEFAULT_PACKET_QUEUE_BYTES = 8 * 1024 * 1024"

definition VPN_MAX_PACKET_QUEUE_PACKETS :: usize where
  "VPN_MAX_PACKET_QUEUE_PACKETS = 65536"

definition VPN_MAX_PACKET_QUEUE_BYTES :: usize where
  "VPN_MAX_PACKET_QUEUE_BYTES = 1024 * 1024 * 1024"

definition VPN_DEFAULT_REASSEMBLY_TICK :: duration where
  "VPN_DEFAULT_REASSEMBLY_TICK = 250 * 10 ^ 6"

definition VPN_MAX_REASSEMBLY_TICK :: duration where
  "VPN_MAX_REASSEMBLY_TICK = 3 * 10 ^ 9"

lemmas runtime_consts = VPN_DEFAULT_PACKET_QUEUE_PACKETS_def VPN_DEFAULT_PACKET_QUEUE_BYTES_def
  VPN_MAX_PACKET_QUEUE_PACKETS_def VPN_MAX_PACKET_QUEUE_BYTES_def VPN_DEFAULT_REASSEMBLY_TICK_def
  VPN_MAX_REASSEMBLY_TICK_def

datatype VpnDatagramRole = Server | Client

fun directions :: "VpnDatagramRole \<Rightarrow> VpnPacketDirection \<times> VpnPacketDirection" where
  "directions Server = (Uplink, Downlink)"
| "directions Client = (Downlink, Uplink)"

datatype VpnDatagramRuntimeConfigError =
    InvalidDatagramLength | InvalidQueuePacketLimit | InvalidQueueByteLimit | InvalidReassemblyTick

fun VpnDatagramRuntimeConfigError_display :: "VpnDatagramRuntimeConfigError \<Rightarrow> string" where
  "VpnDatagramRuntimeConfigError_display InvalidDatagramLength = ''vpn_datagram_runtime_invalid_datagram_length''"
| "VpnDatagramRuntimeConfigError_display InvalidQueuePacketLimit = ''vpn_datagram_runtime_invalid_queue_packet_limit''"
| "VpnDatagramRuntimeConfigError_display InvalidQueueByteLimit = ''vpn_datagram_runtime_invalid_queue_byte_limit''"
| "VpnDatagramRuntimeConfigError_display InvalidReassemblyTick = ''vpn_datagram_runtime_invalid_reassembly_tick''"

record VpnDatagramRuntimeConfig =
  runtime_role :: VpnDatagramRole
  runtime_max_datagram_len :: usize
  runtime_inbound_queue_packets :: usize
  runtime_inbound_queue_bytes :: usize
  runtime_outbound_queue_packets :: usize
  runtime_outbound_queue_bytes :: usize
  runtime_reassembly_tick :: duration

definition runtime_config_validate :: "VpnDatagramRuntimeConfig \<Rightarrow> VpnDatagramRuntimeConfigError + unit" where
  "runtime_config_validate c =
     (if \<not> (VPN_MIN_QUIC_DATAGRAM_LEN \<le> runtime_max_datagram_len c \<and> runtime_max_datagram_len c \<le> u16_max)
      then Inl InvalidDatagramLength
      else if runtime_inbound_queue_packets c = 0 \<or> runtime_inbound_queue_packets c > VPN_MAX_PACKET_QUEUE_PACKETS \<or>
        runtime_outbound_queue_packets c = 0 \<or> runtime_outbound_queue_packets c > VPN_MAX_PACKET_QUEUE_PACKETS
      then Inl InvalidQueuePacketLimit
      else if \<not> (VPN_MAX_IP_PACKET_LEN \<le> runtime_inbound_queue_bytes c \<and>
                 runtime_inbound_queue_bytes c \<le> VPN_MAX_PACKET_QUEUE_BYTES) \<or>
        \<not> (VPN_MAX_IP_PACKET_LEN \<le> runtime_outbound_queue_bytes c \<and>
           runtime_outbound_queue_bytes c \<le> VPN_MAX_PACKET_QUEUE_BYTES)
      then Inl InvalidQueueByteLimit
      else if runtime_reassembly_tick c = 0 \<or> runtime_reassembly_tick c > VPN_MAX_REASSEMBLY_TICK
      then Inl InvalidReassemblyTick
      else Inr ())"

definition runtime_config_new ::
  "VpnDatagramRole \<Rightarrow> usize \<Rightarrow> VpnDatagramRuntimeConfigError + VpnDatagramRuntimeConfig" where
  "runtime_config_new role max_datagram_len =
     (let config = \<lparr>runtime_role = role, runtime_max_datagram_len = max_datagram_len,
            runtime_inbound_queue_packets = VPN_DEFAULT_PACKET_QUEUE_PACKETS,
            runtime_inbound_queue_bytes = VPN_DEFAULT_PACKET_QUEUE_BYTES,
            runtime_outbound_queue_packets = VPN_DEFAULT_PACKET_QUEUE_PACKETS,
            runtime_outbound_queue_bytes = VPN_DEFAULT_PACKET_QUEUE_BYTES,
            runtime_reassembly_tick = VPN_DEFAULT_REASSEMBLY_TICK\<rparr> in
      try_then (runtime_config_validate config) (\<lambda>_. Inr config))"

definition from_accept ::
  "VpnDatagramRole \<Rightarrow> VpnAccept \<Rightarrow> VpnDatagramRuntimeConfigError + VpnDatagramRuntimeConfig" where
  "from_accept role accept = runtime_config_new role (unat (accept_max_datagram_len accept))"

definition with_queue_limits ::
  "VpnDatagramRuntimeConfig \<Rightarrow> usize \<Rightarrow> usize \<Rightarrow> usize \<Rightarrow> usize \<Rightarrow>
   VpnDatagramRuntimeConfigError + VpnDatagramRuntimeConfig" where
  "with_queue_limits config inbound_packets inbound_bytes outbound_packets outbound_bytes =
     (let config = config\<lparr>runtime_inbound_queue_packets := inbound_packets,
            runtime_inbound_queue_bytes := inbound_bytes,
            runtime_outbound_queue_packets := outbound_packets,
            runtime_outbound_queue_bytes := outbound_bytes\<rparr> in
      try_then (runtime_config_validate config) (\<lambda>_. Inr config))"

definition with_reassembly_tick ::
  "VpnDatagramRuntimeConfig \<Rightarrow> duration \<Rightarrow> VpnDatagramRuntimeConfigError + VpnDatagramRuntimeConfig" where
  "with_reassembly_tick config reassembly_tick =
     (let config = config\<lparr>runtime_reassembly_tick := reassembly_tick\<rparr> in
      try_then (runtime_config_validate config) (\<lambda>_. Inr config))"

section \<open>Errors and exits\<close>

datatype VpnDatagramRuntimeStartError =
    InvalidConfig VpnDatagramRuntimeConfigError | RuntimeUnavailable | InactiveDataPath
  | DataPathAlreadyBound | DatagramUnavailable | DatagramCapacityTooSmall

fun VpnDatagramRuntimeStartError_display :: "VpnDatagramRuntimeStartError \<Rightarrow> string" where
  "VpnDatagramRuntimeStartError_display (InvalidConfig e) =
     ''vpn_datagram_runtime_config:'' @ VpnDatagramRuntimeConfigError_display e"
| "VpnDatagramRuntimeStartError_display RuntimeUnavailable = ''vpn_datagram_runtime_no_tokio''"
| "VpnDatagramRuntimeStartError_display InactiveDataPath = ''vpn_datagram_runtime_inactive_path''"
| "VpnDatagramRuntimeStartError_display DataPathAlreadyBound = ''vpn_datagram_runtime_path_already_bound''"
| "VpnDatagramRuntimeStartError_display DatagramUnavailable = ''vpn_datagram_runtime_datagram_unavailable''"
| "VpnDatagramRuntimeStartError_display DatagramCapacityTooSmall = ''vpn_datagram_runtime_datagram_too_small''"

datatype VpnPacketQueueError = InvalidPacketSize | PacketLimit | ByteLimit | QueueClosed

fun VpnPacketQueueError_display :: "VpnPacketQueueError \<Rightarrow> string" where
  "VpnPacketQueueError_display InvalidPacketSize = ''vpn_packet_queue_invalid_packet_size''"
| "VpnPacketQueueError_display PacketLimit = ''vpn_packet_queue_packet_limit''"
| "VpnPacketQueueError_display ByteLimit = ''vpn_packet_queue_byte_limit''"
| "VpnPacketQueueError_display QueueClosed = ''vpn_packet_queue_closed''"

datatype VpnDatagramRuntimeStopReason =
    ShutdownRequested | ConnectionClosed | ConnectionFailed | DataPathStale | ResourceInvariant
  | DatagramSendFailed | PacketIdExhausted | InboundConsumerClosed | WorkerFailed

datatype VpnRuntimeTaskExit =
    ExitStopped | ExitConnectionClosed | ExitConnectionFailed | ExitDataPathStale | ExitResourceInvariant
  | ExitDatagramSendFailed | ExitPacketIdExhausted | ExitInboundConsumerClosed | ExitWorkerFailed

fun stop_reason :: "VpnRuntimeTaskExit \<Rightarrow> VpnDatagramRuntimeStopReason" where
  "stop_reason ExitStopped = ShutdownRequested"
| "stop_reason ExitConnectionClosed = ConnectionClosed"
| "stop_reason ExitConnectionFailed = ConnectionFailed"
| "stop_reason ExitDataPathStale = DataPathStale"
| "stop_reason ExitResourceInvariant = ResourceInvariant"
| "stop_reason ExitDatagramSendFailed = DatagramSendFailed"
| "stop_reason ExitPacketIdExhausted = PacketIdExhausted"
| "stop_reason ExitInboundConsumerClosed = InboundConsumerClosed"
| "stop_reason ExitWorkerFailed = WorkerFailed"

section \<open>Counters\<close>

text \<open>The atomic counters saturate at the largest 64-bit value.\<close>

record VpnDatagramRuntimeMetricCounters =
  received_datagrams :: nat
  received_datagram_bytes :: nat
  rejected_datagrams :: nat
  completed_inbound_packets :: nat
  completed_inbound_bytes :: nat
  inbound_queue_dropped_packets :: nat
  inbound_queue_dropped_bytes :: nat
  outbound_queue_accepted_packets :: nat
  outbound_queue_accepted_bytes :: nat
  outbound_queue_dropped_packets :: nat
  outbound_queue_dropped_bytes :: nat
  outbound_packets_encoded :: nat
  outbound_packets_sent :: nat
  outbound_packets_rejected :: nat
  outbound_fragments_sent :: nat
  outbound_fragment_bytes :: nat
  outbound_packets_partially_sent :: nat
  reassembly_packets_expired :: nat

definition runtime_counters_default :: VpnDatagramRuntimeMetricCounters where
  "runtime_counters_default =
     \<lparr>received_datagrams = 0, received_datagram_bytes = 0,
      rejected_datagrams = 0, completed_inbound_packets = 0,
      completed_inbound_bytes = 0, inbound_queue_dropped_packets = 0,
      inbound_queue_dropped_bytes = 0, outbound_queue_accepted_packets = 0,
      outbound_queue_accepted_bytes = 0, outbound_queue_dropped_packets = 0,
      outbound_queue_dropped_bytes = 0, outbound_packets_encoded = 0,
      outbound_packets_sent = 0, outbound_packets_rejected = 0,
      outbound_fragments_sent = 0, outbound_fragment_bytes = 0,
      outbound_packets_partially_sent = 0, reassembly_packets_expired = 0\<rparr>"

definition record_received_datagram :: "usize \<Rightarrow> VpnDatagramRuntimeMetricCounters \<Rightarrow> VpnDatagramRuntimeMetricCounters" where
  "record_received_datagram n m = m\<lparr>received_datagrams := sat_add_u64 (received_datagrams m) 1, received_datagram_bytes := sat_add_u64 (received_datagram_bytes m) n\<rparr>"

definition record_rejected_datagram :: "VpnDatagramRuntimeMetricCounters \<Rightarrow> VpnDatagramRuntimeMetricCounters" where
  "record_rejected_datagram m = m\<lparr>rejected_datagrams := sat_add_u64 (rejected_datagrams m) 1\<rparr>"

definition record_completed_inbound :: "usize \<Rightarrow> VpnDatagramRuntimeMetricCounters \<Rightarrow> VpnDatagramRuntimeMetricCounters" where
  "record_completed_inbound n m = m\<lparr>completed_inbound_packets := sat_add_u64 (completed_inbound_packets m) 1, completed_inbound_bytes := sat_add_u64 (completed_inbound_bytes m) n\<rparr>"

definition record_inbound_queue_drop :: "usize \<Rightarrow> VpnDatagramRuntimeMetricCounters \<Rightarrow> VpnDatagramRuntimeMetricCounters" where
  "record_inbound_queue_drop n m = m\<lparr>inbound_queue_dropped_packets := sat_add_u64 (inbound_queue_dropped_packets m) 1, inbound_queue_dropped_bytes := sat_add_u64 (inbound_queue_dropped_bytes m) n\<rparr>"

definition record_outbound_queue_accept :: "usize \<Rightarrow> VpnDatagramRuntimeMetricCounters \<Rightarrow> VpnDatagramRuntimeMetricCounters" where
  "record_outbound_queue_accept n m = m\<lparr>outbound_queue_accepted_packets := sat_add_u64 (outbound_queue_accepted_packets m) 1, outbound_queue_accepted_bytes := sat_add_u64 (outbound_queue_accepted_bytes m) n\<rparr>"

definition record_outbound_queue_drop :: "usize \<Rightarrow> VpnDatagramRuntimeMetricCounters \<Rightarrow> VpnDatagramRuntimeMetricCounters" where
  "record_outbound_queue_drop n m = m\<lparr>outbound_queue_dropped_packets := sat_add_u64 (outbound_queue_dropped_packets m) 1, outbound_queue_dropped_bytes := sat_add_u64 (outbound_queue_dropped_bytes m) n\<rparr>"

definition record_outbound_encoded :: "VpnDatagramRuntimeMetricCounters \<Rightarrow> VpnDatagramRuntimeMetricCounters" where
  "record_outbound_encoded m = m\<lparr>outbound_packets_encoded := sat_add_u64 (outbound_packets_encoded m) 1\<rparr>"

definition record_outbound_sent :: "VpnDatagramRuntimeMetricCounters \<Rightarrow> VpnDatagramRuntimeMetricCounters" where
  "record_outbound_sent m = m\<lparr>outbound_packets_sent := sat_add_u64 (outbound_packets_sent m) 1\<rparr>"

definition record_outbound_rejected :: "VpnDatagramRuntimeMetricCounters \<Rightarrow> VpnDatagramRuntimeMetricCounters" where
  "record_outbound_rejected m = m\<lparr>outbound_packets_rejected := sat_add_u64 (outbound_packets_rejected m) 1\<rparr>"

definition record_fragment_sent :: "usize \<Rightarrow> VpnDatagramRuntimeMetricCounters \<Rightarrow> VpnDatagramRuntimeMetricCounters" where
  "record_fragment_sent n m = m\<lparr>outbound_fragments_sent := sat_add_u64 (outbound_fragments_sent m) 1, outbound_fragment_bytes := sat_add_u64 (outbound_fragment_bytes m) n\<rparr>"

definition record_partial_send :: "VpnDatagramRuntimeMetricCounters \<Rightarrow> VpnDatagramRuntimeMetricCounters" where
  "record_partial_send m = m\<lparr>outbound_packets_partially_sent := sat_add_u64 (outbound_packets_partially_sent m) 1\<rparr>"

definition record_expired :: "usize \<Rightarrow> VpnDatagramRuntimeMetricCounters \<Rightarrow> VpnDatagramRuntimeMetricCounters" where
  "record_expired n m = m\<lparr>reassembly_packets_expired := sat_add_u64 (reassembly_packets_expired m) n\<rparr>"

lemmas runtime_counter_defs = record_received_datagram_def record_rejected_datagram_def record_completed_inbound_def
  record_inbound_queue_drop_def record_outbound_queue_accept_def record_outbound_queue_drop_def
  record_outbound_encoded_def record_outbound_sent_def record_outbound_rejected_def record_fragment_sent_def
  record_partial_send_def record_expired_def

section \<open>Queue budgets\<close>

definition queue_try_add_bounded :: "usize \<Rightarrow> usize \<Rightarrow> usize \<Rightarrow> usize option" where
  "queue_try_add_bounded current amount limit =
     (case checked_add_usize current amount of
        None \<Rightarrow> None
      | Some next_value \<Rightarrow> if next_value \<le> limit then Some next_value else None)"

definition queue_subtract :: "usize \<Rightarrow> usize \<Rightarrow> usize option" where
  "queue_subtract current amount = checked_sub_usize current amount"

record VpnPacketQueueBudget =
  queue_packet_limit :: usize
  queue_byte_limit :: usize
  queue_current_packets :: usize
  queue_current_bytes :: usize
  queue_peak_packets :: usize
  queue_peak_bytes :: usize

definition queue_budget_new :: "usize \<Rightarrow> usize \<Rightarrow> VpnPacketQueueBudget" where
  "queue_budget_new packet_limit byte_limit =
     \<lparr>queue_packet_limit = packet_limit, queue_byte_limit = byte_limit, queue_current_packets = 0,
      queue_current_bytes = 0, queue_peak_packets = 0, queue_peak_bytes = 0\<rparr>"

definition queue_try_reserve ::
  "VpnPacketQueueBudget \<Rightarrow> usize \<Rightarrow> (VpnPacketQueueBudget \<times> (VpnPacketQueueError + unit)) option" where
  "queue_try_reserve b n =
     (case queue_try_add_bounded (queue_current_bytes b) n (queue_byte_limit b) of
        None \<Rightarrow> Some (b, Inl ByteLimit)
      | Some current_bytes \<Rightarrow>
          let b = b\<lparr>queue_current_bytes := current_bytes\<rparr> in
          (case queue_try_add_bounded (queue_current_packets b) 1 (queue_packet_limit b) of
             None \<Rightarrow>
               Option.bind (queue_subtract (queue_current_bytes b) n) (\<lambda>restored.
               Some (b\<lparr>queue_current_bytes := restored\<rparr>, Inl PacketLimit))
           | Some current_packets \<Rightarrow>
               Some (b\<lparr>queue_current_packets := current_packets,
                       queue_peak_bytes := max (queue_peak_bytes b) current_bytes,
                       queue_peak_packets := max (queue_peak_packets b) current_packets\<rparr>, Inr ())))"

definition queue_release :: "VpnPacketQueueBudget \<Rightarrow> usize \<Rightarrow> VpnPacketQueueBudget option" where
  "queue_release b n =
     Option.bind (queue_subtract (queue_current_bytes b) n) (\<lambda>current_bytes.
     Option.bind (queue_subtract (queue_current_packets b) 1) (\<lambda>current_packets.
     Some (b\<lparr>queue_current_bytes := current_bytes, queue_current_packets := current_packets\<rparr>)))"

record VpnPacketQueueBudgetSnapshot =
  queue_snap_current_packets :: usize
  queue_snap_current_bytes :: usize
  queue_snap_peak_packets :: usize
  queue_snap_peak_bytes :: usize

definition queue_budget_snapshot :: "VpnPacketQueueBudget \<Rightarrow> VpnPacketQueueBudgetSnapshot" where
  "queue_budget_snapshot b =
     \<lparr>queue_snap_current_packets = queue_current_packets b, queue_snap_current_bytes = queue_current_bytes b,
      queue_snap_peak_packets = queue_peak_packets b, queue_snap_peak_bytes = queue_peak_bytes b\<rparr>"

record VpnDatagramRuntimeMetricsSnapshot =
  snap_received_datagrams :: nat
  snap_received_datagram_bytes :: nat
  snap_rejected_datagrams :: nat
  snap_completed_inbound_packets :: nat
  snap_completed_inbound_bytes :: nat
  snap_inbound_queue_dropped_packets :: nat
  snap_inbound_queue_dropped_bytes :: nat
  snap_outbound_queue_accepted_packets :: nat
  snap_outbound_queue_accepted_bytes :: nat
  snap_outbound_queue_dropped_packets :: nat
  snap_outbound_queue_dropped_bytes :: nat
  snap_outbound_packets_encoded :: nat
  snap_outbound_packets_sent :: nat
  snap_outbound_packets_rejected :: nat
  snap_outbound_fragments_sent :: nat
  snap_outbound_fragment_bytes :: nat
  snap_outbound_packets_partially_sent :: nat
  snap_reassembly_packets_expired :: nat
  snap_inbound_queue_current_packets :: usize
  snap_inbound_queue_current_bytes :: usize
  snap_inbound_queue_peak_packets :: usize
  snap_inbound_queue_peak_bytes :: usize
  snap_outbound_queue_current_packets :: usize
  snap_outbound_queue_current_bytes :: usize
  snap_outbound_queue_peak_packets :: usize
  snap_outbound_queue_peak_bytes :: usize

definition runtime_snapshot ::
  "VpnDatagramRuntimeMetricCounters \<Rightarrow> VpnPacketQueueBudget \<Rightarrow> VpnPacketQueueBudget \<Rightarrow> VpnDatagramRuntimeMetricsSnapshot" where
  "runtime_snapshot m inbound_budget outbound_budget =
     (let inbound = queue_budget_snapshot inbound_budget; outbound = queue_budget_snapshot outbound_budget in
      \<lparr>snap_received_datagrams = received_datagrams m,
       snap_received_datagram_bytes = received_datagram_bytes m,
       snap_rejected_datagrams = rejected_datagrams m,
       snap_completed_inbound_packets = completed_inbound_packets m,
       snap_completed_inbound_bytes = completed_inbound_bytes m,
       snap_inbound_queue_dropped_packets = inbound_queue_dropped_packets m,
       snap_inbound_queue_dropped_bytes = inbound_queue_dropped_bytes m,
       snap_outbound_queue_accepted_packets = outbound_queue_accepted_packets m,
       snap_outbound_queue_accepted_bytes = outbound_queue_accepted_bytes m,
       snap_outbound_queue_dropped_packets = outbound_queue_dropped_packets m,
       snap_outbound_queue_dropped_bytes = outbound_queue_dropped_bytes m,
       snap_outbound_packets_encoded = outbound_packets_encoded m,
       snap_outbound_packets_sent = outbound_packets_sent m,
       snap_outbound_packets_rejected = outbound_packets_rejected m,
       snap_outbound_fragments_sent = outbound_fragments_sent m,
       snap_outbound_fragment_bytes = outbound_fragment_bytes m,
       snap_outbound_packets_partially_sent = outbound_packets_partially_sent m,
       snap_reassembly_packets_expired = reassembly_packets_expired m,
       snap_inbound_queue_current_packets = queue_snap_current_packets inbound,
       snap_inbound_queue_current_bytes = queue_snap_current_bytes inbound,
       snap_inbound_queue_peak_packets = queue_snap_peak_packets inbound,
       snap_inbound_queue_peak_bytes = queue_snap_peak_bytes inbound,
       snap_outbound_queue_current_packets = queue_snap_current_packets outbound,
       snap_outbound_queue_current_bytes = queue_snap_current_bytes outbound,
       snap_outbound_queue_peak_packets = queue_snap_peak_packets outbound,
       snap_outbound_queue_peak_bytes = queue_snap_peak_bytes outbound\<rparr>)"

section \<open>The runtime\<close>

text \<open>
  \<open>run_outbound_queue\<close> holds the packets in the outbound channel, \<open>run_inbound_leases\<close> the packets in
  the inbound channel or in the hands of their consumer.
\<close>

record VpnDatagramRuntime =
  run_role :: VpnDatagramRole
  run_max_datagram_len :: usize
  run_path :: VpnDataPathInner
  run_env :: VpnPathShared
  run_inbound_budget :: VpnPacketQueueBudget
  run_outbound_budget :: VpnPacketQueueBudget
  run_metrics :: VpnDatagramRuntimeMetricCounters
  run_inbound_leases :: "VpnDataPacket list"
  run_outbound_queue :: "bytes list"
  run_packet_ids :: u32
  run_stopping :: bool
  run_shutdown_requested :: bool

text \<open>The errors of the channel and of the connection, as far as the source tells them apart.\<close>

datatype TrySendError = ChannelFull | ChannelClosed

datatype ConnectionError = ApplicationClosed | LocallyClosed | OtherConnectionError

datatype SendDatagramError = ConnectionLost ConnectionError | UnsupportedByPeer | Disabled | TooLarge

definition allocate_packet_id :: "u32 \<Rightarrow> u32 \<times> u32 option" where
  "allocate_packet_id current = (if current \<noteq> 0 then (current + 1, Some current) else (current, None))"

definition sender_try_send ::
  "VpnDatagramRuntime \<Rightarrow> bytes \<Rightarrow> (TrySendError + unit) \<Rightarrow> (VpnDatagramRuntime \<times> (VpnPacketQueueError + unit)) option" where
  "sender_try_send rt packet channel =
     (let n = length packet;
          dropped = (\<lambda>rt. rt\<lparr>run_metrics := record_outbound_queue_drop n (run_metrics rt)\<rparr>) in
      if n = 0 \<or> n > VPN_MAX_IP_PACKET_LEN then Some (dropped rt, Inl InvalidPacketSize)
      else Option.bind (queue_try_reserve (run_outbound_budget rt) n) (\<lambda>(budget, lease).
        let rt = rt\<lparr>run_outbound_budget := budget\<rparr> in
        case lease of
          Inl e \<Rightarrow> Some (dropped rt, Inl e)
        | Inr _ \<Rightarrow>
            (case channel of
               Inr _ \<Rightarrow> Some (rt\<lparr>run_outbound_queue := run_outbound_queue rt @ [packet],
                                  run_metrics := record_outbound_queue_accept n (run_metrics rt)\<rparr>, Inr ())
             | Inl e \<Rightarrow>
                 Option.bind (queue_release (run_outbound_budget rt) n) (\<lambda>budget.
                 Some (dropped (rt\<lparr>run_outbound_budget := budget\<rparr>),
                       Inl (case e of ChannelFull \<Rightarrow> PacketLimit | ChannelClosed \<Rightarrow> QueueClosed))))))"

text \<open>What the \<open>select!\<close> of the inbound loop yields: cancellation, a tick, or a read.\<close>

datatype InboundEvent = InboundCancelled | InboundTick instant | InboundRead "ConnectionError + bytes" instant

text \<open>A packet that \<open>ingest_datagram\<close> completed goes to the consumer, or is dropped.\<close>

definition deliver_inbound ::
  "VpnDatagramRuntime \<Rightarrow> VpnDataPacket \<Rightarrow> (TrySendError + unit) \<Rightarrow> (VpnDatagramRuntime \<times> VpnRuntimeTaskExit option) option" where
  "deliver_inbound rt packet channel =
     (let n = length (data_packet_bytes packet);
          dropped = (\<lambda>rt. rt\<lparr>run_metrics := record_inbound_queue_drop n (run_metrics rt)\<rparr>);
          rt = rt\<lparr>run_metrics := record_completed_inbound n (run_metrics rt)\<rparr> in
      Option.bind (queue_try_reserve (run_inbound_budget rt) n) (\<lambda>(budget, lease).
      let rt = rt\<lparr>run_inbound_budget := budget\<rparr> in
      case lease of
        Inl _ \<Rightarrow> Some (dropped rt, None)
      | Inr _ \<Rightarrow>
          (case channel of
             Inr _ \<Rightarrow> Some (rt\<lparr>run_inbound_leases := run_inbound_leases rt @ [packet]\<rparr>, None)
           | Inl e \<Rightarrow>
               Option.bind (queue_release (run_inbound_budget rt) n) (\<lambda>budget.
               Some (dropped (rt\<lparr>run_inbound_budget := budget\<rparr>),
                     case e of ChannelFull \<Rightarrow> None | ChannelClosed \<Rightarrow> Some ExitInboundConsumerClosed)))))"

definition inbound_iteration ::
  "VpnDatagramRuntime \<Rightarrow> InboundEvent \<Rightarrow> (TrySendError + unit) \<Rightarrow> (VpnDatagramRuntime \<times> VpnRuntimeTaskExit option) option" where
  "inbound_iteration rt event channel =
     (case event of
        InboundCancelled \<Rightarrow> Some (rt, Some ExitStopped)
      | InboundTick now \<Rightarrow>
          if \<not> path_snap_active (path_snapshot (run_path rt)) then Some (rt, Some ExitDataPathStale)
          else Option.bind (expire_reassembly (run_path rt) (run_env rt) now) (\<lambda>(inner, env, n).
               Some (rt\<lparr>run_path := inner, run_env := env, run_metrics := record_expired n (run_metrics rt)\<rparr>, None))
      | InboundRead (Inl ApplicationClosed) _ \<Rightarrow> Some (rt, Some ExitConnectionClosed)
      | InboundRead (Inl LocallyClosed) _ \<Rightarrow> Some (rt, Some ExitConnectionClosed)
      | InboundRead (Inl OtherConnectionError) _ \<Rightarrow> Some (rt, Some ExitConnectionFailed)
      | InboundRead (Inr datagram) now \<Rightarrow>
          let rt = rt\<lparr>run_metrics := record_received_datagram (length datagram) (run_metrics rt)\<rparr> in
          Option.bind (ingest_datagram (run_path rt) (run_env rt) (fst (directions (run_role rt))) datagram now)
            (\<lambda>(inner, env, result).
             let rt = rt\<lparr>run_path := inner, run_env := env\<rparr> in
             case result of
               Inr (Some packet) \<Rightarrow> deliver_inbound rt packet channel
             | Inr None \<Rightarrow> Some (rt, None)
             | Inl StaleGeneration \<Rightarrow> Some (rt, Some ExitDataPathStale)
             | Inl ResourceAccountingInvariant \<Rightarrow> Some (rt, Some ExitResourceInvariant)
             | Inl _ \<Rightarrow> Some (rt\<lparr>run_metrics := record_rejected_datagram (run_metrics rt)\<rparr>, None)))"

text \<open>Sending the fragments of a packet: what each send yields, and the datagrams that went out.\<close>

datatype SendEvent = SendCancelled | SendDone "SendDatagramError + unit"

fun send_exit :: "SendDatagramError \<Rightarrow> VpnRuntimeTaskExit" where
  "send_exit (ConnectionLost ApplicationClosed) = ExitConnectionClosed"
| "send_exit (ConnectionLost LocallyClosed) = ExitConnectionClosed"
| "send_exit (ConnectionLost OtherConnectionError) = ExitConnectionFailed"
| "send_exit UnsupportedByPeer = ExitDatagramSendFailed"
| "send_exit Disabled = ExitDatagramSendFailed"
| "send_exit TooLarge = ExitDatagramSendFailed"

fun send_fragments ::
  "nat \<Rightarrow> nat \<Rightarrow> bytes list \<Rightarrow> (nat \<Rightarrow> SendEvent) \<Rightarrow> VpnDatagramRuntimeMetricCounters \<Rightarrow>
   VpnDatagramRuntimeMetricCounters \<times> bytes list \<times> VpnRuntimeTaskExit option" where
  "send_fragments fragment_count sent [] events m = (m, [], None)"
| "send_fragments fragment_count sent (fragment # rest) events m =
     (case events sent of
        SendCancelled \<Rightarrow>
          (if sent > 0 \<and> sent < fragment_count then record_partial_send m else m, [], Some ExitStopped)
      | SendDone (Inr _) \<Rightarrow>
          let (m, datagrams, exit) =
            send_fragments fragment_count (sent + 1) rest events (record_fragment_sent (length fragment) m) in
          (m, fragment # datagrams, exit)
      | SendDone (Inl e) \<Rightarrow>
          (if sent > 0 then record_partial_send m else m, [], Some (send_exit e)))"

text \<open>One entry of the outbound loop: the lease is returned when the packet leaves its entry.\<close>

definition outbound_entry ::
  "VpnDatagramRuntime \<Rightarrow> bytes \<Rightarrow> instant \<Rightarrow> (nat \<Rightarrow> SendEvent) \<Rightarrow>
   (VpnDatagramRuntime \<times> bytes list \<times> VpnRuntimeTaskExit option) option" where
  "outbound_entry rt packet now events =
     Option.bind (queue_release (run_outbound_budget rt) (length packet)) (\<lambda>budget.
     let rt = rt\<lparr>run_outbound_budget := budget\<rparr>;
         (packet_ids, allocated) = allocate_packet_id (run_packet_ids rt);
         rt = rt\<lparr>run_packet_ids := packet_ids\<rparr> in
     case allocated of
       None \<Rightarrow> Some (rt, [], Some ExitPacketIdExhausted)
     | Some packet_id \<Rightarrow>
         let (env, encoded) = encode_ip_packet (run_path rt) (run_env rt) (snd (directions (run_role rt))) packet_id packet
               (run_max_datagram_len rt) now;
             rt = rt\<lparr>run_env := env\<rparr> in
         (case encoded of
            Inl StaleGeneration \<Rightarrow> Some (rt, [], Some ExitDataPathStale)
          | Inl ResourceAccountingInvariant \<Rightarrow> Some (rt, [], Some ExitResourceInvariant)
          | Inl _ \<Rightarrow> Some (rt\<lparr>run_metrics := record_outbound_rejected (run_metrics rt)\<rparr>, [], None)
          | Inr fragments \<Rightarrow>
              let (m, datagrams, exit) = send_fragments (length fragments) 0 fragments events
                    (record_outbound_encoded (run_metrics rt)) in
              (case exit of
                 Some e \<Rightarrow> Some (rt\<lparr>run_metrics := m\<rparr>, datagrams, Some e)
               | None \<Rightarrow> Some (rt\<lparr>run_metrics := record_outbound_sent m\<rparr>, datagrams, None))))"

text \<open>
  A channel that is dropped drops the packets in it, and their leases with them.  The outbound loop
  owns the receiver of its queue: however it returns, what is still queued is dropped, and no counter
  records it.
\<close>

fun drop_leases :: "usize list \<Rightarrow> VpnPacketQueueBudget \<Rightarrow> VpnPacketQueueBudget option" where
  "drop_leases [] budget = Some budget"
| "drop_leases (n # ns) budget = Option.bind (queue_release budget n) (drop_leases ns)"

definition drop_outbound_receiver :: "VpnDatagramRuntime \<Rightarrow> VpnDatagramRuntime option" where
  "drop_outbound_receiver rt =
     Option.bind (drop_leases (map length (run_outbound_queue rt)) (run_outbound_budget rt)) (\<lambda>budget.
     Some (rt\<lparr>run_outbound_queue := [], run_outbound_budget := budget\<rparr>))"

definition outbound_iteration ::
  "VpnDatagramRuntime \<Rightarrow> bytes \<Rightarrow> instant \<Rightarrow> (nat \<Rightarrow> SendEvent) \<Rightarrow>
   (VpnDatagramRuntime \<times> bytes list \<times> VpnRuntimeTaskExit option) option" where
  "outbound_iteration rt packet now events =
     Option.bind (outbound_entry rt packet now events) (\<lambda>(rt, datagrams, exit).
     case exit of
       None \<Rightarrow> Some (rt, datagrams, None)
     | Some e \<Rightarrow> Option.bind (drop_outbound_receiver rt) (\<lambda>rt. Some (rt, datagrams, Some e)))"

text \<open>The loop returns when it sees the stop signal.\<close>

definition outbound_cancelled :: "VpnDatagramRuntime \<Rightarrow> (VpnDatagramRuntime \<times> VpnRuntimeTaskExit) option" where
  "outbound_cancelled rt = Option.bind (drop_outbound_receiver rt) (\<lambda>rt. Some (rt, ExitStopped))"

section \<open>Start and supervision\<close>

definition stop :: "VpnDatagramRuntime \<Rightarrow> VpnDatagramRuntime" where
  "stop rt = rt\<lparr>run_stopping := True\<rparr>"

definition request_shutdown :: "VpnDatagramRuntime \<Rightarrow> VpnDatagramRuntime" where
  "request_shutdown rt = stop (rt\<lparr>run_shutdown_requested := True\<rparr>)"

text \<open>
  \<open>still_active\<close> is what the second look at the path sees: another task may have deactivated it in
  between.  \<open>runtime_available\<close> is whether an asynchronous runtime is running.
\<close>

definition start_vpn_datagram_runtime ::
  "Connection \<Rightarrow> bool \<Rightarrow> VpnDataPathInner \<Rightarrow> VpnPathShared \<Rightarrow> bool \<Rightarrow> VpnDatagramRuntimeConfig \<Rightarrow>
   VpnDataPathInner \<times> (VpnDatagramRuntimeStartError + VpnDatagramRuntime)" where
  "start_vpn_datagram_runtime connection runtime_available inner env still_active config =
     (case runtime_config_validate config of
        Inl e \<Rightarrow> (inner, Inl (InvalidConfig e))
      | Inr _ \<Rightarrow>
        if \<not> runtime_available then (inner, Inl RuntimeUnavailable)
        else if \<not> path_snap_active (path_snapshot inner) then (inner, Inl InactiveDataPath)
        else case conn_max_datagram_size connection of
            None \<Rightarrow> (inner, Inl DatagramUnavailable)
          | Some connection_limit \<Rightarrow>
              let max_datagram_len = min (runtime_max_datagram_len config) connection_limit in
              if max_datagram_len < VPN_MIN_QUIC_DATAGRAM_LEN then (inner, Inl DatagramCapacityTooSmall)
              else case try_bind_runtime inner of
                  (inner, False) \<Rightarrow> (inner, Inl DataPathAlreadyBound)
                | (inner, True) \<Rightarrow>
                    if \<not> still_active then (unbind_runtime inner, Inl InactiveDataPath)
                    else (inner, Inr
                      \<lparr>run_role = runtime_role config, run_max_datagram_len = max_datagram_len, run_path = inner, run_env = env,
                       run_inbound_budget = queue_budget_new (runtime_inbound_queue_packets config) (runtime_inbound_queue_bytes config),
                       run_outbound_budget = queue_budget_new (runtime_outbound_queue_packets config) (runtime_outbound_queue_bytes config),
                       run_metrics = runtime_counters_default, run_inbound_leases = [], run_outbound_queue = [],
                       run_packet_ids = 1, run_stopping = False, run_shutdown_requested = False\<rparr>))"

text \<open>\<open>None\<close> stands for a task that panicked or was aborted.\<close>

definition join_task :: "VpnRuntimeTaskExit option \<Rightarrow> VpnRuntimeTaskExit" where
  "join_task result = (case result of Some exit \<Rightarrow> exit | None \<Rightarrow> ExitWorkerFailed)"

definition combine_task_exits :: "VpnRuntimeTaskExit \<Rightarrow> VpnRuntimeTaskExit \<Rightarrow> VpnRuntimeTaskExit" where
  "combine_task_exits first second =
     (if first = ExitWorkerFailed \<or> second = ExitWorkerFailed then ExitWorkerFailed
      else if first = ExitStopped then second
      else first)"

record VpnDatagramRuntimeReport =
  report_stop_reason :: VpnDatagramRuntimeStopReason
  report_metrics :: VpnDatagramRuntimeMetricsSnapshot

text \<open>The rest of the supervisor once both tasks have ended.\<close>

definition supervise_finish ::
  "VpnDatagramRuntime \<Rightarrow> VpnRuntimeTaskExit \<Rightarrow> VpnRuntimeTaskExit \<Rightarrow>
   (VpnDatagramRuntime \<times> VpnDatagramRuntimeReport) option" where
  "supervise_finish rt first second =
     (let inner = unbind_runtime (run_path rt) in
      Option.bind (path_deactivate inner (shared_quota (run_env rt))) (\<lambda>(inner, m).
      let rt = rt\<lparr>run_path := inner, run_env := (run_env rt)\<lparr>shared_quota := m\<rparr>\<rparr>;
          reason = (if run_shutdown_requested rt then ShutdownRequested
                    else stop_reason (combine_task_exits first second)) in
      Some (rt, \<lparr>report_stop_reason = reason,
        report_metrics = runtime_snapshot (run_metrics rt) (run_inbound_budget rt) (run_outbound_budget rt)\<rparr>)))"

definition supervise_runtime ::
  "VpnDatagramRuntime \<Rightarrow> VpnRuntimeTaskExit option \<Rightarrow> VpnRuntimeTaskExit option \<Rightarrow>
   (VpnDatagramRuntime \<times> VpnDatagramRuntimeReport) option" where
  "supervise_runtime rt first second =
     (let first = join_task first; rt = stop rt; second = join_task second in supervise_finish rt first second)"

text \<open>\<open>await_report\<close>: a supervisor that itself failed is reported as a failed worker.\<close>

definition await_report :: "VpnDatagramRuntime \<Rightarrow> VpnDatagramRuntimeReport option \<Rightarrow> VpnDatagramRuntimeReport" where
  "await_report rt task =
     (case task of
        Some report \<Rightarrow> report
      | None \<Rightarrow> \<lparr>report_stop_reason = WorkerFailed,
          report_metrics = runtime_snapshot (run_metrics rt) (run_inbound_budget rt) (run_outbound_budget rt)\<rparr>)"

section \<open>The tasks of a runtime\<close>

text \<open>
  The two loops and the supervisor run as tasks of the asynchronous runtime, which gives them turns.
  A loop that is still running holds \<open>None\<close>; one that has ended holds what joining it yields.  A turn
  gives a task what its library calls yield; other tasks send packets or use the data path in turns
  of their own.
\<close>

datatype Supervisor = AwaitFirst | AwaitSecond bool | SupervisorEnded "VpnDatagramRuntimeReport option"

record RuntimeTasks =
  tasks_runtime :: VpnDatagramRuntime
  tasks_inbound :: "VpnRuntimeTaskExit option option"
  tasks_outbound :: "VpnRuntimeTaskExit option option"
  tasks_supervisor :: Supervisor

definition spawn_tasks :: "VpnDatagramRuntime \<Rightarrow> RuntimeTasks" where
  "spawn_tasks rt = \<lparr>tasks_runtime = rt, tasks_inbound = None, tasks_outbound = None, tasks_supervisor = AwaitFirst\<rparr>"

datatype TaskTurn =
    InboundTurn InboundEvent "TrySendError + unit"
  | OutboundTurn instant "nat \<Rightarrow> SendEvent"
  | SupervisorTurn bool
  | SendTurn bytes bool
  | PathTurn "VpnDataPathInner \<Rightarrow> VpnPathShared \<Rightarrow> VpnDataPathInner \<times> VpnPathShared"

text \<open>
  The selections of both loops are biased: the stop signal (\<open>cancelled\<close>) wins over everything, and does
  not resolve before it is set.
\<close>

definition inbound_select :: "VpnDatagramRuntime \<Rightarrow> InboundEvent \<Rightarrow> InboundEvent option" where
  "inbound_select rt event =
     (if run_stopping rt then Some InboundCancelled else if event = InboundCancelled then None else Some event)"

definition inbound_turn :: "InboundEvent \<Rightarrow> (TrySendError + unit) \<Rightarrow> RuntimeTasks \<Rightarrow> RuntimeTasks" where
  "inbound_turn event channel st =
     (if tasks_inbound st \<noteq> None then st
      else case inbound_select (tasks_runtime st) event of
          None \<Rightarrow> st
        | Some event \<Rightarrow>
            (case inbound_iteration (tasks_runtime st) event channel of
               None \<Rightarrow> st\<lparr>tasks_inbound := Some None\<rparr>
             | Some (rt, exit) \<Rightarrow> st\<lparr>tasks_runtime := rt, tasks_inbound := map_option Some exit\<rparr>))"

definition outbound_turn :: "instant \<Rightarrow> (nat \<Rightarrow> SendEvent) \<Rightarrow> RuntimeTasks \<Rightarrow> RuntimeTasks" where
  "outbound_turn now events st =
     (let rt = tasks_runtime st in
      if tasks_outbound st \<noteq> None then st
      else if run_stopping rt then
        (case outbound_cancelled rt of
           None \<Rightarrow> st\<lparr>tasks_outbound := Some None\<rparr>
         | Some (rt, exit) \<Rightarrow> st\<lparr>tasks_runtime := rt, tasks_outbound := Some (Some exit)\<rparr>)
      else case run_outbound_queue rt of
          [] \<Rightarrow> st
        | packet # rest \<Rightarrow>
            (case outbound_iteration (rt\<lparr>run_outbound_queue := rest\<rparr>) packet now events of
               None \<Rightarrow> st\<lparr>tasks_outbound := Some None\<rparr>
             | Some (rt, datagrams, exit) \<Rightarrow> st\<lparr>tasks_runtime := rt, tasks_outbound := map_option Some exit\<rparr>))"

text \<open>The supervisor: its first selection takes either loop if both have ended.\<close>

definition supervisor_turn :: "bool \<Rightarrow> RuntimeTasks \<Rightarrow> RuntimeTasks" where
  "supervisor_turn prefer_inbound st =
     (case tasks_supervisor st of
        AwaitFirst \<Rightarrow>
          if tasks_inbound st \<noteq> None \<and> (prefer_inbound \<or> tasks_outbound st = None)
          then st\<lparr>tasks_runtime := stop (tasks_runtime st), tasks_supervisor := AwaitSecond True\<rparr>
          else if tasks_outbound st \<noteq> None
          then st\<lparr>tasks_runtime := stop (tasks_runtime st), tasks_supervisor := AwaitSecond False\<rparr>
          else st
      | AwaitSecond inbound_finished \<Rightarrow>
          (case (tasks_inbound st, tasks_outbound st) of
             (Some inbound, Some outbound) \<Rightarrow>
               let (first, second) = (if inbound_finished then (inbound, outbound) else (outbound, inbound)) in
               (case supervise_finish (tasks_runtime st) (join_task first) (join_task second) of
                  None \<Rightarrow> st\<lparr>tasks_supervisor := SupervisorEnded None\<rparr>
                | Some (rt, report) \<Rightarrow> st\<lparr>tasks_runtime := rt, tasks_supervisor := SupervisorEnded (Some report)\<rparr>)
           | _ \<Rightarrow> st)
      | SupervisorEnded _ \<Rightarrow> st)"

text \<open>The channel is closed once the outbound loop has ended; until then it may be full.\<close>

fun task_turn :: "TaskTurn \<Rightarrow> RuntimeTasks \<Rightarrow> RuntimeTasks" where
  "task_turn (InboundTurn event channel) st = inbound_turn event channel st"
| "task_turn (OutboundTurn now events) st = outbound_turn now events st"
| "task_turn (SupervisorTurn prefer_inbound) st = supervisor_turn prefer_inbound st"
| "task_turn (SendTurn packet full) st =
     (case sender_try_send (tasks_runtime st) packet
        (if tasks_outbound st \<noteq> None then Inl ChannelClosed else if full then Inl ChannelFull else Inr ()) of
        None \<Rightarrow> st
      | Some (rt, _) \<Rightarrow> st\<lparr>tasks_runtime := rt\<rparr>)"
| "task_turn (PathTurn other) st =
     (let rt = tasks_runtime st; (inner, env) = other (run_path rt) (run_env rt) in
      st\<lparr>tasks_runtime := rt\<lparr>run_path := inner, run_env := env\<rparr>\<rparr>)"

text \<open>
  Awaiting the supervisor: the tasks take their turns until it has ended.  If it has not ended after
  the given turns, the caller is still waiting, and the result is \<open>None\<close>.
\<close>

fun await_supervisor :: "TaskTurn list \<Rightarrow> RuntimeTasks \<Rightarrow> RuntimeTasks" where
  "await_supervisor [] st = st"
| "await_supervisor (turn # turns) st =
     (case tasks_supervisor st of SupervisorEnded _ \<Rightarrow> st | _ \<Rightarrow> await_supervisor turns (task_turn turn st))"

text \<open>
  Shutdown and waiting consume the runtime.  Its inbound channel is dropped with it, by a shutdown
  before the wait; so is the stop signal sent, if it has not been.
\<close>

definition drop_inbound_receiver :: "VpnDatagramRuntime \<Rightarrow> VpnDatagramRuntime option" where
  "drop_inbound_receiver rt =
     Option.bind (drop_leases (map (length \<circ> data_packet_bytes) (run_inbound_leases rt)) (run_inbound_budget rt)) (\<lambda>budget.
     Some (rt\<lparr>run_inbound_leases := [], run_inbound_budget := budget\<rparr>))"

definition runtime_drop :: "VpnDatagramRuntime \<Rightarrow> VpnDatagramRuntime option" where
  "runtime_drop rt = drop_inbound_receiver (request_shutdown rt)"

definition runtime_wait :: "TaskTurn list \<Rightarrow> RuntimeTasks \<Rightarrow> (VpnDatagramRuntime \<times> VpnDatagramRuntimeReport) option" where
  "runtime_wait turns st =
     (let st = await_supervisor turns st in
      case tasks_supervisor st of
        SupervisorEnded task \<Rightarrow>
          let report = await_report (tasks_runtime st) task in
          Option.bind (runtime_drop (tasks_runtime st)) (\<lambda>rt. Some (rt, report))
      | _ \<Rightarrow> None)"

definition runtime_shutdown :: "TaskTurn list \<Rightarrow> RuntimeTasks \<Rightarrow> (VpnDatagramRuntime \<times> VpnDatagramRuntimeReport) option" where
  "runtime_shutdown turns st =
     Option.bind (drop_inbound_receiver (request_shutdown (tasks_runtime st))) (\<lambda>rt.
     runtime_wait turns (st\<lparr>tasks_runtime := rt\<rparr>))"

end
