(* ===== verification/Vpn_Runtime_Properties.thy ===== *)
theory Vpn_Runtime_Properties
  imports Vpn_Runtime
begin

text \<open>
  Properties of the datagram runtime: its configuration is valid, the budgets of its queues are exact
  and never overdrawn, its counters account for every packet, and its end takes the data path with
  it.
\<close>

section \<open>Queue budgets\<close>

lemma queue_subtract_eq: "queue_subtract c n = (if n \<le> c then Some (c - n) else None)"
  by (simp add: queue_subtract_def checked_sub_usize_def)

lemma queue_try_add_eq:
  "limit \<le> usize_max \<Longrightarrow> queue_try_add_bounded c n limit = (if c + n \<le> limit then Some (c + n) else None)"
  by (auto simp: queue_try_add_bounded_def checked_add_usize_def)

interpretation queue_counter: bounded_counter queue_try_add_bounded queue_subtract
  by unfold_locales
    (auto simp: queue_subtract_eq queue_try_add_bounded_def checked_add_usize_def split: option.splits if_splits)

text \<open>The counters of a budget are exactly the outstanding leases, and within the limits.\<close>

definition queue_ok :: "VpnPacketQueueBudget \<Rightarrow> usize list \<Rightarrow> bool" where
  "queue_ok b sizes \<longleftrightarrow> queue_current_packets b = length sizes \<and> queue_current_bytes b = sum_list sizes \<and>
     queue_current_packets b \<le> queue_peak_packets b \<and> queue_peak_packets b \<le> queue_packet_limit b \<and>
     queue_current_bytes b \<le> queue_peak_bytes b \<and> queue_peak_bytes b \<le> queue_byte_limit b \<and>
     queue_packet_limit b \<le> usize_max \<and> queue_byte_limit b \<le> usize_max"

lemma queue_budget_new_ok:
  "packet_limit \<le> usize_max \<Longrightarrow> byte_limit \<le> usize_max \<Longrightarrow> queue_ok (queue_budget_new packet_limit byte_limit) []"
  by (simp add: queue_ok_def queue_budget_new_def)

lemma queue_try_reserve_ok:
  assumes "queue_ok b sizes"
  obtains (refused) e where "queue_try_reserve b n = Some (b, Inl e)"
      and "e = (if sum_list sizes + n > queue_byte_limit b then ByteLimit else PacketLimit)"
      and "sum_list sizes + n > queue_byte_limit b \<or> length sizes = queue_packet_limit b"
  | (reserved) b' where "queue_try_reserve b n = Some (b', Inr ())" and "queue_ok b' (sizes @ [n])"
      and "queue_packet_limit b' = queue_packet_limit b" and "queue_byte_limit b' = queue_byte_limit b"
proof (cases "sum_list sizes + n \<le> queue_byte_limit b")
  case False
  then show thesis using assms refused by (simp add: queue_ok_def queue_try_reserve_def queue_try_add_eq)
next
  case bytes: True
  show thesis
  proof (cases "length sizes < queue_packet_limit b")
    case True
    then show thesis
      using assms bytes reserved by (simp add: queue_ok_def queue_try_reserve_def queue_try_add_eq Let_def)
  next
    case False
    then show thesis
      using assms bytes refused
      by (simp add: queue_ok_def queue_try_reserve_def queue_try_add_eq queue_subtract_eq Let_def)
  qed
qed

lemma queue_release_ok:
  assumes "queue_ok b (xs @ n # ys)"
  obtains b' where "queue_release b n = Some b'" and "queue_ok b' (xs @ ys)"
    and "queue_packet_limit b' = queue_packet_limit b" and "queue_byte_limit b' = queue_byte_limit b"
  using assms that by (simp add: queue_ok_def queue_release_def queue_subtract_eq)

text \<open>A channel that is dropped returns the leases of all the packets in it.\<close>

lemma drop_leases_ok:
  assumes "queue_ok b sizes"
  obtains b' where "drop_leases sizes b = Some b'" and "queue_ok b' []"
    and "queue_packet_limit b' = queue_packet_limit b" and "queue_byte_limit b' = queue_byte_limit b"
  using assms
proof (induction sizes arbitrary: b thesis)
  case Nil
  then show ?case by simp
next
  case (Cons n sizes)
  from Cons.prems(2) have "queue_ok b ([] @ n # sizes)" by simp
  then obtain b1 where b1: "queue_release b n = Some b1" "queue_ok b1 ([] @ sizes)"
      "queue_packet_limit b1 = queue_packet_limit b" "queue_byte_limit b1 = queue_byte_limit b"
    by (rule queue_release_ok)
  then have ok1: "queue_ok b1 sizes" by simp
  obtain b' where "drop_leases sizes b1 = Some b'" "queue_ok b' []"
      "queue_packet_limit b' = queue_packet_limit b1" "queue_byte_limit b' = queue_byte_limit b1"
    by (rule Cons.IH [OF _ ok1])
  with b1 Cons.prems(1) show ?case by simp
qed

text \<open>Packet identifiers are allocated like session generations, with 32 bits.\<close>

interpretation packet_ids: one_shot_allocator "\<lambda>current. current" allocate_packet_id Some None
  by unfold_locales (simp_all add: allocate_packet_id_def)

lemma packet_ids_unique:
  assumes "i < n" and "j < n" and "i \<noteq> j"
  shows "snd (allocations allocate_packet_id n 1) ! i =
      (if i < 2 ^ 32 - 1 then Some (word_of_nat (Suc i)) else None)"
    and "snd (allocations allocate_packet_id n 1) ! i \<noteq> None \<Longrightarrow>
      snd (allocations allocate_packet_id n 1) ! i \<noteq> snd (allocations allocate_packet_id n 1) ! j"
  using packet_ids.allocations_nth [of 1 i n] packet_ids.allocations_unique(1) [of 1 i n j] assms
  by (simp_all add: image_iff)

section \<open>Histories of a runtime\<close>

text \<open>
  A state is a runtime and the exits of its two loops.  Other tasks use the same data path and the
  same shared counters; whatever they do keeps the accounts of the path settled.  The channel of
  outbound packets is closed once the loop that receives from it has ended.
\<close>

type_synonym runtime_state = "VpnDatagramRuntime \<times> VpnRuntimeTaskExit option \<times> VpnRuntimeTaskExit option"

inductive runtime_step :: "runtime_state \<Rightarrow> runtime_state \<Rightarrow> bool" where
  send: "sender_try_send rt packet channel = Some (rt', result) \<Longrightarrow>
    (outbound \<noteq> None \<longrightarrow> channel = Inl ChannelClosed) \<Longrightarrow>
    runtime_step (rt, inbound, outbound) (rt', inbound, outbound)"
| inbound: "inbound_iteration rt event channel = Some (rt', exit) \<Longrightarrow>
    runtime_step (rt, None, outbound) (rt', exit, outbound)"
| outbound: "run_outbound_queue rt = packet # rest \<Longrightarrow>
    outbound_iteration (rt\<lparr>run_outbound_queue := rest\<rparr>) packet now events = Some (rt', datagrams, exit) \<Longrightarrow>
    runtime_step (rt, inbound, None) (rt', inbound, exit)"
| cancel: "outbound_cancelled rt = Some (rt', exit) \<Longrightarrow> runtime_step (rt, inbound, None) (rt', inbound, Some exit)"
| consume: "run_inbound_leases rt = xs @ p # ys \<Longrightarrow>
    queue_release (run_inbound_budget rt) (length (data_packet_bytes p)) = Some budget \<Longrightarrow>
    runtime_step (rt, inbound, outbound)
      (rt\<lparr>run_inbound_leases := xs @ ys, run_inbound_budget := budget\<rparr>, inbound, outbound)"
| shutdown: "runtime_step (rt, inbound, outbound) (request_shutdown rt, inbound, outbound)"
| others: "inner_settled others inner env \<Longrightarrow> same_handle inner (run_path rt) \<Longrightarrow>
    runtime_step (rt, inbound, outbound) (rt\<lparr>run_path := inner, run_env := env\<rparr>, inbound, outbound)"

definition runtime_limits :: "VpnDatagramRuntimeConfig \<Rightarrow> VpnDatagramRuntime \<Rightarrow> bool" where
  "runtime_limits config rt \<longleftrightarrow>
     queue_packet_limit (run_outbound_budget rt) = runtime_outbound_queue_packets config \<and>
     queue_byte_limit (run_outbound_budget rt) = runtime_outbound_queue_bytes config \<and>
     queue_packet_limit (run_inbound_budget rt) = runtime_inbound_queue_packets config \<and>
     queue_byte_limit (run_inbound_budget rt) = runtime_inbound_queue_bytes config"

definition runtime_inv :: "VpnDatagramRuntimeConfig \<Rightarrow> VpnDatagramRuntime \<Rightarrow> bool" where
  "runtime_inv config rt \<longleftrightarrow> runtime_limits config rt \<and>
     queue_ok (run_outbound_budget rt) (map length (run_outbound_queue rt)) \<and>
     queue_ok (run_inbound_budget rt) (map (length \<circ> data_packet_bytes) (run_inbound_leases rt)) \<and>
     (\<exists>others. inner_settled others (run_path rt) (run_env rt))"

lemma runtime_inv_metrics [simp]: "runtime_inv config (rt\<lparr>run_metrics := m\<rparr>) = runtime_inv config rt"
  by (simp add: runtime_inv_def runtime_limits_def)

lemma runtime_inv_path:
  "runtime_inv config rt \<Longrightarrow> inner_settled others inner env \<Longrightarrow> runtime_inv config (rt\<lparr>run_path := inner, run_env := env\<rparr>)"
  unfolding runtime_inv_def runtime_limits_def by (simp del: split_paired_Ex) blast

lemma sender_try_send_inv:
  assumes "runtime_inv config rt"
  obtains rt' result where "sender_try_send rt packet channel = Some (rt', result)" and "runtime_inv config rt'"
proof (cases "length packet = 0 \<or> length packet > VPN_MAX_IP_PACKET_LEN")
  case True
  then show thesis using assms that by (simp add: sender_try_send_def Let_def)
next
  case False
  have out: "queue_ok (run_outbound_budget rt) (map length (run_outbound_queue rt))"
    using assms by (simp add: runtime_inv_def runtime_limits_def)
  show thesis
  proof (cases rule: queue_try_reserve_ok [OF out, of "length packet", case_names refused reserved])
    case (refused e)
    then show thesis using assms False that by (simp add: sender_try_send_def Let_def)
  next
    case (reserved b)
    show thesis
    proof (cases channel)
      case (Inr u)
      then show thesis
        using assms False that reserved by (simp add: sender_try_send_def Let_def runtime_inv_def runtime_limits_def)
    next
      case (Inl e)
      obtain b' where "queue_release b (length packet) = Some b'" "queue_ok b' (map length (run_outbound_queue rt) @ [])"
          "queue_packet_limit b' = queue_packet_limit b" "queue_byte_limit b' = queue_byte_limit b"
        by (rule queue_release_ok [of b "map length (run_outbound_queue rt)" "length packet" "[]"]) (use reserved in auto)
      then show thesis
        using assms False that reserved Inl by (simp add: sender_try_send_def Let_def runtime_inv_def runtime_limits_def)
    qed
  qed
qed

lemma deliver_inbound_inv:
  assumes "runtime_inv config rt"
  obtains rt' exit where "deliver_inbound rt packet channel = Some (rt', exit)" and "runtime_inv config rt'"
proof -
  let ?sizes = "map (length \<circ> data_packet_bytes) (run_inbound_leases rt)"
  have inq: "queue_ok (run_inbound_budget rt) ?sizes" using assms by (simp add: runtime_inv_def runtime_limits_def)
  show thesis
  proof (cases rule: queue_try_reserve_ok [OF inq, of "length (data_packet_bytes packet)", case_names refused reserved])
    case (refused e)
    then show thesis using assms that by (simp add: deliver_inbound_def Let_def)
  next
    case (reserved b)
    show thesis
    proof (cases channel)
      case (Inr u)
      then show thesis using assms that reserved by (simp add: deliver_inbound_def Let_def runtime_inv_def runtime_limits_def)
    next
      case (Inl e)
      obtain b' where "queue_release b (length (data_packet_bytes packet)) = Some b'" "queue_ok b' (?sizes @ [])"
          "queue_packet_limit b' = queue_packet_limit b" "queue_byte_limit b' = queue_byte_limit b"
        by (rule queue_release_ok [of b ?sizes "length (data_packet_bytes packet)" "[]"]) (use reserved in auto)
      then show thesis
        using assms that reserved Inl by (simp add: deliver_inbound_def Let_def runtime_inv_def runtime_limits_def)
    qed
  qed
qed

lemma inbound_iteration_inv:
  assumes "runtime_inv config rt"
  obtains rt' exit where "inbound_iteration rt event channel = Some (rt', exit)" and "runtime_inv config rt'"
proof -
  obtain others where settled: "inner_settled others (run_path rt) (run_env rt)"
    using assms unfolding runtime_inv_def runtime_limits_def by blast
  show thesis
  proof (cases event)
    case InboundCancelled
    then show thesis using assms that by (simp add: inbound_iteration_def)
  next
    case (InboundTick now)
    obtain inner env n where "expire_reassembly (run_path rt) (run_env rt) now = Some (inner, env, n)"
      "inner_settled others inner env" by (rule expire_reassembly_settled [OF settled])
    then show thesis
      using assms that InboundTick runtime_inv_path [OF assms, of others inner env]
      by (cases "path_snap_active (path_snapshot (run_path rt))") (simp_all add: inbound_iteration_def)
  next
    case (InboundRead read now)
    show thesis
    proof (cases read)
      case (Inl e)
      then show thesis using assms that InboundRead by (cases e) (simp_all add: inbound_iteration_def)
    next
      case (Inr datagram)
      let ?rt = "rt\<lparr>run_metrics := record_received_datagram (length datagram) (run_metrics rt)\<rparr>"
      obtain inner env result where i: "ingest_datagram (run_path rt) (run_env rt) (fst (directions (run_role rt))) datagram now =
          Some (inner, env, result)" "inner_settled others inner env"
        by (rule ingest_datagram_settled [OF settled, of "fst (directions (run_role rt))" datagram now])
      have inv: "runtime_inv config (?rt\<lparr>run_path := inner, run_env := env\<rparr>)" using runtime_inv_path [of config ?rt, OF _ i(2)] assms by simp
      show thesis
      proof (cases result)
        case res: (Inl e)
        then show thesis
          using i(1) inv runtime_inv_path [OF assms i(2)] InboundRead Inr that by (cases e) (simp_all add: inbound_iteration_def)
      next
        case res: (Inr completed)
        show thesis
        proof (cases completed)
          case None
          then show thesis using i(1) inv InboundRead Inr that res by (simp add: inbound_iteration_def)
        next
          case (Some p)
          obtain rt' exit where "deliver_inbound (?rt\<lparr>run_path := inner, run_env := env\<rparr>) p channel = Some (rt', exit)" "runtime_inv config rt'"
            by (rule deliver_inbound_inv [OF inv])
          then show thesis using i(1) InboundRead Inr that res Some by (simp add: inbound_iteration_def)
        qed
      qed
    qed
  qed
qed

lemma drop_outbound_receiver_inv:
  assumes "runtime_inv config rt"
  obtains b where "drop_outbound_receiver rt = Some (rt\<lparr>run_outbound_queue := [], run_outbound_budget := b\<rparr>)"
    and "runtime_inv config (rt\<lparr>run_outbound_queue := [], run_outbound_budget := b\<rparr>)"
proof -
  have "queue_ok (run_outbound_budget rt) (map length (run_outbound_queue rt))" using assms by (simp add: runtime_inv_def)
  then obtain b where b: "drop_leases (map length (run_outbound_queue rt)) (run_outbound_budget rt) = Some b" "queue_ok b []"
      "queue_packet_limit b = queue_packet_limit (run_outbound_budget rt)"
      "queue_byte_limit b = queue_byte_limit (run_outbound_budget rt)"
    by (rule drop_leases_ok)
  show thesis
    by (rule that [of b]) (use assms b in \<open>simp_all add: drop_outbound_receiver_def runtime_inv_def runtime_limits_def\<close>)
qed

lemma outbound_entry_inv:
  assumes "runtime_inv config rt" and "run_outbound_queue rt = packet # rest"
  obtains rt' datagrams exit
  where "outbound_entry (rt\<lparr>run_outbound_queue := rest\<rparr>) packet now events = Some (rt', datagrams, exit)" and "runtime_inv config rt'"
    and "run_outbound_queue rt' = rest"
proof -
  obtain others where settled: "inner_settled others (run_path rt) (run_env rt)"
    using assms(1) unfolding runtime_inv_def runtime_limits_def by blast
  have "queue_ok (run_outbound_budget rt) ([] @ length packet # map length rest)"
    using assms by (simp add: runtime_inv_def runtime_limits_def)
  then obtain b where b: "queue_release (run_outbound_budget rt) (length packet) = Some b" "queue_ok b ([] @ map length rest)"
      "queue_packet_limit b = queue_packet_limit (run_outbound_budget rt)" "queue_byte_limit b = queue_byte_limit (run_outbound_budget rt)"
    by (rule queue_release_ok)
  obtain ids allocated where ids: "allocate_packet_id (run_packet_ids rt) = (ids, allocated)" by fastforce
  let ?rt = "rt\<lparr>run_outbound_queue := rest, run_outbound_budget := b, run_packet_ids := ids\<rparr>"
  have inv: "runtime_inv config ?rt" using assms(1) b(2-4) by (simp add: runtime_inv_def runtime_limits_def)
  show thesis
  proof (cases allocated)
    case None
    then show thesis using that inv b(1) ids by (simp add: outbound_entry_def)
  next
    case (Some packet_id)
    let ?e = "encode_ip_packet (run_path rt) (run_env rt) (snd (directions (run_role rt))) packet_id packet (run_max_datagram_len rt) now"
    have "inner_settled others (run_path rt) (fst ?e)"
      using path_run_settled [OF settled, of "Encode (snd (directions (run_role rt))) packet_id packet (run_max_datagram_len rt) now"]
      by fastforce
    from runtime_inv_path [OF inv this]
    have inv': "runtime_inv config (?rt\<lparr>run_env := fst ?e\<rparr>)" by simp
    show thesis
    proof (cases "snd ?e")
      case (Inl e)
      then show thesis
        using that inv' b(1) ids Some by (cases ?e; cases e) (simp_all add: outbound_entry_def)
    next
      case (Inr fragments)
      obtain m datagrams exit where f: "send_fragments (length fragments) 0 fragments events
          (record_outbound_encoded (run_metrics rt)) = (m, datagrams, exit)" by (metis prod_cases3)
      show thesis
        using that inv' b(1) ids Some Inr f by (cases ?e; cases exit) (simp_all add: outbound_entry_def)
    qed
  qed
qed

lemma outbound_iteration_inv:
  assumes "runtime_inv config rt" and "run_outbound_queue rt = packet # rest"
  obtains rt' datagrams exit
  where "outbound_iteration (rt\<lparr>run_outbound_queue := rest\<rparr>) packet now events = Some (rt', datagrams, exit)" and "runtime_inv config rt'"
    and "run_outbound_queue rt' = (if exit = None then rest else [])"
proof -
  obtain rt1 datagrams exit where e: "outbound_entry (rt\<lparr>run_outbound_queue := rest\<rparr>) packet now events = Some (rt1, datagrams, exit)"
      "runtime_inv config rt1" "run_outbound_queue rt1 = rest"
    by (rule outbound_entry_inv [OF assms, of now events])
  obtain b where d: "drop_outbound_receiver rt1 = Some (rt1\<lparr>run_outbound_queue := [], run_outbound_budget := b\<rparr>)"
      "runtime_inv config (rt1\<lparr>run_outbound_queue := [], run_outbound_budget := b\<rparr>)"
    by (rule drop_outbound_receiver_inv [OF e(2)])
  show thesis
  proof (cases exit)
    case None
    then show thesis using that e by (simp add: outbound_iteration_def)
  next
    case (Some x)
    show thesis by (rule that [OF _ d(2), of datagrams exit]) (use e d Some in \<open>simp_all add: outbound_iteration_def\<close>)
  qed
qed

lemma outbound_cancelled_inv:
  assumes "runtime_inv config rt"
  obtains b where "outbound_cancelled rt = Some (rt\<lparr>run_outbound_queue := [], run_outbound_budget := b\<rparr>, ExitStopped)"
    and "runtime_inv config (rt\<lparr>run_outbound_queue := [], run_outbound_budget := b\<rparr>)"
proof -
  obtain b where "drop_outbound_receiver rt = Some (rt\<lparr>run_outbound_queue := [], run_outbound_budget := b\<rparr>)"
      "runtime_inv config (rt\<lparr>run_outbound_queue := [], run_outbound_budget := b\<rparr>)"
    by (rule drop_outbound_receiver_inv [OF assms])
  then show thesis by (intro that [of b]) (simp_all add: outbound_cancelled_def)
qed

lemma runtime_step_inv: "runtime_step s s' \<Longrightarrow> runtime_inv config (fst s) \<Longrightarrow> runtime_inv config (fst s')"
proof (induction rule: runtime_step.induct)
  case (send rt packet channel rt' result inbound outbound)
  obtain x y where "sender_try_send rt packet channel = Some (x, y)" "runtime_inv config x"
    by (rule sender_try_send_inv [of config rt packet channel]) (use send in simp_all)
  with send show ?case by simp
next
  case (inbound rt event channel rt' exit outbound)
  obtain x y where "inbound_iteration rt event channel = Some (x, y)" "runtime_inv config x"
    by (rule inbound_iteration_inv [of config rt event channel]) (use inbound in simp_all)
  with inbound show ?case by simp
next
  case (outbound rt packet rest now events rt' datagrams exit inbound)
  have inv: "runtime_inv config rt" using outbound by simp
  obtain x y z where "outbound_iteration (rt\<lparr>run_outbound_queue := rest\<rparr>) packet now events = Some (x, y, z)" "runtime_inv config x"
    by (rule outbound_iteration_inv [OF inv outbound(1), of now events])
  with outbound show ?case by simp
next
  case (cancel rt rt' exit inbound)
  have inv: "runtime_inv config rt" using cancel by simp
  show ?case by (rule outbound_cancelled_inv [OF inv]) (use cancel in simp)
next
  case (consume rt xs p ys budget inbound outbound)
  then obtain b where "queue_release (run_inbound_budget rt) (length (data_packet_bytes p)) = Some b"
    "queue_ok b (map (length \<circ> data_packet_bytes) xs @ map (length \<circ> data_packet_bytes) ys)"
    "queue_packet_limit b = queue_packet_limit (run_inbound_budget rt)" "queue_byte_limit b = queue_byte_limit (run_inbound_budget rt)"
    using queue_release_ok [of "run_inbound_budget rt" "map (length \<circ> data_packet_bytes) xs" "length (data_packet_bytes p)"
        "map (length \<circ> data_packet_bytes) ys"] by (auto simp: runtime_inv_def runtime_limits_def)
  with consume show ?case by (simp add: runtime_inv_def runtime_limits_def)
next
  case (shutdown rt inbound outbound)
  then show ?case by (simp add: runtime_inv_def runtime_limits_def request_shutdown_def stop_def)
next
  case (others others inner env rt inbound outbound)
  then show ?case using runtime_inv_path by simp
qed

lemma runtime_history_inv: "runtime_step\<^sup>*\<^sup>* s s' \<Longrightarrow> runtime_inv config (fst s) \<Longrightarrow> runtime_inv config (fst s')"
  by (induction rule: rtranclp_induct) (auto dest: runtime_step_inv)

section \<open>Counters\<close>

text \<open>
  Until the counter of accepted packets saturates, every accepted outbound packet is in the queue, was
  sent or was rejected.  Once the loop has ended, the packets that it lost are missing from this
  account: the one on which it ended, which may have been encoded and not completely sent, and those
  that were dropped with the queue.
\<close>

definition tally :: "nat \<Rightarrow> nat \<Rightarrow> nat \<Rightarrow> nat \<Rightarrow> nat \<Rightarrow> nat \<Rightarrow> bool" where
  "tally accepted waiting encoded rejected sent partially \<longleftrightarrow> accepted = u64_max \<or>
     accepted < u64_max \<and> accepted = waiting + sent + rejected \<and> encoded = sent \<and> partially = 0"

definition last_tally :: "nat \<Rightarrow> nat \<Rightarrow> nat \<Rightarrow> nat \<Rightarrow> nat \<Rightarrow> nat \<Rightarrow> bool" where
  "last_tally accepted lost encoded rejected sent partially \<longleftrightarrow> accepted = u64_max \<or>
     accepted = lost + sent + rejected \<and> sent \<le> encoded \<and> encoded + rejected \<le> accepted \<and> encoded \<le> sent + 1 \<and>
     partially \<le> encoded - sent"

definition counted :: "(nat \<Rightarrow> nat \<Rightarrow> nat \<Rightarrow> nat \<Rightarrow> nat \<Rightarrow> nat \<Rightarrow> bool) \<Rightarrow> nat \<Rightarrow> VpnDatagramRuntimeMetricCounters \<Rightarrow> bool" where
  "counted account n m \<longleftrightarrow> account (outbound_queue_accepted_packets m) n (outbound_packets_encoded m)
     (outbound_packets_rejected m) (outbound_packets_sent m) (outbound_packets_partially_sent m)"

abbreviation outbound_balanced :: "VpnDatagramRuntime \<Rightarrow> bool" where
  "outbound_balanced rt \<equiv> counted tally (length (run_outbound_queue rt)) (run_metrics rt)"

definition same_outbound :: "VpnDatagramRuntime \<Rightarrow> VpnDatagramRuntime \<Rightarrow> bool" where
  "same_outbound rt rt' \<longleftrightarrow> run_outbound_queue rt' = run_outbound_queue rt \<and>
     outbound_queue_accepted_packets (run_metrics rt') = outbound_queue_accepted_packets (run_metrics rt) \<and>
     outbound_packets_encoded (run_metrics rt') = outbound_packets_encoded (run_metrics rt) \<and>
     outbound_packets_rejected (run_metrics rt') = outbound_packets_rejected (run_metrics rt) \<and>
     outbound_packets_sent (run_metrics rt') = outbound_packets_sent (run_metrics rt) \<and>
     outbound_packets_partially_sent (run_metrics rt') = outbound_packets_partially_sent (run_metrics rt)"

lemma same_outbound_counted:
  "same_outbound rt rt' \<Longrightarrow> counted account n (run_metrics rt') = counted account n (run_metrics rt)"
  by (simp add: same_outbound_def counted_def)

lemma same_outbound_balanced: "same_outbound rt rt' \<Longrightarrow> outbound_balanced rt \<Longrightarrow> outbound_balanced rt'"
  using same_outbound_counted [of rt rt'] by (simp add: same_outbound_def)

lemma same_outbound_trans: "same_outbound a b \<Longrightarrow> same_outbound b c \<Longrightarrow> same_outbound a c"
  by (simp add: same_outbound_def)

lemma deliver_inbound_same:
  assumes "deliver_inbound rt packet channel = Some (rt', exit)"
  shows "same_outbound rt rt'"
proof (cases "queue_try_reserve (run_inbound_budget rt) (length (data_packet_bytes packet))")
  case None
  then show ?thesis using assms by (simp add: deliver_inbound_def)
next
  case (Some r)
  obtain budget lease where r: "r = (budget, lease)" by fastforce
  show ?thesis
  proof (cases lease)
    case (Inl e)
    then show ?thesis using assms Some r by (auto simp: deliver_inbound_def same_outbound_def runtime_counter_defs Let_def)
  next
    case (Inr u)
    then show ?thesis
      using assms Some r
      by (cases channel) (auto simp: deliver_inbound_def same_outbound_def runtime_counter_defs bind_eq_Some_conv Let_def)
  qed
qed

lemma inbound_iteration_same:
  assumes "inbound_iteration rt event channel = Some (rt', exit)"
  shows "same_outbound rt rt'"
proof (cases event)
  case InboundCancelled
  then show ?thesis using assms by (simp add: inbound_iteration_def same_outbound_def)
next
  case (InboundTick now)
  then show ?thesis
    using assms by (auto simp: inbound_iteration_def same_outbound_def record_expired_def bind_eq_Some_conv split: if_splits)
next
  case (InboundRead read now)
  show ?thesis
  proof (cases read)
    case (Inl e)
    then show ?thesis using assms InboundRead by (cases e) (simp_all add: inbound_iteration_def same_outbound_def)
  next
    case (Inr datagram)
    obtain inner env result where i: "ingest_datagram (run_path rt) (run_env rt) (fst (directions (run_role rt))) datagram now =
        Some (inner, env, result)"
      using assms InboundRead Inr by (auto simp: inbound_iteration_def bind_eq_Some_conv)
    let ?rt = "rt\<lparr>run_metrics := record_received_datagram (length datagram) (run_metrics rt), run_path := inner, run_env := env\<rparr>"
    have received: "same_outbound rt ?rt" by (simp add: same_outbound_def record_received_datagram_def)
    show ?thesis
    proof (cases result)
      case res: (Inl e)
      then show ?thesis
        using assms InboundRead Inr i
        by (cases e) (auto simp: inbound_iteration_def same_outbound_def record_received_datagram_def record_rejected_datagram_def)
    next
      case res: (Inr completed)
      show ?thesis
      proof (cases completed)
        case None
        then show ?thesis using assms InboundRead Inr i res received by (auto simp: inbound_iteration_def)
      next
        case (Some p)
        then have "deliver_inbound ?rt p channel = Some (rt', exit)"
          using assms InboundRead Inr i res by (simp add: inbound_iteration_def)
        from same_outbound_trans [OF received deliver_inbound_same [OF this]] show ?thesis .
      qed
    qed
  qed
qed

text \<open>Sending fragments touches no counter of packets but the one of partial sends.\<close>

lemma send_fragments_counters:
  assumes "send_fragments n k fragments events m = (m', datagrams, exit)"
  shows "outbound_queue_accepted_packets m' = outbound_queue_accepted_packets m"
    and "outbound_packets_encoded m' = outbound_packets_encoded m"
    and "outbound_packets_rejected m' = outbound_packets_rejected m"
    and "outbound_packets_sent m' = outbound_packets_sent m"
    and "outbound_packets_partially_sent m' \<le> Suc (outbound_packets_partially_sent m)"
    and "exit = None \<Longrightarrow> outbound_packets_partially_sent m' = outbound_packets_partially_sent m \<and> datagrams = fragments"
  using assms
  by (induction n k fragments events m arbitrary: m' datagrams rule: send_fragments.induct)
    (auto simp: runtime_counter_defs sat_add_u64_def split: SendEvent.splits sum.splits prod.splits if_splits)

lemma tally_accept: "tally a w e r s p \<Longrightarrow> tally (sat_add_u64 a 1) (Suc w) e r s p"
  by (auto simp: tally_def sat_add_u64_def)

lemma tally_lost: "tally a w e r s p \<Longrightarrow> last_tally a w e r s p"
  by (auto simp: tally_def last_tally_def)

lemma tally_rejected: "tally a (Suc w) e r s p \<Longrightarrow> tally a w e (sat_add_u64 r 1) s p"
  by (auto simp: tally_def sat_add_u64_def)

lemma tally_encoded: "tally a (Suc w) e r s p \<Longrightarrow> p' \<le> Suc p \<Longrightarrow> last_tally a (Suc w) (sat_add_u64 e 1) r s p'"
  by (auto simp: tally_def last_tally_def sat_add_u64_def)

lemma tally_sent: "tally a (Suc w) e r s p \<Longrightarrow> tally a w (sat_add_u64 e 1) r (sat_add_u64 s 1) p"
  by (auto simp: tally_def sat_add_u64_def)

text \<open>A send is queued and counted as accepted, or it changes nothing of the account.\<close>

lemma sender_try_send_same:
  assumes "sender_try_send rt packet channel = Some (rt', result)"
  obtains (dropped) "same_outbound rt rt'"
  | (accepted) budget where "channel = Inr ()" and "rt' = rt\<lparr>run_outbound_budget := budget,
      run_outbound_queue := run_outbound_queue rt @ [packet],
      run_metrics := record_outbound_queue_accept (length packet) (run_metrics rt)\<rparr>"
proof (cases "length packet = 0 \<or> length packet > VPN_MAX_IP_PACKET_LEN")
  case True
  then show thesis
    using assms by (intro dropped) (auto simp: sender_try_send_def same_outbound_def record_outbound_queue_drop_def Let_def)
next
  case False
  obtain budget lease where r: "queue_try_reserve (run_outbound_budget rt) (length packet) = Some (budget, lease)"
    using assms False by (auto simp: sender_try_send_def Let_def bind_eq_Some_conv)
  show thesis
  proof (cases "(\<exists>u. lease = Inr u) \<and> (\<exists>u. channel = Inr u)")
    case True
    then show thesis using assms False r by (intro accepted [of budget]) (auto simp: sender_try_send_def Let_def)
  next
    case refused: False
    then show thesis
      using assms False r
      by (intro dropped, cases lease; cases channel)
        (auto simp: sender_try_send_def same_outbound_def record_outbound_queue_drop_def Let_def bind_eq_Some_conv)
  qed
qed

lemma sender_try_send_balanced:
  assumes "sender_try_send rt packet channel = Some (rt', result)" and "outbound_balanced rt"
  shows "outbound_balanced rt'"
proof (cases rule: sender_try_send_same [OF assms(1), case_names dropped accepted])
  case dropped
  then show ?thesis using assms(2) by (rule same_outbound_balanced)
next
  case (accepted budget)
  then show ?thesis
    using assms(2) by (simp add: counted_def record_outbound_queue_accept_def tally_accept [simplified])
qed

text \<open>One packet of the queue: it is accounted for, or the loop ends on it.\<close>

lemma outbound_entry_balanced:
  assumes run: "outbound_entry (rt\<lparr>run_outbound_queue := rest\<rparr>) packet now events = Some (rt', datagrams, exit)"
    and queue: "run_outbound_queue rt = packet # rest" and balanced: "outbound_balanced rt"
  shows "run_outbound_queue rt' = rest"
    and "if exit = None then outbound_balanced rt' else counted last_tally (Suc (length rest)) (run_metrics rt')"
proof -
  let ?m = "run_metrics rt"
  have t: "tally (outbound_queue_accepted_packets ?m) (Suc (length rest)) (outbound_packets_encoded ?m)
      (outbound_packets_rejected ?m) (outbound_packets_sent ?m) (outbound_packets_partially_sent ?m)"
    using balanced queue by (simp add: counted_def)
  obtain b where b: "queue_release (run_outbound_budget rt) (length packet) = Some b"
    using run by (auto simp: outbound_entry_def bind_eq_Some_conv)
  obtain ids allocated where ids: "allocate_packet_id (run_packet_ids rt) = (ids, allocated)" by fastforce
  have "run_outbound_queue rt' = rest \<and>
    (if exit = None then outbound_balanced rt' else counted last_tally (Suc (length rest)) (run_metrics rt'))"
  proof (cases allocated)
    case None
    then show ?thesis
      using run b ids tally_lost [OF t] by (auto simp: outbound_entry_def counted_def)
  next
    case (Some packet_id)
    obtain env encoded where e: "encode_ip_packet (run_path rt) (run_env rt) (snd (directions (run_role rt))) packet_id packet
        (run_max_datagram_len rt) now = (env, encoded)" by fastforce
    show ?thesis
    proof (cases encoded)
      case (Inl err)
      then show ?thesis
        using run b ids Some e tally_lost [OF t] tally_rejected [OF t]
        by (cases err) (auto simp: outbound_entry_def counted_def record_outbound_rejected_def)
    next
      case (Inr fragments)
      obtain m datagrams' exit' where f: "send_fragments (length fragments) 0 fragments events
          (record_outbound_encoded ?m) = (m, datagrams', exit')" by (metis prod_cases3)
      note c = send_fragments_counters [OF f]
      show ?thesis
        using run b ids Some e Inr f c tally_encoded [OF t] tally_sent [OF t]
        by (cases exit') (auto simp: outbound_entry_def counted_def record_outbound_encoded_def record_outbound_sent_def)
    qed
  qed
  then show "run_outbound_queue rt' = rest"
    and "if exit = None then outbound_balanced rt' else counted last_tally (Suc (length rest)) (run_metrics rt')" by blast+
qed

lemma drop_outbound_receiver_eq:
  "drop_outbound_receiver rt = Some rt' \<Longrightarrow> run_outbound_queue rt' = [] \<and> run_metrics rt' = run_metrics rt"
  by (auto simp: drop_outbound_receiver_def bind_eq_Some_conv)

text \<open>What the loop does to the account: it keeps it, or it ends and the whole queue is lost.\<close>

lemma outbound_iteration_balanced:
  assumes run: "outbound_iteration (rt\<lparr>run_outbound_queue := rest\<rparr>) packet now events = Some (rt', datagrams, exit)"
    and queue: "run_outbound_queue rt = packet # rest" and balanced: "outbound_balanced rt"
  shows "if exit = None then outbound_balanced rt'
    else run_outbound_queue rt' = [] \<and> counted last_tally (length (run_outbound_queue rt)) (run_metrics rt')"
proof -
  obtain rt1 ds x where e: "outbound_entry (rt\<lparr>run_outbound_queue := rest\<rparr>) packet now events = Some (rt1, ds, x)"
    using run by (auto simp: outbound_iteration_def bind_eq_Some_conv)
  note b = outbound_entry_balanced [OF e queue balanced]
  show ?thesis
    using run e b queue by (cases x) (auto simp: outbound_iteration_def bind_eq_Some_conv dest!: drop_outbound_receiver_eq)
qed

lemma runtime_step_balanced:
  "runtime_step s s' \<Longrightarrow> snd (snd s) = None \<Longrightarrow> outbound_balanced (fst s) \<Longrightarrow>
    if snd (snd s') = None then outbound_balanced (fst s')
    else run_outbound_queue (fst s') = [] \<and> counted last_tally (length (run_outbound_queue (fst s))) (run_metrics (fst s'))"
proof (induction rule: runtime_step.induct)
  case (send rt packet channel rt' result inbound outbound)
  then show ?case using sender_try_send_balanced [OF send(1)] by simp
next
  case (inbound rt event channel rt' exit outbound)
  then show ?case using same_outbound_balanced [OF inbound_iteration_same [OF inbound(1)]] by simp
next
  case (outbound rt packet rest now events rt' datagrams exit inbound)
  then show ?case using outbound_iteration_balanced [OF outbound(2,1)] by (cases exit) simp_all
next
  case (cancel rt rt' exit inbound)
  then show ?case
    using tally_lost by (auto simp: outbound_cancelled_def bind_eq_Some_conv counted_def dest!: drop_outbound_receiver_eq)
qed (simp_all add: request_shutdown_def stop_def)

lemma runtime_step_ended:
  "runtime_step s s' \<Longrightarrow> snd (snd s) = Some e \<Longrightarrow> snd (snd s') = Some e \<and> same_outbound (fst s) (fst s')"
proof (induction rule: runtime_step.induct)
  case (send rt packet channel rt' result inbound outbound)
  show ?case by (cases rule: sender_try_send_same [OF send(1), case_names dropped accepted]) (use send in simp_all)
next
  case (inbound rt event channel rt' exit outbound)
  then show ?case using inbound_iteration_same [OF inbound(1)] by simp
qed (simp_all add: same_outbound_def request_shutdown_def stop_def)

lemma runtime_history_ended:
  "runtime_step\<^sup>*\<^sup>* s s' \<Longrightarrow> snd (snd s) = Some e \<Longrightarrow> snd (snd s') = Some e \<and> same_outbound (fst s) (fst s')"
  by (induction rule: rtranclp_induct) (auto simp: same_outbound_def dest!: runtime_step_ended)

lemma runtime_history_balanced:
  "runtime_step\<^sup>*\<^sup>* s s' \<Longrightarrow> snd (snd s') = None \<Longrightarrow> snd (snd s) = None \<Longrightarrow> outbound_balanced (fst s) \<Longrightarrow>
    outbound_balanced (fst s')"
proof (induction rule: rtranclp_induct)
  case (step y z)
  then have "snd (snd y) = None" using runtime_step_ended [OF step(2)] by (cases "snd (snd y)") auto
  with step runtime_step_balanced [OF step(2)] show ?case by simp
qed simp

text \<open>A loop that has ended did so at one step of the history.\<close>

lemma runtime_history_last_step:
  assumes "runtime_step\<^sup>*\<^sup>* s s'" and "snd (snd s) = None" and "snd (snd s') = Some e"
  obtains s1 s2 where "runtime_step\<^sup>*\<^sup>* s s1" and "snd (snd s1) = None" and "runtime_step s1 s2"
    and "snd (snd s2) = Some e" and "runtime_step\<^sup>*\<^sup>* s2 s'"
  using assms
proof (induction arbitrary: thesis rule: rtranclp_induct)
  case (step y z)
  show ?case
  proof (cases "snd (snd y)")
    case None
    then show ?thesis using step.prems(1) [OF step.hyps(1) None step.hyps(2)] step.prems(3) by simp
  next
    case (Some x)
    then have "x = e" using runtime_step_ended [OF step.hyps(2)] step.prems(3) by simp
    with Some step show ?thesis by (metis rtranclp.rtrancl_into_rtrancl)
  qed
qed simp

text \<open>So the account of a runtime whose outbound loop has ended misses the queue of that step.\<close>

lemma runtime_history_lost:
  assumes "runtime_step\<^sup>*\<^sup>* s s'" and "snd (snd s) = None" and "outbound_balanced (fst s)" and "snd (snd s') = Some e"
  obtains s1 s2 where "runtime_step\<^sup>*\<^sup>* s s1" and "snd (snd s1) = None" and "runtime_step s1 s2"
    and "snd (snd s2) = Some e" and "runtime_step\<^sup>*\<^sup>* s2 s'" and "run_outbound_queue (fst s') = []"
    and "counted last_tally (length (run_outbound_queue (fst s1))) (run_metrics (fst s'))"
proof -
  obtain s1 s2 where h: "runtime_step\<^sup>*\<^sup>* s s1" "snd (snd s1) = None" "runtime_step s1 s2" "snd (snd s2) = Some e"
      "runtime_step\<^sup>*\<^sup>* s2 s'"
    by (rule runtime_history_last_step [OF assms(1,2,4)])
  have "run_outbound_queue (fst s2) = []" "counted last_tally (length (run_outbound_queue (fst s1))) (run_metrics (fst s2))"
    using runtime_step_balanced [OF h(3,2)] runtime_history_balanced [OF h(1,2) assms(2,3)] h(4) by simp_all
  moreover have "same_outbound (fst s2) (fst s')" using runtime_history_ended [OF h(5,4)] by simp
  ultimately show thesis using that [OF h] same_outbound_counted [of "fst s2" "fst s'"] by (simp add: same_outbound_def)
qed

section \<open>Configuration\<close>

lemma runtime_config_valid:
  "runtime_config_validate c = Inr () \<longleftrightarrow>
     VPN_MIN_QUIC_DATAGRAM_LEN \<le> runtime_max_datagram_len c \<and> runtime_max_datagram_len c \<le> u16_max \<and>
     runtime_inbound_queue_packets c \<in> {1..VPN_MAX_PACKET_QUEUE_PACKETS} \<and>
     runtime_outbound_queue_packets c \<in> {1..VPN_MAX_PACKET_QUEUE_PACKETS} \<and>
     runtime_inbound_queue_bytes c \<in> {VPN_MAX_IP_PACKET_LEN..VPN_MAX_PACKET_QUEUE_BYTES} \<and>
     runtime_outbound_queue_bytes c \<in> {VPN_MAX_IP_PACKET_LEN..VPN_MAX_PACKET_QUEUE_BYTES} \<and>
     runtime_reassembly_tick c \<in> {1..VPN_MAX_REASSEMBLY_TICK}"
  by (auto simp: runtime_config_validate_def)

lemma accept_validate_datagram:
  assumes "accept_validate a = Inr ()"
  shows "VPN_MIN_QUIC_DATAGRAM_LEN \<le> unat (accept_max_datagram_len a)" and "unat (accept_max_datagram_len a) \<le> u16_max"
proof -
  have "unat (accept_max_datagram_len a) < 2 ^ LENGTH(16)" by (rule unsigned_less)
  then show "unat (accept_max_datagram_len a) \<le> u16_max" by (simp add: u16_max_def)
  show "VPN_MIN_QUIC_DATAGRAM_LEN \<le> unat (accept_max_datagram_len a)"
    using assms by (auto simp: accept_validate_def result_simps map_err_eq_Inr validate_sizes_def Let_def split: if_splits)
qed

text \<open>
  A runtime can be configured from every valid accept, with exactly the negotiated datagram
  length; and the builders accept exactly the queue limits and ticks within the documented bounds, in
  particular only queues that can hold the largest IP packet.
\<close>

lemma runtime_config_well_formed:
  assumes "accept_validate accept = Inr ()"
  shows "\<exists>config. from_accept role accept = Inr config \<and> runtime_config_validate config = Inr () \<and>
    runtime_role config = role \<and> runtime_max_datagram_len config = unat (accept_max_datagram_len accept) \<and>
    (\<forall>inbound_packets inbound_bytes outbound_packets outbound_bytes.
      \<not> is_err (with_queue_limits config inbound_packets inbound_bytes outbound_packets outbound_bytes) \<longleftrightarrow>
        inbound_packets \<in> {1..65536} \<and> inbound_bytes \<in> {65535..2 ^ 30} \<and>
        outbound_packets \<in> {1..65536} \<and> outbound_bytes \<in> {65535..2 ^ 30}) \<and>
    (\<forall>tick. \<not> is_err (with_reassembly_tick config tick) \<longleftrightarrow> 0 < tick \<and> tick \<le> 3 * 10 ^ 9)"
proof -
  let ?c = "\<lparr>runtime_role = role, runtime_max_datagram_len = unat (accept_max_datagram_len accept),
            runtime_inbound_queue_packets = VPN_DEFAULT_PACKET_QUEUE_PACKETS,
            runtime_inbound_queue_bytes = VPN_DEFAULT_PACKET_QUEUE_BYTES,
            runtime_outbound_queue_packets = VPN_DEFAULT_PACKET_QUEUE_PACKETS,
            runtime_outbound_queue_bytes = VPN_DEFAULT_PACKET_QUEUE_BYTES,
            runtime_reassembly_tick = VPN_DEFAULT_REASSEMBLY_TICK\<rparr>"
  note d = accept_validate_datagram [OF assms]
  have v: "runtime_config_validate ?c = Inr ()"
    using d by (simp add: runtime_config_valid runtime_consts vpn_consts)
  have err: "\<not> is_err (try_then r (\<lambda>_. Inr x)) \<longleftrightarrow> r = Inr ()" for r :: "VpnDatagramRuntimeConfigError + unit" and x :: VpnDatagramRuntimeConfig
    by (cases r) simp_all
  have "from_accept role accept = Inr ?c" using v by (simp add: from_accept_def runtime_config_new_def)
  moreover have "\<not> is_err (with_queue_limits ?c ip ib op ob) \<longleftrightarrow>
      ip \<in> {1..65536} \<and> ib \<in> {65535..2 ^ 30} \<and> op \<in> {1..65536} \<and> ob \<in> {65535..2 ^ 30}" for ip ib op ob
    unfolding with_queue_limits_def Let_def err runtime_config_valid using d by (auto simp: runtime_consts vpn_consts)
  moreover have "\<not> is_err (with_reassembly_tick ?c tick) \<longleftrightarrow> 0 < tick \<and> tick \<le> 3 * 10 ^ 9" for tick
    unfolding with_reassembly_tick_def Let_def err runtime_config_valid using d by (auto simp: runtime_consts vpn_consts)
  ultimately show ?thesis using v by (intro exI [of _ ?c]) simp
qed

section \<open>A running runtime\<close>

lemma runtime_started:
  assumes "start_vpn_datagram_runtime connection runtime_available inner env still_active config = (bound, Inr rt)"
    and "inner_settled others inner env"
  shows "runtime_inv config rt" and "outbound_balanced rt" and "run_path rt = bound"
    and "bound = inner\<lparr>inner_runtime_bound := True\<rparr>" and "run_packet_ids rt = 1"
proof -
  have v: "runtime_config_validate config = Inr ()"
    and free: "\<not> inner_runtime_bound inner"
    using assms(1) by (auto simp: start_vpn_datagram_runtime_def try_bind_runtime_def Let_def
        split: sum.splits if_splits option.splits)
  have rt: "rt = \<lparr>run_role = runtime_role config,
      run_max_datagram_len = min (runtime_max_datagram_len config) (the (conn_max_datagram_size connection)),
      run_path = inner\<lparr>inner_runtime_bound := True\<rparr>, run_env = env,
      run_inbound_budget = queue_budget_new (runtime_inbound_queue_packets config) (runtime_inbound_queue_bytes config),
      run_outbound_budget = queue_budget_new (runtime_outbound_queue_packets config) (runtime_outbound_queue_bytes config),
      run_metrics = runtime_counters_default, run_inbound_leases = [], run_outbound_queue = [],
      run_packet_ids = 1, run_stopping = False, run_shutdown_requested = False\<rparr>"
    "bound = inner\<lparr>inner_runtime_bound := True\<rparr>"
    using assms(1) by (clarsimp simp: start_vpn_datagram_runtime_def try_bind_runtime_def Let_def
        split: sum.split_asm if_split_asm option.split_asm)+
  show "run_path rt = bound" "bound = inner\<lparr>inner_runtime_bound := True\<rparr>" "run_packet_ids rt = 1" by (simp_all add: rt)
  have "runtime_outbound_queue_packets config \<le> usize_max" "runtime_outbound_queue_bytes config \<le> usize_max"
    "runtime_inbound_queue_packets config \<le> usize_max" "runtime_inbound_queue_bytes config \<le> usize_max"
    using v by (simp_all add: runtime_config_valid runtime_consts usize_max_def)
  then have "queue_ok (run_outbound_budget rt) []" "queue_ok (run_inbound_budget rt) []"
    by (simp_all add: rt queue_budget_new_ok)
  moreover have "inner_settled others (run_path rt) (run_env rt)"
    using assms(2) by (simp add: rt inner_settled_def)
  moreover have "runtime_limits config rt" by (simp add: rt runtime_limits_def queue_budget_new_def)
  ultimately show "runtime_inv config rt" unfolding runtime_inv_def by (auto simp: rt simp del: split_paired_Ex)
  show "outbound_balanced rt"
    by (simp add: rt counted_def tally_def runtime_counters_default_def u64_max_def)
qed

definition sample_runtime_config :: VpnDatagramRuntimeConfig where
  "sample_runtime_config =
     \<lparr>runtime_role = Server, runtime_max_datagram_len = 1200, runtime_inbound_queue_packets = 1024,
      runtime_inbound_queue_bytes = 65535, runtime_outbound_queue_packets = 1024,
      runtime_outbound_queue_bytes = 65535, runtime_reassembly_tick = 5\<rparr>"

lemma sample_runtime_start:
  "\<exists>bound rt. start_vpn_datagram_runtime sample_connection True (path_activate sample_path) sample_shared True sample_runtime_config =
     (bound, Inr rt) \<and> run_outbound_queue rt = [] \<and> run_metrics rt = runtime_counters_default"
proof -
  have "runtime_config_validate sample_runtime_config = Inr ()"
    by (simp add: runtime_config_valid sample_runtime_config_def runtime_consts vpn_consts u16_max_def)
  then show ?thesis
    by (simp add: start_vpn_datagram_runtime_def sample_connection_def path_snapshot_def path_activate_def sample_path_def
        try_bind_runtime_def sample_runtime_config_def vpn_consts Let_def)
qed

text \<open>The application has sent one packet.\<close>

lemma sample_runtime_sent:
  obtains bound rt0 rt where
    "start_vpn_datagram_runtime sample_connection True (path_activate sample_path) sample_shared True sample_runtime_config =
      (bound, Inr rt0)"
    and "runtime_step\<^sup>*\<^sup>* (rt0, None, None) (rt, None, None)" and "run_outbound_queue rt = [sample_uplink_packet]"
    and "outbound_queue_accepted_packets (run_metrics rt) = 1"
proof -
  obtain others where settled: "inner_settled others (path_activate sample_path) sample_shared"
    by (rule system_inv_handle [OF system_history_inv [OF sample_activated sample_budget_new sample_shared_counts]]) simp
  obtain bound rt where rt: "start_vpn_datagram_runtime sample_connection True (path_activate sample_path) sample_shared True
      sample_runtime_config = (bound, Inr rt)" "run_outbound_queue rt = []" "run_metrics rt = runtime_counters_default"
    using sample_runtime_start by blast
  have inv: "runtime_inv sample_runtime_config rt" by (rule runtime_started(1) [OF rt(1) settled])
  have len: "length sample_uplink_packet = 20" by (simp add: sample_uplink_packet_def)
  have ok: "queue_ok (run_outbound_budget rt) []" using inv rt(2) by (simp add: runtime_inv_def)
  obtain budget where "queue_try_reserve (run_outbound_budget rt) 20 = Some (budget, Inr ())"
    by (rule queue_try_reserve_ok [OF ok, of 20])
      (use inv in \<open>auto simp: runtime_inv_def runtime_limits_def sample_runtime_config_def\<close>)
  then have "sender_try_send rt sample_uplink_packet (Inr ()) = Some (rt\<lparr>run_outbound_budget := budget,
      run_outbound_queue := [sample_uplink_packet], run_metrics := record_outbound_queue_accept 20 (run_metrics rt)\<rparr>, Inr ())"
    using len rt(2) by (simp add: sender_try_send_def Let_def vpn_consts)
  from r_into_rtranclp [of runtime_step, OF runtime_step.send [OF this, of None None, simplified]] rt that show thesis
    by (simp add: record_outbound_queue_accept_def runtime_counters_default_def sat_add_u64_def u64_max_def)
qed

text \<open>
  C27.  The packet queues of a runtime are accounted for exactly: whatever the application, the loops
  and the other users of the data path do, the counters of each queue are the number and the total
  length of the packets that hold a lease, they stay within the configured limits, and no call panics.
  When the outbound loop has ended, its queue is empty and all its leases are returned.
\<close>

theorem runtime_queues_exact:
  assumes "global_budget_new byte_limit packet_limit = Some b" and "budget_counts (shared_quota env0) = (0, 0)"
    and "(system_step b)\<^sup>*\<^sup>* ([], env0) (paths, env)" and "inner \<in> set paths"
    and "start_vpn_datagram_runtime connection runtime_available inner env still_active config = (bound, Inr rt0)"
    and "runtime_step\<^sup>*\<^sup>* (rt0, None, None) (rt, inbound, outbound)"
  shows "queue_current_packets (run_outbound_budget rt) = length (run_outbound_queue rt) \<and>
    queue_current_bytes (run_outbound_budget rt) = sum_list (map length (run_outbound_queue rt)) \<and>
    queue_current_packets (run_inbound_budget rt) = length (run_inbound_leases rt) \<and>
    queue_current_bytes (run_inbound_budget rt) = sum_list (map (length \<circ> data_packet_bytes) (run_inbound_leases rt)) \<and>
    queue_peak_packets (run_outbound_budget rt) \<le> runtime_outbound_queue_packets config \<and>
    queue_peak_bytes (run_outbound_budget rt) \<le> runtime_outbound_queue_bytes config \<and>
    queue_peak_packets (run_inbound_budget rt) \<le> runtime_inbound_queue_packets config \<and>
    queue_peak_bytes (run_inbound_budget rt) \<le> runtime_inbound_queue_bytes config \<and>
    sender_try_send rt packet channel \<noteq> None \<and> inbound_iteration rt event channel \<noteq> None \<and>
    outbound_cancelled rt \<noteq> None \<and> (outbound \<noteq> None \<longrightarrow> run_outbound_queue rt = []) \<and>
    (run_outbound_queue rt = first # rest \<longrightarrow>
      outbound_iteration (rt\<lparr>run_outbound_queue := rest\<rparr>) first now events \<noteq> None) \<and>
    (p \<in> set (run_inbound_leases rt) \<longrightarrow>
      queue_release (run_inbound_budget rt) (length (data_packet_bytes p)) \<noteq> None)"
proof -
  obtain others where "inner_settled others inner env"
    by (rule system_inv_handle [OF system_history_inv [OF assms(3,1,2)] assms(4)])
  note started = runtime_started(1,2) [OF assms(5) this]
  from runtime_history_inv [OF assms(6)] started have inv: "runtime_inv config rt" by simp
  have "run_outbound_queue rt = []" if ended: "outbound \<noteq> None"
  proof -
    from ended obtain e where "snd (snd (rt, inbound, outbound)) = Some e" by auto
    from runtime_history_lost [OF assms(6) _ _ this] started show ?thesis by auto
  qed
  moreover have "outbound_cancelled rt \<noteq> None" by (rule outbound_cancelled_inv [OF inv]) simp
  moreover have "queue_release (run_inbound_budget rt) (length (data_packet_bytes p)) \<noteq> None" if "p \<in> set (run_inbound_leases rt)"
  proof -
    from split_list [OF that] obtain xs ys where "run_inbound_leases rt = xs @ p # ys" by blast
    with inv have "queue_ok (run_inbound_budget rt) (map (length \<circ> data_packet_bytes) xs @ length (data_packet_bytes p) #
        map (length \<circ> data_packet_bytes) ys)" by (simp add: runtime_inv_def)
    then show ?thesis by (rule queue_release_ok) simp
  qed
  moreover have "sender_try_send rt packet channel \<noteq> None" by (rule sender_try_send_inv [OF inv, of packet channel]) simp
  moreover have "inbound_iteration rt event channel \<noteq> None" by (rule inbound_iteration_inv [OF inv, of event channel]) simp
  moreover have "outbound_iteration (rt\<lparr>run_outbound_queue := rest\<rparr>) first now events \<noteq> None" if "run_outbound_queue rt = first # rest"
    by (rule outbound_iteration_inv [OF inv that, of now events]) simp
  ultimately show ?thesis using inv by (auto simp: runtime_inv_def runtime_limits_def queue_ok_def)
qed

theorem runtime_queues_exact_witness:
  "\<exists>rt :: VpnDatagramRuntime. run_outbound_queue rt = [sample_uplink_packet] \<and> queue_current_packets (run_outbound_budget rt) = 1 \<and>
     queue_current_bytes (run_outbound_budget rt) = 20"
proof -
  obtain bound rt0 rt where r: "start_vpn_datagram_runtime sample_connection True (path_activate sample_path) sample_shared True
      sample_runtime_config = (bound, Inr rt0)" "runtime_step\<^sup>*\<^sup>* (rt0, None, None) (rt, None, None)"
    "run_outbound_queue rt = [sample_uplink_packet]" by (rule sample_runtime_sent)
  from runtime_queues_exact [OF sample_budget_new sample_shared_counts sample_activated _ r(1,2)]
  have "queue_current_packets (run_outbound_budget rt) = length (run_outbound_queue rt)"
    "queue_current_bytes (run_outbound_budget rt) = sum_list (map length (run_outbound_queue rt))" by simp_all
  then show ?thesis using r(3) by (intro exI [of _ rt]) (simp add: sample_uplink_packet_def)
qed

text \<open>
  C28.  The counters of a runtime account for every outbound packet, until the counter of accepted
  packets saturates.  As long as the outbound loop runs, every accepted packet is waiting, was sent
  completely, or was rejected.  When the loop has ended, it did so at one step of the history, and the
  packets missing from this account are exactly those that were waiting before that step, the one on
  which the loop ended included: they are at most as many as the queue may hold, at most one of them
  was encoded, and at most one was sent in part.
\<close>

theorem runtime_counters_account:
  assumes "global_budget_new byte_limit packet_limit = Some b" and "budget_counts (shared_quota env0) = (0, 0)"
    and "(system_step b)\<^sup>*\<^sup>* ([], env0) (paths, env)" and "inner \<in> set paths"
    and "start_vpn_datagram_runtime connection runtime_available inner env still_active config = (bound, Inr rt0)"
    and "runtime_step\<^sup>*\<^sup>* (rt0, None, None) (rt, inbound, outbound)"
    and "outbound_queue_accepted_packets (run_metrics rt) < u64_max"
  shows "let m = run_metrics rt in
    (case outbound of
       None \<Rightarrow>
         outbound_queue_accepted_packets m =
           length (run_outbound_queue rt) + outbound_packets_sent m + outbound_packets_rejected m \<and>
         outbound_packets_encoded m = outbound_packets_sent m \<and> outbound_packets_partially_sent m = 0
     | Some exit \<Rightarrow>
         run_outbound_queue rt = [] \<and>
         (\<exists>rt1 inbound1 rt2 inbound2. runtime_step\<^sup>*\<^sup>* (rt0, None, None) (rt1, inbound1, None) \<and>
           runtime_step (rt1, inbound1, None) (rt2, inbound2, Some exit) \<and>
           runtime_step\<^sup>*\<^sup>* (rt2, inbound2, Some exit) (rt, inbound, outbound) \<and>
           outbound_queue_accepted_packets m =
             length (run_outbound_queue rt1) + outbound_packets_sent m + outbound_packets_rejected m \<and>
           length (run_outbound_queue rt1) \<le> runtime_outbound_queue_packets config \<and>
           outbound_packets_sent m \<le> outbound_packets_encoded m \<and>
           outbound_packets_encoded m \<le> min (outbound_packets_sent m + 1) (outbound_queue_accepted_packets m) \<and>
           outbound_packets_partially_sent m \<le> outbound_packets_encoded m - outbound_packets_sent m))"
proof -
  obtain others where "inner_settled others inner env"
    by (rule system_inv_handle [OF system_history_inv [OF assms(3,1,2)] assms(4)])
  note started = runtime_started(1,2) [OF assms(5) this]
  show ?thesis
  proof (cases outbound)
    case None
    with runtime_history_balanced [OF assms(6)] started have "outbound_balanced rt" by simp
    then show ?thesis using None assms(7) by (simp add: counted_def tally_def Let_def)
  next
    case (Some e)
    obtain s1 s2 where h: "runtime_step\<^sup>*\<^sup>* (rt0, None, None) s1" "snd (snd s1) = None" "runtime_step s1 s2"
      "snd (snd s2) = Some e" "runtime_step\<^sup>*\<^sup>* s2 (rt, inbound, outbound)" "run_outbound_queue rt = []"
      "counted last_tally (length (run_outbound_queue (fst s1))) (run_metrics rt)"
      by (rule runtime_history_lost [OF assms(6)]) (use started Some in auto)
    obtain rt1 i1 rt2 i2 where s: "s1 = (rt1, i1, None)" "s2 = (rt2, i2, Some e)"
      using h(2,4) by (metis prod.collapse)
    have "runtime_inv config rt1" using runtime_history_inv [OF h(1)] started s by simp
    then have "length (run_outbound_queue rt1) \<le> runtime_outbound_queue_packets config"
      by (simp add: runtime_inv_def runtime_limits_def queue_ok_def)
    moreover have "runtime_step\<^sup>*\<^sup>* (rt0, None, None) (rt1, i1, None)" "runtime_step (rt1, i1, None) (rt2, i2, Some e)"
      "runtime_step\<^sup>*\<^sup>* (rt2, i2, Some e) (rt, inbound, outbound)" using h s by simp_all
    moreover have "last_tally (outbound_queue_accepted_packets (run_metrics rt)) (length (run_outbound_queue rt1))
        (outbound_packets_encoded (run_metrics rt)) (outbound_packets_rejected (run_metrics rt))
        (outbound_packets_sent (run_metrics rt)) (outbound_packets_partially_sent (run_metrics rt))"
      using h(7) s by (simp add: counted_def)
    ultimately show ?thesis
      unfolding Let_def Some option.case using assms(7) h(6)
      by (intro conjI exI [of _ rt1] exI [of _ i1] exI [of _ rt2] exI [of _ i2]) (auto simp: last_tally_def)
  qed
qed

text \<open>One packet is waiting; when the loop is stopped, it is lost.\<close>

theorem runtime_counters_account_witness:
  "\<exists>rt rt' :: VpnDatagramRuntime. run_outbound_queue rt = [sample_uplink_packet] \<and>
     outbound_packets_sent (run_metrics rt) + outbound_packets_rejected (run_metrics rt) = 0 \<and>
     outbound_cancelled rt = Some (rt', ExitStopped) \<and> run_outbound_queue rt' = [] \<and>
     outbound_queue_accepted_packets (run_metrics rt') = 1"
proof -
  obtain bound rt0 rt where r: "start_vpn_datagram_runtime sample_connection True (path_activate sample_path) sample_shared True
      sample_runtime_config = (bound, Inr rt0)" "runtime_step\<^sup>*\<^sup>* (rt0, None, None) (rt, None, None)"
    "run_outbound_queue rt = [sample_uplink_packet]" "outbound_queue_accepted_packets (run_metrics rt) = 1"
    by (rule sample_runtime_sent)
  obtain others where settled: "inner_settled others (path_activate sample_path) sample_shared"
    by (rule system_inv_handle [OF system_history_inv [OF sample_activated sample_budget_new sample_shared_counts]]) simp
  have inv: "runtime_inv sample_runtime_config rt"
    using runtime_history_inv [OF r(2)] runtime_started(1) [OF r(1) settled] by simp
  obtain b where c: "outbound_cancelled rt = Some (rt\<lparr>run_outbound_queue := [], run_outbound_budget := b\<rparr>, ExitStopped)"
    by (rule outbound_cancelled_inv [OF inv])
  from rtranclp.rtrancl_into_rtrancl [OF r(2) runtime_step.cancel [OF c]]
  have h: "runtime_step\<^sup>*\<^sup>* (rt0, None, None) (rt\<lparr>run_outbound_queue := [], run_outbound_budget := b\<rparr>, None, Some ExitStopped)" .
  from runtime_counters_account [OF sample_budget_new sample_shared_counts sample_activated _ r(1) h] r(4)
  have "run_outbound_queue (rt\<lparr>run_outbound_queue := [], run_outbound_budget := b\<rparr>) = []" by (simp add: Let_def u64_max_def)
  moreover from runtime_counters_account [OF sample_budget_new sample_shared_counts sample_activated _ r(1,2)] r(3,4)
  have "outbound_packets_sent (run_metrics rt) + outbound_packets_rejected (run_metrics rt) = 0"
    by (auto simp: Let_def u64_max_def)
  ultimately show ?thesis using c r(3,4) by (intro exI [of _ rt] exI) auto
qed

text \<open>The end of a runtime, from any state the invariant allows.\<close>

lemma supervise_finish_retires:
  assumes "runtime_inv config rt"
  obtains rt' report where "supervise_finish rt first second = Some (rt', report)"
    and "runtime_inv config rt'" and "run_inbound_leases rt' = run_inbound_leases rt"
    and "run_outbound_queue rt' = run_outbound_queue rt" and "run_stopping rt' = run_stopping rt"
    and "\<not> inner_runtime_bound (run_path rt')" and "\<not> path_snap_active (path_snapshot (run_path rt'))"
    and "path_snap_buffered_reassembly_bytes (path_snapshot (run_path rt')) = 0"
    and "report_stop_reason report = (if run_shutdown_requested rt then ShutdownRequested
      else stop_reason (combine_task_exits first second))"
proof -
  obtain others where "inner_settled others (run_path rt) (run_env rt)"
    using assms unfolding runtime_inv_def by blast
  then have settled: "inner_settled others (unbind_runtime (run_path rt)) (run_env rt)"
    by (simp add: unbind_runtime_def inner_settled_def)
  obtain gone m where gone: "path_deactivate (unbind_runtime (run_path rt)) (shared_quota (run_env rt)) = Some (gone, m)"
    "inner_settled others gone ((run_env rt)\<lparr>shared_quota := m\<rparr>)" "\<not> path_active (inner_state gone)"
    "path_accounted_bytes (inner_state gone) = 0" "path_accounted_packets (inner_state gone) = 0"
    by (rule path_deactivate_settled [OF settled])
  have unbound: "\<not> inner_runtime_bound gone"
    using gone(1) by (auto simp: path_deactivate_def unbind_runtime_def bind_eq_Some_conv)
  have "path_packets (inner_state gone) = 0" "path_bytes (inner_state gone) = 0"
    using gone(2,4,5) by (simp_all add: inner_settled_def settled_def exact_def)
  then have empty: "path_snap_buffered_reassembly_bytes (path_snapshot gone) = 0"
    using settled_snapshot(1) [OF gone(2)] by simp
  let ?rt = "rt\<lparr>run_path := gone, run_env := (run_env rt)\<lparr>shared_quota := m\<rparr>\<rparr>"
  have inv: "runtime_inv config ?rt" by (rule runtime_inv_path [OF assms gone(2)])
  obtain report where run: "supervise_finish rt first second = Some (?rt, report)"
    and reason: "report_stop_reason report = (if run_shutdown_requested rt then ShutdownRequested
      else stop_reason (combine_task_exits first second))"
    using gone(1) by (simp add: supervise_finish_def Let_def)
  show thesis by (rule that [OF run inv]) (use unbound empty gone(3) reason in \<open>simp_all add: path_snapshot_def Let_def\<close>)
qed

lemma stop_inv [simp]: "runtime_inv config (stop rt) = runtime_inv config rt"
  by (simp add: stop_def runtime_inv_def runtime_limits_def)

text \<open>
  C29.  When a runtime ends it takes its data path with it: supervision returns, the path is unbound,
  inactive and empty, and no further runtime can be started on it.  The reported reason is the
  shutdown request if there was one, otherwise a failed worker if a task failed, otherwise why the
  first task ended, and why the second one ended if the first was merely stopped.  By then both loops
  have been told to stop.
\<close>

theorem runtime_end_retires_path:
  assumes "global_budget_new byte_limit packet_limit = Some b" and "budget_counts (shared_quota env0) = (0, 0)"
    and "(system_step b)\<^sup>*\<^sup>* ([], env0) (paths, env)" and "inner \<in> set paths"
    and "start_vpn_datagram_runtime connection runtime_available inner env still_active config = (bound, Inr rt0)"
    and "runtime_step\<^sup>*\<^sup>* (rt0, None, None) (rt, inbound, outbound)"
  shows "\<exists>rt' report. supervise_runtime rt first second = Some (rt', report) \<and> run_stopping rt' \<and>
    \<not> inner_runtime_bound (run_path rt') \<and> \<not> path_snap_active (path_snapshot (run_path rt')) \<and>
    path_snap_buffered_reassembly_bytes (path_snapshot (run_path rt')) = 0 \<and>
    (runtime_config_validate config' = Inr () \<longrightarrow>
      start_vpn_datagram_runtime connection' True (run_path rt') env' active' config' = (run_path rt', Inl InactiveDataPath)) \<and>
    report_stop_reason report =
      (if run_shutdown_requested rt then ShutdownRequested
       else case (first, second) of
           (Some ExitStopped, Some exit) \<Rightarrow> stop_reason exit
         | (Some exit, Some exit') \<Rightarrow> if exit' = ExitWorkerFailed then WorkerFailed else stop_reason exit
         | _ \<Rightarrow> WorkerFailed)"
proof -
  obtain others where "inner_settled others inner env"
    by (rule system_inv_handle [OF system_history_inv [OF assms(3,1,2)] assms(4)])
  from runtime_history_inv [OF assms(6)] runtime_started(1) [OF assms(5) this]
  have "runtime_inv config rt" by simp
  then have inv: "runtime_inv config (stop rt)" by simp
  obtain rt' report where "supervise_finish (stop rt) (join_task first) (join_task second) = Some (rt', report)"
    "run_stopping rt' = run_stopping (stop rt)"
    and run: "\<not> inner_runtime_bound (run_path rt')" "\<not> path_snap_active (path_snapshot (run_path rt'))"
    "path_snap_buffered_reassembly_bytes (path_snapshot (run_path rt')) = 0"
    "report_stop_reason report = (if run_shutdown_requested (stop rt) then ShutdownRequested
      else stop_reason (combine_task_exits (join_task first) (join_task second)))"
    by (rule supervise_finish_retires [OF inv, of "join_task first" "join_task second"])
  then have "supervise_runtime rt first second = Some (rt', report)" "run_stopping rt'"
    by (simp_all add: supervise_runtime_def stop_def Let_def)
  moreover have "stop_reason (combine_task_exits (join_task first) (join_task second)) =
      (case (first, second) of
           (Some ExitStopped, Some exit) \<Rightarrow> stop_reason exit
         | (Some exit, Some exit') \<Rightarrow> if exit' = ExitWorkerFailed then WorkerFailed else stop_reason exit
         | _ \<Rightarrow> WorkerFailed)"
    by (auto simp: combine_task_exits_def join_task_def split: option.splits VpnRuntimeTaskExit.splits)
  ultimately show ?thesis
    using run by (intro exI [of _ rt'] exI [of _ report]) (simp add: stop_def start_vpn_datagram_runtime_def Let_def)
qed

theorem runtime_end_retires_path_witness:
  "\<exists>rt rt' :: VpnDatagramRuntime. \<exists>report. supervise_runtime rt (Some ExitStopped) (Some ExitConnectionClosed) = Some (rt', report) \<and>
     start_vpn_datagram_runtime sample_connection True (run_path rt') sample_shared True sample_runtime_config =
       (run_path rt', Inl InactiveDataPath)"
proof -
  obtain bound rt0 rt where r: "start_vpn_datagram_runtime sample_connection True (path_activate sample_path) sample_shared True
      sample_runtime_config = (bound, Inr rt0)" "runtime_step\<^sup>*\<^sup>* (rt0, None, None) (rt, None, None)"
    by (rule sample_runtime_sent)
  have "runtime_config_validate sample_runtime_config = Inr ()"
    by (simp add: runtime_config_valid sample_runtime_config_def runtime_consts vpn_consts u16_max_def)
  with runtime_end_retires_path [OF sample_budget_new sample_shared_counts sample_activated _ r(1,2),
      of "Some ExitStopped" "Some ExitConnectionClosed" sample_runtime_config sample_connection sample_shared True]
  show ?thesis by auto
qed

end
