(* ===== verification/Vpn_Bridge.thy ===== *)
theory Vpn_Bridge
  imports Vpn_Runtime_Properties "HOL-Library.Sublist"
begin

text \<open>
  The packet bridge between a packet device and a datagram runtime (\<open>vpn_packet_bridge.rs\<close>): the
  device, the counters, the client's packet pump with its attachments, one iteration of each loop, and
  the end of a bridge.  The device file, the asynchronous runtime and the shutdown signals are library
  objects: what a call or a \<open>select!\<close> on them yields is an argument.
\<close>

section \<open>Configuration and device\<close>

text \<open>\<open>io::ErrorKind\<close>, as far as the source tells the kinds apart; the others by their debug name.\<close>

datatype ErrorKind = Interrupted | InvalidInput | WriteZero | OtherKind string

datatype VpnPacketBridgeConfigError = InvalidPacketLength

fun VpnPacketBridgeConfigError_display :: "VpnPacketBridgeConfigError \<Rightarrow> string" where
  "VpnPacketBridgeConfigError_display InvalidPacketLength = ''vpn_packet_bridge_invalid_packet_length''"

record VpnPacketBridgeConfig =
  bridge_max_packet_len :: usize

definition bridge_config_new :: "usize \<Rightarrow> VpnPacketBridgeConfigError + VpnPacketBridgeConfig" where
  "bridge_config_new max_packet_len =
     (if \<not> (VPN_MIN_IP_PACKET_LEN \<le> max_packet_len \<and> max_packet_len \<le> VPN_MAX_IP_PACKET_LEN)
      then Inl InvalidPacketLength
      else Inr \<lparr>bridge_max_packet_len = max_packet_len\<rparr>)"

text \<open>
  What one turn of the device loops yields: waiting for readiness fails, the operation would block,
  or the system call returns.  Without a further turn the call is still waiting (\<open>None\<close>).
\<close>

datatype 'a DeviceTurn = NotReady ErrorKind | WouldBlock | SystemCall "ErrorKind + 'a"

fun read_turns :: "bytes DeviceTurn list \<Rightarrow> (ErrorKind + bytes) option" where
  "read_turns [] = None"
| "read_turns (NotReady kind # _) = Some (Inl kind)"
| "read_turns (WouldBlock # turns) = read_turns turns"
| "read_turns (SystemCall (Inl Interrupted) # turns) = read_turns turns"
| "read_turns (SystemCall result # _) = Some result"

definition read_packet :: "usize \<Rightarrow> bytes DeviceTurn list \<Rightarrow> (ErrorKind + bytes) option" where
  "read_packet buffer_len turns = (if buffer_len = 0 then Some (Inl InvalidInput) else read_turns turns)"

fun write_turns :: "usize \<Rightarrow> usize DeviceTurn list \<Rightarrow> (ErrorKind + unit) option" where
  "write_turns n [] = None"
| "write_turns n (NotReady kind # _) = Some (Inl kind)"
| "write_turns n (WouldBlock # turns) = write_turns n turns"
| "write_turns n (SystemCall (Inr written) # _) = Some (if written = n then Inr () else Inl WriteZero)"
| "write_turns n (SystemCall (Inl Interrupted) # turns) = write_turns n turns"
| "write_turns n (SystemCall (Inl kind) # _) = Some (Inl kind)"

definition write_packet :: "bytes \<Rightarrow> usize DeviceTurn list \<Rightarrow> (ErrorKind + unit) option" where
  "write_packet packet turns =
     (if packet = [] \<or> length packet > VPN_MAX_IP_PACKET_LEN then Some (Inl InvalidInput)
      else write_turns (length packet) turns)"

section \<open>Counters\<close>

record VpnPacketBridgeMetricCounters =
  device_read_packets :: nat
  device_read_bytes :: nat
  device_written_packets :: nat
  device_written_bytes :: nat
  oversized_device_packets :: nat
  oversized_device_observed_bytes :: nat
  bridge_queue_dropped_packets :: nat
  bridge_queue_dropped_bytes :: nat
  offline_dropped_packets :: nat
  offline_dropped_bytes :: nat

definition bridge_counters_default :: VpnPacketBridgeMetricCounters where
  "bridge_counters_default =
     \<lparr>device_read_packets = 0, device_read_bytes = 0, device_written_packets = 0, device_written_bytes = 0,
      oversized_device_packets = 0, oversized_device_observed_bytes = 0, bridge_queue_dropped_packets = 0,
      bridge_queue_dropped_bytes = 0, offline_dropped_packets = 0, offline_dropped_bytes = 0\<rparr>"

text \<open>A snapshot reads every counter.\<close>

type_synonym VpnPacketBridgeMetricsSnapshot = VpnPacketBridgeMetricCounters

definition bridge_snapshot :: "VpnPacketBridgeMetricCounters \<Rightarrow> VpnPacketBridgeMetricsSnapshot" where
  "bridge_snapshot m =
     \<lparr>device_read_packets = device_read_packets m, device_read_bytes = device_read_bytes m,
      device_written_packets = device_written_packets m, device_written_bytes = device_written_bytes m,
      oversized_device_packets = oversized_device_packets m,
      oversized_device_observed_bytes = oversized_device_observed_bytes m,
      bridge_queue_dropped_packets = bridge_queue_dropped_packets m,
      bridge_queue_dropped_bytes = bridge_queue_dropped_bytes m,
      offline_dropped_packets = offline_dropped_packets m, offline_dropped_bytes = offline_dropped_bytes m\<rparr>"

definition record_read :: "usize \<Rightarrow> VpnPacketBridgeMetricCounters \<Rightarrow> VpnPacketBridgeMetricCounters" where
  "record_read n m = m\<lparr>device_read_packets := sat_add_u64 (device_read_packets m) 1,
                       device_read_bytes := sat_add_u64 (device_read_bytes m) n\<rparr>"

definition record_written :: "usize \<Rightarrow> VpnPacketBridgeMetricCounters \<Rightarrow> VpnPacketBridgeMetricCounters" where
  "record_written n m = m\<lparr>device_written_packets := sat_add_u64 (device_written_packets m) 1,
                          device_written_bytes := sat_add_u64 (device_written_bytes m) n\<rparr>"

definition record_oversized :: "usize \<Rightarrow> VpnPacketBridgeMetricCounters \<Rightarrow> VpnPacketBridgeMetricCounters" where
  "record_oversized n m = m\<lparr>oversized_device_packets := sat_add_u64 (oversized_device_packets m) 1,
                            oversized_device_observed_bytes := sat_add_u64 (oversized_device_observed_bytes m) n\<rparr>"

definition record_queue_drop :: "usize \<Rightarrow> VpnPacketBridgeMetricCounters \<Rightarrow> VpnPacketBridgeMetricCounters" where
  "record_queue_drop n m = m\<lparr>bridge_queue_dropped_packets := sat_add_u64 (bridge_queue_dropped_packets m) 1,
                             bridge_queue_dropped_bytes := sat_add_u64 (bridge_queue_dropped_bytes m) n\<rparr>"

definition record_offline_drop :: "usize \<Rightarrow> VpnPacketBridgeMetricCounters \<Rightarrow> VpnPacketBridgeMetricCounters" where
  "record_offline_drop n m = m\<lparr>offline_dropped_packets := sat_add_u64 (offline_dropped_packets m) 1,
                               offline_dropped_bytes := sat_add_u64 (offline_dropped_bytes m) n\<rparr>"

lemmas bridge_counter_defs = record_read_def record_written_def record_oversized_def record_queue_drop_def
  record_offline_drop_def

section \<open>The client's packet pump\<close>

datatype VpnClientPacketPumpStartError = PumpInvalidConfig VpnPacketBridgeConfigError | PumpRuntimeUnavailable

fun VpnClientPacketPumpStartError_display :: "VpnClientPacketPumpStartError \<Rightarrow> string" where
  "VpnClientPacketPumpStartError_display (PumpInvalidConfig e) =
     ''vpn_client_packet_pump_config:'' @ VpnPacketBridgeConfigError_display e"
| "VpnClientPacketPumpStartError_display PumpRuntimeUnavailable = ''vpn_client_packet_pump_no_tokio''"

datatype VpnClientPacketPumpAttachError =
    AttachInvalidPacketLength | AlreadyAttached | AttachGenerationExhausted | ControlPoisoned

fun VpnClientPacketPumpAttachError_display :: "VpnClientPacketPumpAttachError \<Rightarrow> string" where
  "VpnClientPacketPumpAttachError_display AttachInvalidPacketLength = ''vpn_client_packet_pump_invalid_packet_length''"
| "VpnClientPacketPumpAttachError_display AlreadyAttached = ''vpn_client_packet_pump_already_attached''"
| "VpnClientPacketPumpAttachError_display AttachGenerationExhausted = ''vpn_client_packet_pump_generation_exhausted''"
| "VpnClientPacketPumpAttachError_display ControlPoisoned = ''vpn_client_packet_pump_control_poisoned''"

datatype VpnClientPacketPumpStopReason =
    PumpShutdownRequested | PumpDeviceClosed | PumpDeviceReadFailed ErrorKind | PumpWorkerFailed

record VpnClientPacketPumpReport =
  pump_report_stop_reason :: VpnClientPacketPumpStopReason
  pump_report_metrics :: VpnPacketBridgeMetricsSnapshot

text \<open>
  A packet sender belongs to a runtime; runtimes are kept in a store and a sender is an index of it.
  The pump's control is shared, so it is state: the target of the \<open>watch\<close> channel, the shutdown flag
  and the attachment state.  Nothing panics while the attachment's lock is held, so the lock is never
  poisoned.
\<close>

record VpnClientPacketPumpTarget =
  target_max_packet_len :: usize
  target_outbound :: nat

record VpnClientPacketPumpControl =
  pump_max_packet_len :: usize
  pump_target :: "VpnClientPacketPumpTarget option"
  pump_shutdown :: bool
  pump_next_generation :: nat
  pump_active_generation :: "nat option"

record VpnClientPacketPumpAttachment =
  attachment_generation :: nat
  attachment_attached :: bool

definition pump_control_new :: "usize \<Rightarrow> VpnClientPacketPumpControl" where
  "pump_control_new max_packet_len =
     \<lparr>pump_max_packet_len = max_packet_len, pump_target = None, pump_shutdown = False,
      pump_next_generation = 1, pump_active_generation = None\<rparr>"

definition pump_request_shutdown :: "VpnClientPacketPumpControl \<Rightarrow> VpnClientPacketPumpControl" where
  "pump_request_shutdown c = c\<lparr>pump_shutdown := True\<rparr>"

definition pump_attach ::
  "VpnClientPacketPumpControl \<Rightarrow> nat \<Rightarrow> usize \<Rightarrow>
   VpnClientPacketPumpControl \<times> (VpnClientPacketPumpAttachError + VpnClientPacketPumpAttachment)" where
  "pump_attach c outbound max_packet_len =
     (if \<not> (VPN_MIN_IP_PACKET_LEN \<le> max_packet_len \<and> max_packet_len \<le> pump_max_packet_len c)
      then (c, Inl AttachInvalidPacketLength)
      else if is_some (pump_active_generation c) then (c, Inl AlreadyAttached)
      else let generation = pump_next_generation c in
        if generation + 1 > u64_max then (c, Inl AttachGenerationExhausted)
        else (c\<lparr>pump_next_generation := generation + 1, pump_active_generation := Some generation,
                pump_target := Some \<lparr>target_max_packet_len = max_packet_len, target_outbound = outbound\<rparr>\<rparr>,
              Inr \<lparr>attachment_generation = generation, attachment_attached = True\<rparr>))"

definition pump_detach :: "VpnClientPacketPumpControl \<Rightarrow> nat \<Rightarrow> VpnClientPacketPumpControl" where
  "pump_detach c generation =
     (if pump_active_generation c = Some generation
      then c\<lparr>pump_active_generation := None, pump_target := None\<rparr>
      else c)"

definition attachment_detach ::
  "VpnClientPacketPumpControl \<Rightarrow> VpnClientPacketPumpAttachment \<Rightarrow>
   VpnClientPacketPumpControl \<times> VpnClientPacketPumpAttachment" where
  "attachment_detach c a =
     (if attachment_attached a
      then (pump_detach c (attachment_generation a), a\<lparr>attachment_attached := False\<rparr>)
      else (c, a))"

definition start_vpn_client_packet_pump ::
  "bool \<Rightarrow> VpnPacketBridgeConfig \<Rightarrow>
   VpnClientPacketPumpStartError + VpnClientPacketPumpControl \<times> VpnPacketBridgeMetricCounters" where
  "start_vpn_client_packet_pump runtime_available config =
     try_then (map_err PumpInvalidConfig (bridge_config_new (bridge_max_packet_len config))) (\<lambda>_.
       if \<not> runtime_available then Inl PumpRuntimeUnavailable
       else Inr (pump_control_new (bridge_max_packet_len config), bridge_counters_default))"

text \<open>What the \<open>select!\<close> of a reading loop yields: the shutdown signal, or the end of a read.\<close>

datatype ReadEvent = ReadShutdown | DeviceRead "ErrorKind + bytes"

definition pump_iteration ::
  "VpnClientPacketPumpControl \<Rightarrow> VpnPacketBridgeMetricCounters \<Rightarrow> VpnDatagramRuntime list \<Rightarrow> ReadEvent \<Rightarrow>
   (TrySendError + unit) \<Rightarrow>
   (VpnPacketBridgeMetricCounters \<times> VpnDatagramRuntime list \<times> VpnClientPacketPumpStopReason option) option" where
  "pump_iteration c m runtimes event channel =
     (case event of
        ReadShutdown \<Rightarrow> Some (m, runtimes, Some PumpShutdownRequested)
      | DeviceRead (Inr []) \<Rightarrow> Some (m, runtimes, Some PumpDeviceClosed)
      | DeviceRead (Inl kind) \<Rightarrow> Some (m, runtimes, Some (PumpDeviceReadFailed kind))
      | DeviceRead (Inr packet) \<Rightarrow>
          let n = length packet; m = record_read n m in
          (case pump_target c of
             None \<Rightarrow> Some (record_offline_drop n m, runtimes, None)
           | Some target \<Rightarrow>
               if n > target_max_packet_len target then Some (record_oversized n m, runtimes, None)
               else Option.bind (sender_try_send (runtimes ! target_outbound target) packet channel) (\<lambda>(rt, result).
                 let runtimes = runtimes[target_outbound target := rt] in
                 if is_err result then Some (record_queue_drop n m, runtimes, None)
                 else Some (m, runtimes, None))))"

definition pump_finish :: "VpnClientPacketPumpStopReason \<Rightarrow> VpnPacketBridgeMetricCounters \<Rightarrow> VpnClientPacketPumpReport" where
  "pump_finish reason m =
     \<lparr>pump_report_stop_reason = reason, pump_report_metrics = bridge_snapshot m\<rparr>"

definition pump_join ::
  "VpnPacketBridgeMetricCounters \<Rightarrow> VpnClientPacketPumpReport option \<Rightarrow> VpnClientPacketPumpReport" where
  "pump_join m task =
     (case task of
        Some report \<Rightarrow> report
      | None \<Rightarrow> \<lparr>pump_report_stop_reason = PumpWorkerFailed, pump_report_metrics = bridge_snapshot m\<rparr>)"

section \<open>The bridge\<close>

datatype VpnPacketBridgeStopReason =
    BridgeShutdownRequested | BridgeDatagramRuntime VpnDatagramRuntimeStopReason | BridgeDeviceClosed
  | BridgeDeviceReadFailed ErrorKind | BridgeDeviceWriteFailed ErrorKind | BridgeWorkerFailed

record VpnPacketBridgeReport =
  bridge_report_stop_reason :: VpnPacketBridgeStopReason
  bridge_report_metrics :: VpnPacketBridgeMetricsSnapshot
  bridge_report_datagram_runtime :: "VpnDatagramRuntimeReport option"

datatype VpnPacketBridgeStartError =
    BridgeInvalidConfig VpnPacketBridgeConfigError | ClientPump VpnClientPacketPumpAttachError
  | BridgeRuntimeUnavailable

fun VpnPacketBridgeStartError_display :: "VpnPacketBridgeStartError \<Rightarrow> string" where
  "VpnPacketBridgeStartError_display (BridgeInvalidConfig e) =
     ''vpn_packet_bridge_config:'' @ VpnPacketBridgeConfigError_display e"
| "VpnPacketBridgeStartError_display (ClientPump e) =
     ''vpn_packet_bridge_client_pump:'' @ VpnClientPacketPumpAttachError_display e"
| "VpnPacketBridgeStartError_display BridgeRuntimeUnavailable = ''vpn_packet_bridge_no_tokio''"

datatype VpnPacketReaderExit =
    ReaderShutdown | ReaderDeviceClosed | ReaderDeviceReadFailed ErrorKind | ReaderOutboundClosed

datatype VpnPacketBridgeTrigger =
    TriggerShutdown | TriggerDatagramRuntimeStopped | TriggerReader VpnPacketReaderExit
  | TriggerDeviceWriteFailed ErrorKind | TriggerWorkerFailed

text \<open>A server's bridge reads the device itself (\<open>run_packet_reader\<close>).\<close>

definition reader_iteration ::
  "VpnPacketBridgeConfig \<Rightarrow> VpnPacketBridgeMetricCounters \<Rightarrow> VpnDatagramRuntime \<Rightarrow> ReadEvent \<Rightarrow>
   (TrySendError + unit) \<Rightarrow>
   (VpnPacketBridgeMetricCounters \<times> VpnDatagramRuntime \<times> VpnPacketReaderExit option) option" where
  "reader_iteration config m rt event channel =
     (case event of
        ReadShutdown \<Rightarrow> Some (m, rt, Some ReaderShutdown)
      | DeviceRead (Inr []) \<Rightarrow> Some (m, rt, Some ReaderDeviceClosed)
      | DeviceRead (Inl kind) \<Rightarrow> Some (m, rt, Some (ReaderDeviceReadFailed kind))
      | DeviceRead (Inr packet) \<Rightarrow>
          let n = length packet; m = record_read n m in
          if n > bridge_max_packet_len config then Some (record_oversized n m, rt, None)
          else Option.bind (sender_try_send rt packet channel) (\<lambda>(rt, result).
            case result of
              Inr _ \<Rightarrow> Some (m, rt, None)
            | Inl QueueClosed \<Rightarrow> Some (m, rt, Some ReaderOutboundClosed)
            | Inl _ \<Rightarrow> Some (record_queue_drop n m, rt, None)))"

text \<open>
  The supervising loop of a bridge.  Its outer \<open>select!\<close> yields the shutdown signal, the exit of the
  reader (a server's bridge only; \<open>None\<close> when the reader's channel is gone), the end of the inbound
  channel, or a packet, which is then written while the same signals are observed.
\<close>

datatype WriteEvent = WriteShutdown | WriteReaderExit "VpnPacketReaderExit option" | Written "ErrorKind + unit"

datatype BridgeEvent =
    BridgeShutdown | BridgeReaderExit "VpnPacketReaderExit option" | BridgeInboundClosed
  | BridgePacket VpnDataPacket WriteEvent

fun reader_trigger :: "VpnPacketReaderExit option \<Rightarrow> VpnPacketBridgeTrigger" where
  "reader_trigger (Some ReaderShutdown) = TriggerShutdown"
| "reader_trigger (Some exit) = TriggerReader exit"
| "reader_trigger None = TriggerWorkerFailed"

text \<open>
  The packet has left the inbound channel; its lease ends with the iteration, whatever happens to the
  write.
\<close>

definition bridge_iteration ::
  "VpnPacketBridgeMetricCounters \<Rightarrow> VpnDatagramRuntime \<Rightarrow> BridgeEvent \<Rightarrow>
   (VpnPacketBridgeMetricCounters \<times> VpnDatagramRuntime \<times> VpnPacketBridgeTrigger option) option" where
  "bridge_iteration m rt event =
     (case event of
        BridgeShutdown \<Rightarrow> Some (m, rt, Some TriggerShutdown)
      | BridgeReaderExit exit \<Rightarrow> Some (m, rt, Some (reader_trigger exit))
      | BridgeInboundClosed \<Rightarrow> Some (m, rt, Some TriggerDatagramRuntimeStopped)
      | BridgePacket packet write \<Rightarrow>
          let n = length (data_packet_bytes packet);
              (m, trigger) =
                (case write of
                   WriteShutdown \<Rightarrow> (m, Some TriggerShutdown)
                 | WriteReaderExit exit \<Rightarrow> (m, Some (reader_trigger exit))
                 | Written (Inr _) \<Rightarrow> (record_written n m, None)
                 | Written (Inl kind) \<Rightarrow> (m, Some (TriggerDeviceWriteFailed kind))) in
          Option.bind (queue_release (run_inbound_budget rt) n) (\<lambda>budget.
          Some (m, rt\<lparr>run_inbound_budget := budget\<rparr>, trigger)))"

text \<open>
  The end of a bridge, with the turns that the tasks of the runtime take while it is awaited: \<open>reader\<close>
  tells whether there is a reader task and whether it failed.  The result is \<open>None\<close> as long as the
  runtime is awaited, and on the branch that the source marks as unreachable.
\<close>

definition finish_vpn_packet_bridge ::
  "TaskTurn list \<Rightarrow> VpnPacketBridgeTrigger \<Rightarrow> RuntimeTasks \<Rightarrow> bool option \<Rightarrow> VpnPacketBridgeMetricCounters \<Rightarrow>
   (VpnDatagramRuntime \<times> VpnPacketBridgeReport) option" where
  "finish_vpn_packet_bridge turns trigger st reader m =
     (let stopped = (\<lambda>reason. Option.bind (runtime_shutdown turns st) (\<lambda>(rt, report). Some (reason, rt, report)));
          waited = Option.bind (runtime_wait turns st) (\<lambda>(rt, report).
                    Some (BridgeDatagramRuntime (report_stop_reason report), rt, report)) in
      Option.bind
        (case trigger of
           TriggerShutdown \<Rightarrow> stopped BridgeShutdownRequested
         | TriggerDatagramRuntimeStopped \<Rightarrow> waited
         | TriggerReader ReaderOutboundClosed \<Rightarrow> waited
         | TriggerReader ReaderDeviceClosed \<Rightarrow> stopped BridgeDeviceClosed
         | TriggerReader (ReaderDeviceReadFailed kind) \<Rightarrow> stopped (BridgeDeviceReadFailed kind)
         | TriggerDeviceWriteFailed kind \<Rightarrow> stopped (BridgeDeviceWriteFailed kind)
         | TriggerWorkerFailed \<Rightarrow> stopped BridgeWorkerFailed
         | TriggerReader ReaderShutdown \<Rightarrow> None)
        (\<lambda>(reason, rt, report).
           let reason = (if reader = Some True then BridgeWorkerFailed else reason) in
           Some (rt, \<lparr>bridge_report_stop_reason = reason, bridge_report_metrics = bridge_snapshot m,
                      bridge_report_datagram_runtime = Some report\<rparr>)))"

definition bridge_join ::
  "VpnPacketBridgeMetricCounters \<Rightarrow> VpnPacketBridgeReport option \<Rightarrow> VpnPacketBridgeReport" where
  "bridge_join m task =
     (case task of
        Some report \<Rightarrow> report
      | None \<Rightarrow> \<lparr>bridge_report_stop_reason = BridgeWorkerFailed, bridge_report_metrics = bridge_snapshot m,
                 bridge_report_datagram_runtime = None\<rparr>)"

text \<open>The end of a client's bridge detaches it from the pump first.\<close>

definition finish_client_bridge ::
  "TaskTurn list \<Rightarrow> VpnPacketBridgeTrigger \<Rightarrow> VpnClientPacketPumpControl \<Rightarrow> VpnClientPacketPumpAttachment \<Rightarrow>
   RuntimeTasks \<Rightarrow> VpnPacketBridgeMetricCounters \<Rightarrow>
   VpnClientPacketPumpControl \<times> (VpnDatagramRuntime \<times> VpnPacketBridgeReport) option" where
  "finish_client_bridge turns trigger c attachment st m =
     (fst (attachment_detach c attachment), finish_vpn_packet_bridge turns trigger st None m)"

definition start_vpn_packet_bridge ::
  "bool \<Rightarrow> VpnPacketBridgeConfig \<Rightarrow> VpnPacketBridgeStartError + VpnPacketBridgeMetricCounters" where
  "start_vpn_packet_bridge runtime_available config =
     try_then (map_err BridgeInvalidConfig (bridge_config_new (bridge_max_packet_len config))) (\<lambda>_.
       if \<not> runtime_available then Inl BridgeRuntimeUnavailable else Inr bridge_counters_default)"

definition start_vpn_packet_bridge_with_client_pump ::
  "bool \<Rightarrow> nat \<Rightarrow> VpnPacketBridgeConfig \<Rightarrow> VpnClientPacketPumpControl \<Rightarrow>
   VpnClientPacketPumpControl \<times> (VpnPacketBridgeStartError + VpnClientPacketPumpAttachment)" where
  "start_vpn_packet_bridge_with_client_pump runtime_available outbound config c =
     (case bridge_config_new (bridge_max_packet_len config) of
        Inl e \<Rightarrow> (c, Inl (BridgeInvalidConfig e))
      | Inr _ \<Rightarrow>
          if \<not> runtime_available then (c, Inl BridgeRuntimeUnavailable)
          else let (c, attached) = pump_attach c outbound (bridge_max_packet_len config) in
               (c, map_err ClientPump attached))"

end
