(* ===== verification/Vpn_Runtime_Tasks.thy ===== *)
theory Vpn_Runtime_Tasks
  imports Vpn_Runtime_Properties
begin

text \<open>
  The tasks of a runtime under any schedule: an invariant of the two loops and the supervisor, and
  that a runtime which was told to stop, or one of whose loops has ended, has ended after three rounds
  in which every task had a turn.
\<close>

section \<open>Histories of the tasks\<close>

text \<open>
  What the other users of the data path may do: they keep its accounts settled, and neither activate
  it nor bind it.  A path is activated when it is handed out, and bound when a runtime starts.
\<close>

definition other_user :: "(VpnDataPathInner \<Rightarrow> VpnPathShared \<Rightarrow> VpnDataPathInner \<times> VpnPathShared) \<Rightarrow> bool" where
  "other_user other \<longleftrightarrow> (\<forall>others inner env. inner_settled others inner env \<longrightarrow>
     (\<exists>others'. inner_settled others' (fst (other inner env)) (snd (other inner env))) \<and>
     (path_active (inner_state (fst (other inner env))) \<longrightarrow> path_active (inner_state inner)) \<and>
     (inner_runtime_bound (fst (other inner env)) \<longrightarrow> inner_runtime_bound inner))"

fun turn_allowed :: "TaskTurn \<Rightarrow> bool" where
  "turn_allowed (PathTurn other) = other_user other"
| "turn_allowed _ = True"

inductive tasks_step :: "RuntimeTasks \<Rightarrow> RuntimeTasks \<Rightarrow> bool" where
  turn: "turn_allowed turn \<Longrightarrow> tasks_step st (task_turn turn st)"
| consume: "run_inbound_leases (tasks_runtime st) = xs @ p # ys \<Longrightarrow>
    queue_release (run_inbound_budget (tasks_runtime st)) (length (data_packet_bytes p)) = Some budget \<Longrightarrow>
    tasks_step st (st\<lparr>tasks_runtime := (tasks_runtime st)\<lparr>run_inbound_leases := xs @ ys, run_inbound_budget := budget\<rparr>\<rparr>)"

text \<open>A round gives every task of the runtime a turn.\<close>

fun inbound_has_turn :: "TaskTurn \<Rightarrow> bool" where
  "inbound_has_turn (InboundTurn _ _) = True"
| "inbound_has_turn _ = False"

fun outbound_has_turn :: "TaskTurn \<Rightarrow> bool" where
  "outbound_has_turn (OutboundTurn _ _) = True"
| "outbound_has_turn _ = False"

fun supervisor_has_turn :: "TaskTurn \<Rightarrow> bool" where
  "supervisor_has_turn (SupervisorTurn _) = True"
| "supervisor_has_turn _ = False"

definition fair_round :: "TaskTurn list \<Rightarrow> bool" where
  "fair_round turns \<longleftrightarrow>
     list_ex inbound_has_turn turns \<and> list_ex outbound_has_turn turns \<and> list_ex supervisor_has_turn turns"

section \<open>What the turns leave alone\<close>

definition same_signals :: "VpnDatagramRuntime \<Rightarrow> VpnDatagramRuntime \<Rightarrow> bool" where
  "same_signals rt rt' \<longleftrightarrow> run_stopping rt' = run_stopping rt \<and> run_shutdown_requested rt' = run_shutdown_requested rt"

lemma sender_try_send_signals:
  assumes "sender_try_send rt packet channel = Some (rt', result)"
  shows "same_signals rt rt' \<and> run_path rt' = run_path rt"
proof (cases "length packet = 0 \<or> length packet > VPN_MAX_IP_PACKET_LEN")
  case True
  then show ?thesis using assms by (auto simp: sender_try_send_def same_signals_def Let_def)
next
  case False
  obtain budget lease where "queue_try_reserve (run_outbound_budget rt) (length packet) = Some (budget, lease)"
    using assms False by (auto simp: sender_try_send_def Let_def bind_eq_Some_conv)
  then show ?thesis
    using assms False
    by (cases lease; cases channel) (auto simp: sender_try_send_def same_signals_def Let_def bind_eq_Some_conv)
qed

lemma deliver_inbound_signals:
  assumes "deliver_inbound rt packet channel = Some (rt', exit)"
  shows "same_signals rt rt'"
proof -
  obtain budget lease where "queue_try_reserve (run_inbound_budget rt) (length (data_packet_bytes packet)) = Some (budget, lease)"
    using assms by (auto simp: deliver_inbound_def Let_def bind_eq_Some_conv)
  then show ?thesis
    using assms by (cases lease; cases channel) (auto simp: deliver_inbound_def same_signals_def Let_def bind_eq_Some_conv)
qed

lemma inbound_iteration_signals:
  assumes "inbound_iteration rt event channel = Some (rt', exit)"
  shows "same_signals rt rt'"
proof (cases event)
  case InboundCancelled
  then show ?thesis using assms by (simp add: inbound_iteration_def same_signals_def)
next
  case (InboundTick now)
  then show ?thesis
    using assms by (auto simp: inbound_iteration_def same_signals_def bind_eq_Some_conv split: if_splits)
next
  case (InboundRead read now)
  show ?thesis
  proof (cases read)
    case (Inl e)
    then show ?thesis using assms InboundRead by (cases e) (simp_all add: inbound_iteration_def same_signals_def)
  next
    case (Inr datagram)
    obtain inner env result where i: "ingest_datagram (run_path rt) (run_env rt) (fst (directions (run_role rt))) datagram now =
        Some (inner, env, result)"
      using assms InboundRead Inr by (auto simp: inbound_iteration_def bind_eq_Some_conv)
    show ?thesis
    proof (cases result)
      case (Inl e)
      then show ?thesis
        using assms InboundRead \<open>read = Inr datagram\<close> i by (cases e) (auto simp: inbound_iteration_def same_signals_def)
    next
      case res: (Inr completed)
      show ?thesis
      proof (cases completed)
        case None
        then show ?thesis using assms InboundRead Inr i res by (auto simp: inbound_iteration_def same_signals_def)
      next
        case (Some p)
        then have "deliver_inbound (rt\<lparr>run_metrics := record_received_datagram (length datagram) (run_metrics rt),
            run_path := inner, run_env := env\<rparr>) p channel = Some (rt', exit)"
          using assms InboundRead Inr i res by (simp add: inbound_iteration_def)
        from deliver_inbound_signals [OF this] show ?thesis by (simp add: same_signals_def)
      qed
    qed
  qed
qed

lemma outbound_entry_signals:
  assumes run: "outbound_entry rt packet now events = Some (rt', datagrams, exit)"
  shows "same_signals rt rt'"
proof -
  obtain b where b: "queue_release (run_outbound_budget rt) (length packet) = Some b"
    using run by (auto simp: outbound_entry_def bind_eq_Some_conv)
  obtain ids allocated where ids: "allocate_packet_id (run_packet_ids rt) = (ids, allocated)" by fastforce
  show ?thesis
  proof (cases allocated)
    case None
    then show ?thesis using run b ids by (auto simp: outbound_entry_def same_signals_def)
  next
    case (Some packet_id)
    obtain env encoded where e: "encode_ip_packet (run_path rt) (run_env rt) (snd (directions (run_role rt))) packet_id packet
        (run_max_datagram_len rt) now = (env, encoded)" by fastforce
    show ?thesis
    proof (cases encoded)
      case (Inl err)
      then show ?thesis using run b ids Some e by (cases err) (auto simp: outbound_entry_def same_signals_def)
    next
      case (Inr fragments)
      obtain m ds x where f: "send_fragments (length fragments) 0 fragments events
          (record_outbound_encoded (run_metrics rt)) = (m, ds, x)" by (metis prod_cases3)
      show ?thesis using run b ids Some e Inr f by (cases x) (auto simp: outbound_entry_def same_signals_def)
    qed
  qed
qed

lemma outbound_iteration_signals:
  assumes "outbound_iteration rt packet now events = Some (rt', datagrams, exit)"
  shows "same_signals rt rt'"
proof -
  obtain rt1 ds x where e: "outbound_entry rt packet now events = Some (rt1, ds, x)"
    using assms by (auto simp: outbound_iteration_def bind_eq_Some_conv)
  from outbound_entry_signals [OF e] assms e show ?thesis
    by (cases x) (auto simp: outbound_iteration_def drop_outbound_receiver_def same_signals_def bind_eq_Some_conv)
qed

section \<open>The invariant of the tasks\<close>

text \<open>
  No task panics.  The supervisor has stopped the loops as soon as it awaits the second one, and when
  it has ended, so have both loops, and the path is retired.
\<close>

definition tasks_inv :: "VpnDatagramRuntimeConfig \<Rightarrow> RuntimeTasks \<Rightarrow> bool" where
  "tasks_inv config st \<longleftrightarrow> runtime_inv config (tasks_runtime st) \<and>
     (tasks_outbound st \<noteq> None \<longrightarrow> run_outbound_queue (tasks_runtime st) = []) \<and>
     (case tasks_supervisor st of
        AwaitFirst \<Rightarrow> True
      | AwaitSecond inbound_finished \<Rightarrow> run_stopping (tasks_runtime st) \<and>
          (if inbound_finished then tasks_inbound st else tasks_outbound st) \<noteq> None
      | SupervisorEnded task \<Rightarrow> run_stopping (tasks_runtime st) \<and> tasks_inbound st \<noteq> None \<and> tasks_outbound st \<noteq> None \<and>
          task \<noteq> None \<and> \<not> inner_runtime_bound (run_path (tasks_runtime st)) \<and>
          \<not> path_active (inner_state (run_path (tasks_runtime st))))"

text \<open>What a schedule never takes back.\<close>

fun phase :: "Supervisor \<Rightarrow> nat" where
  "phase AwaitFirst = 0"
| "phase (AwaitSecond _) = 1"
| "phase (SupervisorEnded _) = 2"

definition advances :: "RuntimeTasks \<Rightarrow> RuntimeTasks \<Rightarrow> bool" where
  "advances st st' \<longleftrightarrow> (tasks_inbound st \<noteq> None \<longrightarrow> tasks_inbound st' \<noteq> None) \<and>
     (tasks_outbound st \<noteq> None \<longrightarrow> tasks_outbound st' \<noteq> None) \<and>
     (run_stopping (tasks_runtime st) \<longrightarrow> run_stopping (tasks_runtime st')) \<and>
     phase (tasks_supervisor st) \<le> phase (tasks_supervisor st')"

lemma advances_refl [simp]: "advances st st"
  by (simp add: advances_def)

lemma advances_trans: "advances a b \<Longrightarrow> advances b c \<Longrightarrow> advances a c"
  by (auto simp: advances_def)

text \<open>A requested shutdown is what the supervisor reports.\<close>

definition requested :: "RuntimeTasks \<Rightarrow> bool" where
  "requested st \<longleftrightarrow> run_shutdown_requested (tasks_runtime st) \<and>
     (case tasks_supervisor st of SupervisorEnded (Some report) \<Rightarrow> report_stop_reason report = ShutdownRequested | _ \<Rightarrow> True)"

definition turn_ok :: "VpnDatagramRuntimeConfig \<Rightarrow> RuntimeTasks \<Rightarrow> RuntimeTasks \<Rightarrow> bool" where
  "turn_ok config st st' \<longleftrightarrow> tasks_inv config st' \<and> advances st st' \<and> (requested st \<longrightarrow> requested st')"

lemma turn_ok_refl: "tasks_inv config st \<Longrightarrow> turn_ok config st st"
  by (simp add: turn_ok_def)

lemma inbound_turn_ok:
  assumes "tasks_inv config st"
  shows "turn_ok config st (inbound_turn event channel st)"
proof (cases "tasks_inbound st = None \<and> inbound_select (tasks_runtime st) event \<noteq> None")
  case False
  then show ?thesis using assms by (auto simp: inbound_turn_def intro: turn_ok_refl)
next
  case True
  then obtain ev where ev: "inbound_select (tasks_runtime st) event = Some ev" by blast
  have inv: "runtime_inv config (tasks_runtime st)" using assms by (simp add: tasks_inv_def)
  obtain rt exit where i: "inbound_iteration (tasks_runtime st) ev channel = Some (rt, exit)" "runtime_inv config rt"
    by (rule inbound_iteration_inv [OF inv, of ev channel])
  have "inbound_turn event channel st = st\<lparr>tasks_runtime := rt, tasks_inbound := map_option Some exit\<rparr>"
    using True ev i(1) by (simp add: inbound_turn_def)
  then show ?thesis
    using assms True i(2) inbound_iteration_signals [OF i(1)] inbound_iteration_same [OF i(1)]
    by (auto simp: turn_ok_def tasks_inv_def advances_def requested_def same_signals_def same_outbound_def
        split: Supervisor.splits)
qed

lemma outbound_turn_ok:
  assumes "tasks_inv config st"
  shows "turn_ok config st (outbound_turn now events st)"
proof -
  let ?rt = "tasks_runtime st"
  have inv: "runtime_inv config ?rt" using assms by (simp add: tasks_inv_def)
  consider "tasks_outbound st \<noteq> None" | "tasks_outbound st = None" "run_stopping ?rt"
    | "tasks_outbound st = None" "\<not> run_stopping ?rt" "run_outbound_queue ?rt = []"
    | packet rest where "tasks_outbound st = None" "\<not> run_stopping ?rt" "run_outbound_queue ?rt = packet # rest"
    by (cases "run_outbound_queue ?rt") auto
  then show ?thesis
  proof cases
    case 2
    obtain b where c: "outbound_cancelled ?rt = Some (?rt\<lparr>run_outbound_queue := [], run_outbound_budget := b\<rparr>, ExitStopped)"
        "runtime_inv config (?rt\<lparr>run_outbound_queue := [], run_outbound_budget := b\<rparr>)"
      by (rule outbound_cancelled_inv [OF inv])
    then show ?thesis
      using assms 2 by (auto simp: outbound_turn_def turn_ok_def tasks_inv_def advances_def requested_def
          split: Supervisor.splits)
  next
    case (4 packet rest)
    obtain rt ds exit where i: "outbound_iteration (?rt\<lparr>run_outbound_queue := rest\<rparr>) packet now events = Some (rt, ds, exit)"
        "runtime_inv config rt" "run_outbound_queue rt = (if exit = None then rest else [])"
      by (rule outbound_iteration_inv [OF inv 4(3), of now events])
    then show ?thesis
      using assms 4 outbound_iteration_signals [OF i(1)]
      by (auto simp: outbound_turn_def turn_ok_def tasks_inv_def advances_def requested_def same_signals_def
          split: Supervisor.splits)
  qed (use assms in \<open>simp_all add: outbound_turn_def turn_ok_refl\<close>)
qed

lemma path_snap_active_eq [simp]: "path_snap_active (path_snapshot inner) = path_active (inner_state inner)"
  by (simp add: path_snapshot_def Let_def)

lemma supervisor_turn_ok:
  assumes "tasks_inv config st"
  shows "turn_ok config st (supervisor_turn prefer_inbound st)"
proof (cases "tasks_supervisor st")
  case AwaitFirst
  then show ?thesis
    using assms
    by (auto simp: supervisor_turn_def turn_ok_def tasks_inv_def advances_def requested_def stop_def [of "tasks_runtime st"]
        stop_inv [unfolded stop_def])
next
  case (AwaitSecond inbound_finished)
  show ?thesis
  proof (cases "\<exists>inbound outbound. tasks_inbound st = Some inbound \<and> tasks_outbound st = Some outbound")
    case False
    then show ?thesis
      using assms AwaitSecond by (auto simp: supervisor_turn_def turn_ok_refl split: option.splits)
  next
    case True
    then obtain inbound outbound where ended: "tasks_inbound st = Some inbound" "tasks_outbound st = Some outbound" by blast
    define first where "first = (if inbound_finished then inbound else outbound)"
    define second where "second = (if inbound_finished then outbound else inbound)"
    have inv: "runtime_inv config (tasks_runtime st)" using assms by (simp add: tasks_inv_def)
    obtain rt report where f: "supervise_finish (tasks_runtime st) (join_task first) (join_task second) = Some (rt, report)"
      "runtime_inv config rt" "run_outbound_queue rt = run_outbound_queue (tasks_runtime st)"
      "run_stopping rt = run_stopping (tasks_runtime st)" "\<not> inner_runtime_bound (run_path rt)"
      "\<not> path_snap_active (path_snapshot (run_path rt))"
      "report_stop_reason report = (if run_shutdown_requested (tasks_runtime st) then ShutdownRequested
        else stop_reason (combine_task_exits (join_task first) (join_task second)))"
      by (rule supervise_finish_retires [OF inv, of "join_task first" "join_task second"])
    have requested: "run_shutdown_requested rt = run_shutdown_requested (tasks_runtime st)"
      using f(1) by (auto simp: supervise_finish_def Let_def bind_eq_Some_conv)
    have "supervisor_turn prefer_inbound st = st\<lparr>tasks_runtime := rt, tasks_supervisor := SupervisorEnded (Some report)\<rparr>"
      using AwaitSecond ended f(1) by (simp add: supervisor_turn_def first_def second_def split: if_splits)
    then show ?thesis
      using assms AwaitSecond ended f(2-) requested
      by (simp add: turn_ok_def tasks_inv_def advances_def requested_def)
  qed
next
  case (SupervisorEnded task)
  then show ?thesis using assms by (simp add: supervisor_turn_def turn_ok_refl)
qed

lemma send_turn_ok:
  assumes "tasks_inv config st"
  shows "turn_ok config st (task_turn (SendTurn packet full) st)"
proof -
  let ?channel = "if tasks_outbound st \<noteq> None then Inl ChannelClosed else if full then Inl ChannelFull else Inr ()"
  have inv: "runtime_inv config (tasks_runtime st)" using assms by (simp add: tasks_inv_def)
  obtain rt result where s: "sender_try_send (tasks_runtime st) packet ?channel = Some (rt, result)" "runtime_inv config rt"
    by (rule sender_try_send_inv [OF inv, of packet ?channel])
  have turn: "task_turn (SendTurn packet full) st = st\<lparr>tasks_runtime := rt\<rparr>" using s(1) by simp
  have "run_outbound_queue rt = run_outbound_queue (tasks_runtime st)" if "tasks_outbound st \<noteq> None"
    by (rule sender_try_send_same [OF s(1)]) (use that in \<open>auto simp: same_outbound_def\<close>)
  then show ?thesis
    unfolding turn using assms s(2) sender_try_send_signals [OF s(1)]
    by (auto simp: turn_ok_def tasks_inv_def advances_def requested_def same_signals_def split: Supervisor.splits)
qed

lemma path_turn_ok:
  assumes "tasks_inv config st" and "other_user other"
  shows "turn_ok config st (task_turn (PathTurn other) st)"
proof -
  let ?rt = "tasks_runtime st"
  have inv: "runtime_inv config ?rt" using assms by (simp add: tasks_inv_def)
  then obtain others where "inner_settled others (run_path ?rt) (run_env ?rt)" unfolding runtime_inv_def by blast
  then obtain others' where o: "inner_settled others' (fst (other (run_path ?rt) (run_env ?rt))) (snd (other (run_path ?rt) (run_env ?rt)))"
    "path_active (inner_state (fst (other (run_path ?rt) (run_env ?rt)))) \<longrightarrow> path_active (inner_state (run_path ?rt))"
    "inner_runtime_bound (fst (other (run_path ?rt) (run_env ?rt))) \<longrightarrow> inner_runtime_bound (run_path ?rt)"
    using assms(2) unfolding other_user_def by blast
  from runtime_inv_path [OF inv o(1)] o(2,3) assms(1) show ?thesis
    by (auto simp: turn_ok_def tasks_inv_def advances_def requested_def Let_def case_prod_unfold split: Supervisor.splits)
qed

lemma task_turn_ok:
  assumes "turn_allowed turn" and "tasks_inv config st"
  shows "turn_ok config st (task_turn turn st)"
proof (cases turn)
  case (SendTurn packet full)
  then show ?thesis using send_turn_ok [OF assms(2), of packet full] by blast
next
  case (PathTurn other)
  then show ?thesis using path_turn_ok [OF assms(2), of other] assms(1) by simp
qed (use assms(2) in \<open>simp_all add: inbound_turn_ok outbound_turn_ok supervisor_turn_ok\<close>)

lemma spawn_tasks_inv: "runtime_inv config rt \<Longrightarrow> tasks_inv config (spawn_tasks rt)"
  by (simp add: tasks_inv_def spawn_tasks_def)

lemma tasks_inv_leases:
  assumes "tasks_inv config st" and "run_inbound_leases (tasks_runtime st) = xs @ p # ys"
    and "queue_release (run_inbound_budget (tasks_runtime st)) (length (data_packet_bytes p)) = Some budget"
  shows "tasks_inv config
    (st\<lparr>tasks_runtime := (tasks_runtime st)\<lparr>run_inbound_leases := xs @ ys, run_inbound_budget := budget\<rparr>\<rparr>)"
proof -
  from runtime_step_inv [OF runtime_step.consume [OF assms(2,3), of None None], of config] assms(1)
  have "runtime_inv config ((tasks_runtime st)\<lparr>run_inbound_leases := xs @ ys, run_inbound_budget := budget\<rparr>)"
    by (simp add: tasks_inv_def)
  then show ?thesis using assms(1) by (auto simp: tasks_inv_def split: Supervisor.splits)
qed

lemma tasks_step_inv: "tasks_step st st' \<Longrightarrow> tasks_inv config st \<Longrightarrow> tasks_inv config st'"
proof (induction rule: tasks_step.induct)
  case (turn turn st)
  from task_turn_ok [OF turn] show ?case by (simp add: turn_ok_def)
qed (rule tasks_inv_leases)

lemma tasks_history_inv: "tasks_step\<^sup>*\<^sup>* st st' \<Longrightarrow> tasks_inv config st \<Longrightarrow> tasks_inv config st'"
  by (induction rule: rtranclp_induct) (auto dest: tasks_step_inv)

section \<open>Awaiting the supervisor\<close>

lemma await_supervisor_ok:
  "list_all turn_allowed turns \<Longrightarrow> tasks_inv config st \<Longrightarrow> turn_ok config st (await_supervisor turns st)"
proof (induction turns arbitrary: st)
  case (Cons turn turns)
  show ?case
  proof (cases "phase (tasks_supervisor st) = 2")
    case True
    then show ?thesis using Cons.prems by (cases "tasks_supervisor st") (simp_all add: turn_ok_refl)
  next
    case False
    then have "await_supervisor (turn # turns) st = await_supervisor turns (task_turn turn st)"
      by (cases "tasks_supervisor st") simp_all
    moreover have first: "turn_ok config st (task_turn turn st)" using Cons.prems by (simp add: task_turn_ok)
    moreover have "turn_ok config (task_turn turn st) (await_supervisor turns (task_turn turn st))"
      using Cons first by (simp add: turn_ok_def)
    ultimately show ?thesis using advances_trans unfolding turn_ok_def by metis
  qed
qed (simp add: turn_ok_refl)

lemma await_supervisor_ended: "phase (tasks_supervisor st) = 2 \<Longrightarrow> await_supervisor turns st = st"
  by (cases turns; cases "tasks_supervisor st") simp_all

lemma await_supervisor_append:
  "await_supervisor (xs @ ys) st = await_supervisor ys (await_supervisor xs st)"
proof (induction xs arbitrary: st)
  case (Cons x xs)
  then show ?case by (cases "tasks_supervisor st") (simp_all add: await_supervisor_ended)
qed simp

text \<open>
  A task that has a turn among the given ones gets what its turn brings about, unless the supervisor
  has ended before.
\<close>

lemma round_reaches:
  assumes has: "list_ex has_turn turns" and allowed: "list_all turn_allowed turns" and inv: "tasks_inv config st"
    and brings: "\<And>turn s. has_turn turn \<Longrightarrow> tasks_inv config s \<Longrightarrow> advances st s \<Longrightarrow> reached (task_turn turn s)"
    and stable: "\<And>s s'. reached s \<Longrightarrow> advances s s' \<Longrightarrow> reached s'"
    and ended: "\<And>s. tasks_inv config s \<Longrightarrow> phase (tasks_supervisor s) = 2 \<Longrightarrow> reached s"
  shows "reached (await_supervisor turns st)"
proof -
  from has obtain turn where "turn \<in> set turns" "has_turn turn" by (auto simp: list_ex_iff)
  then obtain xs ys where turns: "turns = xs @ turn # ys" by (meson split_list)
  let ?s = "await_supervisor xs st"
  have s: "tasks_inv config ?s" "advances st ?s"
    using await_supervisor_ok [of xs config st] allowed inv by (simp_all add: turns turn_ok_def)
  show ?thesis
  proof (cases "phase (tasks_supervisor ?s) = 2")
    case True
    then have "await_supervisor turns st = ?s" by (simp only: turns await_supervisor_append await_supervisor_ended)
    then show ?thesis using ended [OF s(1) True] by simp
  next
    case False
    then have "await_supervisor turns st = await_supervisor ys (task_turn turn ?s)"
      by (cases "tasks_supervisor ?s") (simp_all add: turns await_supervisor_append)
    moreover have "reached (task_turn turn ?s)" by (rule brings [OF \<open>has_turn turn\<close> s])
    moreover have "turn_ok config ?s (task_turn turn ?s)" using task_turn_ok s(1) allowed by (simp add: turns)
    then have "advances (task_turn turn ?s) (await_supervisor ys (task_turn turn ?s))"
      using await_supervisor_ok [of ys config "task_turn turn ?s"] allowed by (simp add: turns turn_ok_def)
    ultimately show ?thesis using stable by simp
  qed
qed

lemma ended_tasks:
  assumes "tasks_inv config st" and "phase (tasks_supervisor st) = 2"
  shows "tasks_inbound st \<noteq> None" and "tasks_outbound st \<noteq> None"
  using assms by (cases "tasks_supervisor st"; simp add: tasks_inv_def)+

text \<open>In a round after the stop signal both loops end.\<close>

lemma stopped_loops_end:
  assumes "fair_round turns" and "list_all turn_allowed turns" and "tasks_inv config st" and "run_stopping (tasks_runtime st)"
  shows "tasks_inbound (await_supervisor turns st) \<noteq> None" and "tasks_outbound (await_supervisor turns st) \<noteq> None"
proof -
  have inbound: "tasks_inbound (task_turn turn s) \<noteq> None"
    if has: "inbound_has_turn turn" and s: "tasks_inv config s" "advances st s" for turn s
  proof -
    obtain event channel where turn: "turn = InboundTurn event channel" using has by (cases turn) simp_all
    have "run_stopping (tasks_runtime s)" using assms(4) s(2) by (simp add: advances_def)
    then show ?thesis by (simp add: turn inbound_turn_def inbound_select_def inbound_iteration_def)
  qed
  have outbound: "tasks_outbound (task_turn turn s) \<noteq> None"
    if has: "outbound_has_turn turn" and s: "tasks_inv config s" "advances st s" for turn s
  proof -
    obtain now events where turn: "turn = OutboundTurn now events" using has by (cases turn) simp_all
    have "run_stopping (tasks_runtime s)" using assms(4) s(2) by (simp add: advances_def)
    then show ?thesis by (auto simp: turn outbound_turn_def Let_def split: option.splits)
  qed
  show "tasks_inbound (await_supervisor turns st) \<noteq> None"
    by (rule round_reaches [of inbound_has_turn turns config st "\<lambda>s. tasks_inbound s \<noteq> None"])
      (use assms inbound ended_tasks in \<open>auto simp: fair_round_def advances_def\<close>)
  show "tasks_outbound (await_supervisor turns st) \<noteq> None"
    by (rule round_reaches [of outbound_has_turn turns config st "\<lambda>s. tasks_outbound s \<noteq> None"])
      (use assms outbound ended_tasks in \<open>auto simp: fair_round_def advances_def\<close>)
qed

text \<open>In a round after a loop has ended the supervisor stops the other; after both have, it ends.\<close>

lemma supervisor_stops:
  assumes "fair_round turns" and "list_all turn_allowed turns" and "tasks_inv config st"
    and "tasks_inbound st \<noteq> None \<or> tasks_outbound st \<noteq> None"
  shows "1 \<le> phase (tasks_supervisor (await_supervisor turns st))"
proof -
  have turn: "1 \<le> phase (tasks_supervisor (task_turn turn s))"
    if has: "supervisor_has_turn turn" and s: "tasks_inv config s" "advances st s" for turn s
  proof -
    obtain prefer_inbound where turn: "turn = SupervisorTurn prefer_inbound" using has by (cases turn) simp_all
    have loop: "tasks_inbound s \<noteq> None \<or> tasks_outbound s \<noteq> None" using assms(4) s(2) by (auto simp: advances_def)
    have "turn_ok config s (task_turn turn s)" using task_turn_ok [OF _ s(1), of turn] turn by simp
    then have "phase (tasks_supervisor s) \<le> phase (tasks_supervisor (task_turn turn s))" by (simp add: turn_ok_def advances_def)
    then show ?thesis using loop by (cases "tasks_supervisor s") (auto simp: turn supervisor_turn_def)
  qed
  show ?thesis
    by (rule round_reaches [of supervisor_has_turn turns config st "\<lambda>s. 1 \<le> phase (tasks_supervisor s)"])
      (use assms turn in \<open>auto simp: fair_round_def advances_def\<close>)
qed

lemma supervisor_ends:
  assumes "fair_round turns" and "list_all turn_allowed turns" and "tasks_inv config st"
    and "tasks_inbound st \<noteq> None" and "tasks_outbound st \<noteq> None" and "1 \<le> phase (tasks_supervisor st)"
  shows "phase (tasks_supervisor (await_supervisor turns st)) = 2"
proof -
  have phase_le: "phase p \<le> 2" for p by (cases p) simp_all
  have turn: "phase (tasks_supervisor (task_turn turn s)) = 2"
    if has: "supervisor_has_turn turn" and s: "tasks_inv config s" "advances st s" for turn s
  proof -
    obtain prefer_inbound where turn: "turn = SupervisorTurn prefer_inbound" using has by (cases turn) simp_all
    obtain inbound outbound where "tasks_inbound s = Some inbound" "tasks_outbound s = Some outbound"
      using assms(4,5) s(2) by (auto simp: advances_def)
    moreover have "1 \<le> phase (tasks_supervisor s)" using assms(6) s(2) by (simp add: advances_def)
    ultimately show ?thesis
      by (cases "tasks_supervisor s") (auto simp: turn supervisor_turn_def split: if_splits option.splits)
  qed
  show ?thesis
    by (rule round_reaches [of supervisor_has_turn turns config st "\<lambda>s. phase (tasks_supervisor s) = 2"])
      (use assms turn phase_le in \<open>auto simp: fair_round_def advances_def le_antisym\<close>)
qed

text \<open>
  So three rounds are enough: from the stop signal, the loops end, the supervisor sees one of them,
  and then the other; from the end of one loop, the supervisor sends the stop signal, the other loop
  ends, and the supervisor sees it.
\<close>

lemma three_rounds_end:
  assumes "fair_round r1" and "fair_round r2" and "fair_round r3" and allowed: "list_all turn_allowed (r1 @ r2 @ r3)"
    and inv: "tasks_inv config st"
    and begun: "run_stopping (tasks_runtime st) \<or> tasks_inbound st \<noteq> None \<or> tasks_outbound st \<noteq> None"
  shows "phase (tasks_supervisor (await_supervisor (r1 @ r2 @ r3) st)) = 2"
proof -
  let ?s1 = "await_supervisor r1 st"
  let ?s2 = "await_supervisor r2 ?s1"
  have ok1: "turn_ok config st ?s1" using await_supervisor_ok [of r1] allowed inv by simp
  then have inv1: "tasks_inv config ?s1" by (simp add: turn_ok_def)
  have ok2: "turn_ok config ?s1 ?s2" using await_supervisor_ok [of r2] allowed inv1 by simp
  then have inv2: "tasks_inv config ?s2" by (simp add: turn_ok_def)
  have "tasks_inbound ?s2 \<noteq> None \<and> tasks_outbound ?s2 \<noteq> None \<and> 1 \<le> phase (tasks_supervisor ?s2)"
  proof (cases "run_stopping (tasks_runtime st)")
    case True
    then have "tasks_inbound ?s1 \<noteq> None" "tasks_outbound ?s1 \<noteq> None"
      using stopped_loops_end [OF assms(1)] allowed inv by simp_all
    then show ?thesis using supervisor_stops [OF assms(2) _ inv1] allowed ok2 by (simp add: turn_ok_def advances_def)
  next
    case False
    then have "1 \<le> phase (tasks_supervisor ?s1)" using supervisor_stops [OF assms(1) _ inv] begun allowed by simp
    moreover from this have "run_stopping (tasks_runtime ?s1)"
      using inv1 by (cases "tasks_supervisor ?s1") (simp_all add: tasks_inv_def)
    ultimately show ?thesis
      using stopped_loops_end [OF assms(2) _ inv1] allowed ok2 by (auto simp: turn_ok_def advances_def)
  qed
  then show ?thesis using supervisor_ends [OF assms(3) _ inv2] allowed by (simp add: await_supervisor_append)
qed

section \<open>Shutdown and waiting\<close>

lemma drop_inbound_receiver_inv:
  assumes "runtime_inv config rt"
  obtains b where "drop_inbound_receiver rt = Some (rt\<lparr>run_inbound_leases := [], run_inbound_budget := b\<rparr>)"
    and "runtime_inv config (rt\<lparr>run_inbound_leases := [], run_inbound_budget := b\<rparr>)"
proof -
  have "queue_ok (run_inbound_budget rt) (map (length \<circ> data_packet_bytes) (run_inbound_leases rt))"
    using assms by (simp add: runtime_inv_def)
  then obtain b where b: "drop_leases (map (length \<circ> data_packet_bytes) (run_inbound_leases rt)) (run_inbound_budget rt) = Some b"
      "queue_ok b []" "queue_packet_limit b = queue_packet_limit (run_inbound_budget rt)"
      "queue_byte_limit b = queue_byte_limit (run_inbound_budget rt)"
    by (rule drop_leases_ok)
  show thesis
    by (rule that [of b]) (use assms b in \<open>simp_all add: drop_inbound_receiver_def runtime_inv_def runtime_limits_def\<close>)
qed

lemma request_shutdown_inv [simp]: "runtime_inv config (request_shutdown rt) = runtime_inv config rt"
  by (simp add: request_shutdown_def stop_def runtime_inv_def runtime_limits_def)

text \<open>What is left of a runtime that has ended: a retired path and no lease.\<close>

definition retired :: "VpnDatagramRuntime \<Rightarrow> bool" where
  "retired rt \<longleftrightarrow> \<not> inner_runtime_bound (run_path rt) \<and> \<not> path_snap_active (path_snapshot (run_path rt)) \<and>
     run_outbound_queue rt = [] \<and> run_inbound_leases rt = [] \<and>
     queue_current_packets (run_outbound_budget rt) = 0 \<and> queue_current_bytes (run_outbound_budget rt) = 0 \<and>
     queue_current_packets (run_inbound_budget rt) = 0 \<and> queue_current_bytes (run_inbound_budget rt) = 0"

lemma runtime_wait_retires:
  assumes "fair_round r1" and "fair_round r2" and "fair_round r3" and "list_all turn_allowed (r1 @ r2 @ r3)"
    and "tasks_inv config st"
    and "run_stopping (tasks_runtime st) \<or> tasks_inbound st \<noteq> None \<or> tasks_outbound st \<noteq> None"
  obtains rt report where "runtime_wait (r1 @ r2 @ r3) st = Some (rt, report)" and "retired rt"
    and "requested st \<Longrightarrow> report_stop_reason report = ShutdownRequested"
proof -
  let ?s = "await_supervisor (r1 @ r2 @ r3) st"
  have ok: "turn_ok config st ?s" by (rule await_supervisor_ok [OF assms(4,5)])
  then obtain report where ended: "tasks_supervisor ?s = SupervisorEnded (Some report)"
    using three_rounds_end [OF assms] by (cases "tasks_supervisor ?s") (auto simp: turn_ok_def tasks_inv_def)
  have inv: "runtime_inv config (request_shutdown (tasks_runtime ?s))" using ok by (simp add: turn_ok_def tasks_inv_def)
  obtain b where b: "drop_inbound_receiver (request_shutdown (tasks_runtime ?s)) =
        Some ((request_shutdown (tasks_runtime ?s))\<lparr>run_inbound_leases := [], run_inbound_budget := b\<rparr>)"
      "runtime_inv config ((request_shutdown (tasks_runtime ?s))\<lparr>run_inbound_leases := [], run_inbound_budget := b\<rparr>)"
    by (rule drop_inbound_receiver_inv [OF inv])
  show thesis
  proof (rule that)
    show "runtime_wait (r1 @ r2 @ r3) st =
        Some ((request_shutdown (tasks_runtime ?s))\<lparr>run_inbound_leases := [], run_inbound_budget := b\<rparr>, report)"
      using b(1) by (simp add: runtime_wait_def Let_def ended await_report_def runtime_drop_def)
    show "retired ((request_shutdown (tasks_runtime ?s))\<lparr>run_inbound_leases := [], run_inbound_budget := b\<rparr>)"
      using b(2) ok ended
      by (simp add: retired_def turn_ok_def tasks_inv_def request_shutdown_def stop_def runtime_inv_def queue_ok_def)
    show "report_stop_reason report = ShutdownRequested" if "requested st"
      using that ok ended by (simp add: turn_ok_def requested_def)
  qed
qed

lemma runtime_shutdown_retires:
  assumes "fair_round r1" and "fair_round r2" and "fair_round r3" and "list_all turn_allowed (r1 @ r2 @ r3)"
    and "tasks_inv config st"
  obtains rt report where "runtime_shutdown (r1 @ r2 @ r3) st = Some (rt, report)" and "retired rt"
    and "phase (tasks_supervisor st) < 2 \<Longrightarrow> report_stop_reason report = ShutdownRequested"
proof -
  have inv: "runtime_inv config (request_shutdown (tasks_runtime st))" using assms(5) by (simp add: tasks_inv_def)
  obtain b where b: "drop_inbound_receiver (request_shutdown (tasks_runtime st)) =
        Some ((request_shutdown (tasks_runtime st))\<lparr>run_inbound_leases := [], run_inbound_budget := b\<rparr>)"
      "runtime_inv config ((request_shutdown (tasks_runtime st))\<lparr>run_inbound_leases := [], run_inbound_budget := b\<rparr>)"
    by (rule drop_inbound_receiver_inv [OF inv])
  let ?s = "st\<lparr>tasks_runtime := (request_shutdown (tasks_runtime st))\<lparr>run_inbound_leases := [], run_inbound_budget := b\<rparr>\<rparr>"
  have s: "tasks_inv config ?s"
    using assms(5) b(2) by (auto simp: tasks_inv_def request_shutdown_def stop_def split: Supervisor.splits)
  have "requested ?s" if "phase (tasks_supervisor st) < 2"
    using that by (cases "tasks_supervisor st") (simp_all add: requested_def request_shutdown_def stop_def)
  moreover have "run_stopping (tasks_runtime ?s)" by (simp add: request_shutdown_def stop_def)
  ultimately show thesis
    using runtime_wait_retires [OF assms(1-4) s] that b(1) by (auto simp: runtime_shutdown_def)
qed

end
