(* ===== verification/Vpn_Bridge_Properties.thy ===== *)
theory Vpn_Bridge_Properties
  imports Vpn_Bridge Vpn_Runtime_Tasks
begin

text \<open>
  Properties of the packet bridge: the client's pump gives every packet it reads to the session that
  is attached at that moment or drops and counts it, attachments exclude one another, only permitted
  packets reach the device, and the end of a bridge ends its runtime.
\<close>

section \<open>Attachments\<close>

definition attachments_ok :: "VpnClientPacketPumpControl \<Rightarrow> VpnClientPacketPumpAttachment list \<Rightarrow> bool" where
  "attachments_ok c as \<longleftrightarrow>
     distinct (map attachment_generation as) \<and>
     list_all (\<lambda>a. attachment_generation a < pump_next_generation c) as \<and>
     list_all (\<lambda>a. attachment_attached a \<longleftrightarrow> pump_active_generation c = Some (attachment_generation a)) as \<and>
     (\<forall>g. pump_active_generation c = Some g \<longrightarrow> g \<in> set (map attachment_generation as)) \<and>
     (pump_target c = None \<longleftrightarrow> pump_active_generation c = None) \<and> pump_next_generation c \<le> u64_max"

lemma pump_attach_ok:
  assumes "attachments_ok c as" and "pump_attach c h n = (c', Inr a)"
  shows "attachments_ok c' (as @ [a])" and "pump_active_generation c = None" and "\<not> list_ex attachment_attached as"
    and "pump_target c' = Some \<lparr>target_max_packet_len = n, target_outbound = h\<rparr>"
    and "pump_max_packet_len c' = pump_max_packet_len c" and "n \<le> pump_max_packet_len c"
  using assms
  by (auto simp: pump_attach_def attachments_ok_def list_all_iff list_ex_iff Let_def split: if_splits option.splits)

lemma attachment_detach_stale:
  assumes "attachments_ok c as" and "i < length as" and "\<not> attachment_attached (as ! i)"
  shows "attachment_detach c (as ! i) = (c, as ! i)"
  using assms by (simp add: attachment_detach_def)

lemma attachments_distinct_active:
  assumes "attachments_ok c as" and "i < length as" and "j < length as"
    and "attachment_attached (as ! i)" and "attachment_attached (as ! j)"
  shows "i = j"
proof -
  have "attachment_generation (as ! i) = attachment_generation (as ! j)"
    using assms by (auto simp: attachments_ok_def list_all_length)
  then have "map attachment_generation as ! i = map attachment_generation as ! j" using assms(2,3) by simp
  then show ?thesis
    using assms(1-3) nth_eq_iff_index_eq [of "map attachment_generation as" i j] unfolding attachments_ok_def by simp
qed

lemma attachment_detach_ok:
  assumes ok: "attachments_ok c as" and i: "i < length as" and d: "attachment_detach c (as ! i) = (c', a)"
  shows "attachments_ok c' (as[i := a])" and "pump_target c' = None \<or> c' = c"
    and "pump_max_packet_len c' = pump_max_packet_len c"
proof -
  show "pump_target c' = None \<or> c' = c" "pump_max_packet_len c' = pump_max_packet_len c"
    using d by (auto simp: attachment_detach_def pump_detach_def split: if_splits)
  show "attachments_ok c' (as[i := a])"
  proof (cases "attachment_attached (as ! i)")
    case False
    then show ?thesis using ok d i by (auto simp: attachment_detach_def)
  next
    case True
    let ?g = "attachment_generation (as ! i)"
    have active: "pump_active_generation c = Some ?g" using ok True i by (simp add: attachments_ok_def list_all_length)
    have c': "c' = c\<lparr>pump_active_generation := None, pump_target := None\<rparr>"
      and a: "a = (as ! i)\<lparr>attachment_attached := False\<rparr>"
      using d True active by (auto simp: attachment_detach_def pump_detach_def)
    have gens: "map attachment_generation (as[i := a]) = map attachment_generation as"
      using i by (simp add: a map_update list_update_same_conv)
    have "\<not> attachment_attached (as[i := a] ! j)" if "j < length as" for j
      using attachments_distinct_active [OF ok i that True] that i by (cases "j = i") (auto simp: a nth_list_update)
    moreover have "attachment_generation (as[i := a] ! j) = attachment_generation (as ! j)" if "j < length as" for j
      using that i by (cases "j = i") (simp_all add: a)
    ultimately show ?thesis
      using ok gens i by (auto simp: attachments_ok_def c' list_all_length)
  qed
qed

section \<open>Histories of the client's pump\<close>

text \<open>
  The log records, for every packet read from the device, the runtime that was attached at that
  moment and the runtime whose outbound queue changed.  Runtimes are started with the session; their
  tasks only take packets out of the outbound queue.
\<close>

type_synonym pump_log = "(bytes \<times> nat option \<times> nat option) list"

type_synonym pump_state = "VpnClientPacketPumpControl \<times> VpnPacketBridgeMetricCounters \<times> VpnDatagramRuntime list \<times>
  VpnClientPacketPumpAttachment list \<times> pump_log"

definition placed :: "VpnDatagramRuntime list \<Rightarrow> VpnDatagramRuntime list \<Rightarrow> nat option" where
  "placed rts rts' = find (\<lambda>h. run_outbound_queue (rts' ! h) \<noteq> run_outbound_queue (rts ! h)) [0..<length rts]"

inductive pump_step :: "pump_state \<Rightarrow> pump_state \<Rightarrow> bool" where
  read: "packet \<noteq> [] \<Longrightarrow> pump_iteration c m rts (DeviceRead (Inr packet)) channel = Some (m', rts', None) \<Longrightarrow>
    pump_step (c, m, rts, as, log)
      (c, m', rts', as, log @ [(packet, map_option target_outbound (pump_target c), placed rts rts')])"
| attach: "h < length rts \<Longrightarrow> pump_attach c h n = (c', Inr a) \<Longrightarrow>
    pump_step (c, m, rts, as, log) (c', m, rts, as @ [a], log)"
| detach: "i < length as \<Longrightarrow> attachment_detach c (as ! i) = (c', a) \<Longrightarrow>
    pump_step (c, m, rts, as, log) (c', m, rts, as[i := a], log)"
| connect: "inner_settled others inner env \<Longrightarrow>
    start_vpn_datagram_runtime connection runtime_available inner env still_active config = (bound, Inr rt) \<Longrightarrow>
    pump_step (c, m, rts, as, log) (c, m, rts @ [rt], as, log)"
| task: "h < length rts \<Longrightarrow> runtime_step (rts ! h, inbound, outbound) (rt, inbound', outbound') \<Longrightarrow>
    suffix (run_outbound_queue rt) (run_outbound_queue (rts ! h)) \<Longrightarrow>
    pump_step (c, m, rts, as, log) (c, m, rts[h := rt], as, log)"
| written: "pump_step (c, m, rts, as, log) (c, record_written n m, rts, as, log)"
| shutdown: "pump_step (c, m, rts, as, log) (pump_request_shutdown c, m, rts, as, log)"

definition log_of :: "nat \<Rightarrow> pump_log \<Rightarrow> bytes list" where
  "log_of h log = map fst (filter (\<lambda>(_, _, q). q = Some h) log)"

definition offline_in :: "pump_log \<Rightarrow> nat" where
  "offline_in log = length (filter (\<lambda>(_, a, _). a = None) log)"

definition lost_in :: "pump_log \<Rightarrow> nat" where
  "lost_in log = length (filter (\<lambda>(_, a, q). a \<noteq> None \<and> q = None) log)"

definition queued_in :: "pump_log \<Rightarrow> nat" where
  "queued_in log = length (filter (\<lambda>(_, _, q). q \<noteq> None) log)"

definition log_ok :: "VpnClientPacketPumpControl \<Rightarrow> pump_log \<Rightarrow> bool" where
  "log_ok c log \<longleftrightarrow> list_all (\<lambda>(p, a, q). q \<noteq> None \<longrightarrow> q = a \<and> length p \<le> pump_max_packet_len c) log"

definition counters_ok :: "VpnPacketBridgeMetricCounters \<Rightarrow> pump_log \<Rightarrow> bool" where
  "counters_ok m log \<longleftrightarrow> device_read_packets m = min u64_max (length log) \<and>
     offline_dropped_packets m = min u64_max (offline_in log) \<and>
     (\<exists>x y. lost_in log = x + y \<and> oversized_device_packets m = min u64_max x \<and>
       bridge_queue_dropped_packets m = min u64_max y)"

definition pump_inv :: "pump_state \<Rightarrow> bool" where
  "pump_inv = (\<lambda>(c, m, rts, as, log). attachments_ok c as \<and> log_ok c log \<and> counters_ok m log \<and>
     (\<forall>t. pump_target c = Some t \<longrightarrow> target_outbound t < length rts \<and> target_max_packet_len t \<le> pump_max_packet_len c) \<and>
     list_all (\<lambda>rt. \<exists>config. runtime_inv config rt) rts \<and>
     (\<forall>h < length rts. suffix (run_outbound_queue (rts ! h)) (log_of h log)) \<and>
     (\<forall>h \<ge> length rts. log_of h log = []))"

lemma log_split: "length log = offline_in log + lost_in log + queued_in log" if "log_ok c log"
  using that
proof (induction log)
  case (Cons e log)
  obtain p a q where "e = (p, a, q)" by (cases e)
  with Cons show ?case by (auto simp: log_ok_def offline_in_def lost_in_def queued_in_def)
qed (simp add: offline_in_def lost_in_def queued_in_def)

lemma log_append [simp]:
  "log_of h (log @ [(p, a, q)]) = log_of h log @ (if q = Some h then [p] else [])"
  "offline_in (log @ [(p, a, q)]) = offline_in log + (if a = None then 1 else 0)"
  "lost_in (log @ [(p, a, q)]) = lost_in log + (if a \<noteq> None \<and> q = None then 1 else 0)"
  "log_ok c (log @ [(p, a, q)]) \<longleftrightarrow> log_ok c log \<and> (q \<noteq> None \<longrightarrow> q = a \<and> length p \<le> pump_max_packet_len c)"
  by (auto simp: log_of_def offline_in_def lost_in_def log_ok_def)

lemma sat_count: "sat_add_u64 (min u64_max n) 1 = min u64_max (n + 1)"
  by (simp add: sat_add_u64_def)

section \<open>One read of the pump\<close>

lemma sender_try_send_effect:
  assumes "sender_try_send rt packet channel = Some (rt', result)"
  shows "result = Inr () \<Longrightarrow> run_outbound_queue rt' = run_outbound_queue rt @ [packet]"
    and "is_err result \<Longrightarrow> run_outbound_queue rt' = run_outbound_queue rt"
proof (atomize (full), cases "length packet = 0 \<or> length packet > VPN_MAX_IP_PACKET_LEN")
  case True
  then show "(result = Inr () \<longrightarrow> run_outbound_queue rt' = run_outbound_queue rt @ [packet]) \<and>
      (is_err result \<longrightarrow> run_outbound_queue rt' = run_outbound_queue rt)"
    using assms by (auto simp: sender_try_send_def Let_def)
next
  case False
  obtain budget lease where "queue_try_reserve (run_outbound_budget rt) (length packet) = Some (budget, lease)"
    using assms False by (auto simp: sender_try_send_def Let_def bind_eq_Some_conv)
  then show "(result = Inr () \<longrightarrow> run_outbound_queue rt' = run_outbound_queue rt @ [packet]) \<and>
      (is_err result \<longrightarrow> run_outbound_queue rt' = run_outbound_queue rt)"
    using assms False by (cases lease; cases channel) (auto simp: sender_try_send_def Let_def bind_eq_Some_conv)
qed

lemma placed_update:
  assumes "h < length rts"
  shows "placed rts (rts[h := rt]) = (if run_outbound_queue rt = run_outbound_queue (rts ! h) then None else Some h)"
proof (cases "run_outbound_queue rt = run_outbound_queue (rts ! h)")
  case True
  then show ?thesis using assms by (auto simp: placed_def find_None_iff nth_list_update)
next
  case False
  have "find (\<lambda>k. run_outbound_queue (rts[h := rt] ! k) \<noteq> run_outbound_queue (rts ! k)) [0..<length rts] = Some h"
    unfolding find_Some_iff using False assms by (intro exI [of _ h]) (auto simp: nth_list_update)
  then show ?thesis using False by (simp add: placed_def)
qed

lemma placed_same [simp]: "placed rts rts = None"
  by (simp add: placed_def find_None_iff)

text \<open>
  Every read of the pump has one of four outcomes, and with the runtimes in order it never panics.
\<close>

lemma pump_iteration_read:
  assumes run: "pump_iteration c m rts (DeviceRead (Inr packet)) channel = Some (m', rts', exit)" and "packet \<noteq> []"
  obtains (offline) "pump_target c = None" and "rts' = rts" and "m' = record_offline_drop (length packet) (record_read (length packet) m)"
  | (oversized) t where "pump_target c = Some t" and "length packet > target_max_packet_len t" and "rts' = rts"
      and "m' = record_oversized (length packet) (record_read (length packet) m)"
  | (refused) t rt result where "pump_target c = Some t" and "length packet \<le> target_max_packet_len t"
      and "sender_try_send (rts ! target_outbound t) packet channel = Some (rt, result)"
      and "run_outbound_queue rt = run_outbound_queue (rts ! target_outbound t)"
      and "rts' = rts[target_outbound t := rt]" and "m' = record_queue_drop (length packet) (record_read (length packet) m)"
  | (queued) t rt result where "pump_target c = Some t" and "length packet \<le> target_max_packet_len t"
      and "sender_try_send (rts ! target_outbound t) packet channel = Some (rt, result)"
      and "run_outbound_queue rt = run_outbound_queue (rts ! target_outbound t) @ [packet]"
      and "rts' = rts[target_outbound t := rt]" and "m' = record_read (length packet) m"
proof -
  obtain x xs where packet: "packet = x # xs" using assms(2) by (cases packet) auto
  show thesis
  proof (cases "pump_target c")
    case None
    then show thesis using run offline by (simp add: pump_iteration_def packet Let_def)
  next
    case (Some t)
    show thesis
    proof (cases "length packet > target_max_packet_len t")
      case True
      then show thesis using run Some oversized by (simp add: pump_iteration_def packet Let_def)
    next
      case False
      then obtain rt result where send: "sender_try_send (rts ! target_outbound t) packet channel = Some (rt, result)"
        and rts: "rts' = rts[target_outbound t := rt]"
        and m: "m' = (if is_err result then record_queue_drop (length packet) (record_read (length packet) m)
          else record_read (length packet) m)"
        using run Some by (auto simp: pump_iteration_def packet Let_def bind_eq_Some_conv split: if_splits)
      show thesis
      proof (cases result)
        case (Inl e)
        then show thesis using refused Some False send rts m sender_try_send_effect(2) [OF send] by simp
      next
        case (Inr u)
        then show thesis using queued Some False send rts m sender_try_send_effect(1) [OF send] by simp
      qed
    qed
  qed
qed

lemma counters_ok_read:
  assumes "counters_ok m log"
  shows "counters_ok (record_offline_drop n (record_read n m)) (log @ [(p, None, None)])"
    and "counters_ok (record_oversized n (record_read n m)) (log @ [(p, Some h, None)])"
    and "counters_ok (record_queue_drop n (record_read n m)) (log @ [(p, Some h, None)])"
    and "counters_ok (record_read n m) (log @ [(p, Some h, Some k)])"
proof -
  obtain x y where xy: "lost_in log = x + y" "oversized_device_packets m = min u64_max x"
      "bridge_queue_dropped_packets m = min u64_max y"
    and rest: "device_read_packets m = min u64_max (length log)" "offline_dropped_packets m = min u64_max (offline_in log)"
    using assms unfolding counters_ok_def by blast
  note simps = bridge_counter_defs sat_count [simplified] xy rest
  show "counters_ok (record_offline_drop n (record_read n m)) (log @ [(p, None, None)])"
    "counters_ok (record_read n m) (log @ [(p, Some h, Some k)])"
    unfolding counters_ok_def by (intro conjI exI [of _ x] exI [of _ y]; simp add: simps)+
  show "counters_ok (record_oversized n (record_read n m)) (log @ [(p, Some h, None)])"
    unfolding counters_ok_def by (intro conjI exI [of _ "Suc x"] exI [of _ y]; simp add: simps)
  show "counters_ok (record_queue_drop n (record_read n m)) (log @ [(p, Some h, None)])"
    unfolding counters_ok_def by (intro conjI exI [of _ x] exI [of _ "Suc y"]; simp add: simps)
qed

lemma list_all_runtime_update:
  "list_all (\<lambda>rt. \<exists>config. runtime_inv config rt) rts \<Longrightarrow> runtime_inv config rt \<Longrightarrow>
    list_all (\<lambda>rt. \<exists>config. runtime_inv config rt) (rts[h := rt])"
  by (auto simp: list_all_iff dest!: set_update_subset_insert [THEN subsetD])

lemma sender_try_send_keeps:
  assumes "list_all (\<lambda>rt. \<exists>config. runtime_inv config rt) rts" and "h < length rts"
    and "sender_try_send (rts ! h) packet channel = Some (rt, result)"
  shows "list_all (\<lambda>rt. \<exists>config. runtime_inv config rt) (rts[h := rt])"
proof -
  obtain config where "runtime_inv config (rts ! h)" using assms(1,2) by (auto simp: list_all_length)
  then have "runtime_inv config rt" by (rule sender_try_send_inv [of _ _ packet channel]) (use assms(3) in simp)
  then show ?thesis by (rule list_all_runtime_update [OF assms(1)])
qed

text \<open>The part of the invariant about queues, after the queue of one runtime changed.\<close>

definition queues_ok :: "VpnDatagramRuntime list \<Rightarrow> pump_log \<Rightarrow> bool" where
  "queues_ok rts log \<longleftrightarrow> (\<forall>h < length rts. suffix (run_outbound_queue (rts ! h)) (log_of h log)) \<and>
     (\<forall>h \<ge> length rts. log_of h log = [])"

lemma queues_ok_update:
  assumes "queues_ok rts log" and "h < length rts" and "suffix (run_outbound_queue rt) (log_of h log')"
    and "\<And>k. k \<noteq> h \<Longrightarrow> log_of k log' = log_of k log"
  shows "queues_ok (rts[h := rt]) log'"
  using assms by (auto simp: queues_ok_def nth_list_update)

lemma pump_inv_eq:
  "pump_inv (c, m, rts, as, log) \<longleftrightarrow> attachments_ok c as \<and> log_ok c log \<and> counters_ok m log \<and>
     (\<forall>t. pump_target c = Some t \<longrightarrow> target_outbound t < length rts \<and> target_max_packet_len t \<le> pump_max_packet_len c) \<and>
     list_all (\<lambda>rt. \<exists>config. runtime_inv config rt) rts \<and> queues_ok rts log"
  by (simp add: pump_inv_def queues_ok_def)

lemma pump_read_inv:
  assumes inv: "pump_inv (c, m, rts, as, log)" and "packet \<noteq> []"
    and run: "pump_iteration c m rts (DeviceRead (Inr packet)) channel = Some (m', rts', exit)"
  shows "pump_inv (c, m', rts', as, log @ [(packet, map_option target_outbound (pump_target c), placed rts rts')])"
proof -
  have target: "target_outbound t < length rts" "target_max_packet_len t \<le> pump_max_packet_len c"
    if "pump_target c = Some t" for t
    using inv that by (simp_all add: pump_inv_eq)
  have parts: "counters_ok m log" "queues_ok rts log" "list_all (\<lambda>rt. \<exists>config. runtime_inv config rt) rts"
    using inv by (simp_all add: pump_inv_eq)
  show ?thesis
  proof (cases rule: pump_iteration_read [OF run assms(2), case_names offline oversized refused queued])
    case offline
    with inv show ?thesis by (simp add: pump_inv_eq counters_ok_read queues_ok_def)
  next
    case (oversized t)
    with inv show ?thesis by (simp add: pump_inv_eq counters_ok_read queues_ok_def)
  next
    case (refused t rt result)
    let ?h = "target_outbound t"
    have "queues_ok (rts[?h := rt]) (log @ [(packet, Some ?h, None)])"
      by (rule queues_ok_update [OF parts(2)]) (use refused parts(2) target in \<open>simp_all add: queues_ok_def\<close>)
    moreover have "list_all (\<lambda>rt. \<exists>config. runtime_inv config rt) (rts[?h := rt])"
      by (rule sender_try_send_keeps [OF parts(3) target(1) refused(3)]) (use refused in simp)
    ultimately show ?thesis
      using inv refused target by (simp add: pump_inv_eq placed_update counters_ok_read)
  next
    case (queued t rt result)
    let ?h = "target_outbound t"
    have "queues_ok (rts[?h := rt]) (log @ [(packet, Some ?h, Some ?h)])"
      by (rule queues_ok_update [OF parts(2)]) (use queued parts(2) target in \<open>auto simp: queues_ok_def suffix_def\<close>)
    moreover have "list_all (\<lambda>rt. \<exists>config. runtime_inv config rt) (rts[?h := rt])"
      by (rule sender_try_send_keeps [OF parts(3) target(1) queued(3)]) (use queued in simp)
    moreover have "length packet \<le> pump_max_packet_len c" using queued(1,2) target(2) by fastforce
    ultimately show ?thesis
      using inv queued target by (simp add: pump_inv_eq placed_update counters_ok_read)
  qed
qed

lemma pump_step_inv: "pump_step s s' \<Longrightarrow> pump_inv s \<Longrightarrow> pump_inv s'"
proof (induction rule: pump_step.induct)
  case (read packet c m rts channel m' rts' as log)
  from pump_read_inv [OF read(3,1,2)] show ?case .
next
  case (attach h rts c n c' a m as log)
  from attach(3) have "attachments_ok c as" by (simp add: pump_inv_eq)
  from pump_attach_ok [OF this attach(2)] attach show ?case by (simp add: pump_inv_eq log_ok_def)
next
  case (detach i as c c' a m rts log)
  from detach(3) have "attachments_ok c as" by (simp add: pump_inv_eq)
  from attachment_detach_ok [OF this detach(1,2)] detach(3) show ?case by (auto simp: pump_inv_eq log_ok_def)
next
  case (connect others inner env connection runtime_available still_active config bound rt c m rts as log)
  have "runtime_inv config rt" by (rule runtime_started(1) [OF connect(2,1)])
  moreover have "run_outbound_queue rt = []"
    using connect(2) by (clarsimp simp: start_vpn_datagram_runtime_def try_bind_runtime_def Let_def
        split: sum.split_asm if_split_asm option.split_asm)
  ultimately show ?case
    using connect(3) by (auto simp: pump_inv_eq queues_ok_def nth_append)
next
  case (task h rts inbound outbound rt inbound' outbound' c m as log)
  obtain config where "runtime_inv config (rts ! h)" using task(1,4) by (auto simp: pump_inv_eq list_all_length)
  with runtime_step_inv [OF task(2), of config] have "runtime_inv config rt" by simp
  then have "list_all (\<lambda>rt. \<exists>config. runtime_inv config rt) (rts[h := rt])"
    using task(4) by (intro list_all_runtime_update) (auto simp: pump_inv_eq)
  moreover have "queues_ok (rts[h := rt]) log"
    by (rule queues_ok_update) (use task in \<open>auto simp: pump_inv_eq queues_ok_def intro: suffix_order.trans\<close>)
  ultimately show ?case using task(4) by (simp add: pump_inv_eq)
next
  case (written c m rts as log n)
  then show ?case by (simp add: pump_inv_eq counters_ok_def record_written_def)
next
  case (shutdown c m rts as log)
  then show ?case by (simp add: pump_inv_eq pump_request_shutdown_def attachments_ok_def log_ok_def)
qed

lemma pump_history_inv: "pump_step\<^sup>*\<^sup>* s s' \<Longrightarrow> pump_inv s \<Longrightarrow> pump_inv s'"
  by (induction rule: rtranclp_induct) (auto dest: pump_step_inv)

lemma pump_start_inv:
  assumes "start_vpn_client_packet_pump available config = Inr (c, m)"
  shows "pump_inv (c, m, [], [], [])"
proof -
  have "c = pump_control_new (bridge_max_packet_len config)" "m = bridge_counters_default"
    using assms by (auto simp: start_vpn_client_packet_pump_def result_simps split: if_splits)
  then show ?thesis
    by (simp add: pump_inv_eq pump_control_new_def attachments_ok_def log_ok_def counters_ok_def queues_ok_def
        bridge_counters_default_def offline_in_def lost_in_def log_of_def u64_max_def)
qed

lemma pump_iteration_total:
  assumes "pump_inv (c, m, rts, as, log)"
  shows "pump_iteration c m rts event channel \<noteq> None"
proof (cases "event = ReadShutdown \<or> (\<exists>k. event = DeviceRead (Inl k)) \<or> event = DeviceRead (Inr [])")
  case True
  then show ?thesis by (auto simp: pump_iteration_def)
next
  case False
  then obtain x xs where event: "event = DeviceRead (Inr (x # xs))"
    by (metis ReadEvent.exhaust neq_Nil_conv old.sum.exhaust)
  have "sender_try_send (rts ! target_outbound t) (x # xs) channel \<noteq> None" if t: "pump_target c = Some t" for t
  proof -
    obtain config where "runtime_inv config (rts ! target_outbound t)"
      using assms t by (auto simp: pump_inv_eq list_all_length)
    then show ?thesis by (rule sender_try_send_inv [of _ _ "x # xs" channel]) simp
  qed
  then show ?thesis by (auto simp: event pump_iteration_def Let_def split: option.splits)
qed

section \<open>What the device gets\<close>

text \<open>
  A packet in the hands of the consumer passed the policy of the path, in the direction of the role,
  when it was ingested; the policy of a path never changes.
\<close>

definition lease_permitted :: "VpnDatagramRuntime \<Rightarrow> VpnDataPacket \<Rightarrow> bool" where
  "lease_permitted rt p \<longleftrightarrow> length (data_packet_bytes p) \<le> inner_max_ip_packet_len (run_path rt) \<and>
     validate_vpn_ip_packet_policy (inner_policy (run_path rt)) (fst (directions (run_role rt))) (data_packet_bytes p) =
       Inr (data_packet_metadata p)"

text \<open>A step keeps the role, the handle and a shutdown request, and only adds permitted packets to the leases.\<close>

definition leases_extend :: "VpnDatagramRuntime \<Rightarrow> VpnDatagramRuntime \<Rightarrow> bool" where
  "leases_extend rt rt' \<longleftrightarrow> run_role rt' = run_role rt \<and> same_handle (run_path rt') (run_path rt) \<and>
     (run_shutdown_requested rt \<longrightarrow> run_shutdown_requested rt') \<and>
     (\<forall>p \<in> set (run_inbound_leases rt') - set (run_inbound_leases rt). lease_permitted rt p)"

lemma same_handle_trans: "same_handle a b \<Longrightarrow> same_handle b c \<Longrightarrow> same_handle a c"
  by (simp add: same_handle_def)

lemma lease_permitted_same:
  "run_role rt' = run_role rt \<Longrightarrow> same_handle (run_path rt') (run_path rt) \<Longrightarrow> lease_permitted rt' p = lease_permitted rt p"
  by (simp add: lease_permitted_def same_handle_def)

lemma leases_extend_permitted:
  assumes "leases_extend rt rt'" and "\<forall>p \<in> set (run_inbound_leases rt). lease_permitted rt p"
  shows "\<forall>p \<in> set (run_inbound_leases rt'). lease_permitted rt' p"
  using assms lease_permitted_same [of rt' rt] unfolding leases_extend_def by blast

lemma deliver_inbound_extends:
  assumes "deliver_inbound rt packet channel = Some (rt', exit)"
  shows "run_role rt' = run_role rt \<and> run_path rt' = run_path rt \<and>
    run_shutdown_requested rt' = run_shutdown_requested rt \<and>
    set (run_inbound_leases rt') \<subseteq> insert packet (set (run_inbound_leases rt))"
proof (cases "queue_try_reserve (run_inbound_budget rt) (length (data_packet_bytes packet))")
  case None
  then show ?thesis using assms by (simp add: deliver_inbound_def)
next
  case (Some r)
  obtain budget lease where r: "r = (budget, lease)" by fastforce
  show ?thesis
    using assms Some r by (cases lease; cases channel) (auto simp: deliver_inbound_def bind_eq_Some_conv Let_def)
qed

lemma inbound_iteration_extends:
  assumes "runtime_inv config rt" and run: "inbound_iteration rt event channel = Some (rt', exit)"
  shows "leases_extend rt rt'"
proof -
  obtain others where settled: "inner_settled others (run_path rt) (run_env rt)"
    using assms(1) unfolding runtime_inv_def by blast
  show ?thesis
  proof (cases event)
    case InboundCancelled
    then show ?thesis using run by (simp add: inbound_iteration_def leases_extend_def)
  next
    case (InboundTick now)
    obtain inner env n where "expire_reassembly (run_path rt) (run_env rt) now = Some (inner, env, n)" "same_handle inner (run_path rt)"
      by (rule expire_reassembly_settled [OF settled, of now])
    then show ?thesis using run InboundTick by (auto simp: inbound_iteration_def leases_extend_def split: if_splits)
  next
    case (InboundRead read now)
    show ?thesis
    proof (cases read)
      case (Inl e)
      then show ?thesis using run InboundRead by (cases e) (simp_all add: inbound_iteration_def leases_extend_def)
    next
      case (Inr datagram)
      let ?dir = "fst (directions (run_role rt))"
      obtain inner env result where i: "ingest_datagram (run_path rt) (run_env rt) ?dir datagram now = Some (inner, env, result)"
        "same_handle inner (run_path rt)"
        "\<And>p. result = Inr (Some p) \<Longrightarrow> path_active (inner_state (run_path rt)) \<and>
          length (data_packet_bytes p) \<le> inner_max_ip_packet_len (run_path rt) \<and>
          validate_vpn_ip_packet_policy (inner_policy (run_path rt)) ?dir (data_packet_bytes p) = Inr (data_packet_metadata p)"
        by (rule ingest_datagram_settled [OF settled, of ?dir datagram now]) blast
      let ?rt = "rt\<lparr>run_metrics := record_received_datagram (length datagram) (run_metrics rt), run_path := inner, run_env := env\<rparr>"
      show ?thesis
      proof (cases result)
        case res: (Inl e)
        then show ?thesis
          using run i InboundRead Inr by (cases e) (auto simp: inbound_iteration_def leases_extend_def)
      next
        case res: (Inr completed)
        show ?thesis
        proof (cases completed)
          case None
          then show ?thesis using run i InboundRead Inr res by (auto simp: inbound_iteration_def leases_extend_def)
        next
          case (Some p)
          then have "deliver_inbound ?rt p channel = Some (rt', exit)"
            using run InboundRead Inr i(1) res by (simp add: inbound_iteration_def)
          from deliver_inbound_extends [OF this] i(2) i(3) [of p] res Some
          show ?thesis by (auto simp: leases_extend_def lease_permitted_def)
        qed
      qed
    qed
  qed
qed

lemma sender_try_send_extends:
  assumes "sender_try_send rt packet channel = Some (rt', result)"
  shows "leases_extend rt rt'"
proof (cases "length packet = 0 \<or> length packet > VPN_MAX_IP_PACKET_LEN")
  case True
  then show ?thesis using assms by (auto simp: sender_try_send_def leases_extend_def Let_def)
next
  case False
  obtain budget lease where "queue_try_reserve (run_outbound_budget rt) (length packet) = Some (budget, lease)"
    using assms False by (auto simp: sender_try_send_def Let_def bind_eq_Some_conv)
  then show ?thesis
    using assms False
    by (cases lease; cases channel) (auto simp: sender_try_send_def leases_extend_def Let_def bind_eq_Some_conv)
qed

lemma outbound_entry_extends:
  assumes run: "outbound_entry rt packet now events = Some (rt', datagrams, exit)"
  shows "leases_extend rt rt'"
proof -
  obtain b where b: "queue_release (run_outbound_budget rt) (length packet) = Some b"
    using run by (auto simp: outbound_entry_def bind_eq_Some_conv)
  obtain ids allocated where ids: "allocate_packet_id (run_packet_ids rt) = (ids, allocated)" by fastforce
  show ?thesis
  proof (cases allocated)
    case None
    then show ?thesis using run b ids by (auto simp: outbound_entry_def leases_extend_def)
  next
    case (Some packet_id)
    obtain env encoded where e: "encode_ip_packet (run_path rt) (run_env rt) (snd (directions (run_role rt))) packet_id packet
        (run_max_datagram_len rt) now = (env, encoded)" by fastforce
    show ?thesis
    proof (cases encoded)
      case (Inl err)
      then show ?thesis using run b ids Some e by (cases err) (auto simp: outbound_entry_def leases_extend_def)
    next
      case (Inr fragments)
      obtain m ds x where f: "send_fragments (length fragments) 0 fragments events
          (record_outbound_encoded (run_metrics rt)) = (m, ds, x)" by (metis prod_cases3)
      show ?thesis using run b ids Some e Inr f by (cases x) (auto simp: outbound_entry_def leases_extend_def)
    qed
  qed
qed

lemma drop_outbound_receiver_extends: "drop_outbound_receiver rt = Some rt' \<Longrightarrow> leases_extend rt rt'"
  by (auto simp: drop_outbound_receiver_def leases_extend_def bind_eq_Some_conv)

lemma leases_extend_trans:
  "leases_extend a b \<Longrightarrow> leases_extend b c \<Longrightarrow> leases_extend a c"
  by (auto simp: leases_extend_def lease_permitted_def same_handle_def)

lemma outbound_iteration_extends:
  assumes "outbound_iteration rt packet now events = Some (rt', datagrams, exit)"
  shows "leases_extend rt rt'"
proof -
  obtain rt1 ds x where e: "outbound_entry rt packet now events = Some (rt1, ds, x)"
    using assms by (auto simp: outbound_iteration_def bind_eq_Some_conv)
  note entry = outbound_entry_extends [OF e]
  show ?thesis
    using assms e entry leases_extend_trans [OF entry drop_outbound_receiver_extends]
    by (cases x) (auto simp: outbound_iteration_def bind_eq_Some_conv)
qed

lemma runtime_step_extends: "runtime_step s s' \<Longrightarrow> runtime_inv config (fst s) \<Longrightarrow> leases_extend (fst s) (fst s')"
proof (induction rule: runtime_step.induct)
  case (send rt packet channel rt' result inbound outbound)
  then show ?case using sender_try_send_extends by simp
next
  case (inbound rt event channel rt' exit outbound)
  then show ?case using inbound_iteration_extends by simp
next
  case (outbound rt packet rest now events rt' datagrams exit inbound)
  from outbound_iteration_extends [OF outbound(2)] show ?case by (simp add: leases_extend_def lease_permitted_def)
next
  case (cancel rt rt' exit inbound)
  then show ?case using drop_outbound_receiver_extends by (auto simp: outbound_cancelled_def bind_eq_Some_conv)
next
  case (shutdown rt inbound outbound)
  then show ?case by (simp add: leases_extend_def request_shutdown_def stop_def)
qed (auto simp: leases_extend_def)

lemma runtime_history_permitted:
  assumes "runtime_step\<^sup>*\<^sup>* s s'" and "runtime_inv config (fst s)" and "run_inbound_leases (fst s) = []"
  shows "run_role (fst s') = run_role (fst s) \<and> same_handle (run_path (fst s')) (run_path (fst s)) \<and>
    (\<forall>p \<in> set (run_inbound_leases (fst s')). lease_permitted (fst s') p)"
  using assms(1)
proof (induction rule: rtranclp_induct)
  case base
  then show ?case using assms(3) by simp
next
  case (step y z)
  have "runtime_inv config (fst y)" by (rule runtime_history_inv [OF step(1) assms(2)])
  from runtime_step_extends [OF step(2) this] have ext: "leases_extend (fst y) (fst z)" .
  from leases_extend_permitted [OF this] step(3) ext show ?case
    by (auto simp: leases_extend_def intro: same_handle_trans)
qed

section \<open>The end of a bridge\<close>




section \<open>Properties\<close>

text \<open>
  C24.  The client's packet pump loses nothing unseen and replays nothing.  In every history of reads,
  attachments, detachments, new sessions and work of their tasks, each packet read from the device is
  counted, and is either dropped and counted as offline, oversized or refused, or put into the
  outbound queue of the session attached at that moment, if it is no longer than the pump allows.
  What waits in the outbound queue of a session is the end of the sequence of packets read while it
  was attached, in their order; and no iteration panics.
\<close>

theorem client_pump_accounts:
  assumes "start_vpn_client_packet_pump available config = Inr (c0, m0)"
    and "pump_step\<^sup>*\<^sup>* (c0, m0, [], [], []) (c, m, rts, as, log)"
  shows "(length log \<le> u64_max \<longrightarrow> device_read_packets m = length log \<and>
      device_read_packets m = offline_dropped_packets m + oversized_device_packets m +
        bridge_queue_dropped_packets m + length (filter (\<lambda>(_, _, queued). queued \<noteq> None) log)) \<and>
    (\<forall>(packet, attached, queued) \<in> set log. queued \<noteq> None \<longrightarrow>
      queued = attached \<and> length packet \<le> pump_max_packet_len c) \<and>
    (\<forall>h < length rts. suffix (run_outbound_queue (rts ! h)) (map fst (filter (\<lambda>(_, _, queued). queued = Some h) log))) \<and>
    pump_iteration c m rts event channel \<noteq> None"
proof -
  have inv: "pump_inv (c, m, rts, as, log)" by (rule pump_history_inv [OF assms(2) pump_start_inv [OF assms(1)]])
  then have ok: "log_ok c log" by (simp add: pump_inv_eq)
  obtain x y where "device_read_packets m = min u64_max (length log)"
    "offline_dropped_packets m = min u64_max (offline_in log)" "lost_in log = x + y"
    "oversized_device_packets m = min u64_max x" "bridge_queue_dropped_packets m = min u64_max y"
    using inv unfolding pump_inv_eq counters_ok_def by blast
  with log_split [OF ok] have counted: "device_read_packets m = length log \<and>
      device_read_packets m = offline_dropped_packets m + oversized_device_packets m +
        bridge_queue_dropped_packets m + queued_in log" if "length log \<le> u64_max"
    using that by simp
  show ?thesis
    using counted ok inv pump_iteration_total [OF inv]
    by (auto simp: queued_in_def log_ok_def list_all_iff pump_inv_eq queues_ok_def log_of_def)
qed

text \<open>A packet is read while no session is attached, then a session comes up, then another is read.\<close>

lemma sample_pump_history:
  "\<exists>c m rt a. pump_step\<^sup>*\<^sup>* (pump_control_new 1280, bridge_counters_default, [], [], [])
     (c, m, [rt], [a], [([0x45], None, None), (sample_uplink_packet, Some 0, Some 0)])"
proof -
  let ?c = "pump_control_new 1280" and ?p = sample_uplink_packet
  obtain bound rt where rt: "start_vpn_datagram_runtime sample_connection True (path_activate sample_path) sample_shared True
      sample_runtime_config = (bound, Inr rt)" "run_outbound_queue rt = []" using sample_runtime_start by blast
  let ?m1 = "record_offline_drop 1 (record_read 1 bridge_counters_default)"
  have "pump_step (?c, bridge_counters_default, [], [], [])
      (?c, ?m1, [], [], [] @ [([0x45], map_option target_outbound (pump_target ?c), placed [] [])])"
    by (rule pump_step.read [where channel = "Inr ()"])
      (simp_all add: pump_iteration_def pump_control_new_def Let_def)
  then have s1: "pump_step (?c, bridge_counters_default, [], [], []) (?c, ?m1, [], [], [([0x45], None, None)])"
    by (simp add: pump_control_new_def)
  have s2: "pump_step (?c, ?m1, [], [], [([0x45], None, None)]) (?c, ?m1, [] @ [rt], [], [([0x45], None, None)])"
    by (rule pump_step.connect [OF sample_path_settled rt(1)])
  obtain c a where a: "pump_attach ?c 0 1280 = (c, Inr a)" "pump_target c = Some \<lparr>target_max_packet_len = 1280, target_outbound = 0\<rparr>"
    by (simp add: pump_attach_def pump_control_new_def Let_def vpn_consts u64_max_def)
  have s3: "pump_step (?c, ?m1, [rt], [], [([0x45], None, None)]) (c, ?m1, [rt], [] @ [a], [([0x45], None, None)])"
    by (rule pump_step.attach [OF _ a(1)]) simp
  have len: "length ?p = 20" "?p \<noteq> []" by (simp_all add: sample_uplink_packet_def)
  have inv: "runtime_inv sample_runtime_config rt" by (rule runtime_started(1) [OF rt(1) sample_path_settled])
  have ok: "queue_ok (run_outbound_budget rt) []" using inv rt(2) by (simp add: runtime_inv_def)
  obtain budget where "queue_try_reserve (run_outbound_budget rt) 20 = Some (budget, Inr ())"
    by (rule queue_try_reserve_ok [OF ok, of 20])
      (use inv in \<open>auto simp: runtime_inv_def runtime_limits_def sample_runtime_config_def\<close>)
  then obtain rt' where send: "sender_try_send rt ?p (Inr ()) = Some (rt', Inr ())"
    using len rt(2) by (simp add: sender_try_send_def Let_def vpn_consts)
  have q: "run_outbound_queue rt' = [?p]" using sender_try_send_effect(1) [OF send] rt(2) by simp
  have "pump_iteration c ?m1 [rt] (DeviceRead (Inr ?p)) (Inr ()) = Some (record_read 20 ?m1, [rt'], None)"
  proof -
    obtain x xs where p: "?p = x # xs" using len(2) by (cases ?p) auto
    show ?thesis
      using len(1) send a(2) unfolding p by (simp add: pump_iteration_def Let_def)
  qed
  from pump_step.read [OF len(2) this, of "[a]" "[([0x45], None, None)]"] a(2) placed_update [of 0 "[rt]" rt'] q rt(2)
  have s4: "pump_step (c, ?m1, [rt], [a], [([0x45], None, None)])
      (c, record_read 20 ?m1, [rt'], [a], [([0x45], None, None), (?p, Some 0, Some 0)])" by simp
  from s1 s2 s3 s4 have "pump_step\<^sup>*\<^sup>* (?c, bridge_counters_default, [], [], [])
      (c, record_read 20 ?m1, [rt'], [a], [([0x45], None, None), (?p, Some 0, Some 0)])"
    by (simp add: converse_rtranclp_into_rtranclp)
  then show ?thesis by blast
qed

lemma sample_pump_start:
  "start_vpn_client_packet_pump True \<lparr>bridge_max_packet_len = 1280\<rparr> = Inr (pump_control_new 1280, bridge_counters_default)"
  by (simp add: start_vpn_client_packet_pump_def bridge_config_new_def vpn_consts)

theorem client_pump_accounts_witness:
  "\<exists>c m. \<exists>rt :: VpnDatagramRuntime. \<exists>a. pump_step\<^sup>*\<^sup>* (pump_control_new 1280, bridge_counters_default, [], [], [])
     (c, m, [rt], [a], [([0x45], None, None), (sample_uplink_packet, Some 0, Some 0)]) \<and>
     device_read_packets m = 2 \<and> suffix (run_outbound_queue rt) [sample_uplink_packet]"
proof -
  obtain c m rt a where h: "pump_step\<^sup>*\<^sup>* (pump_control_new 1280, bridge_counters_default, [], [], [])
     (c, m, [rt], [a], [([0x45], None, None), (sample_uplink_packet, Some 0, Some 0)])"
    using sample_pump_history by blast
  from client_pump_accounts [OF sample_pump_start h] h show ?thesis
    by (intro exI [of _ c] exI [of _ m] exI [of _ rt] exI [of _ a]) (simp add: u64_max_def)
qed

text \<open>
  C25.  At most one session is attached to the client's pump at any time.  A session attaches exactly
  if its packet length is in range, no session is attached and the generations are not used up;
  detaching the attached session takes the target away, and detaching one that was detached before,
  however late, changes nothing.
\<close>

theorem pump_attachment_exclusive:
  assumes "start_vpn_client_packet_pump available config = Inr (c0, m0)"
    and "pump_step\<^sup>*\<^sup>* (c0, m0, [], [], []) (c, m, rts, as, log)"
  shows "length (filter attachment_attached as) \<le> 1 \<and> distinct (map attachment_generation as) \<and>
    (\<not> is_err (snd (pump_attach c h n)) \<longleftrightarrow> VPN_MIN_IP_PACKET_LEN \<le> n \<and> n \<le> pump_max_packet_len c \<and>
      \<not> list_ex attachment_attached as \<and> pump_next_generation c < u64_max) \<and>
    (i < length as \<longrightarrow> (if attachment_attached (as ! i) then pump_target (fst (attachment_detach c (as ! i))) = None
      else attachment_detach c (as ! i) = (c, as ! i)))"
proof -
  have ok: "attachments_ok c as"
    using pump_history_inv [OF assms(2) pump_start_inv [OF assms(1)]] by (simp add: pump_inv_eq)
  have unique: "j = k" if "j < length as" "k < length as" "attachment_attached (as ! j)" "attachment_attached (as ! k)" for j k
    by (rule attachments_distinct_active [OF ok that])
  have "length (filter attachment_attached as) \<le> 1"
  proof -
    have "card {j. j < length as \<and> attachment_attached (as ! j)} \<le> Suc 0"
      by (subst card_le_Suc0_iff_eq) (use unique in auto)
    then show ?thesis by (simp add: length_filter_conv_card)
  qed
  moreover have "list_ex attachment_attached as \<longleftrightarrow> pump_active_generation c \<noteq> None"
    using ok by (auto simp: attachments_ok_def list_ex_iff list_all_iff)
  moreover have "pump_target (fst (attachment_detach c (as ! i))) = None" if "i < length as" "attachment_attached (as ! i)"
    using ok that by (simp add: attachments_ok_def list_all_length attachment_detach_def pump_detach_def)
  ultimately show ?thesis
    using ok by (auto simp: attachments_ok_def pump_attach_def attachment_detach_def vpn_consts Let_def)
qed

theorem pump_attachment_exclusive_witness:
  "\<exists>c m rt a log. pump_step\<^sup>*\<^sup>* (pump_control_new 1280, bridge_counters_default, [], [], []) (c, m, [rt], [a], log) \<and>
     length (filter attachment_attached [a]) \<le> 1"
proof -
  obtain c m rt a where h: "pump_step\<^sup>*\<^sup>* (pump_control_new 1280, bridge_counters_default, [], [], [])
     (c, m, [rt], [a], [([0x45], None, None), (sample_uplink_packet, Some 0, Some 0)])"
    using sample_pump_history by blast
  from pump_attachment_exclusive [OF sample_pump_start h, of 0 1280 0] h show ?thesis by blast
qed

text \<open>
  C23.  Only permitted packets reach the device.  In every history of a runtime, a packet that its
  consumer takes from it and the bridge writes to the device is a well-formed IP packet, no longer
  than negotiated, whose client end is the tunnel address of the session's identity and whose other
  end is an allowed destination; it is counted as written exactly if the device took it, and its
  lease on the inbound queue is returned in any case.
\<close>

theorem device_packets_permitted:
  assumes "global_budget_new byte_limit packet_limit = Some b" and "budget_counts (shared_quota env0) = (0, 0)"
    and "(system_step b)\<^sup>*\<^sup>* ([], env0) (paths, env)" and "inner \<in> set paths"
    and "start_vpn_datagram_runtime connection runtime_available inner env still_active config = (bound, Inr rt0)"
    and "runtime_step\<^sup>*\<^sup>* (rt0, None, None) (rt, inbound, outbound)" and "run_inbound_leases rt = p # rest"
  shows "\<exists>m' rt' trigger. bridge_iteration m (rt\<lparr>run_inbound_leases := rest\<rparr>) (BridgePacket p write) = Some (m', rt', trigger) \<and>
    (let direction = fst (directions (runtime_role config)); packet = data_packet_bytes p in
      length packet \<le> inner_max_ip_packet_len inner \<and> inspect_vpn_ip_packet packet = Inr (data_packet_metadata p) \<and>
      permits_source (inner_policy inner) (client_end direction (data_packet_metadata p)) \<and>
      allows_destination (inner_policy inner) (remote_end direction (data_packet_metadata p)) \<and>
      m' = (if write = Written (Inr ()) then record_written (length packet) m else m) \<and>
      queue_current_bytes (run_inbound_budget rt') = sum_list (map (length \<circ> data_packet_bytes) rest))"
proof -
  obtain others where settled: "inner_settled others inner env"
    by (rule system_inv_handle [OF system_history_inv [OF assms(3,1,2)] assms(4)])
  note started = runtime_started [OF assms(5) settled]
  have fresh: "run_inbound_leases rt0 = [] \<and> run_role rt0 = runtime_role config"
    using assms(5) by (clarsimp simp: start_vpn_datagram_runtime_def try_bind_runtime_def Let_def
        split: sum.split_asm if_split_asm option.split_asm)
  have inv: "runtime_inv config rt" using runtime_history_inv [OF assms(6)] started(1) by simp
  have "run_role rt = run_role rt0 \<and> same_handle (run_path rt) (run_path rt0) \<and>
      (\<forall>p \<in> set (run_inbound_leases rt). lease_permitted rt p)"
    using runtime_history_permitted [OF assms(6)] started(1) fresh by simp
  then have permitted: "lease_permitted rt p" and role: "run_role rt = runtime_role config"
    and path: "inner_policy (run_path rt) = inner_policy inner" "inner_max_ip_packet_len (run_path rt) = inner_max_ip_packet_len inner"
    using assms(7) fresh started(3,4) by (auto simp: same_handle_def)
  have "queue_ok (run_inbound_budget rt) ([] @ length (data_packet_bytes p) # map (length \<circ> data_packet_bytes) rest)"
    using inv assms(7) by (simp add: runtime_inv_def comp_def)
  then obtain budget where "queue_release (run_inbound_budget rt) (length (data_packet_bytes p)) = Some budget"
      "queue_ok budget ([] @ map (length \<circ> data_packet_bytes) rest)"
    by (rule queue_release_ok)
  then show ?thesis
    using permitted
    by (auto simp: bridge_iteration_def lease_permitted_def role path policy_accepts queue_ok_def Let_def
        split: WriteEvent.splits sum.splits)
qed

text \<open>A runtime that has received one packet.\<close>

lemma sample_runtime_received:
  obtains bound rt0 rt where
    "start_vpn_datagram_runtime sample_connection True (path_activate sample_path) sample_shared True sample_runtime_config =
      (bound, Inr rt0)"
    and "runtime_step\<^sup>*\<^sup>* (rt0, None, None) (rt, None, None)"
    and "run_inbound_leases rt = [\<lparr>data_packet_bytes = sample_uplink_packet,
       data_packet_metadata = \<lparr>meta_source = V4 0x0A000132, meta_destination = V4 0x0A000009\<rparr>\<rparr>]"
proof -
  let ?p = "\<lparr>data_packet_bytes = sample_uplink_packet,
       data_packet_metadata = \<lparr>meta_source = V4 0x0A000132, meta_destination = V4 0x0A000009\<rparr>\<rparr>"
  obtain bound rt0 where start: "start_vpn_datagram_runtime sample_connection True (path_activate sample_path) sample_shared True
      sample_runtime_config = (bound, Inr rt0)" using sample_runtime_start by blast
  note started = runtime_started [OF start sample_path_settled]
  have fresh: "run_inbound_leases rt0 = [] \<and> run_role rt0 = Server"
    using start by (clarsimp simp: start_vpn_datagram_runtime_def try_bind_runtime_def Let_def sample_runtime_config_def
        split: sum.split_asm if_split_asm option.split_asm)
  let ?rt = "rt0\<lparr>run_path := path_activate sample_path, run_env := sample_shared\<rparr>"
  have s1: "runtime_step (rt0, None, None) (?rt, None, None)"
    by (rule runtime_step.others [OF sample_path_settled]) (simp add: started(3,4) same_handle_def)
  obtain inner env where "ingest_datagram (path_activate sample_path) sample_shared Uplink sample_uplink_datagram 5 =
      Some (inner, env, Inr (Some ?p))" using sample_path_ingest by blast
  moreover have ok: "queue_ok (run_inbound_budget rt0) []" using started(1) fresh by (simp add: runtime_inv_def)
  obtain budget where "queue_try_reserve (run_inbound_budget rt0) 20 = Some (budget, Inr ())"
    by (rule queue_try_reserve_ok [OF ok, of 20])
      (use started(1) in \<open>auto simp: runtime_inv_def runtime_limits_def sample_runtime_config_def\<close>)
  moreover have "length sample_uplink_packet = 20" by (simp add: sample_uplink_packet_def)
  ultimately obtain rt where run: "inbound_iteration ?rt (InboundRead (Inr sample_uplink_datagram) 5) (Inr ()) = Some (rt, None)"
    "run_inbound_leases rt = [?p]"
    using fresh by (simp add: inbound_iteration_def deliver_inbound_def Let_def)
  have "runtime_step (?rt, None, None) (rt, None, None)" by (rule runtime_step.inbound [OF run(1)])
  with s1 start run(2) that show thesis by (meson converse_rtranclp_into_rtranclp rtranclp.rtrancl_refl)
qed

theorem device_packets_permitted_witness:
  "\<exists>rt rt' :: VpnDatagramRuntime. \<exists>m' trigger.
     bridge_iteration bridge_counters_default rt (BridgePacket
       \<lparr>data_packet_bytes = sample_uplink_packet,
        data_packet_metadata = \<lparr>meta_source = V4 0x0A000132, meta_destination = V4 0x0A000009\<rparr>\<rparr> (Written (Inr ()))) =
       Some (m', rt', trigger) \<and> device_written_packets m' = 1 \<and>
     queue_current_bytes (run_inbound_budget rt') = 0"
proof -
  obtain bound rt0 rt where r: "start_vpn_datagram_runtime sample_connection True (path_activate sample_path) sample_shared True
      sample_runtime_config = (bound, Inr rt0)" "runtime_step\<^sup>*\<^sup>* (rt0, None, None) (rt, None, None)"
    "run_inbound_leases rt = [\<lparr>data_packet_bytes = sample_uplink_packet,
       data_packet_metadata = \<lparr>meta_source = V4 0x0A000132, meta_destination = V4 0x0A000009\<rparr>\<rparr>]"
    by (rule sample_runtime_received)
  from device_packets_permitted [OF sample_budget_new sample_shared_counts sample_activated _ r(1,2,3),
      of bridge_counters_default "Written (Inr ())"]
  obtain m' rt' trigger where it: "bridge_iteration bridge_counters_default (rt\<lparr>run_inbound_leases := []\<rparr>) (BridgePacket
       \<lparr>data_packet_bytes = sample_uplink_packet,
        data_packet_metadata = \<lparr>meta_source = V4 0x0A000132, meta_destination = V4 0x0A000009\<rparr>\<rparr> (Written (Inr ()))) =
       Some (m', rt', trigger)" and m': "m' = record_written (length sample_uplink_packet) bridge_counters_default"
    and "queue_current_bytes (run_inbound_budget rt') = 0"
    by (auto simp: Let_def)
  moreover have "device_written_packets m' = 1"
    by (simp add: m' record_written_def bridge_counters_default_def sat_add_u64_def u64_max_def)
  ultimately show ?thesis by blast
qed



end
