(* ===== verification/Fec_Field.thy ===== *)
theory Fec_Field
  imports Flow_Prelude
begin

unbundle bit_operations_syntax

text \<open>
  The arithmetic of the erasure code of the realtime experiments (\<open>realtime_v3.rs\<close>): bytes with
  exclusive or as addition and multiplication modulo \<open>x ^ 8 + x ^ 4 + x ^ 3 + x ^ 2 + 1\<close>.  The routines
  of the source are shown to be the operations of a field of 256 elements, in which the first forty
  powers of 2 are distinct.
\<close>

section \<open>The routines\<close>

definition GF_REDUCTION :: u8 where
  "GF_REDUCTION = 0x1d"

text \<open>One turn of the loop of \<open>gf_mul\<close> doubles the left factor and halves the right one.\<close>

definition gf_double :: "u8 \<Rightarrow> u8" where
  "gf_double left =
     (let high = left AND 0x80; left = push_bit 1 left in
      if high \<noteq> 0 then left XOR GF_REDUCTION else left)"

primrec gf_mul_loop :: "nat \<Rightarrow> u8 \<Rightarrow> u8 \<Rightarrow> u8 \<Rightarrow> u8" where
  "gf_mul_loop 0 left right product = product"
| "gf_mul_loop (Suc n) left right product =
     gf_mul_loop n (gf_double left) (drop_bit 1 right) (if right AND 1 \<noteq> 0 then product XOR left else product)"

definition gf_mul :: "u8 \<Rightarrow> u8 \<Rightarrow> u8" where
  "gf_mul left right = gf_mul_loop 8 left right 0"

lemma drop_bit_less: "e \<noteq> 0 \<Longrightarrow> unat (drop_bit 1 e) < unat e" for e :: u8
proof -
  assume "e \<noteq> 0"
  then have "0 < unat e" by (simp add: unat_gt_0)
  moreover have "unat (drop_bit 1 e) = unat e div 2"
    unfolding unat_drop_bit_eq by (simp add: drop_bit_eq_div)
  ultimately show ?thesis by simp
qed

function gf_pow_loop :: "u8 \<Rightarrow> u8 \<Rightarrow> u8 \<Rightarrow> u8" where
  "gf_pow_loop result base exponent =
     (if exponent = 0 then result
      else gf_pow_loop (if exponent AND 1 \<noteq> 0 then gf_mul result base else result)
             (gf_mul base base) (drop_bit 1 exponent))"
  by pat_completeness auto
termination
  by (relation "measure (\<lambda>(_, _, e). unat e)") (auto simp: drop_bit_less [simplified])

declare gf_pow_loop.simps [simp del]

definition gf_pow :: "u8 \<Rightarrow> u8 \<Rightarrow> u8" where
  "gf_pow base exponent = gf_pow_loop 1 base exponent"

text \<open>The only error is the division by zero.\<close>

definition gf_div :: "u8 \<Rightarrow> u8 \<Rightarrow> unit + u8" where
  "gf_div numerator denominator =
     (if denominator = 0 then Inl ()
      else if numerator = 0 then Inr 0
      else Inr (gf_mul numerator (gf_pow denominator 254)))"

primrec global_coefficient :: "usize \<Rightarrow> u8" where
  "global_coefficient 0 = 1"
| "global_coefficient (Suc n) = gf_mul (global_coefficient n) 2"

section \<open>Doubling\<close>

lemma gf_double_bit: "gf_double a = push_bit 1 a XOR (if bit a 7 then GF_REDUCTION else 0)"
proof -
  have "a AND 0x80 \<noteq> 0 \<longleftrightarrow> bit a 7"
    using and_exp_eq_0_iff_not_bit [of a 7] by simp
  then show ?thesis by (simp add: gf_double_def Let_def)
qed

lemma gf_double_xor: "gf_double (a XOR b) = gf_double a XOR gf_double b"
  by (simp add: gf_double_bit push_bit_xor bit_xor_iff xor.assoc xor.left_commute)

lemma gf_double_0 [simp]: "gf_double 0 = 0"
  by (simp add: gf_double_bit)

text \<open>A byte is the sum of its bits; additive functions that agree on the bits are equal.\<close>

lemma byte_bits:
  "(a :: u8) = (if bit a 0 then 1 else 0) XOR (if bit a 1 then 2 else 0) XOR (if bit a 2 then 4 else 0) XOR
     (if bit a 3 then 8 else 0) XOR (if bit a 4 then 0x10 else 0) XOR (if bit a 5 then 0x20 else 0) XOR
     (if bit a 6 then 0x40 else 0) XOR (if bit a 7 then 0x80 else 0)"
proof (rule bit_word_eqI)
  fix n assume "n < LENGTH(8)"
  then have "n = 0 \<or> n = 1 \<or> n = 2 \<or> n = 3 \<or> n = 4 \<or> n = 5 \<or> n = 6 \<or> n = 7" by auto
  then show "bit a n = bit ((if bit a 0 then 1 else 0) XOR (if bit a 1 then 2 else 0) XOR (if bit a 2 then 4 else 0) XOR
     (if bit a 3 then 8 else 0) XOR (if bit a 4 then 0x10 else 0) XOR (if bit a 5 then 0x20 else 0) XOR
     (if bit a 6 then 0x40 else 0) XOR (if bit a 7 then 0x80 else (0 :: u8))) n"
    by (elim disjE) (simp_all add: bit_xor_iff)
qed

definition additive :: "(u8 \<Rightarrow> u8) \<Rightarrow> bool" where
  "additive f \<longleftrightarrow> (\<forall>a b. f (a XOR b) = f a XOR f b)"

lemma additive_0: "additive f \<Longrightarrow> f 0 = 0"
  unfolding additive_def by (metis xor_self_eq)

lemma additive_basis:
  assumes "additive f" and "additive g" and "\<forall>b \<in> {1, 2, 4, 8, 0x10, 0x20, 0x40, 0x80}. f b = g b"
  shows "f a = g a"
proof -
  have f: "f (x XOR y) = f x XOR f y" and g: "g (x XOR y) = g x XOR g y" for x y
    using assms(1,2) by (simp_all add: additive_def)
  have 0: "f 0 = 0" "g 0 = 0" using assms(1,2) by (simp_all add: additive_0)
  have basis: "f (if c then b else 0) = g (if c then b else 0)" if "b \<in> {1, 2, 4, 8, 0x10, 0x20, 0x40, 0x80}" for b c
    using assms(3) that by (cases c) (auto simp: 0)
  show ?thesis
    by (subst (1 2) byte_bits [of a]) (simp only: f g, simp only: basis insertI1 insertI2)
qed

lemma additive_double: "additive gf_double"
  by (simp add: additive_def gf_double_xor)

lemma additive_compow: "additive f \<Longrightarrow> additive (f ^^ n)"
  by (induction n) (simp_all add: additive_def)

lemma gf_double_values:
  "gf_double 1 = 2"
  "gf_double 2 = 4"
  "gf_double 4 = 8"
  "gf_double 8 = 0x10"
  "gf_double 0x10 = 0x20"
  "gf_double 0x20 = 0x40"
  "gf_double 0x40 = 0x80"
  "gf_double 0x80 = 0x1d"
  "gf_double 0x1d = 0x3a"
  "gf_double 0x3a = 0x74"
  "gf_double 0x74 = 0xe8"
  "gf_double 0xe8 = 0xcd"
  "gf_double 0xcd = 0x87"
  "gf_double 0x87 = 0x13"
  "gf_double 0x13 = 0x26"
  "gf_double 0x26 = 0x4c"
  "gf_double 0x4c = 0x98"
  "gf_double 0x98 = 0x2d"
  "gf_double 0x2d = 0x5a"
  "gf_double 0x5a = 0xb4"
  "gf_double 0xb4 = 0x75"
  "gf_double 0x75 = 0xea"
  "gf_double 0xea = 0xc9"
  "gf_double 0xc9 = 0x8f"
  "gf_double 0x8f = 3"
  "gf_double 3 = 6"
  "gf_double 6 = 0xc"
  "gf_double 0xc = 0x18"
  "gf_double 0x18 = 0x30"
  "gf_double 0x30 = 0x60"
  "gf_double 0x60 = 0xc0"
  "gf_double 0xc0 = 0x9d"
  "gf_double 0x9d = 0x27"
  "gf_double 0x27 = 0x4e"
  "gf_double 0x4e = 0x9c"
  "gf_double 0x9c = 0x25"
  "gf_double 0x25 = 0x4a"
  "gf_double 0x4a = 0x94"
  "gf_double 0x94 = 0x35"
  "gf_double 0x35 = 0x6a"
  by (simp_all add: gf_double_def GF_REDUCTION_def)

lemma compow_literal:
  "(f ^^ 2) x = f (f x)" "(f ^^ 3) x = f (f (f x))" "(f ^^ 4) x = f (f (f (f x)))"
  "(f ^^ 8) x = f (f (f (f (f (f (f (f x)))))))"
  by (simp_all add: eval_nat_numeral)

lemma gf_double_pow8:
  "(gf_double ^^ 8) a = a XOR (gf_double ^^ 2) a XOR (gf_double ^^ 3) a XOR (gf_double ^^ 4) a"
proof (rule additive_basis [where f = "gf_double ^^ 8" and
      g = "\<lambda>a. a XOR (gf_double ^^ 2) a XOR (gf_double ^^ 3) a XOR (gf_double ^^ 4) a"])
  show "additive (gf_double ^^ 8)" by (rule additive_compow [OF additive_double])
  show "additive (\<lambda>a. a XOR (gf_double ^^ 2) a XOR (gf_double ^^ 3) a XOR (gf_double ^^ 4) a)"
    using additive_compow [OF additive_double, of 2] additive_compow [OF additive_double, of 3]
      additive_compow [OF additive_double, of 4]
    by (simp add: additive_def xor.assoc xor.left_commute)
  show "\<forall>b \<in> {1 :: u8, 2, 4, 8, 0x10, 0x20, 0x40, 0x80}. (gf_double ^^ 8) b =
      b XOR (gf_double ^^ 2) b XOR (gf_double ^^ 3) b XOR (gf_double ^^ 4) b"
    by (simp add: compow_literal gf_double_values)
qed

section \<open>Multiplication\<close>

text \<open>The product as a sum of doubled left factors.\<close>

primrec gf_terms :: "nat \<Rightarrow> u8 \<Rightarrow> u8 \<Rightarrow> u8" where
  "gf_terms 0 a b = 0"
| "gf_terms (Suc n) a b = (if bit b 0 then a else 0) XOR gf_terms n (gf_double a) (drop_bit 1 b)"

lemma and_1_bit: "b AND 1 \<noteq> 0 \<longleftrightarrow> bit b 0" for b :: u8
  using and_exp_eq_0_iff_not_bit [of b 0] by simp

lemma gf_mul_loop_terms: "gf_mul_loop n a b p = p XOR gf_terms n a b"
  by (induction n arbitrary: a b p) (simp_all add: and_1_bit xor.assoc del: and_one_eq)

lemma gf_mul_terms: "gf_mul a b = gf_terms 8 a b"
  by (simp add: gf_mul_def gf_mul_loop_terms)

lemma gf_terms_left: "gf_terms n (a XOR a') b = gf_terms n a b XOR gf_terms n a' b"
  by (induction n arbitrary: a a' b) (simp_all add: gf_double_xor xor.assoc xor.left_commute)

lemma gf_terms_right: "gf_terms n a (b XOR b') = gf_terms n a b XOR gf_terms n a b'"
  by (induction n arbitrary: a b b') (auto simp: drop_bit_xor bit_xor_iff xor.assoc xor.left_commute)

lemma gf_terms_double: "gf_terms n (gf_double a) b = gf_double (gf_terms n a b)"
  by (induction n arbitrary: a b) (simp_all add: gf_double_xor)

lemma gf_terms_last: "gf_terms (Suc n) a b = gf_terms n a b XOR (if bit b n then (gf_double ^^ n) a else 0)"
proof (induction n arbitrary: a b)
  case (Suc n)
  have "gf_terms (Suc (Suc n)) a b = (if bit b 0 then a else 0) XOR gf_terms (Suc n) (gf_double a) (drop_bit 1 b)"
    by simp
  also have "\<dots> = (if bit b 0 then a else 0) XOR (gf_terms n (gf_double a) (drop_bit 1 b) XOR
      (if bit b (Suc n) then (gf_double ^^ n) (gf_double a) else 0))"
    unfolding Suc.IH by (simp add: bit_drop_bit_eq)
  finally show ?case by (simp add: xor.assoc funpow_swap1)
qed simp

lemma gf_terms_cong: "(\<And>i. i < n \<Longrightarrow> bit b i = bit b' i) \<Longrightarrow> gf_terms n a b = gf_terms n a b'"
  by (induction n) (simp_all only: gf_terms_last gf_terms.simps(1) less_Suc_eq simp_thms)

lemma gf_terms_reduction: "gf_terms 8 a GF_REDUCTION = (gf_double ^^ 8) a"
proof -
  have "gf_terms 8 a GF_REDUCTION = a XOR (gf_double ^^ 2) a XOR (gf_double ^^ 3) a XOR (gf_double ^^ 4) a"
  proof -
    have bits: "bit GF_REDUCTION i \<longleftrightarrow> i = 0 \<or> i = 2 \<or> i = 3 \<or> i = 4" if "i \<in> {0, 1, 2, 3, 4, 5, 6, 7}" for i
      using that by (auto simp: GF_REDUCTION_def)
    have two: "gf_terms 2 a GF_REDUCTION = a"
      using gf_terms_last [of "Suc 0" a GF_REDUCTION] gf_terms_last [of 0 a GF_REDUCTION]
      by (simp add: bits numeral_2_eq_2 del: gf_terms.simps(2))
    have "gf_terms (Suc 7) a GF_REDUCTION = gf_terms (Suc 4) a GF_REDUCTION"
      using gf_terms_last [of 7 a GF_REDUCTION] gf_terms_last [of 6 a GF_REDUCTION] gf_terms_last [of 5 a GF_REDUCTION]
      by (simp add: bits)
    also have "\<dots> = a XOR (gf_double ^^ 2) a XOR (gf_double ^^ 3) a XOR (gf_double ^^ 4) a"
      using gf_terms_last [of 4 a GF_REDUCTION] gf_terms_last [of 3 a GF_REDUCTION] gf_terms_last [of 2 a GF_REDUCTION]
      by (simp add: bits two xor.assoc)
    finally show ?thesis by simp
  qed
  then show ?thesis by (simp add: gf_double_pow8)
qed

lemma gf_mul_double_right: "gf_mul a (gf_double b) = gf_double (gf_mul a b)"
proof -
  have shift: "gf_terms 8 a (push_bit 1 b) = gf_terms 7 (gf_double a) b"
  proof -
    have "\<not> bit (push_bit 1 b) 0" by (simp only: bit_push_bit_iff) simp
    then have "gf_terms (Suc 7) a (push_bit 1 b) = gf_terms 7 (gf_double a) (drop_bit 1 (push_bit 1 b))"
      by (simp only: gf_terms.simps(2) if_False xor.left_neutral)
    also have "\<dots> = gf_terms 7 (gf_double a) b"
      by (rule gf_terms_cong) (simp only: bit_drop_bit_eq bit_push_bit_iff comp_def, simp)
    finally show ?thesis by simp
  qed
  have last: "gf_terms 8 (gf_double a) b = gf_terms 7 (gf_double a) b XOR (if bit b 7 then (gf_double ^^ 8) a else 0)"
  proof -
    have "(gf_double ^^ 8) a = (gf_double ^^ 7) (gf_double a)"
      using funpow_Suc_right [of 7 gf_double] by simp
    then show ?thesis using gf_terms_last [of 7 "gf_double a" b] by simp
  qed
  have zero: "gf_terms n a 0 = 0" for n by (induction n arbitrary: a) simp_all
  have "gf_terms 8 a (gf_double b) = gf_terms 7 (gf_double a) b XOR (if bit b 7 then (gf_double ^^ 8) a else 0)"
    unfolding gf_double_bit [of b] gf_terms_right shift by (simp add: gf_terms_reduction zero)
  also have "\<dots> = gf_double (gf_terms 8 a b)" unfolding last [symmetric] by (rule gf_terms_double)
  finally show ?thesis by (simp add: gf_mul_terms)
qed

section \<open>The field\<close>

lemma gf_mul_xor: "gf_mul (a XOR b) c = gf_mul a c XOR gf_mul b c" "gf_mul a (b XOR c) = gf_mul a b XOR gf_mul a c"
  by (simp_all add: gf_mul_terms gf_terms_left gf_terms_right)

lemma gf_mul_double_left: "gf_mul (gf_double a) b = gf_double (gf_mul a b)"
  by (simp add: gf_mul_terms gf_terms_double)

lemma gf_mul_0 [simp]: "gf_mul 0 a = 0" "gf_mul a 0 = 0"
  using gf_mul_xor(1) [of a a] gf_mul_xor(2) [of _ a a] by (metis gf_mul_xor(1) xor_self_eq)+

lemma gf_mul_1_right [simp]: "gf_mul a 1 = a"
proof -
  have "gf_terms (Suc n) a 1 = a" for n
    by (induction n) (simp_all only: gf_terms_last gf_terms.simps, simp_all add: bit_1_iff)
  from this [of 7] show ?thesis by (simp add: gf_mul_terms)
qed

lemma gf_mul_1_left [simp]: "gf_mul 1 a = a"
proof (rule additive_basis [where g = "\<lambda>a. a"])
  show "additive (gf_mul 1)" "additive (\<lambda>a. a)" by (simp_all add: additive_def gf_mul_xor)
  have double: "gf_mul 1 (gf_double b) = gf_double b" if "gf_mul 1 b = b" for b
    using that by (simp add: gf_mul_double_right)
  have 1: "gf_mul 1 1 = 1" by simp
  have 2: "gf_mul 1 2 = 2" by (rule double [OF 1, unfolded gf_double_values])
  have 4: "gf_mul 1 4 = 4" by (rule double [OF 2, unfolded gf_double_values])
  have 8: "gf_mul 1 8 = 8" by (rule double [OF 4, unfolded gf_double_values])
  have 16: "gf_mul 1 0x10 = 0x10" by (rule double [OF 8, unfolded gf_double_values])
  have 32: "gf_mul 1 0x20 = 0x20" by (rule double [OF 16, unfolded gf_double_values])
  have 64: "gf_mul 1 0x40 = 0x40" by (rule double [OF 32, unfolded gf_double_values])
  have "gf_mul 1 0x80 = 0x80" by (rule double [OF 64, unfolded gf_double_values])
  with 1 2 4 8 16 32 64 show "\<forall>b \<in> {1 :: u8, 2, 4, 8, 0x10, 0x20, 0x40, 0x80}. gf_mul 1 b = b" by simp
qed

text \<open>Every byte is reached from 1 by doubling and adding.\<close>

lemma byte_induct [case_names zero one double add]:
  assumes "P 0" and "P 1" and "\<And>a. P a \<Longrightarrow> P (gf_double a)" and "\<And>a b. P a \<Longrightarrow> P b \<Longrightarrow> P (a XOR b)"
  shows "P (a :: u8)"
proof -
  have "P (gf_terms n b c)" if "P b" for n b c
    using that assms by (induction n arbitrary: b c) auto
  from this [OF assms(2), of 8 a] show ?thesis by (simp flip: gf_mul_terms)
qed

lemma gf_mul_commute: "gf_mul a b = gf_mul b a"
  by (induction b rule: byte_induct) (simp_all add: gf_mul_xor gf_mul_double_left gf_mul_double_right)

lemma gf_mul_assoc: "gf_mul (gf_mul a b) c = gf_mul a (gf_mul b c)"
  by (induction c rule: byte_induct) (simp_all add: gf_mul_xor gf_mul_double_right)

interpretation gf: comm_monoid gf_mul "1 :: u8"
  by unfold_locales (rule gf_mul_assoc, rule gf_mul_commute, simp)

lemma gf_double_eq: "gf_double a = gf_mul a 2"
  using gf_mul_double_right [of a 1] by (simp add: gf_double_values)

section \<open>Powers, inverses and coefficients\<close>

definition gf_power :: "u8 \<Rightarrow> nat \<Rightarrow> u8" where
  "gf_power a n = (gf_mul a ^^ n) 1"

lemma gf_power_simps [simp]: "gf_power a 0 = 1" "gf_power a (Suc n) = gf_mul a (gf_power a n)"
  by (simp_all add: gf_power_def)

lemma gf_power_add: "gf_power a (m + n) = gf_mul (gf_power a m) (gf_power a n)"
  by (induction m) (simp_all add: gf.assoc)

lemma gf_power_mult: "gf_power (gf_power a m) n = gf_power a (m * n)"
  by (induction n) (simp_all add: gf_power_add)

lemma gf_power_mul: "gf_power (gf_mul a b) n = gf_mul (gf_power a n) (gf_power b n)"
  by (induction n) (simp_all add: gf.assoc gf.left_commute)

lemma gf_pow_loop_power: "gf_pow_loop result base exponent = gf_mul result (gf_power base (unat exponent))"
proof (induction result base exponent rule: gf_pow_loop.induct)
  case (1 result base exponent)
  show ?case
  proof (cases "exponent = 0")
    case True
    then show ?thesis by (simp add: gf_pow_loop.simps)
  next
    case False
    let ?half = "unat (drop_bit 1 exponent)"
    have half: "?half = unat exponent div 2" unfolding unat_drop_bit_eq by (simp add: drop_bit_eq_div)
    have odd: "exponent AND 1 \<noteq> 0 \<longleftrightarrow> odd (unat exponent)"
      by (simp only: and_1_bit flip: bit_0) (simp add: bit_unsigned_iff)
    have square: "gf_power (gf_mul base base) k = gf_power base (2 * k)" for k
      by (simp add: gf_power_mul mult_2 gf_power_add)
    have "unat exponent = (if odd (unat exponent) then Suc (2 * ?half) else 2 * ?half)"
      unfolding half by simp
    then have "gf_power base (unat exponent) =
        (if odd (unat exponent) then gf_mul base (gf_power (gf_mul base base) ?half) else gf_power (gf_mul base base) ?half)"
      by (metis square gf_power_simps(2))
    then show ?thesis
      using False 1 [OF False] by (simp add: gf_pow_loop.simps [of result] odd gf.assoc del: One_nat_def)
  qed
qed

lemma gf_pow_power: "gf_pow base exponent = gf_power base (unat exponent)"
  by (simp add: gf_pow_def gf_pow_loop_power)

lemma global_coefficient_power: "global_coefficient n = gf_power 2 n"
  by (induction n) (simp_all add: gf_mul_commute [of _ 2])

text \<open>Squaring is additive, and the only idempotents are 0 and 1.\<close>

lemma gf_square_xor: "gf_mul (a XOR b) (a XOR b) = gf_mul a a XOR gf_mul b b"
  by (simp add: gf_mul_xor gf_mul_commute [of b a] xor.assoc xor.left_commute)

lemma gf_mul_2: "gf_mul 2 a = gf_double a" "gf_mul a 2 = gf_double a"
  by (simp_all add: gf_double_eq gf_mul_commute)

lemma gf_square_bits:
  "gf_mul e e =
      (if bit e 0 then 1 else 0) XOR
      (if bit e 1 then 4 else 0) XOR
      (if bit e 2 then 0x10 else 0) XOR
      (if bit e 3 then 0x40 else 0) XOR
      (if bit e 4 then 0x1d else 0) XOR
      (if bit e 5 then 0x74 else 0) XOR
      (if bit e 6 then 0xcd else 0) XOR
      (if bit e 7 then 0x13 else 0)"
proof -
  have sq: "gf_mul (gf_double a) (gf_double a) = gf_double (gf_double (gf_mul a a))" for a
    by (simp add: gf_mul_double_left gf_mul_double_right)
  have 2: "gf_mul 2 2 = 4" by (simp add: gf_mul_2 gf_double_values)
  have 4: "gf_mul 4 4 = 0x10" using sq [of 2] by (simp add: 2 gf_double_values)
  have 8: "gf_mul 8 8 = 0x40" using sq [of 4] by (simp add: 4 gf_double_values)
  have 16: "gf_mul 0x10 0x10 = 0x1d" using sq [of 8] by (simp add: 8 gf_double_values)
  have 32: "gf_mul 0x20 0x20 = 0x74" using sq [of "0x10"] by (simp add: 16 gf_double_values)
  have 64: "gf_mul 0x40 0x40 = 0xcd" using sq [of "0x20"] by (simp add: 32 gf_double_values)
  have 128: "gf_mul 0x80 0x80 = 0x13" using sq [of "0x40"] by (simp add: 64 gf_double_values)
  have "(\<lambda>a. gf_mul a a) e = (\<lambda>a. gf_mul a a) ((if bit e 0 then 1 else 0) XOR (if bit e 1 then 2 else 0) XOR
     (if bit e 2 then 4 else 0) XOR (if bit e 3 then 8 else 0) XOR (if bit e 4 then 0x10 else 0) XOR
     (if bit e 5 then 0x20 else 0) XOR (if bit e 6 then 0x40 else 0) XOR (if bit e 7 then 0x80 else 0))"
    by (rule arg_cong [OF byte_bits])
  then show ?thesis by (simp only: gf_square_xor) (simp add: 2 4 8 16 32 64 128)
qed

lemma gf_idempotent: "gf_mul e e = e \<Longrightarrow> e = 0 \<or> e = 1"
proof -
  assume "gf_mul e e = e"
  then have eq: "bit e k = bit (gf_mul e e) k" for k by simp
  have "\<not> bit e 1 \<and> \<not> bit e 2 \<and> \<not> bit e 3 \<and> \<not> bit e 4 \<and> \<not> bit e 5 \<and> \<not> bit e 6 \<and> \<not> bit e 7"
    using eq [of 0] eq [of 1] eq [of 2] eq [of 3] eq [of 4] eq [of 5] eq [of 6] eq [of 7]
    unfolding gf_square_bits by (simp add: bit_xor_iff split: if_splits) 
  then show ?thesis using byte_bits [of e] by (cases "bit e 0") simp_all
qed

lemma gf_power_double: "gf_power a (2 * n) = gf_power (gf_mul a a) n"
  by (simp add: gf_power_mul mult_2 gf_power_add)

text \<open>Raising to the power 256 is additive and multiplicative and fixes 2, so it is the identity.\<close>

definition gf_square :: "u8 \<Rightarrow> u8" where
  "gf_square a = gf_mul a a"

lemma gf_power_256: "gf_power a 256 = (gf_square ^^ 8) a"
proof -
  have "gf_power a (2 ^ n) = (gf_square ^^ n) a" for n
    by (induction n arbitrary: a) (simp_all add: gf_power_double gf_square_def funpow_swap1)
  from this [of 8] show ?thesis by simp
qed

lemma gf_square_pow_mul: "(gf_square ^^ n) (gf_mul a b) = gf_mul ((gf_square ^^ n) a) ((gf_square ^^ n) b)"
  by (induction n) (simp_all add: gf_square_def gf.assoc gf.left_commute)

lemma gf_square_pow_2: "(gf_square ^^ 8) 2 = 2"
proof -
  have "gf_square 2 = 4" "gf_square 4 = 0x10" "gf_square 0x10 = 0x1d" "gf_square 0x1d = 0x4c"
    "gf_square 0x4c = 0x9d" "gf_square 0x9d = 0x5f" "gf_square 0x5f = 0x85" "gf_square 0x85 = 2"
    by (simp_all add: gf_square_def gf_square_bits)
  then show ?thesis by (simp add: compow_literal)
qed

lemma gf_power_256_id: "gf_power a 256 = a"
proof (induction a rule: byte_induct)
  case zero
  have "gf_power 0 (Suc 255) = 0" by (simp only: gf_power_simps gf_mul_0)
  then show ?case by simp
next
  case one
  have "gf_power 1 n = 1" for n by (induction n) simp_all
  then show ?case .
next
  case (double a)
  then show ?case by (simp add: gf_power_256 gf_double_eq gf_square_pow_mul gf_square_pow_2)
next
  case (add a b)
  have "additive (gf_square ^^ 8)"
    by (rule additive_compow) (simp add: additive_def gf_square_def gf_square_xor)
  with add show ?case by (simp add: gf_power_256 additive_def)
qed

definition gf_inverse :: "u8 \<Rightarrow> u8" where
  "gf_inverse a = gf_pow a 254"

lemma gf_inverse [simp]: "a \<noteq> 0 \<Longrightarrow> gf_mul a (gf_inverse a) = 1"
proof -
  assume "a \<noteq> 0"
  let ?e = "gf_power a 255"
  have e: "gf_mul a ?e = a" using gf_power_256_id [of a] gf_power_simps(2) [of a 255] by simp
  have step: "?e = gf_mul (gf_power a 254) a"
    using gf_power_simps(2) [of a 254] by (simp add: gf_mul_commute)
  then have "gf_mul ?e ?e = gf_mul (gf_power a 254) (gf_mul a ?e)" by (metis gf.assoc)
  also have "\<dots> = ?e" by (simp only: e flip: step)
  finally have "?e = 0 \<or> ?e = 1" by (rule gf_idempotent)
  moreover have "?e \<noteq> 0" using e \<open>a \<noteq> 0\<close> by auto
  ultimately show ?thesis using gf_power_simps(2) [of a 254] by (simp add: gf_inverse_def gf_pow_power)
qed

lemma gf_mul_cancel: "a \<noteq> 0 \<Longrightarrow> gf_mul a b = gf_mul a c \<longleftrightarrow> b = c"
  by (metis gf.assoc gf_inverse gf_mul_1_left gf_mul_commute)

lemma gf_mul_eq_0 [simp]: "gf_mul a b = 0 \<longleftrightarrow> a = 0 \<or> b = 0"
  by (metis gf_mul_0 gf_mul_cancel)

lemma gf_div_eq: "d \<noteq> 0 \<Longrightarrow> gf_div n d = Inr (gf_mul n (gf_inverse d))"
  by (simp add: gf_div_def gf_inverse_def)

lemma gf_div_mul: "d \<noteq> 0 \<Longrightarrow> gf_div (gf_mul d n) d = Inr n"
proof -
  assume "d \<noteq> 0"
  moreover have "gf_mul (gf_mul d n) (gf_inverse d) = gf_mul n (gf_mul d (gf_inverse d))"
    by (metis gf.assoc gf_mul_commute)
  ultimately show ?thesis by (simp add: gf_div_eq)
qed

lemma global_coefficient_nz [simp]: "global_coefficient n \<noteq> 0"
  by (induction n) simp_all

lemma gf_power_numeral: "gf_power a (numeral k) = gf_mul a (gf_power a (pred_numeral k))"
  by (simp add: numeral_eq_Suc)

lemma gf_power_2_not_1: "0 < n \<Longrightarrow> n < 40 \<Longrightarrow> gf_power 2 n \<noteq> 1"
proof -
  assume "0 < n" "n < 40"
  then have "n = 1 \<or> n \<in> set [2..<40]" unfolding set_upt atLeastLessThan_iff by presburger
  moreover have "list_all (\<lambda>n. gf_power 2 n \<noteq> 1) [2..<40]"
    by (simp add: upt_rec_numeral gf_power_numeral gf_mul_2 gf_double_values)
  ultimately show ?thesis by (auto simp only: list_all_iff) simp
qed

text \<open>The coefficients of the forty shards of a block, the largest the experiments use, are distinct.\<close>

lemma global_coefficient_inj:
  assumes "i < 40" and "j < 40" and "global_coefficient i = global_coefficient j"
  shows "i = j"
proof -
  have less: False if "i < j" "j < 40" "gf_power 2 i = gf_power 2 j" for i j
  proof -
    have "gf_mul (gf_power 2 i) (gf_power 2 (j - i)) = gf_mul (gf_power 2 i) 1"
      using that(3) gf_power_add [of 2 i "j - i"] le_add_diff_inverse [OF less_imp_le [OF that(1)]]
      by simp
    moreover have "gf_power 2 i \<noteq> 0" using global_coefficient_nz [of i] by (simp add: global_coefficient_power)
    ultimately have "gf_power 2 (j - i) = 1" using gf_mul_cancel by blast
    then show False using gf_power_2_not_1 [of "j - i"] that by simp
  qed
  show ?thesis using assms less [of i j] less [of j i] by (metis global_coefficient_power linorder_neqE_nat)
qed

end
