(* ===== verification/Fec_Gf.thy ===== *)
theory Fec_Gf
  imports Fec_Field
begin

unbundle bit_operations_syntax

text \<open>
  The bytes of the erasure code as a type of their own, with the routines of \<open>Fec_Field\<close> as the
  operations of the class \<open>field\<close>.  The sums over the symbols of a block, the elimination of a
  matrix and the solvability of the parity equations are reasoned about in this type; \<open>Gf\<close> carries
  a byte of the program into it.
\<close>

typedef gf = "UNIV :: u8 set"
  morphisms gf_byte Gf
  by simp

setup_lifting type_definition_gf

instantiation gf :: field
begin

lift_definition zero_gf :: gf is "0 :: u8" .

lift_definition one_gf :: gf is "1 :: u8" .

lift_definition plus_gf :: "gf \<Rightarrow> gf \<Rightarrow> gf" is "(XOR)" .

lift_definition minus_gf :: "gf \<Rightarrow> gf \<Rightarrow> gf" is "(XOR)" .

lift_definition uminus_gf :: "gf \<Rightarrow> gf" is "\<lambda>a. a" .

lift_definition times_gf :: "gf \<Rightarrow> gf \<Rightarrow> gf" is gf_mul .

lift_definition inverse_gf :: "gf \<Rightarrow> gf" is gf_inverse .

lift_definition divide_gf :: "gf \<Rightarrow> gf \<Rightarrow> gf" is "\<lambda>a b. gf_mul a (gf_inverse b)" .

instance
proof
  fix a b c :: gf
  show "a * b * c = a * (b * c)" by transfer (rule gf.assoc)
  show "a * b = b * a" by transfer (rule gf_mul_commute)
  show "1 * a = a" by transfer simp
  show "a + b + c = a + (b + c)" by transfer (rule xor.assoc)
  show "a + b = b + a" by transfer (rule xor.commute)
  show "0 + a = a" by transfer simp
  show "- a + a = 0" by transfer simp
  show "a - b = a + - b" by transfer simp
  show "(a + b) * c = a * c + b * c" by transfer (metis gf_mul_xor gf_mul_commute)
  show "(0 :: gf) \<noteq> 1" by transfer simp
  show "a \<noteq> 0 \<Longrightarrow> inverse a * a = 1" by transfer (metis gf_inverse gf_mul_commute)
  show "a div b = a * inverse b" by transfer simp
  show "inverse (0 :: gf) = 0" by transfer (simp add: gf_inverse_def gf_pow_power gf_power_numeral)
qed

end

lemma gf_characteristic [simp]: "a + a = (0 :: gf)" "a - b = a + (b :: gf)" "- a = (a :: gf)"
  by (transfer, simp)+

lemma Gf_simps:
  "Gf 0 = 0" "Gf 1 = 1" "Gf (a XOR b) = Gf a + Gf b" "Gf (gf_mul a b) = Gf a * Gf b"
  "Gf (gf_inverse a) = inverse (Gf a)"
  by (simp_all add: zero_gf_def one_gf_def plus_gf.abs_eq times_gf.abs_eq inverse_gf.abs_eq)

lemma Gf_eq: "Gf a = Gf b \<longleftrightarrow> a = b"
  by (simp add: Gf_inject)

lemma Gf_eq_0: "Gf a = 0 \<longleftrightarrow> a = 0"
  by (simp add: Gf_eq flip: Gf_simps(1))

lemma Gf_power: "Gf (gf_power a n) = Gf a ^ n"
  by (induction n) (simp_all add: Gf_simps)

lemma Gf_pow: "Gf (gf_pow a e) = Gf a ^ unat e"
  by (simp add: gf_pow_power Gf_power)

lemma gf_cancel [simp]: "a + (a + b) = (b :: gf)" "(2 :: gf) = 0"
  by (simp_all flip: add.assoc) (metis gf_characteristic(1) one_add_one)

lemma gf_add_eq_0: "a + b = 0 \<longleftrightarrow> a = b" for a b :: gf
  by (metis gf_characteristic(3) eq_neg_iff_add_eq_0)

text \<open>What is left of a sum when all terms but one or two are added once more.\<close>

lemma gf_sum_except:
  fixes f :: "nat \<Rightarrow> gf"
  assumes "m < k"
  shows "(\<Sum>i<k. f i) + (\<Sum>i<k. if i = m then 0 else f i) = f m"
proof -
  have "(\<Sum>i<k. f i) + (\<Sum>i<k. if i = m then 0 else f i) = (\<Sum>i<k. if i = m then f i else 0)"
    unfolding sum.distrib [symmetric] by (intro sum.cong) auto
  then show ?thesis using assms by simp
qed

lemma gf_sum_except2:
  fixes f :: "nat \<Rightarrow> gf"
  assumes "m < k" and "n < k" and "m \<noteq> n"
  shows "(\<Sum>i<k. f i) + (\<Sum>i<k. if i = m \<or> i = n then 0 else f i) = f m + f n"
proof -
  have "(\<Sum>i<k. f i) + (\<Sum>i<k. if i = m \<or> i = n then 0 else f i) =
      (\<Sum>i<k. (if i = m then f i else 0) + (if i = n then f i else 0))"
    unfolding sum.distrib [symmetric] using assms(3) by (intro sum.cong) auto
  then show ?thesis using assms by (simp add: sum.distrib)
qed

end
