(* ===== verification/Fec_Code.thy ===== *)
theory Fec_Code
  imports Fec_Gf
begin

unbundle bit_operations_syntax

text \<open>
  The symbols of the erasure code of the realtime experiments (\<open>realtime_v3.rs\<close>): the payloads, their
  exclusive or, the global parities of a block of ten messages and the solution for one or two missing
  payloads.  Payloads are fixed-size byte lists; the loops over their bytes touch every index once and
  are maps over the indices.
\<close>

section \<open>Payloads\<close>

type_synonym V3Payload = bytes

definition V3_LOGICAL_MESSAGE_SIZE :: usize where
  "V3_LOGICAL_MESSAGE_SIZE = 200"

definition V3_BLOCK_MESSAGES :: usize where
  "V3_BLOCK_MESSAGES = 10"

definition V3_PAIR_PARITIES :: usize where
  "V3_PAIR_PARITIES = V3_BLOCK_MESSAGES div 2"

definition V3_GLOBAL_PARITIES :: usize where
  "V3_GLOBAL_PARITIES = 2"

text \<open>The three shifts of the generator that fills a payload.\<close>

definition v3_shift :: "u32 \<Rightarrow> u32" where
  "v3_shift state =
     (let state = state XOR push_bit 13 state;
          state = state XOR drop_bit 17 state
      in state XOR push_bit 5 state)"

primrec v3_payload_loop :: "u32 \<Rightarrow> usize list \<Rightarrow> u32 \<Rightarrow> bytes" where
  "v3_payload_loop sequence [] state = []"
| "v3_payload_loop sequence (index # rest) state =
     (let state = v3_shift state in
      (ucast state + word_rotl (unat (sequence mod 7) + 1) (of_nat index) + ucast (drop_bit (index mod 4 * 8) sequence))
        # v3_payload_loop sequence rest state)"

definition make_v3_payload :: "u32 \<Rightarrow> V3Payload" where
  "make_v3_payload sequence =
     v3_payload_loop sequence [0..<V3_LOGICAL_MESSAGE_SIZE] (sequence * 0x85ebca6b + 0xc2b2ae35)"

text \<open>The callers check that the sequence numbers of the block stay below \<open>2 ^ 32\<close>.\<close>

definition make_v3_block_payloads :: "u32 \<Rightarrow> V3Payload list" where
  "make_v3_block_payloads first_sequence =
     map (\<lambda>index. make_v3_payload (first_sequence + of_nat index)) [0..<V3_BLOCK_MESSAGES]"

definition xor_payloads :: "V3Payload \<Rightarrow> V3Payload \<Rightarrow> V3Payload" where
  "xor_payloads left right = map (\<lambda>index. left ! index XOR right ! index) [0..<V3_LOGICAL_MESSAGE_SIZE]"

section \<open>Global parities\<close>

text \<open>The inner loop over the bytes, which adds a payload to an accumulator with a coefficient.\<close>

definition add_payload :: "usize \<Rightarrow> bytes \<Rightarrow> bytes \<Rightarrow> bytes" where
  "add_payload len acc payload = map (\<lambda>byte_index. acc ! byte_index XOR payload ! byte_index) [0..<len]"

definition add_scaled :: "usize \<Rightarrow> u8 \<Rightarrow> bytes \<Rightarrow> bytes \<Rightarrow> bytes" where
  "add_scaled len coefficient acc payload =
     map (\<lambda>byte_index. acc ! byte_index XOR gf_mul coefficient (payload ! byte_index)) [0..<len]"

definition make_global_parities :: "V3Payload list \<Rightarrow> V3Payload \<times> V3Payload" where
  "make_global_parities payloads =
     fold (\<lambda>(index, payload) (zero, one).
         let coefficient = global_coefficient index in
         (add_payload V3_LOGICAL_MESSAGE_SIZE zero payload, add_scaled V3_LOGICAL_MESSAGE_SIZE coefficient one payload))
       (enumerate 0 payloads) (replicate V3_LOGICAL_MESSAGE_SIZE 0, replicate V3_LOGICAL_MESSAGE_SIZE 0)"

text \<open>A loop that stops at the first error, as \<open>?\<close> in its body does.\<close>

primrec try_map :: "('a \<Rightarrow> 'e + 'b) \<Rightarrow> 'a list \<Rightarrow> 'e + 'b list" where
  "try_map f [] = Inr []"
| "try_map f (x # xs) = try_then (f x) (\<lambda>y. try_then (try_map f xs) (\<lambda>ys. Inr (y # ys)))"

definition recover_two_missing :: "V3Payload \<Rightarrow> V3Payload \<Rightarrow> usize \<Rightarrow> usize \<Rightarrow> unit + V3Payload \<times> V3Payload" where
  "recover_two_missing zero_residual one_residual first_index second_index =
     (if first_index \<ge> V3_BLOCK_MESSAGES \<or> second_index \<ge> V3_BLOCK_MESSAGES \<or> first_index = second_index
      then Inl ()
      else
        let first_coefficient = global_coefficient first_index;
            second_coefficient = global_coefficient second_index;
            denominator = first_coefficient XOR second_coefficient
        in try_then
             (try_map (\<lambda>byte_index.
                gf_div (one_residual ! byte_index XOR gf_mul second_coefficient (zero_residual ! byte_index)) denominator)
              [0..<V3_LOGICAL_MESSAGE_SIZE])
             (\<lambda>first. Inr (first, add_payload V3_LOGICAL_MESSAGE_SIZE zero_residual first)))"

text \<open>The indices of an array of optional symbols that hold nothing, or something, in ascending order.\<close>

definition missing_slots :: "'a option list \<Rightarrow> usize list" where
  "missing_slots symbols = map fst (filter (\<lambda>(index, symbol). symbol = None) (enumerate 0 symbols))"

definition present_slots :: "'a option list \<Rightarrow> usize list" where
  "present_slots symbols = map fst (filter (\<lambda>(index, symbol). symbol \<noteq> None) (enumerate 0 symbols))"

section \<open>Lengths and bytes\<close>

lemma length_v3_payload_loop [simp]: "length (v3_payload_loop sequence is state) = length is"
  by (induction "is" arbitrary: state) (simp_all add: Let_def)

lemma length_make_v3_payload [simp]: "length (make_v3_payload sequence) = V3_LOGICAL_MESSAGE_SIZE"
  by (simp add: make_v3_payload_def)

lemma length_xor_payloads [simp]: "length (xor_payloads p q) = V3_LOGICAL_MESSAGE_SIZE"
  by (simp add: xor_payloads_def)

lemma xor_payloads_add: "xor_payloads = add_payload V3_LOGICAL_MESSAGE_SIZE"
  by (simp add: xor_payloads_def add_payload_def fun_eq_iff)

lemma length_add [simp]: "length (add_payload n acc p) = n" "length (add_scaled n c acc p) = n"
  by (simp_all add: add_payload_def add_scaled_def)

lemma add_byte:
  "b < n \<Longrightarrow> Gf (add_payload n acc p ! b) = Gf (acc ! b) + Gf (p ! b)"
  "b < n \<Longrightarrow> Gf (add_scaled n c acc p ! b) = Gf (acc ! b) + Gf c * Gf (p ! b)"
  by (simp_all add: add_payload_def add_scaled_def Gf_simps)

lemma payload_eqI:
  assumes "length p = n" and "length q = n" and "\<And>b. b < n \<Longrightarrow> Gf (p ! b) = Gf (q ! b)"
  shows "p = q"
  using assms by (intro nth_equalityI) (simp_all add: Gf_eq)

lemma length_make_v3_block_payloads [simp]: "length (make_v3_block_payloads first) = V3_BLOCK_MESSAGES"
  by (simp add: make_v3_block_payloads_def)

lemma nth_make_v3_block_payloads:
  "i < V3_BLOCK_MESSAGES \<Longrightarrow> make_v3_block_payloads (of_nat first) ! i = make_v3_payload (of_nat (first + i))"
  by (simp add: make_v3_block_payloads_def)

lemma xor_payloads_cancel:
  assumes "length p = V3_LOGICAL_MESSAGE_SIZE" and "length q = V3_LOGICAL_MESSAGE_SIZE"
  shows "xor_payloads (xor_payloads p q) p = q" and "xor_payloads (xor_payloads p q) q = p"
  using assms by (auto simp: xor_payloads_add add_byte add_ac intro!: payload_eqI)

text \<open>The global parities are the sums of the payloads, plain and with the coefficients of the slots.\<close>

lemma make_global_parities_sum:
  fixes payloads
  defines "parities \<equiv> make_global_parities payloads"
  shows "length (fst parities) = V3_LOGICAL_MESSAGE_SIZE" "length (snd parities) = V3_LOGICAL_MESSAGE_SIZE"
    and "b < V3_LOGICAL_MESSAGE_SIZE \<Longrightarrow> Gf (fst parities ! b) = (\<Sum>i<length payloads. Gf (payloads ! i ! b))"
    and "b < V3_LOGICAL_MESSAGE_SIZE \<Longrightarrow>
      Gf (snd parities ! b) = (\<Sum>i<length payloads. Gf (global_coefficient i) * Gf (payloads ! i ! b))"
proof -
  have snoc: "make_global_parities (ps @ [p]) =
      (add_payload V3_LOGICAL_MESSAGE_SIZE (fst (make_global_parities ps)) p,
       add_scaled V3_LOGICAL_MESSAGE_SIZE (global_coefficient (length ps)) (snd (make_global_parities ps)) p)" for ps p
    by (simp add: make_global_parities_def enumerate_append_eq case_prod_unfold Let_def)
  show "length (fst parities) = V3_LOGICAL_MESSAGE_SIZE" "length (snd parities) = V3_LOGICAL_MESSAGE_SIZE"
    unfolding parities_def by (induction payloads rule: rev_induct) (simp_all add: snoc, simp_all add: make_global_parities_def)
  assume b: "b < V3_LOGICAL_MESSAGE_SIZE"
  show "Gf (fst parities ! b) = (\<Sum>i<length payloads. Gf (payloads ! i ! b))"
    unfolding parities_def using b
    by (induction payloads rule: rev_induct) (simp_all add: snoc add_byte nth_append, simp add: make_global_parities_def Gf_simps)
  show "Gf (snd parities ! b) = (\<Sum>i<length payloads. Gf (global_coefficient i) * Gf (payloads ! i ! b))"
    unfolding parities_def using b
    by (induction payloads rule: rev_induct) (simp_all add: snoc add_byte nth_append, simp add: make_global_parities_def Gf_simps)
qed

lemma try_map_Inr: "(\<And>x. x \<in> set xs \<Longrightarrow> f x = Inr (g x)) \<Longrightarrow> try_map f xs = Inr (map g xs)"
  by (induction xs) simp_all

lemma recover_two_missing_correct:
  assumes i: "i < V3_BLOCK_MESSAGES" and j: "j < V3_BLOCK_MESSAGES" and "i \<noteq> j"
    and p: "length p = V3_LOGICAL_MESSAGE_SIZE" and q: "length q = V3_LOGICAL_MESSAGE_SIZE"
    and zero: "\<And>b. b < V3_LOGICAL_MESSAGE_SIZE \<Longrightarrow> Gf (zero ! b) = Gf (p ! b) + Gf (q ! b)"
    and one: "\<And>b. b < V3_LOGICAL_MESSAGE_SIZE \<Longrightarrow>
      Gf (one ! b) = Gf (global_coefficient i) * Gf (p ! b) + Gf (global_coefficient j) * Gf (q ! b)"
  shows "recover_two_missing zero one i j = Inr (p, q)"
proof -
  let ?x = "global_coefficient i" and ?y = "global_coefficient j"
  have "?x \<noteq> ?y" using global_coefficient_inj [of i j] i j \<open>i \<noteq> j\<close> by (auto simp: V3_BLOCK_MESSAGES_def)
  then have nz: "?x XOR ?y \<noteq> 0" by (simp add: Gf_simps gf_add_eq_0 Gf_eq flip: Gf_eq_0)
  have "gf_div (one ! b XOR gf_mul ?y (zero ! b)) (?x XOR ?y) = Inr (p ! b)" if "b < V3_LOGICAL_MESSAGE_SIZE" for b
  proof -
    have "Gf (one ! b XOR gf_mul ?y (zero ! b)) = Gf (gf_mul (?x XOR ?y) (p ! b))"
      using zero [OF that] one [OF that] by (simp add: Gf_simps algebra_simps)
    then show ?thesis using nz by (simp add: Gf_eq gf_div_mul)
  qed
  then have first: "try_map (\<lambda>b. gf_div (one ! b XOR gf_mul ?y (zero ! b)) (?x XOR ?y)) [0..<V3_LOGICAL_MESSAGE_SIZE] = Inr p"
    using p map_nth [of p] by (subst try_map_Inr [where g = "\<lambda>b. p ! b"]) simp_all
  have "add_payload V3_LOGICAL_MESSAGE_SIZE zero p = q"
    using q zero by (intro payload_eqI [of _ V3_LOGICAL_MESSAGE_SIZE]) (simp_all add: add_byte add_ac)
  then show ?thesis using i j \<open>i \<noteq> j\<close> by (simp add: recover_two_missing_def Let_def first)
qed

lemma missing_slots_filter: "missing_slots xs = filter (\<lambda>i. xs ! i = None) [0..<length xs]"
proof -
  have "missing_slots xs = filter (\<lambda>i. xs ! i = None) (map fst (enumerate 0 xs))"
    unfolding missing_slots_def filter_map
    by (intro arg_cong [where f = "map fst"] filter_cong) (auto simp: in_set_enumerate_eq)
  then show ?thesis by simp
qed

lemma set_missing_slots [simp]: "set (missing_slots xs) = {i. i < length xs \<and> xs ! i = None}"
  by (auto simp: missing_slots_filter)

lemma distinct_missing_slots [simp]: "distinct (missing_slots xs)"
  by (simp add: missing_slots_filter)

lemma present_slots_filter: "present_slots xs = filter (\<lambda>i. xs ! i \<noteq> None) [0..<length xs]"
proof -
  have "present_slots xs = filter (\<lambda>i. xs ! i \<noteq> None) (map fst (enumerate 0 xs))"
    unfolding present_slots_def filter_map
    by (intro arg_cong [where f = "map fst"] filter_cong) (auto simp: in_set_enumerate_eq)
  then show ?thesis by simp
qed

lemma length_missing_slots: "length (missing_slots xs) = card {i. i < length xs \<and> xs ! i = None}"
  by (metis distinct_card distinct_missing_slots set_missing_slots)

lemma missing_slots_update:
  "i < length xs \<Longrightarrow> xs ! i = None \<Longrightarrow> length (missing_slots (xs[i := Some s])) < length (missing_slots xs)"
  unfolding length_missing_slots by (intro psubset_card_mono) (auto simp: nth_list_update split: if_splits)

text \<open>The other slot of a pair.\<close>

definition partner :: "usize \<Rightarrow> usize" where
  "partner i = (if even i then i + 1 else i - 1)"

lemma partner_pair: "{i div 2 * 2, i div 2 * 2 + 1} = {i, partner i}"
  by (auto simp: partner_def elim!: evenE oddE)

section \<open>Saturating counters\<close>

text \<open>The increment of every counter of the measurements, and its laws.\<close>

definition inc :: "usize \<Rightarrow> usize" where
  "inc n = sat_add_usize n 1"

lemma inc_Suc: "n < usize_max \<Longrightarrow> inc n = Suc n"
  by (simp add: inc_def sat_add_usize_def)

lemma sat_add_inc:
  "sat_add_usize (inc a) b = inc (sat_add_usize a b)" "sat_add_usize a (inc b) = inc (sat_add_usize a b)"
  by (simp_all add: inc_def sat_add_usize_def min_def)

lemma sat_add_usize_0 [simp]: "a \<le> usize_max \<Longrightarrow> sat_add_usize a 0 = a"
  by (simp add: sat_add_usize_def)

end
