(* ===== verification/Fec_V4.thy ===== *)
theory Fec_V4
  imports Fec_Code
begin

unbundle bit_operations_syntax

text \<open>
  The receiver of the pair and global code (\<open>recover_v4_block\<close> of \<open>realtime_v3.rs\<close>): the state of a
  block of ten messages and its recovery, which alternates between the pair parities and the global
  parities until a round restores nothing.  On a block that holds only symbols of the sender the loop
  ends, restores only the payloads that were sent, counts no error, and leaves nothing that a parity
  it holds could still restore.
\<close>

section \<open>The block\<close>

datatype V4DeliverySource = V4Original | V4Pair | V4Global

record V4ReceivedSymbol =
  s4_payload :: V3Payload
  s4_available_at :: instant

record V4BlockState =
  originals :: "V4ReceivedSymbol option list"
  pair_parities :: "V4ReceivedSymbol option list"
  v4_global_parities :: "V4ReceivedSymbol option list"
  v4_recovery_failed :: "bool list"

definition V4BlockState_default :: V4BlockState where
  "V4BlockState_default =
     \<lparr>originals = replicate V3_BLOCK_MESSAGES None,
      pair_parities = replicate V3_PAIR_PARITIES None,
      v4_global_parities = replicate V3_GLOBAL_PARITIES None,
      v4_recovery_failed = replicate V3_BLOCK_MESSAGES False\<rparr>"

record V4Delivery =
  d4_slot :: usize
  d4_payload :: V3Payload
  d4_available_at :: instant
  d4_source :: V4DeliverySource

section \<open>Recovery from the global parities\<close>

text \<open>The loops over the known originals, which return early at a missing one.\<close>

fun one_global_residual ::
  "usize \<Rightarrow> usize \<Rightarrow> (usize \<times> V4ReceivedSymbol option) list \<Rightarrow> V3Payload \<Rightarrow> instant \<Rightarrow> (V3Payload \<times> instant) option" where
  "one_global_residual parity_index missing [] residual available_at = Some (residual, available_at)"
| "one_global_residual parity_index missing ((index, symbol) # rest) residual available_at =
     (if index = missing then one_global_residual parity_index missing rest residual available_at
      else case symbol of
        None \<Rightarrow> None
      | Some symbol \<Rightarrow>
          one_global_residual parity_index missing rest
            (if parity_index = 0 then add_payload V3_LOGICAL_MESSAGE_SIZE residual (s4_payload symbol)
             else add_scaled V3_LOGICAL_MESSAGE_SIZE (global_coefficient index) residual (s4_payload symbol))
            (max available_at (s4_available_at symbol)))"

definition recover_one_global :: "V4BlockState \<Rightarrow> usize \<Rightarrow> (V3Payload \<times> instant) option" where
  "recover_one_global block missing =
     (case find (\<lambda>i. v4_global_parities block ! i \<noteq> None) [0..<length (v4_global_parities block)] of
        None \<Rightarrow> None
      | Some parity_index \<Rightarrow>
          (case v4_global_parities block ! parity_index of
             None \<Rightarrow> None
           | Some parity \<Rightarrow>
               (case one_global_residual parity_index missing (enumerate 0 (originals block))
                       (s4_payload parity) (s4_available_at parity) of
                  None \<Rightarrow> None
                | Some (residual, available_at) \<Rightarrow>
                    if parity_index = 1 then
                      (case try_map (\<lambda>byte. gf_div byte (global_coefficient missing)) residual of
                         Inl _ \<Rightarrow> None
                       | Inr residual \<Rightarrow> Some (residual, available_at))
                    else Some (residual, available_at))))"

fun two_global_residuals ::
  "usize \<Rightarrow> usize \<Rightarrow> (usize \<times> V4ReceivedSymbol option) list \<Rightarrow> V3Payload \<Rightarrow> V3Payload \<Rightarrow> instant \<Rightarrow>
   (V3Payload \<times> V3Payload \<times> instant) option" where
  "two_global_residuals first second [] zero one available_at = Some (zero, one, available_at)"
| "two_global_residuals first second ((index, symbol) # rest) zero one available_at =
     (if index = first \<or> index = second then two_global_residuals first second rest zero one available_at
      else case symbol of
        None \<Rightarrow> None
      | Some symbol \<Rightarrow>
          two_global_residuals first second rest
            (add_payload V3_LOGICAL_MESSAGE_SIZE zero (s4_payload symbol))
            (add_scaled V3_LOGICAL_MESSAGE_SIZE (global_coefficient index) one (s4_payload symbol))
            (max available_at (s4_available_at symbol)))"

definition recover_two_global :: "V4BlockState \<Rightarrow> usize \<Rightarrow> usize \<Rightarrow> ((V3Payload \<times> V3Payload) \<times> instant) option" where
  "recover_two_global block first second =
     (case (v4_global_parities block ! 0, v4_global_parities block ! 1) of
        (Some zero, Some one) \<Rightarrow>
          (case two_global_residuals first second (enumerate 0 (originals block))
                  (s4_payload zero) (s4_payload one) (max (s4_available_at zero) (s4_available_at one)) of
             None \<Rightarrow> None
           | Some (zero_residual, one_residual, available_at) \<Rightarrow>
               (case recover_two_missing zero_residual one_residual first second of
                  Inl _ \<Rightarrow> None
                | Inr recovered \<Rightarrow> Some (recovered, available_at)))
      | _ \<Rightarrow> None)"

section \<open>The recovery loop\<close>

text \<open>
  The state of the loop is the block, the deliveries so far, the number of errors and the flag
  \<open>changed\<close>.  Both recoveries end with the same comparison with the payload that was sent.
\<close>

type_synonym v4_progress = "V4BlockState \<times> V4Delivery list \<times> usize \<times> bool"

fun v4_restore :: "usize \<Rightarrow> V4Delivery \<Rightarrow> v4_progress \<Rightarrow> v4_progress" where
  "v4_restore first_sequence d (block, deliveries, recovery_errors, changed) =
     (if d4_payload d \<noteq> make_v3_payload (of_nat (first_sequence + d4_slot d)) then
        (block\<lparr>v4_recovery_failed := (v4_recovery_failed block)[d4_slot d := True]\<rparr>, deliveries,
         sat_add_usize recovery_errors 1, changed)
      else
        (block\<lparr>originals := (originals block)[d4_slot d :=
           Some \<lparr>s4_payload = d4_payload d, s4_available_at = d4_available_at d\<rparr>]\<rparr>,
         deliveries @ [d], recovery_errors, True))"

fun v4_pair_step :: "usize \<Rightarrow> usize \<Rightarrow> v4_progress \<Rightarrow> v4_progress" where
  "v4_pair_step first_sequence pair_index (block, deliveries, recovery_errors, changed) =
     (let unchanged = (block, deliveries, recovery_errors, changed);
          first = pair_index * 2;
          second = first + 1;
          restore = (\<lambda>parity missing known.
            if v4_recovery_failed block ! missing then unchanged
            else v4_restore first_sequence
              \<lparr>d4_slot = missing, d4_payload = xor_payloads (s4_payload parity) (s4_payload known),
               d4_available_at = max (s4_available_at parity) (s4_available_at known), d4_source = V4Pair\<rparr>
              unchanged)
      in case pair_parities block ! pair_index of
           None \<Rightarrow> unchanged
         | Some parity \<Rightarrow>
             (case (originals block ! first, originals block ! second) of
                (None, Some known) \<Rightarrow> restore parity first known
              | (Some known, None) \<Rightarrow> restore parity second known
              | _ \<Rightarrow> unchanged))"

definition v4_global_deliveries :: "V4BlockState \<Rightarrow> V4Delivery list option" where
  "v4_global_deliveries block =
     (case missing_slots (originals block) of
        [missing] \<Rightarrow>
          if v4_recovery_failed block ! missing then None
          else map_option (\<lambda>(payload, available_at).
              [\<lparr>d4_slot = missing, d4_payload = payload, d4_available_at = available_at, d4_source = V4Global\<rparr>])
            (recover_one_global block missing)
      | [first, second] \<Rightarrow>
          if v4_recovery_failed block ! first \<or> v4_recovery_failed block ! second then None
          else map_option (\<lambda>((first_payload, second_payload), available_at).
              [\<lparr>d4_slot = first, d4_payload = first_payload, d4_available_at = available_at, d4_source = V4Global\<rparr>,
               \<lparr>d4_slot = second, d4_payload = second_payload, d4_available_at = available_at, d4_source = V4Global\<rparr>])
            (recover_two_global block first second)
      | _ \<Rightarrow> None)"

definition v4_round :: "usize \<Rightarrow> V4BlockState \<Rightarrow> V4Delivery list \<Rightarrow> usize \<Rightarrow> v4_progress" where
  "v4_round first_sequence block deliveries recovery_errors =
     (let progress = fold (v4_pair_step first_sequence) [0..<V3_PAIR_PARITIES] (block, deliveries, recovery_errors, False)
      in case v4_global_deliveries (fst progress) of
           None \<Rightarrow> progress
         | Some global_deliveries \<Rightarrow> fold (v4_restore first_sequence) global_deliveries progress)"

partial_function (option) recover_v4_loop ::
  "usize \<Rightarrow> V4BlockState \<Rightarrow> V4Delivery list \<Rightarrow> usize \<Rightarrow> (V4BlockState \<times> V4Delivery list \<times> usize) option" where
  "recover_v4_loop first_sequence block deliveries recovery_errors =
     (case v4_round first_sequence block deliveries recovery_errors of
        (block, deliveries, recovery_errors, changed) \<Rightarrow>
          if changed then recover_v4_loop first_sequence block deliveries recovery_errors
          else Some (block, deliveries, recovery_errors))"

definition recover_v4_block :: "V4BlockState \<Rightarrow> usize \<Rightarrow> (V4BlockState \<times> V4Delivery list \<times> usize) option" where
  "recover_v4_block block first_sequence = recover_v4_loop first_sequence block [] 0"

section \<open>Blocks of the sender\<close>

text \<open>
  A block whose symbols are those the sender makes for the block at \<open>first\<close>, none available before the
  messages it is made of were generated: \<open>gen i\<close> is the time of the message in slot \<open>i\<close>.  A
  condition \<open>lim\<close> that holds of the times of arrival holds of the times of recovery, which are maxima
  of these.
\<close>

definition v4_symbol_ok :: "V3Payload \<Rightarrow> instant set \<Rightarrow> (instant \<Rightarrow> bool) \<Rightarrow> V4ReceivedSymbol option \<Rightarrow> bool" where
  "v4_symbol_ok payload ts lim symbol \<longleftrightarrow>
     (\<forall>s. symbol = Some s \<longrightarrow>
       s4_payload s = payload \<and> (\<forall>t \<in> ts. t \<le> s4_available_at s) \<and> lim (s4_available_at s))"

definition v4_parity :: "usize \<Rightarrow> usize \<Rightarrow> V3Payload" where
  "v4_parity first g = (if g = 0 then fst else snd) (make_global_parities (make_v3_block_payloads (of_nat first)))"

definition v4_pair :: "usize \<Rightarrow> usize \<Rightarrow> V3Payload" where
  "v4_pair first p = xor_payloads (make_v3_payload (of_nat (first + p * 2))) (make_v3_payload (of_nat (first + p * 2 + 1)))"

definition v4_block_ok :: "usize \<Rightarrow> (usize \<Rightarrow> instant) \<Rightarrow> (instant \<Rightarrow> bool) \<Rightarrow> V4BlockState \<Rightarrow> bool" where
  "v4_block_ok first gen lim block \<longleftrightarrow>
     length (originals block) = V3_BLOCK_MESSAGES \<and> length (pair_parities block) = V3_PAIR_PARITIES \<and>
     length (v4_global_parities block) = 2 \<and> v4_recovery_failed block = replicate V3_BLOCK_MESSAGES False \<and>
     (\<forall>i < V3_BLOCK_MESSAGES. v4_symbol_ok (make_v3_payload (of_nat (first + i))) {gen i} lim (originals block ! i)) \<and>
     (\<forall>p < V3_PAIR_PARITIES. v4_symbol_ok (v4_pair first p) {gen (p * 2), gen (p * 2 + 1)} lim (pair_parities block ! p)) \<and>
     (\<forall>g < 2. v4_symbol_ok (v4_parity first g) (gen ` {..<V3_BLOCK_MESSAGES}) lim (v4_global_parities block ! g))"

lemma v4_parity_sum:
  assumes "b < V3_LOGICAL_MESSAGE_SIZE"
  shows "Gf (v4_parity first g ! b) =
    (\<Sum>i<V3_BLOCK_MESSAGES. (if g = 0 then 1 else Gf (global_coefficient i)) * Gf (make_v3_payload (of_nat (first + i)) ! b))"
  using assms by (simp add: v4_parity_def make_global_parities_sum nth_make_v3_block_payloads)

lemma length_v4_parity [simp]: "length (v4_parity first g) = V3_LOGICAL_MESSAGE_SIZE"
  by (simp add: v4_parity_def make_global_parities_sum)

lemma one_global_residual_sum:
  assumes "\<forall>i < length syms. k + i \<noteq> m \<longrightarrow> syms ! i \<noteq> None" and "length r = V3_LOGICAL_MESSAGE_SIZE"
  shows "\<exists>r' at'. one_global_residual g m (enumerate k syms) r at = Some (r', at') \<and> at \<le> at' \<and>
    length r' = V3_LOGICAL_MESSAGE_SIZE \<and>
    (\<forall>b < V3_LOGICAL_MESSAGE_SIZE. Gf (r' ! b) = Gf (r ! b) + (\<Sum>i<length syms. if k + i = m then 0
       else (if g = 0 then 1 else Gf (global_coefficient (k + i))) * Gf (s4_payload (the (syms ! i)) ! b)))"
  using assms
proof (induction syms arbitrary: k r at)
  case (Cons s syms)
  define r1 where "r1 = (if k = m then r else if g = 0 then add_payload V3_LOGICAL_MESSAGE_SIZE r (s4_payload (the s))
      else add_scaled V3_LOGICAL_MESSAGE_SIZE (global_coefficient k) r (s4_payload (the s)))"
  define at1 where "at1 = (if k = m then at else max at (s4_available_at (the s)))"
  have present: "k \<noteq> m \<Longrightarrow> s \<noteq> None" using Cons.prems(1) by force
  have rest: "\<forall>i < length syms. Suc k + i \<noteq> m \<longrightarrow> syms ! i \<noteq> None" using Cons.prems(1) by force
  have step: "one_global_residual g m (enumerate k (s # syms)) r at = one_global_residual g m (enumerate (Suc k) syms) r1 at1"
    using present by (auto simp: r1_def at1_def)
  have byte: "Gf (r1 ! b) = Gf (r ! b) + (if k = m then 0
      else (if g = 0 then 1 else Gf (global_coefficient k)) * Gf (s4_payload (the s) ! b))"
    if "b < V3_LOGICAL_MESSAGE_SIZE" for b using that by (simp add: r1_def add_byte)
  have "length r1 = V3_LOGICAL_MESSAGE_SIZE" using Cons.prems(2) by (simp add: r1_def)
  from Cons.IH [OF rest this, of at1] obtain r' at' where
    "one_global_residual g m (enumerate (Suc k) syms) r1 at1 = Some (r', at')" "at1 \<le> at'"
    "length r' = V3_LOGICAL_MESSAGE_SIZE"
    "\<forall>b < V3_LOGICAL_MESSAGE_SIZE. Gf (r' ! b) = Gf (r1 ! b) + (\<Sum>i<length syms. if Suc k + i = m then 0
       else (if g = 0 then 1 else Gf (global_coefficient (Suc k + i))) * Gf (s4_payload (the (syms ! i)) ! b))"
    by blast
  moreover have "at \<le> at1" by (simp add: at1_def)
  ultimately show ?case
    using step byte by (simp add: sum.lessThan_Suc_shift add.assoc del: sum.lessThan_Suc cong del: if_weak_cong)
qed simp

lemma two_global_residuals_sum:
  assumes "\<forall>i < length syms. k + i \<noteq> m \<and> k + i \<noteq> n \<longrightarrow> syms ! i \<noteq> None"
    and "length z = V3_LOGICAL_MESSAGE_SIZE" and "length o1 = V3_LOGICAL_MESSAGE_SIZE"
  shows "\<exists>z' o' at'. two_global_residuals m n (enumerate k syms) z o1 at = Some (z', o', at') \<and> at \<le> at' \<and>
    (\<forall>b < V3_LOGICAL_MESSAGE_SIZE.
       Gf (z' ! b) = Gf (z ! b) + (\<Sum>i<length syms. if k + i = m \<or> k + i = n then 0
         else Gf (s4_payload (the (syms ! i)) ! b)) \<and>
       Gf (o' ! b) = Gf (o1 ! b) + (\<Sum>i<length syms. if k + i = m \<or> k + i = n then 0
         else Gf (global_coefficient (k + i)) * Gf (s4_payload (the (syms ! i)) ! b)))"
  using assms
proof (induction syms arbitrary: k z o1 at)
  case (Cons s syms)
  let ?skip = "k = m \<or> k = n"
  define z1 where "z1 = (if ?skip then z else add_payload V3_LOGICAL_MESSAGE_SIZE z (s4_payload (the s)))"
  define o2 where "o2 = (if ?skip then o1 else add_scaled V3_LOGICAL_MESSAGE_SIZE (global_coefficient k) o1 (s4_payload (the s)))"
  define at1 where "at1 = (if ?skip then at else max at (s4_available_at (the s)))"
  have present: "\<not> ?skip \<Longrightarrow> s \<noteq> None" using Cons.prems(1) by force
  have rest: "\<forall>i < length syms. Suc k + i \<noteq> m \<and> Suc k + i \<noteq> n \<longrightarrow> syms ! i \<noteq> None" using Cons.prems(1) by force
  have step: "two_global_residuals m n (enumerate k (s # syms)) z o1 at = two_global_residuals m n (enumerate (Suc k) syms) z1 o2 at1"
    using present by (auto simp: z1_def o2_def at1_def)
  have byte: "Gf (z1 ! b) = Gf (z ! b) + (if ?skip then 0 else Gf (s4_payload (the s) ! b))"
    "Gf (o2 ! b) = Gf (o1 ! b) + (if ?skip then 0 else Gf (global_coefficient k) * Gf (s4_payload (the s) ! b))"
    if "b < V3_LOGICAL_MESSAGE_SIZE" for b using that by (simp_all add: z1_def o2_def add_byte)
  have "length z1 = V3_LOGICAL_MESSAGE_SIZE" "length o2 = V3_LOGICAL_MESSAGE_SIZE"
    using Cons.prems(2,3) by (simp_all add: z1_def o2_def)
  from Cons.IH [OF rest this, of at1] obtain z' o' at' where
    "two_global_residuals m n (enumerate (Suc k) syms) z1 o2 at1 = Some (z', o', at')" "at1 \<le> at'"
    "\<forall>b < V3_LOGICAL_MESSAGE_SIZE.
       Gf (z' ! b) = Gf (z1 ! b) + (\<Sum>i<length syms. if Suc k + i = m \<or> Suc k + i = n then 0
         else Gf (s4_payload (the (syms ! i)) ! b)) \<and>
       Gf (o' ! b) = Gf (o2 ! b) + (\<Sum>i<length syms. if Suc k + i = m \<or> Suc k + i = n then 0
         else Gf (global_coefficient (Suc k + i)) * Gf (s4_payload (the (syms ! i)) ! b))"
    by blast
  moreover have "at \<le> at1" by (simp add: at1_def)
  ultimately show ?case
    using step byte by (simp add: sum.lessThan_Suc_shift add.assoc del: sum.lessThan_Suc cong del: if_weak_cong)
qed simp

lemma residual_times:
  assumes "lim at" and "\<forall>s. Some s \<in> set syms \<longrightarrow> lim (s4_available_at s)"
  shows "one_global_residual g m (enumerate k syms) r at = Some (r', at') \<Longrightarrow> lim at'"
    and "two_global_residuals m n (enumerate k syms) z w at = Some (z', w', at') \<Longrightarrow> lim at'"
  using assms
  by (induction syms arbitrary: k r z w at) (auto simp: max_def split: if_splits option.splits)

lemma v4_block_okD:
  assumes "v4_block_ok first gen lim block"
  shows "length (originals block) = V3_BLOCK_MESSAGES" "length (pair_parities block) = V3_PAIR_PARITIES"
    "length (v4_global_parities block) = 2" "v4_recovery_failed block = replicate V3_BLOCK_MESSAGES False"
    and "i < V3_BLOCK_MESSAGES \<Longrightarrow> originals block ! i = Some s \<Longrightarrow>
      s4_payload s = make_v3_payload (of_nat (first + i)) \<and> gen i \<le> s4_available_at s \<and> lim (s4_available_at s)"
    and "p < V3_PAIR_PARITIES \<Longrightarrow> pair_parities block ! p = Some s \<Longrightarrow>
      s4_payload s = v4_pair first p \<and> gen (p * 2) \<le> s4_available_at s \<and> gen (p * 2 + 1) \<le> s4_available_at s \<and>
        lim (s4_available_at s)"
    and "g < 2 \<Longrightarrow> v4_global_parities block ! g = Some s \<Longrightarrow>
      s4_payload s = v4_parity first g \<and> (\<forall>i < V3_BLOCK_MESSAGES. gen i \<le> s4_available_at s) \<and>
        lim (s4_available_at s)"
  using assms by (auto simp: v4_block_ok_def v4_symbol_ok_def)

lemma v4_known_payloads:
  assumes ok: "v4_block_ok first gen lim block" and known: "\<forall>i < V3_BLOCK_MESSAGES. i \<notin> M \<longrightarrow> originals block ! i \<noteq> None"
  shows "(\<Sum>i<V3_BLOCK_MESSAGES. if i \<in> M then 0 else c i * Gf (s4_payload (the (originals block ! i)) ! b)) =
    (\<Sum>i<V3_BLOCK_MESSAGES. if i \<in> M then 0 else c i * Gf (make_v3_payload (of_nat (first + i)) ! b))"
proof (intro sum.cong refl if_cong)
  fix i assume i: "i \<in> {..<V3_BLOCK_MESSAGES}" "i \<notin> M"
  then obtain s where "originals block ! i = Some s" using known by fastforce
  then show "c i * Gf (s4_payload (the (originals block ! i)) ! b) = c i * Gf (make_v3_payload (of_nat (first + i)) ! b)"
    using v4_block_okD(5) [OF ok, of i s] i by simp
qed

lemma recover_one_global_ok:
  assumes ok: "v4_block_ok first gen lim block" and missing: "missing_slots (originals block) = [m]"
    and g: "g < 2" "v4_global_parities block ! g \<noteq> None"
  obtains at where "recover_one_global block m = Some (make_v3_payload (of_nat (first + m)), at)" "gen m \<le> at" "lim at"
proof -
  note D = v4_block_okD [OF ok]
  have m: "m < V3_BLOCK_MESSAGES" and known: "\<forall>i < V3_BLOCK_MESSAGES. i \<notin> {m} \<longrightarrow> originals block ! i \<noteq> None"
    using arg_cong [OF missing, of set] D(1) by auto
  have "find (\<lambda>i. v4_global_parities block ! i \<noteq> None) [0..<2] \<noteq> None"
    using g by (auto simp: find_None_iff)
  then obtain k where find: "find (\<lambda>i. v4_global_parities block ! i \<noteq> None) [0..<2] = Some k" by blast
  then have k: "k < 2" "v4_global_parities block ! k \<noteq> None" by (auto simp: find_Some_iff)
  then obtain s where s: "v4_global_parities block ! k = Some s" by blast
  note parity = D(7) [OF k(1) s]
  let ?c = "\<lambda>i. if k = 0 then 1 else Gf (global_coefficient i)"
  obtain r at where loop: "one_global_residual k m (enumerate 0 (originals block)) (s4_payload s) (s4_available_at s) = Some (r, at)"
    and at: "s4_available_at s \<le> at" and len: "length r = V3_LOGICAL_MESSAGE_SIZE"
    and byte: "\<forall>b < V3_LOGICAL_MESSAGE_SIZE. Gf (r ! b) = Gf (s4_payload s ! b) +
      (\<Sum>i<V3_BLOCK_MESSAGES. if i = m then 0 else ?c i * Gf (s4_payload (the (originals block ! i)) ! b))"
    using one_global_residual_sum [of "originals block" 0 m "s4_payload s" k "s4_available_at s"] known parity D(1)
    by (auto cong del: if_weak_cong)
  have r: "Gf (r ! b) = ?c m * Gf (make_v3_payload (of_nat (first + m)) ! b)" if "b < V3_LOGICAL_MESSAGE_SIZE" for b
    using byte that v4_known_payloads [OF ok known, of ?c b] parity
      gf_sum_except [OF m, of "\<lambda>i. ?c i * Gf (make_v3_payload (of_nat (first + i)) ! b)"]
    by (simp add: v4_parity_sum)
  have "recover_one_global block m = Some (make_v3_payload (of_nat (first + m)), at)"
  proof (cases "k = 0")
    case True
    then have "r = make_v3_payload (of_nat (first + m))" using len r by (intro payload_eqI) auto
    then show ?thesis using find s loop True D(3) by (simp add: recover_one_global_def)
  next
    case False
    then have "k = 1" using k(1) by simp
    have "gf_div byte (global_coefficient m) = Inr (gf_mul byte (gf_inverse (global_coefficient m)))" for byte
      by (simp add: gf_div_eq)
    moreover have "map (\<lambda>byte. gf_mul byte (gf_inverse (global_coefficient m))) r = make_v3_payload (of_nat (first + m))"
      using len r False by (intro payload_eqI) (auto simp: Gf_simps Gf_eq_0)
    ultimately show ?thesis
      using find s loop \<open>k = 1\<close> D(3) by (simp add: recover_one_global_def try_map_Inr)
  qed
  moreover have "lim at" using residual_times(1) [OF _ _ loop] parity v4_block_okD(5) [OF ok] D(1) by (auto simp: in_set_conv_nth)
  ultimately show thesis using that at parity m by (meson le_trans)
qed

lemma recover_two_global_ok:
  assumes ok: "v4_block_ok first gen lim block" and missing: "missing_slots (originals block) = [m, n]"
    and g: "v4_global_parities block ! 0 \<noteq> None" "v4_global_parities block ! 1 \<noteq> None"
  obtains at where "recover_two_global block m n =
      Some ((make_v3_payload (of_nat (first + m)), make_v3_payload (of_nat (first + n))), at)" "gen m \<le> at" "gen n \<le> at" "lim at"
proof -
  note D = v4_block_okD [OF ok]
  have m: "m < V3_BLOCK_MESSAGES" "n < V3_BLOCK_MESSAGES" "m \<noteq> n"
    and known: "\<forall>i < V3_BLOCK_MESSAGES. i \<notin> {m, n} \<longrightarrow> originals block ! i \<noteq> None"
    using arg_cong [OF missing, of set] arg_cong [OF missing, of distinct] D(1) by auto
  obtain z1 z2 where z: "v4_global_parities block ! 0 = Some z1" "v4_global_parities block ! 1 = Some z2" using g by blast
  note zero = D(7) [of 0, OF _ z(1), simplified] and one = D(7) [of 1, OF _ z(2), simplified]
  let ?at = "max (s4_available_at z1) (s4_available_at z2)" and ?p = "\<lambda>i. make_v3_payload (of_nat (first + i))"
  obtain zr wr at where loop: "two_global_residuals m n (enumerate 0 (originals block)) (s4_payload z1) (s4_payload z2) ?at = Some (zr, wr, at)"
    and at: "?at \<le> at"
    and byte: "\<forall>b < V3_LOGICAL_MESSAGE_SIZE.
       Gf (zr ! b) = Gf (s4_payload z1 ! b) + (\<Sum>i<V3_BLOCK_MESSAGES. if i = m \<or> i = n then 0
         else Gf (s4_payload (the (originals block ! i)) ! b)) \<and>
       Gf (wr ! b) = Gf (s4_payload z2 ! b) + (\<Sum>i<V3_BLOCK_MESSAGES. if i = m \<or> i = n then 0
         else Gf (global_coefficient i) * Gf (s4_payload (the (originals block ! i)) ! b))"
    using two_global_residuals_sum [of "originals block" 0 m n "s4_payload z1" "s4_payload z2" ?at] known zero one D(1)
    by (auto cong del: if_weak_cong)
  have "recover_two_missing zr wr m n = Inr (?p m, ?p n)"
  proof (rule recover_two_missing_correct [OF m])
    fix b assume b: "b < V3_LOGICAL_MESSAGE_SIZE"
    show "Gf (zr ! b) = Gf (?p m ! b) + Gf (?p n ! b)"
      using byte b v4_known_payloads [OF ok known, of "\<lambda>_. 1" b] zero gf_sum_except2 [OF m, of "\<lambda>i. Gf (?p i ! b)"]
      by (simp add: v4_parity_sum cong del: if_weak_cong)
    show "Gf (wr ! b) = Gf (global_coefficient m) * Gf (?p m ! b) + Gf (global_coefficient n) * Gf (?p n ! b)"
      using byte b v4_known_payloads [OF ok known, of "\<lambda>i. Gf (global_coefficient i)" b] one
        gf_sum_except2 [OF m, of "\<lambda>i. Gf (global_coefficient i) * Gf (?p i ! b)"]
      by (simp add: v4_parity_sum cong del: if_weak_cong)
  qed simp_all
  then have "recover_two_global block m n = Some ((?p m, ?p n), at)"
    using z loop by (simp add: recover_two_global_def)
  moreover have "lim at"
  proof (rule residual_times(2) [OF _ _ loop])
    show "lim ?at" using zero one by (simp add: max_def)
  qed (use D(1) v4_block_okD(5) [OF ok] in \<open>auto simp: in_set_conv_nth\<close>)
  ultimately show thesis using that at zero m by (meson le_trans max.cobounded1)
qed

section \<open>The loop restores what the parities determine\<close>

text \<open>
  A sequence of deliveries, each of a slot that was still empty, of the payload that was sent in it
  and not before the message was generated.
\<close>

definition v4_fill :: "V4Delivery \<Rightarrow> V4BlockState \<Rightarrow> V4BlockState" where
  "v4_fill d block = block\<lparr>originals := (originals block)[d4_slot d :=
     Some \<lparr>s4_payload = d4_payload d, s4_available_at = d4_available_at d\<rparr>]\<rparr>"

definition v4_genuine :: "usize \<Rightarrow> (usize \<Rightarrow> instant) \<Rightarrow> (instant \<Rightarrow> bool) \<Rightarrow> V4Delivery \<Rightarrow> bool" where
  "v4_genuine first gen lim d \<longleftrightarrow> d4_slot d < V3_BLOCK_MESSAGES \<and>
     d4_payload d = make_v3_payload (of_nat (first + d4_slot d)) \<and> gen (d4_slot d) \<le> d4_available_at d \<and> lim (d4_available_at d)"

inductive v4_restores :: "usize \<Rightarrow> (usize \<Rightarrow> instant) \<Rightarrow> (instant \<Rightarrow> bool) \<Rightarrow> V4BlockState \<Rightarrow> V4Delivery list \<Rightarrow> V4BlockState \<Rightarrow> bool"
  for first gen lim block where
  none: "v4_block_ok first gen lim block \<Longrightarrow> v4_restores first gen lim block [] block"
| fill: "v4_restores first gen lim block ds block' \<Longrightarrow> v4_genuine first gen lim d \<Longrightarrow> originals block' ! d4_slot d = None \<Longrightarrow>
    v4_restores first gen lim block (ds @ [d]) (v4_fill d block')"

lemma v4_fill_ok:
  assumes "v4_block_ok first gen lim block" and "v4_genuine first gen lim d"
  shows "v4_block_ok first gen lim (v4_fill d block)"
  using assms unfolding v4_block_ok_def v4_genuine_def v4_fill_def
  by (auto simp: nth_list_update v4_symbol_ok_def)

lemma v4_restores_ok: "v4_restores first gen lim block ds block' \<Longrightarrow> v4_block_ok first gen lim block'"
  by (induction rule: v4_restores.induct) (auto intro: v4_fill_ok)

lemma v4_restores_start: "v4_restores first gen lim block ds block' \<Longrightarrow> v4_block_ok first gen lim block"
  by (induction rule: v4_restores.induct) auto

lemma v4_restores_trans:
  "v4_restores first gen lim b' ds' b'' \<Longrightarrow> v4_restores first gen lim b ds b' \<Longrightarrow> v4_restores first gen lim b (ds @ ds') b''"
proof (induction rule: v4_restores.induct)
  case (fill ds' b'' d)
  then show ?case using v4_restores.fill [of first gen lim b "ds @ ds'" b'' d] by simp
qed simp

lemma v4_restores_single:
  "v4_block_ok first gen lim b \<Longrightarrow> v4_genuine first gen lim d \<Longrightarrow> originals b ! d4_slot d = None \<Longrightarrow>
   v4_restores first gen lim b [d] (v4_fill d b)"
  using v4_restores.fill [OF v4_restores.none] by fastforce

lemma v4_restores_missing:
  assumes "v4_restores first gen lim b ds b'"
  shows "length (missing_slots (originals b')) + length ds \<le> length (missing_slots (originals b))"
  using assms
proof (induction rule: v4_restores.induct)
  case (fill ds b' d)
  have "length (missing_slots (originals (v4_fill d b'))) < length (missing_slots (originals b'))"
    using fill.hyps v4_block_okD(1) [OF v4_restores_ok [OF fill.hyps(1)]]
    by (simp add: v4_fill_def v4_genuine_def missing_slots_update)
  with fill.IH show ?case by simp
qed simp

lemma v4_restore_genuine:
  "v4_genuine first gen lim d \<Longrightarrow> v4_restore first d (b, ds, e, ch) = (v4_fill d b, ds @ [d], e, True)"
  by (simp add: v4_genuine_def v4_fill_def)

definition pair_recoverable :: "V4BlockState \<Rightarrow> usize \<Rightarrow> bool" where
  "pair_recoverable block p \<longleftrightarrow> pair_parities block ! p \<noteq> None \<and>
     (originals block ! (p * 2) = None) \<noteq> (originals block ! (p * 2 + 1) = None)"

definition global_recoverable :: "V4BlockState \<Rightarrow> bool" where
  "global_recoverable block \<longleftrightarrow> 0 < length (missing_slots (originals block)) \<and>
     length (missing_slots (originals block)) \<le> length (present_slots (v4_global_parities block))"

lemma pair_slots: "p < V3_PAIR_PARITIES \<Longrightarrow> p * 2 < V3_BLOCK_MESSAGES \<and> Suc (p * 2) < V3_BLOCK_MESSAGES"
  by (simp add: V3_PAIR_PARITIES_def V3_BLOCK_MESSAGES_def)

lemma v4_pair_step_restores:
  assumes ok: "v4_block_ok first gen lim b" and p: "p < V3_PAIR_PARITIES"
  shows "\<exists>new b'. v4_pair_step first p (b, ds, e, ch) = (b', ds @ new, e, ch \<or> new \<noteq> []) \<and>
    v4_restores first gen lim b new b' \<and> (new = [] \<longrightarrow> b' = b \<and> \<not> pair_recoverable b p)"
proof (cases "pair_recoverable b p")
  case False
  then have "v4_pair_step first p (b, ds, e, ch) = (b, ds, e, ch)"
    by (auto simp: pair_recoverable_def Let_def split: option.splits)
  then show ?thesis using ok False by (intro exI [of _ "[]"] exI [of _ b]) (simp add: v4_restores.none)
next
  case True
  note D = v4_block_okD [OF ok] and slots = pair_slots [OF p]
  from True obtain s where s: "pair_parities b ! p = Some s" by (auto simp: pair_recoverable_def)
  note pair = D(6) [OF p s]
  have failed: "\<not> v4_recovery_failed b ! (p * 2)" "\<not> v4_recovery_failed b ! Suc (p * 2)" using D(4) slots by simp_all
  have step: ?thesis
    if "v4_pair_step first p (b, ds, e, ch) = v4_restore first d (b, ds, e, ch)" "v4_genuine first gen lim d"
      "originals b ! d4_slot d = None" for d
    using that(1) v4_restore_genuine [OF that(2)] v4_restores_single [OF ok that(2,3)]
    by (intro exI [of _ "[d]"] exI [of _ "v4_fill d b"]) simp
  show ?thesis
  proof (cases "originals b ! (p * 2)")
    case None
    with True obtain k where k: "originals b ! Suc (p * 2) = Some k" by (auto simp: pair_recoverable_def)
    show ?thesis
      by (rule step [of "\<lparr>d4_slot = p * 2, d4_payload = xor_payloads (s4_payload s) (s4_payload k),
            d4_available_at = max (s4_available_at s) (s4_available_at k), d4_source = V4Pair\<rparr>"])
        (use None k s failed pair slots D(5) [of "Suc (p * 2)" k] in
          \<open>auto simp: Let_def v4_genuine_def v4_pair_def xor_payloads_cancel add.assoc max_def\<close>)
  next
    case (Some k)
    with True have n: "originals b ! Suc (p * 2) = None" by (auto simp: pair_recoverable_def)
    show ?thesis
      by (rule step [of "\<lparr>d4_slot = Suc (p * 2), d4_payload = xor_payloads (s4_payload s) (s4_payload k),
            d4_available_at = max (s4_available_at s) (s4_available_at k), d4_source = V4Pair\<rparr>"])
        (use Some n s failed pair slots D(5) [of "p * 2" k] in
          \<open>auto simp: Let_def v4_genuine_def v4_pair_def xor_payloads_cancel add.assoc max_def\<close>)
  qed
qed

declare v4_pair_step.simps [simp del] v4_restore.simps [simp del]

lemma v4_pairs_restore:
  assumes "v4_block_ok first gen lim b" and "\<forall>p \<in> set ps. p < V3_PAIR_PARITIES"
  shows "\<exists>new b'. fold (v4_pair_step first) ps (b, ds, e, ch) = (b', ds @ new, e, ch \<or> new \<noteq> []) \<and>
    v4_restores first gen lim b new b' \<and> (new = [] \<longrightarrow> b' = b \<and> (\<forall>p \<in> set ps. \<not> pair_recoverable b p))"
  using assms
proof (induction ps arbitrary: b ds ch)
  case Nil
  then show ?case by (auto intro: v4_restores.none)
next
  case (Cons p ps)
  obtain n1 b1 where step: "v4_pair_step first p (b, ds, e, ch) = (b1, ds @ n1, e, ch \<or> n1 \<noteq> [])"
    and b1: "v4_restores first gen lim b n1 b1" and c1: "n1 = [] \<longrightarrow> b1 = b \<and> \<not> pair_recoverable b p"
    using v4_pair_step_restores [OF Cons.prems(1), of p ds e ch] Cons.prems(2) by auto
  obtain n2 b2 where "fold (v4_pair_step first) ps (b1, ds @ n1, e, ch \<or> n1 \<noteq> []) =
      (b2, (ds @ n1) @ n2, e, (ch \<or> n1 \<noteq> []) \<or> n2 \<noteq> [])"
    and b2: "v4_restores first gen lim b1 n2 b2" and "n2 = [] \<longrightarrow> b2 = b1 \<and> (\<forall>p \<in> set ps. \<not> pair_recoverable b1 p)"
    using Cons.IH [OF v4_restores_ok [OF b1], of "ds @ n1" "ch \<or> n1 \<noteq> []"] Cons.prems(2) by auto
  then show ?case
    using step c1 v4_restores_trans [OF b2 b1]
    by (intro exI [of _ "n1 @ n2"] exI [of _ b2]) auto
qed

lemma v4_restore_all:
  assumes "v4_block_ok first gen lim b" and "\<forall>d \<in> set gs. v4_genuine first gen lim d \<and> originals b ! d4_slot d = None"
    and "distinct (map d4_slot gs)"
  shows "\<exists>b'. fold (v4_restore first) gs (b, ds, e, ch) = (b', ds @ gs, e, ch \<or> gs \<noteq> []) \<and> v4_restores first gen lim b gs b'"
  using assms
proof (induction gs arbitrary: b ds ch)
  case Nil
  then show ?case by (auto intro: v4_restores.none)
next
  case (Cons d gs)
  then have d: "v4_genuine first gen lim d" "originals b ! d4_slot d = None" by simp_all
  note fill = v4_restores_single [OF Cons.prems(1) d]
  have "\<forall>g \<in> set gs. v4_genuine first gen lim g \<and> originals (v4_fill d b) ! d4_slot g = None"
    using Cons.prems(2,3) by (auto simp: v4_fill_def nth_list_update_neq image_iff)
  from Cons.IH [OF v4_restores_ok [OF fill] this, of "ds @ [d]" True] Cons.prems(3)
  obtain b' where "fold (v4_restore first) gs (v4_fill d b, ds @ [d], e, True) = (b', ds @ [d] @ gs, e, True)"
    "v4_restores first gen lim (v4_fill d b) gs b'" by auto
  then show ?case
    using v4_restore_genuine [OF d(1)] v4_restores_trans [OF _ fill] by (intro exI [of _ b']) fastforce
qed

lemma present_globals:
  assumes "length xs = 2"
  shows "present_slots xs = (if xs ! 0 = None then [] else [0]) @ (if xs ! 1 = None then [] else [1])"
  using assms by (simp add: present_slots_filter upt_rec)

lemma v4_global_deliveries_ok:
  assumes ok: "v4_block_ok first gen lim b"
  shows "case v4_global_deliveries b of
      None \<Rightarrow> \<not> global_recoverable b
    | Some gs \<Rightarrow> gs \<noteq> [] \<and> distinct (map d4_slot gs) \<and>
        (\<forall>d \<in> set gs. v4_genuine first gen lim d \<and> originals b ! d4_slot d = None)"
proof -
  note D = v4_block_okD [OF ok]
  have slot: "m < V3_BLOCK_MESSAGES \<and> originals b ! m = None \<and> \<not> v4_recovery_failed b ! m"
    if "m \<in> set (missing_slots (originals b))" for m using that D(1,4) by simp
  have present: "length (present_slots (v4_global_parities b)) =
      (if v4_global_parities b ! 0 = None then 0 else 1) + (if v4_global_parities b ! 1 = None then 0 else 1)"
    using D(3) by (simp add: present_globals)
  consider (none) "missing_slots (originals b) = []" | (one) m where "missing_slots (originals b) = [m]"
    | (two) m n where "missing_slots (originals b) = [m, n]"
    | (more) m n k ms where "missing_slots (originals b) = m # n # k # ms"
    by (metis remdups_adj.cases)
  then show ?thesis
  proof cases
    case one
    show ?thesis
    proof (cases "v4_global_parities b ! 0 = None \<and> v4_global_parities b ! 1 = None")
      case True
      then have "recover_one_global b m = None" using D(3) by (simp add: recover_one_global_def upt_rec)
      then show ?thesis using one True present by (simp add: v4_global_deliveries_def global_recoverable_def)
    next
      case False
      define g :: usize where "g = (if v4_global_parities b ! 0 = None then 1 else 0)"
      have g: "g < 2" "v4_global_parities b ! g \<noteq> None" using False by (auto simp: g_def)
      obtain at where "recover_one_global b m = Some (make_v3_payload (of_nat (first + m)), at)" "gen m \<le> at" "lim at"
        using recover_one_global_ok [OF ok one g] by blast
      then show ?thesis using slot [of m] one by (simp add: v4_global_deliveries_def v4_genuine_def)
    qed
  next
    case two
    have "m \<noteq> n" using arg_cong [OF two, of distinct] by simp
    show ?thesis
    proof (cases "v4_global_parities b ! 0 = None \<or> v4_global_parities b ! 1 = None")
      case True
      then have "recover_two_global b m n = None" by (auto simp: recover_two_global_def split: option.splits)
      then show ?thesis using two True present by (auto simp: v4_global_deliveries_def global_recoverable_def)
    next
      case False
      then obtain at where "recover_two_global b m n =
          Some ((make_v3_payload (of_nat (first + m)), make_v3_payload (of_nat (first + n))), at)" "gen m \<le> at" "gen n \<le> at" "lim at"
        using recover_two_global_ok [OF ok two] by blast
      then show ?thesis using slot [of m] slot [of n] two \<open>m \<noteq> n\<close>
        by (simp add: v4_global_deliveries_def v4_genuine_def)
    qed
  qed (use present in \<open>simp_all add: v4_global_deliveries_def global_recoverable_def\<close>)
qed

text \<open>What the loop leaves behind.\<close>

definition v4_closed :: "V4BlockState \<Rightarrow> bool" where
  "v4_closed block \<longleftrightarrow> (\<forall>p < V3_PAIR_PARITIES. \<not> pair_recoverable block p) \<and> \<not> global_recoverable block"

lemma v4_round_restores:
  assumes ok: "v4_block_ok first gen lim b"
  shows "\<exists>new b'. v4_round first b ds e = (b', ds @ new, e, new \<noteq> []) \<and>
    v4_restores first gen lim b new b' \<and> (new = [] \<longrightarrow> b' = b \<and> v4_closed b)"
proof -
  obtain n1 b1 where fold: "fold (v4_pair_step first) [0..<V3_PAIR_PARITIES] (b, ds, e, False) = (b1, ds @ n1, e, n1 \<noteq> [])"
    and b1: "v4_restores first gen lim b n1 b1"
    and c1: "n1 = [] \<longrightarrow> b1 = b \<and> (\<forall>p < V3_PAIR_PARITIES. \<not> pair_recoverable b p)"
    using v4_pairs_restore [OF ok, of "[0..<V3_PAIR_PARITIES]" ds e False] by auto
  note deliveries = v4_global_deliveries_ok [OF v4_restores_ok [OF b1]]
  show ?thesis
  proof (cases "v4_global_deliveries b1")
    case None
    then show ?thesis using fold b1 c1 deliveries
      by (intro exI [of _ n1] exI [of _ b1]) (auto simp: v4_round_def v4_closed_def)
  next
    case (Some gs)
    then obtain b2 where "fold (v4_restore first) gs (b1, ds @ n1, e, n1 \<noteq> []) = (b2, (ds @ n1) @ gs, e, n1 \<noteq> [] \<or> gs \<noteq> [])"
      and b2: "v4_restores first gen lim b1 gs b2" and "gs \<noteq> []"
      using v4_restore_all [OF v4_restores_ok [OF b1], of gs "ds @ n1" e "n1 \<noteq> []"] deliveries by auto
    then show ?thesis using fold Some v4_restores_trans [OF b2 b1]
      by (intro exI [of _ "n1 @ gs"] exI [of _ b2]) (simp add: v4_round_def)
  qed
qed

lemma recover_v4_loop_restores:
  assumes "v4_block_ok first gen lim b"
  shows "\<exists>new b'. recover_v4_loop first b ds e = Some (b', ds @ new, e) \<and> v4_restores first gen lim b new b' \<and> v4_closed b'"
  using assms
proof (induction "length (missing_slots (originals b))" arbitrary: b ds rule: less_induct)
  case less
  obtain n1 b1 where round: "v4_round first b ds e = (b1, ds @ n1, e, n1 \<noteq> [])"
    and b1: "v4_restores first gen lim b n1 b1" and c1: "n1 = [] \<longrightarrow> b1 = b \<and> v4_closed b"
    using v4_round_restores [OF less.prems] by blast
  show ?case
  proof (cases "n1 = []")
    case True
    then show ?thesis using round b1 c1
      by (intro exI [of _ "[]"] exI [of _ b]) (simp add: recover_v4_loop.simps)
  next
    case False
    then have "length (missing_slots (originals b1)) < length (missing_slots (originals b))"
      using v4_restores_missing [OF b1] by (cases n1) simp_all
    from less.hyps [OF this v4_restores_ok [OF b1], of "ds @ n1"] obtain n2 b2 where
      "recover_v4_loop first b1 (ds @ n1) e = Some (b2, (ds @ n1) @ n2, e)"
      and b2: "v4_restores first gen lim b1 n2 b2" and "v4_closed b2" by blast
    then show ?thesis using round False v4_restores_trans [OF b2 b1]
      by (intro exI [of _ "n1 @ n2"] exI [of _ b2]) (simp add: recover_v4_loop.simps [of first b])
  qed
qed

lemma v4_restores_slots:
  assumes "v4_restores first gen lim b ds b'"
  shows "distinct (map d4_slot ds)"
    and "\<forall>d \<in> set ds. v4_genuine first gen lim d \<and> originals b ! d4_slot d = None \<and> originals b' ! d4_slot d \<noteq> None"
    and "\<forall>i < V3_BLOCK_MESSAGES. i \<notin> d4_slot ` set ds \<longrightarrow> originals b' ! i = originals b ! i"
    and "pair_parities b' = pair_parities b" and "v4_global_parities b' = v4_global_parities b"
proof -
  have "distinct (map d4_slot ds) \<and>
      (\<forall>d \<in> set ds. v4_genuine first gen lim d \<and> originals b ! d4_slot d = None \<and> originals b' ! d4_slot d \<noteq> None) \<and>
      (\<forall>i < V3_BLOCK_MESSAGES. i \<notin> d4_slot ` set ds \<longrightarrow> originals b' ! i = originals b ! i) \<and>
      pair_parities b' = pair_parities b \<and> v4_global_parities b' = v4_global_parities b"
    using assms
  proof (induction rule: v4_restores.induct)
    case (fill ds b' d)
    have len: "length (originals b') = V3_BLOCK_MESSAGES" using v4_block_okD(1) [OF v4_restores_ok [OF fill.hyps(1)]] .
    have slot: "d4_slot d < V3_BLOCK_MESSAGES" using fill.hyps(2) by (simp add: v4_genuine_def)
    have "d4_slot d \<notin> d4_slot ` set ds" using fill.IH fill.hyps(3) by force
    then show ?case using fill.IH fill.hyps(2,3) len slot
      by (auto simp: v4_fill_def nth_list_update)
  qed simp
  then show "distinct (map d4_slot ds)"
    and "\<forall>d \<in> set ds. v4_genuine first gen lim d \<and> originals b ! d4_slot d = None \<and> originals b' ! d4_slot d \<noteq> None"
    and "\<forall>i < V3_BLOCK_MESSAGES. i \<notin> d4_slot ` set ds \<longrightarrow> originals b' ! i = originals b ! i"
    and "pair_parities b' = pair_parities b" and "v4_global_parities b' = v4_global_parities b" by blast+
qed

lemma recover_v4_block_restores:
  assumes "v4_block_ok first gen lim b"
  obtains new b' where "recover_v4_block b first = Some (b', new, 0)" "v4_restores first gen lim b new b'" "v4_closed b'"
  using recover_v4_loop_restores [OF assms, of "[]" 0] by (auto simp: recover_v4_block_def)

end
