(* ===== verification/Fec_Frame.thy ===== *)
theory Fec_Frame
  imports Fec_Code
begin

unbundle bit_operations_syntax

text \<open>
  The frames that carry the symbols of the erasure codes (\<open>realtime_v3.rs\<close>): the 220-byte frame of the
  pair and global code and the 107-byte frame of the two-of-three code, with their encoders and
  decoders.  A decoder accepts exactly the frames of its encoder, up to the payload digest, which the
  receiver compares later.
\<close>

section \<open>Layout\<close>

definition V3_MAGIC :: bytes where
  "V3_MAGIC = [0x46, 0x57, 0x43, 0x33]"

definition V3_VERSION :: u8 where
  "V3_VERSION = 3"

definition V3_HEADER_SIZE :: usize where
  "V3_HEADER_SIZE = 20"

definition V3_FRAME_SIZE :: usize where
  "V3_FRAME_SIZE = V3_HEADER_SIZE + V3_LOGICAL_MESSAGE_SIZE"

definition V12_MAGIC :: bytes where
  "V12_MAGIC = [0x46, 0x32]"

definition V12_HEADER_SIZE :: usize where
  "V12_HEADER_SIZE = 7"

definition V12_SHARD_SIZE :: usize where
  "V12_SHARD_SIZE = V3_LOGICAL_MESSAGE_SIZE div 2"

definition V12_FRAME_SIZE :: usize where
  "V12_FRAME_SIZE = V12_HEADER_SIZE + V12_SHARD_SIZE"

definition V12_MAX_BLOCK_ID :: usize where
  "V12_MAX_BLOCK_ID = u16_max"

definition V12_BLOCK_MESSAGES :: usize where
  "V12_BLOCK_MESSAGES = 20"

type_synonym V12Shard = bytes

datatype V3FrameKind = V3Original | V3PairParity | V3GlobalZero | V3GlobalOne

datatype V12FrameKind = V12Data0 | V12Data1 | V12LocalParity | V12Global

fun v3_kind_code :: "V3FrameKind \<Rightarrow> u8" where
  "v3_kind_code V3Original = 0"
| "v3_kind_code V3PairParity = 1"
| "v3_kind_code V3GlobalZero = 2"
| "v3_kind_code V3GlobalOne = 3"

fun v12_kind_code :: "V12FrameKind \<Rightarrow> u8" where
  "v12_kind_code V12Data0 = 0"
| "v12_kind_code V12Data1 = 1"
| "v12_kind_code V12LocalParity = 2"
| "v12_kind_code V12Global = 3"

definition v3_kind_try_from :: "u8 \<Rightarrow> unit + V3FrameKind" where
  "v3_kind_try_from v =
     (if v = 0 then Inr V3Original else if v = 1 then Inr V3PairParity
      else if v = 2 then Inr V3GlobalZero else if v = 3 then Inr V3GlobalOne else Inl ())"

definition v12_kind_try_from :: "u8 \<Rightarrow> unit + V12FrameKind" where
  "v12_kind_try_from v =
     (if v = 0 then Inr V12Data0 else if v = 1 then Inr V12Data1
      else if v = 2 then Inr V12LocalParity else if v = 3 then Inr V12Global else Inl ())"

record V3DecodedFrame =
  f3_kind :: V3FrameKind
  f3_symbol_index :: usize
  f3_block_id :: usize
  f3_first_sequence :: usize
  f3_payload_digest :: u32
  f3_payload :: V3Payload

record V12DecodedFrame =
  f12_kind :: V12FrameKind
  f12_symbol_index :: usize
  f12_block_id :: usize
  f12_first_sequence :: usize
  f12_payload_digest :: u16
  f12_payload :: V12Shard

section \<open>Codecs\<close>

definition digest :: "bytes \<Rightarrow> u64" where
  "digest data = foldl (\<lambda>hash byte. (hash * 0x100000001b3) XOR ucast byte) 0xcbf29ce484222325 data"

definition encode_v3_frame :: "V3FrameKind \<Rightarrow> usize \<Rightarrow> usize \<Rightarrow> usize \<Rightarrow> V3Payload \<Rightarrow> unit + bytes" where
  "encode_v3_frame kind symbol_index block_id first_sequence payload =
     try_then (ensure (symbol_index < 256) ()) (\<lambda>_.
     try_then (ensure (block_id \<le> u32_max) ()) (\<lambda>_.
     try_then (ensure (first_sequence \<le> u32_max) ()) (\<lambda>_.
     Inr (V3_MAGIC @ [V3_VERSION, v3_kind_code kind, of_nat symbol_index, 0] @
          to_be (of_nat block_id :: u32) @ to_be (of_nat first_sequence :: u32) @
          to_be (ucast (digest payload) :: u32) @ payload))))"

definition decode_v3_frame :: "bytes \<Rightarrow> unit + V3DecodedFrame" where
  "decode_v3_frame data =
     (if length data \<noteq> V3_FRAME_SIZE \<or> take 4 data \<noteq> V3_MAGIC \<or> data ! 4 \<noteq> V3_VERSION \<or> data ! 7 \<noteq> 0
      then Inl ()
      else try_then (v3_kind_try_from (data ! 5)) (\<lambda>kind.
        Inr \<lparr>f3_kind = kind,
             f3_symbol_index = unat (data ! 6),
             f3_block_id = unat (from_be (take 4 (drop 8 data)) :: u32),
             f3_first_sequence = unat (from_be (take 4 (drop 12 data)) :: u32),
             f3_payload_digest = from_be (take 4 (drop 16 data)),
             f3_payload = drop V3_HEADER_SIZE data\<rparr>))"

definition encode_v12_frame :: "V12FrameKind \<Rightarrow> usize \<Rightarrow> usize \<Rightarrow> V12Shard \<Rightarrow> unit + bytes" where
  "encode_v12_frame kind symbol_index block_id payload =
     try_then (ensure (symbol_index < 32) ()) (\<lambda>_.
     try_then (ensure (block_id \<le> V12_MAX_BLOCK_ID) ()) (\<lambda>_.
     Inr (V12_MAGIC @ [push_bit 6 (v12_kind_code kind) OR of_nat symbol_index] @
          to_be (of_nat block_id :: u16) @ to_be (ucast (digest payload) :: u16) @ payload)))"

definition decode_v12_frame :: "bytes \<Rightarrow> unit + V12DecodedFrame" where
  "decode_v12_frame data =
     (if length data \<noteq> V12_FRAME_SIZE \<or> take 2 data \<noteq> V12_MAGIC \<or> data ! 2 AND 0x20 \<noteq> 0 then Inl ()
      else try_then (v12_kind_try_from (drop_bit 6 (data ! 2))) (\<lambda>kind.
        let block_id = unat (from_be (take 2 (drop 3 data)) :: u16) in
        (case checked_mul_usize block_id V12_BLOCK_MESSAGES of
           None \<Rightarrow> Inl ()
         | Some first_sequence \<Rightarrow>
             Inr \<lparr>f12_kind = kind,
                  f12_symbol_index = unat (data ! 2 AND 0x1f),
                  f12_block_id = block_id,
                  f12_first_sequence = first_sequence,
                  f12_payload_digest = from_be (take 2 (drop 5 data)),
                  f12_payload = drop V12_HEADER_SIZE data\<rparr>)))"

section \<open>The decoders invert the encoders\<close>

lemma v3_kind_roundtrip [simp]: "v3_kind_try_from (v3_kind_code k) = Inr k"
  by (cases k) (simp_all add: v3_kind_try_from_def)

lemma v12_kind_roundtrip [simp]: "v12_kind_try_from (v12_kind_code k) = Inr k"
  by (cases k) (simp_all add: v12_kind_try_from_def)

lemma v3_kind_try_from_Inr: "v3_kind_try_from v = Inr k \<Longrightarrow> v = v3_kind_code k"
  by (auto simp: v3_kind_try_from_def split: if_splits)

lemma v12_kind_try_from_Inr: "v12_kind_try_from v = Inr k \<Longrightarrow> v = v12_kind_code k"
  by (auto simp: v12_kind_try_from_def split: if_splits)

definition v3_frame :: "V3FrameKind \<Rightarrow> usize \<Rightarrow> usize \<Rightarrow> usize \<Rightarrow> V3Payload \<Rightarrow> V3DecodedFrame" where
  "v3_frame kind symbol_index block_id first_sequence payload =
     \<lparr>f3_kind = kind, f3_symbol_index = symbol_index, f3_block_id = block_id, f3_first_sequence = first_sequence,
      f3_payload_digest = ucast (digest payload), f3_payload = payload\<rparr>"

definition v12_frame :: "V12FrameKind \<Rightarrow> usize \<Rightarrow> usize \<Rightarrow> V12Shard \<Rightarrow> V12DecodedFrame" where
  "v12_frame kind symbol_index block_id payload =
     \<lparr>f12_kind = kind, f12_symbol_index = symbol_index, f12_block_id = block_id,
      f12_first_sequence = block_id * V12_BLOCK_MESSAGES,
      f12_payload_digest = ucast (digest payload), f12_payload = payload\<rparr>"

lemma decode_encode_v3:
  assumes "encode_v3_frame kind i blk first payload = Inr data" and "length payload = V3_LOGICAL_MESSAGE_SIZE"
  shows "decode_v3_frame data = Inr (v3_frame kind i blk first payload)"
proof -
  from assms(1) have bounds: "i < 256" "blk < 2 ^ 32" "first < 2 ^ 32" and
    data: "data = V3_MAGIC @ [V3_VERSION, v3_kind_code kind, of_nat i, 0] @ to_be (of_nat blk :: u32) @
      to_be (of_nat first :: u32) @ to_be (ucast (digest payload) :: u32) @ payload"
    by (auto simp: encode_v3_frame_def result_simps u32_max_def)
  have "length data = V3_FRAME_SIZE"
    using assms(2) by (simp add: data V3_MAGIC_def codec_simps V3_FRAME_SIZE_def V3_HEADER_SIZE_def)
  then show ?thesis
    using bounds by (simp add: decode_v3_frame_def data V3_MAGIC_def V3_HEADER_SIZE_def v3_frame_def codec_simps
      unat_of_nat take_bit_nat_eq_self)
qed

lemma encode_decode_v3:
  assumes "decode_v3_frame data = Inr frame" and "f3_payload_digest frame = ucast (digest (f3_payload frame))"
  shows "encode_v3_frame (f3_kind frame) (f3_symbol_index frame) (f3_block_id frame) (f3_first_sequence frame)
      (f3_payload frame) = Inr data"
proof -
  from assms(1) obtain kind where len: "length data = V3_FRAME_SIZE" and magic: "take 4 data = V3_MAGIC"
    and v: "data ! 4 = V3_VERSION" "data ! 7 = 0" and kind: "data ! 5 = v3_kind_code kind"
    and frame: "frame = \<lparr>f3_kind = kind, f3_symbol_index = unat (data ! 6),
      f3_block_id = unat (from_be (take 4 (drop 8 data)) :: u32),
      f3_first_sequence = unat (from_be (take 4 (drop 12 data)) :: u32),
      f3_payload_digest = from_be (take 4 (drop 16 data)), f3_payload = drop V3_HEADER_SIZE data\<rparr>"
    by (auto simp: decode_v3_frame_def result_simps dest: v3_kind_try_from_Inr split: if_splits)
  have len': "length data \<ge> 20" using len by (simp add: V3_FRAME_SIZE_def V3_HEADER_SIZE_def)
  have four: "drop 4 data = [data ! 4, data ! 5, data ! 6, data ! 7] @ drop 8 data"
    using len' Cons_nth_drop_Suc [of 4 data] Cons_nth_drop_Suc [of 5 data] Cons_nth_drop_Suc [of 6 data]
      Cons_nth_drop_Suc [of 7 data] by simp
  have "data = take 4 data @ drop 4 data" by simp
  also have "\<dots> = V3_MAGIC @ [V3_VERSION, v3_kind_code kind, data ! 6, 0] @
      take 4 (drop 8 data) @ take 4 (drop 12 data) @ take 4 (drop 16 data) @ drop 20 data"
    using magic v kind drop_split [of 8 data 4] drop_split [of 12 data 4] drop_split [of 16 data 4]
    by (simp add: four)
  finally have data: "data = \<dots>" .
  have "to_be (ucast (digest (drop 20 data)) :: u32) = take 4 (drop 16 data)"
    using assms(2) len' be32.enc_dec [of "take 4 (drop 16 data)"] by (simp add: frame V3_HEADER_SIZE_def)
  moreover have "unat (w :: u32) \<le> u32_max" for w
    using unat_lt [of w] by (simp add: u32_max_def)
  moreover have "unat (data ! 6) < 256" by (rule unat_u8_lt)
  ultimately show ?thesis
    using len' data [symmetric] by (simp add: encode_v3_frame_def frame be32.enc_dec V3_HEADER_SIZE_def)
qed

text \<open>The third byte of the small frame holds the kind in two bits and the position in five.\<close>

lemma small_bits: "s < 32 \<Longrightarrow> take_bit 5 (of_nat s :: u8) = of_nat s"
  by (simp add: take_bit_of_nat take_bit_nat_eq_self)

lemma and_1f: "w AND 0x1f = take_bit 5 w" for w :: u8
  by (simp add: take_bit_eq_mask mask_eq_exp_minus_1)

lemma and_20: "w AND 0x20 = 0 \<longleftrightarrow> \<not> bit w 5" for w :: u8
  using and_exp_eq_0_iff_not_bit [of w 5] by simp

lemma packed_byte:
  fixes k w :: u8
  assumes "take_bit 2 k = k" and "take_bit 5 w = w"
  shows "drop_bit 6 (push_bit 6 k OR w) = k" "take_bit 5 (push_bit 6 k OR w) = w" "\<not> bit (push_bit 6 k OR w) 5"
proof -
  have k: "bit k n \<Longrightarrow> n < 2" and w: "bit w n \<Longrightarrow> n < 5" for n
    using assms bit_take_bit_iff [of 2 k n] bit_take_bit_iff [of 5 w n] by auto
  show "drop_bit 6 (push_bit 6 k OR w) = k"
    by (rule bit_word_eqI) (auto simp: bit_simps dest: k w)
  show "take_bit 5 (push_bit 6 k OR w) = w"
    by (rule bit_word_eqI) (auto simp: bit_simps dest: k w)
  show "\<not> bit (push_bit 6 k OR w) 5" by (auto simp: bit_simps dest: w)
qed

lemma unpacked_byte: "\<not> bit b 5 \<Longrightarrow> push_bit 6 (drop_bit 6 b) OR take_bit 5 b = b" for b :: u8
proof (rule bit_word_eqI)
  fix n assume "\<not> bit b 5" "n < LENGTH(8)"
  then show "bit (push_bit 6 (drop_bit 6 b) OR take_bit 5 b) n = bit b n"
    by (cases "n < 5"; cases "n = 5") (auto simp: bit_simps)
qed

lemma v12_kind_code_bits [simp]: "take_bit 2 (v12_kind_code k) = v12_kind_code k"
  by (cases k) simp_all

lemma decode_encode_v12:
  assumes "encode_v12_frame kind i blk payload = Inr data" and "length payload = V12_SHARD_SIZE"
  shows "decode_v12_frame data = Inr (v12_frame kind i blk payload)"
proof -
  define c :: u8 where "c = push_bit 6 (v12_kind_code kind) OR of_nat i"
  from assms(1) have bounds: "i < 32" "blk < 2 ^ 16" and
    data: "data = V12_MAGIC @ [c] @ to_be (of_nat blk :: u16) @ to_be (ucast (digest payload) :: u16) @ payload"
    by (auto simp: encode_v12_frame_def result_simps V12_MAX_BLOCK_ID_def u16_max_def c_def)
  have byte: "drop_bit 6 c = v12_kind_code kind" "take_bit 5 c = of_nat i" "\<not> bit c 5"
    using packed_byte [OF v12_kind_code_bits small_bits [OF bounds(1)], of kind] by (simp_all only: c_def not_False_eq_True)
  have "length data = V12_FRAME_SIZE"
    using assms(2) by (simp add: data V12_MAGIC_def codec_simps V12_FRAME_SIZE_def V12_HEADER_SIZE_def)
  moreover have "checked_mul_usize blk V12_BLOCK_MESSAGES = Some (blk * V12_BLOCK_MESSAGES)"
    using bounds by (simp add: rust_arith V12_BLOCK_MESSAGES_def)
  ultimately show ?thesis
    using bounds by (simp add: decode_v12_frame_def data V12_MAGIC_def V12_HEADER_SIZE_def v12_frame_def codec_simps
      byte and_1f and_20 unat_of_nat Let_def)
qed

lemma encode_decode_v12:
  assumes "decode_v12_frame data = Inr frame" and "f12_payload_digest frame = ucast (digest (f12_payload frame))"
  shows "encode_v12_frame (f12_kind frame) (f12_symbol_index frame) (f12_block_id frame) (f12_payload frame) = Inr data"
proof -
  from assms(1) obtain kind where len: "length data = V12_FRAME_SIZE" and magic: "take 2 data = V12_MAGIC"
    and bit5: "\<not> bit (data ! 2) 5" and kind: "drop_bit 6 (data ! 2) = v12_kind_code kind"
    and frame: "f12_kind frame = kind" "f12_symbol_index frame = unat (take_bit 5 (data ! 2))"
      "f12_block_id frame = unat (from_be (take 2 (drop 3 data)) :: u16)"
      "f12_payload_digest frame = from_be (take 2 (drop 5 data))" "f12_payload frame = drop 7 data"
    by (auto simp: decode_v12_frame_def result_simps Let_def and_1f and_20 V12_HEADER_SIZE_def
        dest!: v12_kind_try_from_Inr split: if_splits option.splits)
  have len': "length data \<ge> 7" using len by (simp add: V12_FRAME_SIZE_def V12_HEADER_SIZE_def)
  have "data = take 2 data @ drop 2 data" by simp
  also have "\<dots> = V12_MAGIC @ [data ! 2] @ take 2 (drop 3 data) @ take 2 (drop 5 data) @ drop 7 data"
    using magic len' Cons_nth_drop_Suc [of 2 data] drop_split [of 3 data 2] drop_split [of 5 data 2] by simp
  finally have data: "data = \<dots>" .
  have "to_be (ucast (digest (drop 7 data)) :: u16) = take 2 (drop 5 data)"
    using assms(2) len' be16.enc_dec [of "take 2 (drop 5 data)"] by (simp add: frame)
  moreover have "push_bit 6 (v12_kind_code kind) OR take_bit 5 (data ! 2) = data ! 2"
    using unpacked_byte [OF bit5] kind by simp
  moreover have "unat (take_bit 5 (data ! 2)) < 32"
    by (simp add: unsigned_take_bit_eq take_bit_nat_less_exp [of 5, simplified])
  ultimately show ?thesis
    using len' data [symmetric] unat_u16_le
    by (simp add: encode_v12_frame_def frame be16.enc_dec V12_MAX_BLOCK_ID_def u16_max_def)
qed

section \<open>Properties\<close>

text \<open>
  C36.  For both frame formats decoding and encoding are inverse: an encoded frame decodes to its fields
  with the digest of its payload, and a datagram that decodes to a frame with the right digest is the
  encoding of that frame and of no other.  The decoder itself does not check the digest; its callers do.
\<close>

theorem frame_codecs_inverse:
  "(\<forall>kind i blk first p data. length p = V3_LOGICAL_MESSAGE_SIZE \<longrightarrow>
     encode_v3_frame kind i blk first p = Inr data \<longrightarrow> decode_v3_frame data = Inr (v3_frame kind i blk first p)) \<and>
   (\<forall>data f. decode_v3_frame data = Inr f \<longrightarrow> f3_payload_digest f = ucast (digest (f3_payload f)) \<longrightarrow>
     encode_v3_frame (f3_kind f) (f3_symbol_index f) (f3_block_id f) (f3_first_sequence f) (f3_payload f) = Inr data) \<and>
   (\<forall>kind i blk p data. length p = V12_SHARD_SIZE \<longrightarrow>
     encode_v12_frame kind i blk p = Inr data \<longrightarrow> decode_v12_frame data = Inr (v12_frame kind i blk p)) \<and>
   (\<forall>data f. decode_v12_frame data = Inr f \<longrightarrow> f12_payload_digest f = ucast (digest (f12_payload f)) \<longrightarrow>
     encode_v12_frame (f12_kind f) (f12_symbol_index f) (f12_block_id f) (f12_payload f) = Inr data)"
  using decode_encode_v3 encode_decode_v3 decode_encode_v12 encode_decode_v12 by blast

theorem frame_codecs_inverse_witness:
  "\<exists>data. encode_v12_frame V12Global 2 7 (replicate V12_SHARD_SIZE 0) = Inr data \<and>
     decode_v12_frame data = Inr (v12_frame V12Global 2 7 (replicate V12_SHARD_SIZE 0))"
proof -
  obtain data where "encode_v12_frame V12Global 2 7 (replicate V12_SHARD_SIZE 0) = Inr data"
    by (simp add: encode_v12_frame_def V12_MAX_BLOCK_ID_def u16_max_def)
  then show ?thesis using frame_codecs_inverse by (metis length_replicate)
qed

end
