(* ===== verification/Fec_V4_Accounting.thy ===== *)
theory Fec_V4_Accounting
  imports Fec_V4 Fec_Frame
begin

text \<open>
  The accounting of the pair and global code (\<open>V4Accounting\<close> of \<open>realtime_v3.rs\<close>): every received
  datagram is decoded, compared with the frame the sender makes, stored in its block, and the messages
  that this completes are counted once.  The receive loop and the report built from the counters are
  modelled with the outcomes of the channel as arguments.
\<close>

section \<open>The accounting record\<close>

record RealtimeDatagramEvent =
  ev_data :: bytes
  ev_received_at :: instant

datatype RealtimeError = TimeBeforeStart | TimeOutOfRange | ChannelClosed

record V4Accounting =
  a4_blocks :: "V4BlockState list"
  a4_first_correct :: "bool list"
  a4_latencies :: "duration list"
  a4_observed_frames :: usize
  a4_decoded_frames :: usize
  a4_observed_original_frames :: usize
  a4_observed_pair_parity_frames :: usize
  a4_observed_global_zero_frames :: usize
  a4_observed_global_one_frames :: usize
  a4_original_deliveries :: usize
  a4_pair_recoveries :: usize
  a4_global_recoveries :: usize
  a4_valid_messages :: usize
  a4_late_messages :: usize
  a4_duplicate_messages :: usize
  a4_malformed_frames :: usize
  a4_invalid_header_frames :: usize
  a4_digest_error_frames :: usize
  a4_content_error_frames :: usize
  a4_recovery_error_messages :: usize
  a4_timestamp_error_messages :: usize

definition V4Accounting_new :: "usize \<Rightarrow> V4Accounting" where
  "V4Accounting_new logical_messages =
     \<lparr>a4_blocks = map (\<lambda>_. V4BlockState_default) [0..<logical_messages div V3_BLOCK_MESSAGES],
      a4_first_correct = replicate logical_messages False, a4_latencies = [],
      a4_observed_frames = 0, a4_decoded_frames = 0, a4_observed_original_frames = 0,
      a4_observed_pair_parity_frames = 0, a4_observed_global_zero_frames = 0, a4_observed_global_one_frames = 0,
      a4_original_deliveries = 0, a4_pair_recoveries = 0, a4_global_recoveries = 0,
      a4_valid_messages = 0, a4_late_messages = 0, a4_duplicate_messages = 0, a4_malformed_frames = 0,
      a4_invalid_header_frames = 0, a4_digest_error_frames = 0, a4_content_error_frames = 0,
      a4_recovery_error_messages = 0, a4_timestamp_error_messages = 0\<rparr>"

definition expected_v3_frame_payload :: "V3DecodedFrame \<Rightarrow> usize \<Rightarrow> V3Payload option" where
  "expected_v3_frame_payload frame logical_messages =
     (case f3_kind frame of
        V3Original \<Rightarrow>
          if f3_symbol_index frame \<ge> V3_BLOCK_MESSAGES then None
          else Option.bind (checked_add_usize (f3_first_sequence frame) (f3_symbol_index frame)) (\<lambda>sequence.
            if sequence < logical_messages then Some (make_v3_payload (of_nat sequence)) else None)
      | V3PairParity \<Rightarrow>
          if f3_symbol_index frame \<ge> V3_PAIR_PARITIES then None
          else Option.bind (checked_mul_usize (f3_symbol_index frame) 2) (\<lambda>offset.
            Option.bind (checked_add_usize (f3_first_sequence frame) offset) (\<lambda>first.
            Option.bind (checked_add_usize first 1) (\<lambda>second.
            if second \<ge> logical_messages then None
            else Some (xor_payloads (make_v3_payload (of_nat first)) (make_v3_payload (of_nat (first + 1)))))))
      | _ \<Rightarrow>
          if f3_symbol_index frame \<noteq> 0 then None
          else Option.bind (checked_add_usize (f3_first_sequence frame) V3_BLOCK_MESSAGES) (\<lambda>last.
            if last > logical_messages then None
            else let payloads = make_v3_block_payloads (of_nat (f3_first_sequence frame));
                     (zero, one) = make_global_parities payloads
                 in Some (if f3_kind frame = V3GlobalZero then zero else one)))"

text \<open>
  The result of a recording is the state with the value of the function; the outer option is \<open>None\<close>
  where an index is out of range.
\<close>

definition v4_received_micros :: "instant \<Rightarrow> instant \<Rightarrow> RealtimeError + nat" where
  "v4_received_micros available_at experiment_started =
     (case checked_duration_since available_at experiment_started of
        None \<Rightarrow> Inl TimeBeforeStart
      | Some elapsed \<Rightarrow> if elapsed div 1000 \<le> u64_max then Inr (elapsed div 1000) else Inl TimeOutOfRange)"

definition v4_count_delivery :: "V4Delivery \<Rightarrow> usize \<Rightarrow> duration \<Rightarrow> V4Accounting \<Rightarrow> V4Accounting" where
  "v4_count_delivery d sequence latency acc =
     (let acc = acc\<lparr>a4_first_correct := (a4_first_correct acc)[sequence := True],
                    a4_latencies := a4_latencies acc @ [latency]\<rparr>;
          acc = (if latency \<le> 300000000 then acc\<lparr>a4_valid_messages := inc (a4_valid_messages acc)\<rparr>
                 else acc\<lparr>a4_late_messages := inc (a4_late_messages acc)\<rparr>)
      in case d4_source d of
           V4Original \<Rightarrow> acc\<lparr>a4_original_deliveries := inc (a4_original_deliveries acc)\<rparr>
         | V4Pair \<Rightarrow> acc\<lparr>a4_pair_recoveries := inc (a4_pair_recoveries acc)\<rparr>
         | V4Global \<Rightarrow> acc\<lparr>a4_global_recoveries := inc (a4_global_recoveries acc)\<rparr>)"

definition v4_record_delivery ::
  "usize \<Rightarrow> V4Delivery \<Rightarrow> instant \<Rightarrow> nat list \<Rightarrow> V4Accounting \<Rightarrow> (V4Accounting \<times> (RealtimeError + unit)) option" where
  "v4_record_delivery sequence d experiment_started generated_micros acc =
     (if sequence \<ge> length generated_micros then
        Some (acc\<lparr>a4_invalid_header_frames := inc (a4_invalid_header_frames acc)\<rparr>, Inr ())
      else if sequence \<ge> length (a4_first_correct acc) then None
      else if a4_first_correct acc ! sequence then
        Some (acc\<lparr>a4_duplicate_messages := inc (a4_duplicate_messages acc)\<rparr>, Inr ())
      else if d4_payload d \<noteq> make_v3_payload (of_nat sequence) then
        Some (acc\<lparr>a4_recovery_error_messages := inc (a4_recovery_error_messages acc)\<rparr>, Inr ())
      else case v4_received_micros (d4_available_at d) experiment_started of
        Inl e \<Rightarrow> Some (acc, Inl e)
      | Inr received_micros \<Rightarrow>
          let generated = generated_micros ! sequence in
          if generated > received_micros then
            Some (acc\<lparr>a4_timestamp_error_messages := inc (a4_timestamp_error_messages acc)\<rparr>, Inr ())
          else Some (v4_count_delivery d sequence ((received_micros - generated) * 1000) acc, Inr ()))"

primrec v4_record_deliveries ::
  "usize \<Rightarrow> V4Delivery list \<Rightarrow> instant \<Rightarrow> nat list \<Rightarrow> V4Accounting \<Rightarrow> (V4Accounting \<times> (RealtimeError + unit)) option" where
  "v4_record_deliveries first_sequence [] experiment_started generated_micros acc = Some (acc, Inr ())"
| "v4_record_deliveries first_sequence (d # ds) experiment_started generated_micros acc =
     (case v4_record_delivery (first_sequence + d4_slot d) d experiment_started generated_micros acc of
        None \<Rightarrow> None
      | Some (acc, Inl e) \<Rightarrow> Some (acc, Inl e)
      | Some (acc, Inr _) \<Rightarrow> v4_record_deliveries first_sequence ds experiment_started generated_micros acc)"

text \<open>Storing the symbol of an accepted frame; \<open>None\<close> is the early return at a duplicate original.\<close>

definition get_or_insert :: "usize \<Rightarrow> 'a \<Rightarrow> 'a option list \<Rightarrow> 'a option list" where
  "get_or_insert i v xs = (if xs ! i = None then xs[i := Some v] else xs)"

definition v4_store :: "V3DecodedFrame \<Rightarrow> instant \<Rightarrow> V4BlockState \<Rightarrow> V4Accounting \<Rightarrow>
    V4Accounting \<times> (V4BlockState \<times> V4Delivery list) option" where
  "v4_store frame received_at block acc =
     (let symbol = \<lparr>s4_payload = f3_payload frame, s4_available_at = received_at\<rparr> in
      case f3_kind frame of
        V3Original \<Rightarrow>
          let acc = acc\<lparr>a4_observed_original_frames := inc (a4_observed_original_frames acc)\<rparr> in
          if originals block ! f3_symbol_index frame \<noteq> None then
            (acc\<lparr>a4_duplicate_messages := inc (a4_duplicate_messages acc)\<rparr>, None)
          else (acc, Some (block\<lparr>originals := (originals block)[f3_symbol_index frame := Some symbol]\<rparr>,
                 [\<lparr>d4_slot = f3_symbol_index frame, d4_payload = f3_payload frame, d4_available_at = received_at,
                   d4_source = V4Original\<rparr>]))
      | V3PairParity \<Rightarrow>
          (acc\<lparr>a4_observed_pair_parity_frames := inc (a4_observed_pair_parity_frames acc)\<rparr>,
           Some (block\<lparr>pair_parities := get_or_insert (f3_symbol_index frame) symbol (pair_parities block)\<rparr>, []))
      | V3GlobalZero \<Rightarrow>
          (acc\<lparr>a4_observed_global_zero_frames := inc (a4_observed_global_zero_frames acc)\<rparr>,
           Some (block\<lparr>v4_global_parities := get_or_insert 0 symbol (v4_global_parities block)\<rparr>, []))
      | V3GlobalOne \<Rightarrow>
          (acc\<lparr>a4_observed_global_one_frames := inc (a4_observed_global_one_frames acc)\<rparr>,
           Some (block\<lparr>v4_global_parities := get_or_insert 1 symbol (v4_global_parities block)\<rparr>, [])))"

text \<open>The part of \<open>record\<close> after the checks of the frame.\<close>

definition v4_accept :: "V3DecodedFrame \<Rightarrow> instant \<Rightarrow> instant \<Rightarrow> nat list \<Rightarrow> V4Accounting \<Rightarrow>
    (V4Accounting \<times> (RealtimeError + unit)) option" where
  "v4_accept frame received_at experiment_started generated_micros acc =
     (case v4_store frame received_at (a4_blocks acc ! f3_block_id frame) acc of
        (acc, None) \<Rightarrow> Some (acc, Inr ())
      | (acc, Some (block, deliveries)) \<Rightarrow>
          (case recover_v4_block block (f3_first_sequence frame) of
             None \<Rightarrow> None
           | Some (block, recovered, recovery_errors) \<Rightarrow>
               v4_record_deliveries (f3_first_sequence frame) (deliveries @ recovered) experiment_started generated_micros
                 (acc\<lparr>a4_blocks := (a4_blocks acc)[f3_block_id frame := block],
                      a4_recovery_error_messages := sat_add_usize (a4_recovery_error_messages acc) recovery_errors\<rparr>)))"

definition v4_record :: "RealtimeDatagramEvent \<Rightarrow> instant \<Rightarrow> nat list \<Rightarrow> V4Accounting \<Rightarrow>
    (V4Accounting \<times> (RealtimeError + unit)) option" where
  "v4_record event experiment_started generated_micros acc =
     (let acc = acc\<lparr>a4_observed_frames := inc (a4_observed_frames acc)\<rparr> in
      case decode_v3_frame (ev_data event) of
        Inl _ \<Rightarrow> Some (acc\<lparr>a4_malformed_frames := inc (a4_malformed_frames acc)\<rparr>, Inr ())
      | Inr frame \<Rightarrow>
          let acc = acc\<lparr>a4_decoded_frames := inc (a4_decoded_frames acc)\<rparr> in
          if f3_block_id frame \<ge> length (a4_blocks acc) \<or>
             f3_first_sequence frame \<noteq> f3_block_id frame * V3_BLOCK_MESSAGES then
            Some (acc\<lparr>a4_invalid_header_frames := inc (a4_invalid_header_frames acc)\<rparr>, Inr ())
          else case expected_v3_frame_payload frame (length generated_micros) of
            None \<Rightarrow> Some (acc\<lparr>a4_invalid_header_frames := inc (a4_invalid_header_frames acc)\<rparr>, Inr ())
          | Some expected_payload \<Rightarrow>
              if ucast (digest (f3_payload frame)) \<noteq> f3_payload_digest frame then
                Some (acc\<lparr>a4_digest_error_frames := inc (a4_digest_error_frames acc)\<rparr>, Inr ())
              else if f3_payload frame \<noteq> expected_payload then
                Some (acc\<lparr>a4_content_error_frames := inc (a4_content_error_frames acc)\<rparr>, Inr ())
              else v4_accept frame (ev_received_at event) experiment_started generated_micros acc)"

section \<open>Deliveries are counted once\<close>

lemma filter_update_True:
  assumes "i < length xs" and "\<not> xs ! i"
  shows "length (filter id (xs[i := True])) = Suc (length (filter id xs))"
proof -
  have "xs = take i xs @ False # drop (Suc i) xs" using id_take_nth_drop [OF assms(1)] assms(2) by simp
  then have "length (filter id xs) = length (filter id (take i xs)) + length (filter id (drop (Suc i) xs))"
    by (metis filter.simps(2) filter_append id_apply length_append)
  then show ?thesis using assms by (simp add: upd_conv_take_nth_drop)
qed

lemma filter_id_less: "i < length xs \<Longrightarrow> \<not> xs ! i \<Longrightarrow> length (filter id xs) < length xs"
  using length_filter_less [of "xs ! i" xs id] nth_mem [of i xs] by simp

text \<open>
  The counters of deliveries agree with each other and with the flags of the messages; the counters of
  frames, which the deliveries leave alone, are compared separately.
\<close>

definition v4_deliveries_ok :: "V4Accounting \<Rightarrow> bool" where
  "v4_deliveries_ok acc \<longleftrightarrow>
     (let n = length (filter id (a4_first_correct acc)) in
      a4_valid_messages acc + a4_late_messages acc = n \<and>
      a4_original_deliveries acc + a4_pair_recoveries acc + a4_global_recoveries acc = n \<and>
      length (a4_latencies acc) = n)"

definition v4_same_frames :: "V4Accounting \<Rightarrow> V4Accounting \<Rightarrow> bool" where
  "v4_same_frames acc acc' \<longleftrightarrow>
     a4_blocks acc' = a4_blocks acc \<and> length (a4_first_correct acc') = length (a4_first_correct acc) \<and>
     a4_observed_frames acc' = a4_observed_frames acc \<and> a4_decoded_frames acc' = a4_decoded_frames acc \<and>
     a4_observed_original_frames acc' = a4_observed_original_frames acc \<and>
     a4_observed_pair_parity_frames acc' = a4_observed_pair_parity_frames acc \<and>
     a4_observed_global_zero_frames acc' = a4_observed_global_zero_frames acc \<and>
     a4_observed_global_one_frames acc' = a4_observed_global_one_frames acc \<and>
     a4_malformed_frames acc' = a4_malformed_frames acc \<and>
     a4_invalid_header_frames acc' = a4_invalid_header_frames acc \<and>
     a4_digest_error_frames acc' = a4_digest_error_frames acc \<and>
     a4_content_error_frames acc' = a4_content_error_frames acc \<and>
     a4_recovery_error_messages acc' = a4_recovery_error_messages acc"

lemma v4_same_frames_refl [simp]: "v4_same_frames acc acc"
  by (simp add: v4_same_frames_def)

lemma v4_same_frames_trans: "v4_same_frames a b \<Longrightarrow> v4_same_frames b c \<Longrightarrow> v4_same_frames a c"
  by (simp add: v4_same_frames_def)

lemma v4_count_delivery_ok:
  assumes "v4_deliveries_ok acc" and "sequence < length (a4_first_correct acc)" and "\<not> a4_first_correct acc ! sequence"
    and "length (a4_first_correct acc) \<le> usize_max"
  shows "v4_deliveries_ok (v4_count_delivery d sequence latency acc)"
    and "v4_same_frames acc (v4_count_delivery d sequence latency acc)"
    and "a4_first_correct (v4_count_delivery d sequence latency acc) = (a4_first_correct acc)[sequence := True]"
    and "a4_timestamp_error_messages (v4_count_delivery d sequence latency acc) = a4_timestamp_error_messages acc"
proof -
  have inc: "inc n = Suc n" if "n \<le> length (filter id (a4_first_correct acc))" for n
    using filter_id_less [OF assms(2,3)] that assms(4) by (simp add: inc_Suc)
  show "v4_deliveries_ok (v4_count_delivery d sequence latency acc)"
    using assms(1) filter_update_True [OF assms(2,3)]
    by (auto simp: v4_deliveries_ok_def v4_count_delivery_def Let_def inc split: V4DeliverySource.splits)
  show "v4_same_frames acc (v4_count_delivery d sequence latency acc)"
    by (simp add: v4_same_frames_def v4_count_delivery_def Let_def split: V4DeliverySource.splits)
  show "a4_first_correct (v4_count_delivery d sequence latency acc) = (a4_first_correct acc)[sequence := True]"
    "a4_timestamp_error_messages (v4_count_delivery d sequence latency acc) = a4_timestamp_error_messages acc"
    by (simp_all add: v4_count_delivery_def Let_def split: V4DeliverySource.splits)
qed

text \<open>
  Recording a genuine delivery of a message not seen before; it is counted unless the clock is
  inconsistent, which cannot happen when it is available after its generation.
\<close>

definition v4_clock :: "instant \<Rightarrow> nat list \<Rightarrow> usize \<Rightarrow> instant" where
  "v4_clock started gens s = started + gens ! s * 1000"

lemma v4_record_delivery_ok:
  assumes d: "d4_payload d = make_v3_payload (of_nat sequence)" and seq: "sequence < length gens"
    and len: "length (a4_first_correct acc) = length gens" "length gens \<le> usize_max"
    and new: "\<not> a4_first_correct acc ! sequence" and ok: "v4_deliveries_ok acc"
  obtains acc' r where "v4_record_delivery sequence d started gens acc = Some (acc', r)"
    "v4_deliveries_ok acc'" "v4_same_frames acc acc'"
    "\<And>s. s \<noteq> sequence \<Longrightarrow> a4_first_correct acc' ! s = a4_first_correct acc ! s"
    "v4_clock started gens sequence \<le> d4_available_at d \<Longrightarrow> d4_available_at d \<le> started + u64_max \<Longrightarrow>
      r = Inr () \<and> a4_first_correct acc' ! sequence \<and> a4_timestamp_error_messages acc' = a4_timestamp_error_messages acc"
proof (cases "v4_received_micros (d4_available_at d) started")
  case (Inl e)
  then have "\<not> (v4_clock started gens sequence \<le> d4_available_at d \<and> d4_available_at d \<le> started + u64_max)"
    by (auto simp: v4_received_micros_def v4_clock_def checked_duration_since_def u64_max_def split: if_splits)
  then show thesis using that [of acc "Inl e"] assms Inl by (simp add: v4_record_delivery_def)
next
  case (Inr micros)
  then have m: "micros = (d4_available_at d - started) div 1000"
    by (auto simp: v4_received_micros_def checked_duration_since_def split: if_splits)
  show thesis
  proof (cases "gens ! sequence > micros")
    case True
    then have "\<not> v4_clock started gens sequence \<le> d4_available_at d" by (auto simp: m v4_clock_def div_less_iff_less_mult)
    then show thesis
      using that [of "acc\<lparr>a4_timestamp_error_messages := inc (a4_timestamp_error_messages acc)\<rparr>" "Inr ()"] assms Inr True
      by (simp add: v4_record_delivery_def v4_deliveries_ok_def v4_same_frames_def)
  next
    case False
    have l: "sequence < length (a4_first_correct acc)" "length (a4_first_correct acc) \<le> usize_max" using seq len by simp_all
    note counted = v4_count_delivery_ok [OF ok l(1) new l(2), of d "(micros - gens ! sequence) * 1000"]
    show thesis
      using that [of "v4_count_delivery d sequence ((micros - gens ! sequence) * 1000) acc" "Inr ()"] assms Inr False counted l
      by (simp add: v4_record_delivery_def)
  qed
qed

lemma v4_record_deliveries_ok:
  assumes "\<forall>d \<in> set ds. d4_payload d = make_v3_payload (of_nat (first + d4_slot d)) \<and> first + d4_slot d < length gens \<and>
      \<not> a4_first_correct acc ! (first + d4_slot d)"
    and "distinct (map d4_slot ds)" and "length (a4_first_correct acc) = length gens" "length gens \<le> usize_max"
    and "v4_deliveries_ok acc"
  shows "\<exists>acc' r. v4_record_deliveries first ds started gens acc = Some (acc', r) \<and>
    v4_deliveries_ok acc' \<and> v4_same_frames acc acc' \<and>
    (\<forall>s. s \<notin> (\<lambda>d. first + d4_slot d) ` set ds \<longrightarrow> a4_first_correct acc' ! s = a4_first_correct acc ! s) \<and>
    ((\<forall>d \<in> set ds. v4_clock started gens (first + d4_slot d) \<le> d4_available_at d \<and> d4_available_at d \<le> started + u64_max) \<longrightarrow>
      r = Inr () \<and> (\<forall>d \<in> set ds. a4_first_correct acc' ! (first + d4_slot d)) \<and>
      a4_timestamp_error_messages acc' = a4_timestamp_error_messages acc)"
  using assms
proof (induction ds arbitrary: acc)
  case (Cons d ds)
  then have d: "d4_payload d = make_v3_payload (of_nat (first + d4_slot d))" "first + d4_slot d < length gens"
    "\<not> a4_first_correct acc ! (first + d4_slot d)" by simp_all
  let ?timely = "\<lambda>d. v4_clock started gens (first + d4_slot d) \<le> d4_available_at d \<and> d4_available_at d \<le> started + u64_max"
  obtain acc1 r1 where one: "v4_record_delivery (first + d4_slot d) d started gens acc = Some (acc1, r1)"
    "v4_deliveries_ok acc1" "v4_same_frames acc acc1"
    "\<And>s. s \<noteq> first + d4_slot d \<Longrightarrow> a4_first_correct acc1 ! s = a4_first_correct acc ! s"
    "?timely d \<Longrightarrow> r1 = Inr () \<and> a4_first_correct acc1 ! (first + d4_slot d) \<and>
      a4_timestamp_error_messages acc1 = a4_timestamp_error_messages acc"
    using v4_record_delivery_ok [OF d(1,2) Cons.prems(3,4) d(3) Cons.prems(5), of started] by blast
  show ?case
  proof (cases r1)
    case (Inl e)
    then show ?thesis using one by auto
  next
    case (Inr u)
    have "length (a4_first_correct acc1) = length gens" using one(3) Cons.prems(3) by (simp add: v4_same_frames_def)
    moreover have "\<forall>d' \<in> set ds. \<not> a4_first_correct acc1 ! (first + d4_slot d')"
      using Cons.prems(1,2) one(4) by (auto simp: image_iff)
    ultimately obtain acc2 r2 where two: "v4_record_deliveries first ds started gens acc1 = Some (acc2, r2)"
      "v4_deliveries_ok acc2" "v4_same_frames acc1 acc2"
      "\<forall>s. s \<notin> (\<lambda>d. first + d4_slot d) ` set ds \<longrightarrow> a4_first_correct acc2 ! s = a4_first_correct acc1 ! s"
      "(\<forall>d \<in> set ds. ?timely d) \<longrightarrow> r2 = Inr () \<and> (\<forall>d \<in> set ds. a4_first_correct acc2 ! (first + d4_slot d)) \<and>
        a4_timestamp_error_messages acc2 = a4_timestamp_error_messages acc1"
      using Cons.IH [of acc1] Cons.prems one(2) by auto
    have "first + d4_slot d \<notin> (\<lambda>d. first + d4_slot d) ` set ds" using Cons.prems(2) by auto
    with one two show ?thesis using Inr v4_same_frames_trans [OF one(3) two(3)] by auto
  qed
qed simp

section \<open>Accepted frames\<close>

text \<open>The messages a frame is made of; it arrives after all of them were generated.\<close>

definition v4_covers :: "V3DecodedFrame \<Rightarrow> usize set" where
  "v4_covers frame =
     (case f3_kind frame of
        V3Original \<Rightarrow> {f3_first_sequence frame + f3_symbol_index frame}
      | V3PairParity \<Rightarrow> {f3_first_sequence frame + f3_symbol_index frame * 2, f3_first_sequence frame + f3_symbol_index frame * 2 + 1}
      | _ \<Rightarrow> {f3_first_sequence frame..<f3_first_sequence frame + V3_BLOCK_MESSAGES})"

definition v4_timely :: "(usize \<Rightarrow> instant) \<Rightarrow> (instant \<Rightarrow> bool) \<Rightarrow> RealtimeDatagramEvent \<Rightarrow> bool" where
  "v4_timely gen lim event \<longleftrightarrow> lim (ev_received_at event) \<and>
     (\<forall>frame. decode_v3_frame (ev_data event) = Inr frame \<longrightarrow> (\<forall>s \<in> v4_covers frame. gen s \<le> ev_received_at event))"

lemma expected_v3_frame_payload_Some:
  assumes "expected_v3_frame_payload frame n = Some p"
  shows "case f3_kind frame of
      V3Original \<Rightarrow> f3_symbol_index frame < V3_BLOCK_MESSAGES \<and>
        p = make_v3_payload (of_nat (f3_first_sequence frame + f3_symbol_index frame))
    | V3PairParity \<Rightarrow> f3_symbol_index frame < V3_PAIR_PARITIES \<and> p = v4_pair (f3_first_sequence frame) (f3_symbol_index frame)
    | V3GlobalZero \<Rightarrow> p = v4_parity (f3_first_sequence frame) 0
    | V3GlobalOne \<Rightarrow> p = v4_parity (f3_first_sequence frame) 1"
  using assms
  by (auto simp: expected_v3_frame_payload_def v4_pair_def v4_parity_def checked_add_usize_def checked_mul_usize_def
      bind_eq_Some_conv case_prod_unfold Let_def add.assoc split: V3FrameKind.splits if_splits)

lemma get_or_insert_symbol:
  assumes "\<forall>j < k. v4_symbol_ok (p j) (ts j) lim (xs ! j)" and "length xs = k" and "v4_symbol_ok (p i) (ts i) lim (Some s)"
  shows "\<forall>j < k. v4_symbol_ok (p j) (ts j) lim (get_or_insert i s xs ! j)"
  using assms by (cases "i < k") (auto simp: get_or_insert_def nth_list_update)

lemma length_get_or_insert [simp]: "length (get_or_insert i s xs) = length xs"
  by (simp add: get_or_insert_def)

lemma v4_insert_parity:
  assumes ok: "v4_block_ok first gen lim b"
  shows "v4_symbol_ok (v4_pair first i) {gen (i * 2), gen (i * 2 + 1)} lim (Some s) \<Longrightarrow>
      v4_block_ok first gen lim (b\<lparr>pair_parities := get_or_insert i s (pair_parities b)\<rparr>)"
    and "v4_symbol_ok (v4_parity first g) (gen ` {..<V3_BLOCK_MESSAGES}) lim (Some s) \<Longrightarrow>
      v4_block_ok first gen lim (b\<lparr>v4_global_parities := get_or_insert g s (v4_global_parities b)\<rparr>)"
proof -
  assume "v4_symbol_ok (v4_pair first i) {gen (i * 2), gen (i * 2 + 1)} lim (Some s)"
  then have "\<forall>j < V3_PAIR_PARITIES. v4_symbol_ok (v4_pair first j) {gen (j * 2), gen (j * 2 + 1)} lim
      (get_or_insert i s (pair_parities b) ! j)"
    by (intro get_or_insert_symbol) (use ok in \<open>simp_all add: v4_block_ok_def\<close>)
  then show "v4_block_ok first gen lim (b\<lparr>pair_parities := get_or_insert i s (pair_parities b)\<rparr>)"
    using ok by (simp add: v4_block_ok_def)
next
  assume "v4_symbol_ok (v4_parity first g) (gen ` {..<V3_BLOCK_MESSAGES}) lim (Some s)"
  then have "\<forall>j < 2. v4_symbol_ok (v4_parity first j) (gen ` {..<V3_BLOCK_MESSAGES}) lim
      (get_or_insert g s (v4_global_parities b) ! j)"
    by (intro get_or_insert_symbol) (use ok in \<open>simp_all add: v4_block_ok_def\<close>)
  then show "v4_block_ok first gen lim (b\<lparr>v4_global_parities := get_or_insert g s (v4_global_parities b)\<rparr>)"
    using ok by (simp add: v4_block_ok_def)
qed

lemma v4_store_ok:
  assumes ok: "v4_block_ok first gen lim b" and first: "f3_first_sequence frame = first"
    and payload: "expected_v3_frame_payload frame n = Some (f3_payload frame)"
    and timely: "\<forall>s \<in> v4_covers frame. gen (s - first) \<le> at" "lim at"
    and store: "v4_store frame at b acc = (acc', Some (b', ds))"
  shows "v4_block_ok first gen lim b'"
    and "ds = [] \<and> originals b' = originals b \<or>
      (\<exists>d. ds = [d] \<and> v4_genuine first gen lim d \<and> originals b ! d4_slot d = None \<and> b' = v4_fill d b)"
proof -
  note expected = expected_v3_frame_payload_Some [OF payload]
  have global: "gen i \<le> at" if "f3_kind frame \<in> {V3GlobalZero, V3GlobalOne}" "i < V3_BLOCK_MESSAGES" for i
    using bspec [OF timely(1), of "first + i"] that first by (auto simp: v4_covers_def)
  have "v4_block_ok first gen lim b' \<and> (ds = [] \<and> originals b' = originals b \<or>
      (\<exists>d. ds = [d] \<and> v4_genuine first gen lim d \<and> originals b ! d4_slot d = None \<and> b' = v4_fill d b))"
  proof (cases "f3_kind frame")
    case V3Original
    let ?d = "\<lparr>d4_slot = f3_symbol_index frame, d4_payload = f3_payload frame, d4_available_at = at, d4_source = V4Original\<rparr>"
    have "v4_genuine first gen lim ?d"
      using expected timely first V3Original by (simp add: v4_genuine_def v4_covers_def)
    moreover have "ds = [?d] \<and> originals b ! f3_symbol_index frame = None \<and> b' = v4_fill ?d b"
      using store V3Original by (auto simp: v4_store_def v4_fill_def Let_def split: if_splits)
    ultimately show ?thesis using v4_fill_ok [OF ok] by auto
  next
    case V3PairParity
    let ?s = "\<lparr>s4_payload = f3_payload frame, s4_available_at = at\<rparr>" and ?i = "f3_symbol_index frame"
    have "v4_symbol_ok (v4_pair first ?i) {gen (?i * 2), gen (?i * 2 + 1)} lim (Some ?s)"
      using expected timely first V3PairParity by (simp add: v4_symbol_ok_def v4_covers_def)
    moreover have "b' = b\<lparr>pair_parities := get_or_insert ?i ?s (pair_parities b)\<rparr>" "ds = []"
      using store V3PairParity by (simp_all add: v4_store_def)
    ultimately show ?thesis using v4_insert_parity [OF ok] by simp
  next
    case V3GlobalZero
    let ?s = "\<lparr>s4_payload = f3_payload frame, s4_available_at = at\<rparr>"
    have "v4_symbol_ok (v4_parity first 0) (gen ` {..<V3_BLOCK_MESSAGES}) lim (Some ?s)"
      using expected global timely(2) first V3GlobalZero by (auto simp: v4_symbol_ok_def)
    moreover have "b' = b\<lparr>v4_global_parities := get_or_insert 0 ?s (v4_global_parities b)\<rparr>" "ds = []"
      using store V3GlobalZero by (simp_all add: v4_store_def)
    ultimately show ?thesis using v4_insert_parity [OF ok] by simp
  next
    case V3GlobalOne
    let ?s = "\<lparr>s4_payload = f3_payload frame, s4_available_at = at\<rparr>"
    have "v4_symbol_ok (v4_parity first 1) (gen ` {..<V3_BLOCK_MESSAGES}) lim (Some ?s)"
      using expected global timely(2) first V3GlobalOne by (auto simp: v4_symbol_ok_def)
    moreover have "b' = b\<lparr>v4_global_parities := get_or_insert 1 ?s (v4_global_parities b)\<rparr>" "ds = []"
      using store V3GlobalOne by (simp_all add: v4_store_def)
    ultimately show ?thesis using v4_insert_parity [OF ok] by simp
  qed
  then show "v4_block_ok first gen lim b'"
    and "ds = [] \<and> originals b' = originals b \<or>
      (\<exists>d. ds = [d] \<and> v4_genuine first gen lim d \<and> originals b ! d4_slot d = None \<and> b' = v4_fill d b)" by blast+
qed

section \<open>The invariant of the accounting\<close>

text \<open>The outcomes of a decoded frame, added up the way the report adds them.\<close>

definition v4_outcomes :: "V4Accounting \<Rightarrow> usize" where
  "v4_outcomes acc =
     sat_add_usize (sat_add_usize (sat_add_usize (sat_add_usize (sat_add_usize (sat_add_usize
       (a4_observed_original_frames acc) (a4_observed_pair_parity_frames acc)) (a4_observed_global_zero_frames acc))
       (a4_observed_global_one_frames acc)) (a4_invalid_header_frames acc)) (a4_digest_error_frames acc))
       (a4_content_error_frames acc)"

definition v4_blocks_ok :: "(usize \<Rightarrow> instant) \<Rightarrow> (instant \<Rightarrow> bool) \<Rightarrow> usize \<Rightarrow> V4Accounting \<Rightarrow> bool" where
  "v4_blocks_ok gen lim n acc \<longleftrightarrow>
     length (a4_first_correct acc) = n \<and> length (a4_blocks acc) = n div V3_BLOCK_MESSAGES \<and>
     a4_recovery_error_messages acc = 0 \<and> v4_deliveries_ok acc \<and>
     (\<forall>k < n div V3_BLOCK_MESSAGES. v4_closed (a4_blocks acc ! k) \<and>
        v4_block_ok (k * V3_BLOCK_MESSAGES) (\<lambda>i. gen (k * V3_BLOCK_MESSAGES + i)) lim (a4_blocks acc ! k) \<and>
        (\<forall>i < V3_BLOCK_MESSAGES. a4_first_correct acc ! (k * V3_BLOCK_MESSAGES + i) \<longrightarrow> originals (a4_blocks acc ! k) ! i \<noteq> None))"

definition v4_acc_ok :: "(usize \<Rightarrow> instant) \<Rightarrow> (instant \<Rightarrow> bool) \<Rightarrow> usize \<Rightarrow> V4Accounting \<Rightarrow> bool" where
  "v4_acc_ok gen lim n acc \<longleftrightarrow> v4_blocks_ok gen lim n acc \<and>
     a4_observed_frames acc = sat_add_usize (a4_decoded_frames acc) (a4_malformed_frames acc) \<and>
     a4_decoded_frames acc = v4_outcomes acc"

definition v4_delivered :: "usize \<Rightarrow> V4Accounting \<Rightarrow> bool" where
  "v4_delivered n acc \<longleftrightarrow>
     (\<forall>k < n div V3_BLOCK_MESSAGES. \<forall>i < V3_BLOCK_MESSAGES.
        originals (a4_blocks acc ! k) ! i \<noteq> None \<longrightarrow> a4_first_correct acc ! (k * V3_BLOCK_MESSAGES + i)) \<and>
     a4_timestamp_error_messages acc = 0"

lemma v4_store_frames:
  assumes "v4_store frame at b acc = (acc', r)"
  shows "v4_outcomes acc' = inc (v4_outcomes acc)"
    and "a4_observed_frames acc' = a4_observed_frames acc" "a4_decoded_frames acc' = a4_decoded_frames acc"
    and "a4_malformed_frames acc' = a4_malformed_frames acc" "a4_blocks acc' = a4_blocks acc"
    and "a4_first_correct acc' = a4_first_correct acc" "a4_recovery_error_messages acc' = a4_recovery_error_messages acc"
    and "a4_timestamp_error_messages acc' = a4_timestamp_error_messages acc"
    and "v4_deliveries_ok acc' = v4_deliveries_ok acc"
  using assms
  by (auto simp: v4_store_def v4_outcomes_def v4_deliveries_ok_def Let_def sat_add_inc split: V3FrameKind.splits if_splits)

text \<open>An accepted frame advances its block: the empty slots it fills are delivered, each once.\<close>

definition v4_advance :: "usize \<Rightarrow> (usize \<Rightarrow> instant) \<Rightarrow> (instant \<Rightarrow> bool) \<Rightarrow> V4BlockState \<Rightarrow> V4Delivery list \<Rightarrow> V4BlockState \<Rightarrow> bool" where
  "v4_advance first gen lim b ds b' \<longleftrightarrow>
     v4_block_ok first gen lim b' \<and> distinct (map d4_slot ds) \<and>
     (\<forall>d \<in> set ds. v4_genuine first gen lim d \<and> originals b ! d4_slot d = None \<and> originals b' ! d4_slot d \<noteq> None) \<and>
     (\<forall>i < V3_BLOCK_MESSAGES. i \<notin> d4_slot ` set ds \<longrightarrow> originals b' ! i = originals b ! i)"

definition v4_block_has :: "V4BlockState \<Rightarrow> V3FrameKind \<Rightarrow> usize \<Rightarrow> bool" where
  "v4_block_has b kind i =
     (case kind of
        V3Original \<Rightarrow> i < V3_BLOCK_MESSAGES \<and> originals b ! i \<noteq> None
      | V3PairParity \<Rightarrow> i < V3_PAIR_PARITIES \<and> pair_parities b ! i \<noteq> None
      | V3GlobalZero \<Rightarrow> v4_global_parities b ! 0 \<noteq> None
      | V3GlobalOne \<Rightarrow> v4_global_parities b ! 1 \<noteq> None)"

lemma v4_advance_has:
  assumes "v4_advance first gen lim b ds b'" and "v4_block_has b V3Original i"
  shows "v4_block_has b' V3Original i"
  using assms by (cases "i \<in> d4_slot ` set ds") (auto simp: v4_advance_def v4_block_has_def)

lemma v4_store_has:
  assumes ok: "v4_block_ok first gen lim b" and store: "v4_store frame at b acc = (acc', Some (b', ds))"
    and payload: "expected_v3_frame_payload frame n = Some (f3_payload frame)"
  shows "v4_block_has b kind i \<Longrightarrow> v4_block_has b' kind i" and "v4_block_has b' (f3_kind frame) (f3_symbol_index frame)"
  using store v4_block_okD(1-3) [OF ok] expected_v3_frame_payload_Some [OF payload]
  by (auto simp: v4_store_def v4_block_has_def get_or_insert_def nth_list_update Let_def
      split: V3FrameKind.splits if_splits)

lemma v4_store_recover:
  assumes ok: "v4_block_ok first gen lim b" and first: "f3_first_sequence frame = first"
    and payload: "expected_v3_frame_payload frame n = Some (f3_payload frame)"
    and timely: "\<forall>s \<in> v4_covers frame. gen (s - first) \<le> at" "lim at"
    and store: "v4_store frame at b acc = (acc', Some (b1, ds))"
  obtains b2 new where "recover_v4_block b1 first = Some (b2, new, 0)" "v4_advance first gen lim b (ds @ new) b2" "v4_closed b2"
    "\<And>kind i. v4_block_has b kind i \<or> kind = f3_kind frame \<and> i = f3_symbol_index frame \<Longrightarrow> v4_block_has b2 kind i"
proof -
  note stored = v4_store_ok [OF ok first payload timely store]
  obtain new b2 where rec: "recover_v4_block b1 first = Some (b2, new, 0)" "v4_restores first gen lim b1 new b2" "v4_closed b2"
    using recover_v4_block_restores [OF stored(1)] by blast
  note slots = v4_restores_slots [OF rec(2)] and ok2 = v4_restores_ok [OF rec(2)]
  have len: "length (originals b) = V3_BLOCK_MESSAGES" using v4_block_okD(1) [OF ok] .
  from stored(2) have "v4_advance first gen lim b (ds @ new) b2"
  proof (elim disjE exE conjE)
    assume "ds = []" "originals b1 = originals b"
    then show ?thesis using slots ok2 by (simp add: v4_advance_def)
  next
    fix d assume d: "ds = [d]" "v4_genuine first gen lim d" "originals b ! d4_slot d = None" "b1 = v4_fill d b"
    then have slot: "d4_slot d < V3_BLOCK_MESSAGES" by (simp add: v4_genuine_def)
    have filled: "originals b1 ! d4_slot d \<noteq> None" "\<And>i. i \<noteq> d4_slot d \<Longrightarrow> originals b1 ! i = originals b ! i"
      using d(4) slot len by (simp_all add: v4_fill_def nth_list_update_neq)
    then have fresh: "d4_slot d \<notin> d4_slot ` set new" using slots(2) by force
    then have "originals b2 ! d4_slot d \<noteq> None" using slots(3) slot filled(1) by metis
    moreover have "\<forall>e \<in> set new. originals b ! d4_slot e = None" using slots(2) filled(2) fresh by (metis image_eqI)
    ultimately show ?thesis using slots ok2 d fresh filled(2) by (simp add: v4_advance_def)
  qed
  moreover have "v4_block_has b2 kind i"
    if "v4_block_has b kind i \<or> kind = f3_kind frame \<and> i = f3_symbol_index frame" for kind i
  proof -
    have "v4_block_has b1 kind i" using that v4_store_has [OF ok store payload] by blast
    then show ?thesis using slots(2,3,4,5)
      by (cases "i \<in> d4_slot ` set new") (auto simp: v4_block_has_def split: V3FrameKind.splits)
  qed
  ultimately show thesis using that rec by blast
qed

end
