(* ===== verification/Fec_V4_Run.thy ===== *)
theory Fec_V4_Run
  imports Fec_V4_Accounting
begin

text \<open>
  A run of the pair and global code (\<open>run_v4_bbr3_coding_realtime\<close> of \<open>realtime_v3.rs\<close>): the frames the
  sender makes for the messages, the loop that receives datagrams until all are seen, the channel closes
  or the deadline passes, and the report.  The connection is represented by the datagrams it delivers;
  they are arbitrary, so that loss, reordering, duplication and corruption are all covered.
\<close>

section \<open>Configuration\<close>

definition V3_MESSAGE_INTERVAL :: duration where
  "V3_MESSAGE_INTERVAL = 10 * 1000000"

definition V3_MAX_DURATION :: duration where
  "V3_MAX_DURATION = 120 * 1000000000"

definition v3_logical_messages :: "duration \<Rightarrow> unit + usize" where
  "v3_logical_messages run_duration =
     (if run_duration = 0 \<or> run_duration > V3_MAX_DURATION then Inl ()
      else let interval_micros = V3_MESSAGE_INTERVAL div 1000 in
        if run_duration div 1000 mod interval_micros \<noteq> 0 then Inl ()
        else let messages = run_duration div 1000 div interval_micros in
          if messages > usize_max then Inl ()
          else if messages = 0 \<or> messages mod V3_BLOCK_MESSAGES \<noteq> 0 then Inl ()
          else if messages > u32_max then Inl ()
          else Inr messages)"

section \<open>The sender\<close>

text \<open>
  The frames of one message, each with the path it is queued on (\<open>True\<close> is the backup path), and the
  payloads of the block so far.  A datagram that cannot be queued ends the run with an error, before
  anything is received.
\<close>

definition v4_send_message :: "usize \<Rightarrow> V3Payload list \<Rightarrow> unit + (bool \<times> bytes) list \<times> V3Payload list" where
  "v4_send_message sequence block_payloads =
     (let block_id = sequence div V3_BLOCK_MESSAGES;
          symbol_index = sequence mod V3_BLOCK_MESSAGES;
          first_sequence = block_id * V3_BLOCK_MESSAGES;
          payload = make_v3_payload (of_nat sequence)
      in try_then (encode_v3_frame V3Original symbol_index block_id first_sequence payload) (\<lambda>original.
      let block_payloads = block_payloads @ [payload] in
      try_then
        (if symbol_index mod 2 = 1 then
           let pair_payload = xor_payloads (block_payloads ! (symbol_index - 1)) (block_payloads ! symbol_index) in
           try_then (encode_v3_frame V3PairParity (symbol_index div 2) block_id first_sequence pair_payload)
             (\<lambda>pair. Inr [(False, pair)])
         else Inr []) (\<lambda>pairs.
      if symbol_index + 1 = V3_BLOCK_MESSAGES then
        try_then (ensure (length block_payloads = V3_BLOCK_MESSAGES) ()) (\<lambda>_.
        case make_global_parities block_payloads of (global_zero, global_one) \<Rightarrow>
        try_then (try_map (\<lambda>(kind, parity). encode_v3_frame kind 0 block_id first_sequence parity)
            [(V3GlobalZero, global_zero), (V3GlobalOne, global_one)])
          (\<lambda>globals. Inr ([(False, original)] @ pairs @ map (Pair True) globals, [])))
      else Inr ([(False, original)] @ pairs, block_payloads))))"

primrec v4_send_messages :: "usize list \<Rightarrow> V3Payload list \<Rightarrow> unit + (bool \<times> bytes) list" where
  "v4_send_messages [] block_payloads = Inr []"
| "v4_send_messages (sequence # rest) block_payloads =
     try_then (v4_send_message sequence block_payloads) (\<lambda>(frames, block_payloads).
     try_then (v4_send_messages rest block_payloads) (\<lambda>later. Inr (frames @ later)))"

definition v4_send_all :: "usize \<Rightarrow> unit + (bool \<times> bytes) list" where
  "v4_send_all logical_messages = v4_send_messages [0..<logical_messages] []"

section \<open>The receive loop\<close>

text \<open>
  The outcomes of waiting for a datagram, in order: \<open>Some\<close> is a datagram, \<open>None\<close> a closed channel, and
  the end of the list the deadline.
\<close>

fun v4_receive :: "usize \<Rightarrow> instant \<Rightarrow> nat list \<Rightarrow> RealtimeDatagramEvent option list \<Rightarrow> V4Accounting \<Rightarrow>
    (V4Accounting \<times> (RealtimeError + unit)) option" where
  "v4_receive expected_frames experiment_started generated_micros [] acc = Some (acc, Inr ())"
| "v4_receive expected_frames experiment_started generated_micros (outcome # outcomes) acc =
     (if a4_observed_frames acc \<ge> expected_frames then Some (acc, Inr ())
      else case outcome of
        None \<Rightarrow> Some (acc, Inl ChannelClosed)
      | Some event \<Rightarrow>
          (case v4_record event experiment_started generated_micros acc of
             None \<Rightarrow> None
           | Some (acc, Inl e) \<Rightarrow> Some (acc, Inl e)
           | Some (acc, Inr _) \<Rightarrow> v4_receive expected_frames experiment_started generated_micros outcomes acc))"

definition v4_expected_frames :: "usize \<Rightarrow> usize" where
  "v4_expected_frames logical_messages =
     sat_add_usize (sat_add_usize logical_messages (logical_messages div 2))
       (logical_messages div V3_BLOCK_MESSAGES * V3_GLOBAL_PARITIES)"

section \<open>The report\<close>

definition percentile :: "duration list \<Rightarrow> usize \<Rightarrow> duration option" where
  "percentile samples percentage =
     (if samples = [] then None
      else let sorted = sort samples;
               index = div_ceil (length sorted * percentage) 100 - 1
           in if index < length sorted then Some (sorted ! index) else None)"

record RealtimeV4Report =
  r4_logical_messages :: usize
  r4_queued_original_frames :: usize
  r4_queued_pair_parity_frames :: usize
  r4_queued_global_parity_frames :: usize
  r4_lost_messages :: usize
  r4_p50 :: "duration option"
  r4_p95 :: "duration option"
  r4_p99 :: "duration option"
  r4_accounting :: V4Accounting

text \<open>The counters the report copies from the accounting are read through the field for it.\<close>

definition v4_report :: "usize \<Rightarrow> V4Accounting \<Rightarrow> RealtimeV4Report" where
  "v4_report logical_messages acc =
     \<lparr>r4_logical_messages = logical_messages,
      r4_queued_original_frames = logical_messages,
      r4_queued_pair_parity_frames = logical_messages div 2,
      r4_queued_global_parity_frames = logical_messages div V3_BLOCK_MESSAGES * V3_GLOBAL_PARITIES,
      r4_lost_messages = logical_messages - (a4_valid_messages acc + a4_late_messages acc),
      r4_p50 = percentile (a4_latencies acc) 50,
      r4_p95 = percentile (a4_latencies acc) 95,
      r4_p99 = percentile (a4_latencies acc) 99,
      r4_accounting = acc\<rparr>"

definition v4_error_messages :: "RealtimeV4Report \<Rightarrow> usize" where
  "v4_error_messages r =
     (let acc = r4_accounting r in
      sat_add_usize (sat_add_usize (sat_add_usize (sat_add_usize (sat_add_usize (a4_malformed_frames acc)
        (a4_invalid_header_frames acc)) (a4_digest_error_frames acc)) (a4_content_error_frames acc))
        (a4_recovery_error_messages acc)) (a4_timestamp_error_messages acc))"

definition v4_measurement_is_complete :: "RealtimeV4Report \<Rightarrow> bool" where
  "v4_measurement_is_complete r \<longleftrightarrow>
     (let acc = r4_accounting r in
      sat_add_usize (sat_add_usize (a4_valid_messages acc) (a4_late_messages acc)) (r4_lost_messages r) = r4_logical_messages r \<and>
      sat_add_usize (sat_add_usize (a4_original_deliveries acc) (a4_pair_recoveries acc)) (a4_global_recoveries acc) =
        sat_add_usize (a4_valid_messages acc) (a4_late_messages acc) \<and>
      sat_add_usize (a4_decoded_frames acc) (a4_malformed_frames acc) = a4_observed_frames acc \<and>
      r4_queued_original_frames r = r4_logical_messages r \<and>
      r4_queued_pair_parity_frames r = r4_logical_messages r div 2 \<and>
      r4_queued_global_parity_frames r = r4_logical_messages r div V3_BLOCK_MESSAGES * V3_GLOBAL_PARITIES)"

section \<open>Recording keeps the invariant\<close>

definition v4_has :: "V4Accounting \<Rightarrow> usize \<Rightarrow> V3FrameKind \<Rightarrow> usize \<Rightarrow> bool" where
  "v4_has acc k kind i \<longleftrightarrow> k < length (a4_blocks acc) \<and> v4_block_has (a4_blocks acc ! k) kind i"

definition v4_grows :: "V4Accounting \<Rightarrow> V4Accounting \<Rightarrow> bool" where
  "v4_grows acc acc' \<longleftrightarrow> (\<forall>k kind i. v4_has acc k kind i \<longrightarrow> v4_has acc' k kind i)"

lemma block_slot_split:
  "i < V3_BLOCK_MESSAGES \<Longrightarrow> (k * V3_BLOCK_MESSAGES + i) div V3_BLOCK_MESSAGES = k"
  "i < V3_BLOCK_MESSAGES \<Longrightarrow> (k * V3_BLOCK_MESSAGES + i) mod V3_BLOCK_MESSAGES = i"
  by simp_all

lemma block_slot_inj:
  "i < V3_BLOCK_MESSAGES \<Longrightarrow> j < V3_BLOCK_MESSAGES \<Longrightarrow>
   k * V3_BLOCK_MESSAGES + i = l * V3_BLOCK_MESSAGES + j \<longleftrightarrow> k = l \<and> i = j"
  by (metis block_slot_split)

lemma block_slot_less:
  assumes "k < n div V3_BLOCK_MESSAGES" and "i < V3_BLOCK_MESSAGES"
  shows "k * V3_BLOCK_MESSAGES + i < n"
  using assms by (simp add: V3_BLOCK_MESSAGES_def)

lemma v4_blocks_okD:
  assumes "v4_blocks_ok gen lim n acc"
  shows "length (a4_first_correct acc) = n" "length (a4_blocks acc) = n div V3_BLOCK_MESSAGES"
    "a4_recovery_error_messages acc = 0" "v4_deliveries_ok acc"
    and "k < n div V3_BLOCK_MESSAGES \<Longrightarrow> v4_closed (a4_blocks acc ! k)"
    and "k < n div V3_BLOCK_MESSAGES \<Longrightarrow>
      v4_block_ok (k * V3_BLOCK_MESSAGES) (\<lambda>i. gen (k * V3_BLOCK_MESSAGES + i)) lim (a4_blocks acc ! k)"
    and "k < n div V3_BLOCK_MESSAGES \<Longrightarrow> i < V3_BLOCK_MESSAGES \<Longrightarrow> a4_first_correct acc ! (k * V3_BLOCK_MESSAGES + i) \<Longrightarrow>
      originals (a4_blocks acc ! k) ! i \<noteq> None"
  using assms by (simp_all add: v4_blocks_ok_def)

text \<open>The state after the deliveries of an advanced block are recorded.\<close>

lemma v4_advance_blocks_ok:
  assumes inv: "v4_blocks_ok gen lim n acc" and k: "k < n div V3_BLOCK_MESSAGES"
    and adv: "v4_advance (k * V3_BLOCK_MESSAGES) (\<lambda>i. gen (k * V3_BLOCK_MESSAGES + i)) lim (a4_blocks acc ! k) ds b"
    and closed: "v4_closed b"
    and blocks: "a4_blocks acc' = (a4_blocks acc)[k := b]" "length (a4_first_correct acc') = n"
    and ok: "a4_recovery_error_messages acc' = 0" "v4_deliveries_ok acc'"
    and flags: "\<forall>s. s \<notin> (\<lambda>d. k * V3_BLOCK_MESSAGES + d4_slot d) ` set ds \<longrightarrow>
      a4_first_correct acc' ! s = a4_first_correct acc ! s"
  shows "v4_blocks_ok gen lim n acc'"
    and "v4_delivered n acc \<Longrightarrow> \<forall>d \<in> set ds. a4_first_correct acc' ! (k * V3_BLOCK_MESSAGES + d4_slot d) \<Longrightarrow>
      a4_timestamp_error_messages acc' = 0 \<Longrightarrow> v4_delivered n acc'"
proof -
  note D = v4_blocks_okD [OF inv]
  have slots: "d4_slot d < V3_BLOCK_MESSAGES" "originals b ! d4_slot d \<noteq> None" if "d \<in> set ds" for d
    using adv that by (simp_all add: v4_advance_def v4_genuine_def)
  have kept: "originals b ! i = originals (a4_blocks acc ! k) ! i" if "i < V3_BLOCK_MESSAGES" "i \<notin> d4_slot ` set ds" for i
    using adv that by (simp add: v4_advance_def)
  have b: "v4_block_ok (k * V3_BLOCK_MESSAGES) (\<lambda>i. gen (k * V3_BLOCK_MESSAGES + i)) lim b"
    using adv by (simp add: v4_advance_def)
  have nth: "a4_blocks acc' ! l = (if l = k then b else a4_blocks acc ! l)" for l
    using blocks(1) k D(2) by simp
  have other: "a4_first_correct acc' ! (l * V3_BLOCK_MESSAGES + i) = a4_first_correct acc ! (l * V3_BLOCK_MESSAGES + i)"
    if i: "i < V3_BLOCK_MESSAGES" "l \<noteq> k \<or> i \<notin> d4_slot ` set ds" for l i
  proof -
    have "l * V3_BLOCK_MESSAGES + i \<noteq> k * V3_BLOCK_MESSAGES + d4_slot d" if "d \<in> set ds" for d
      using block_slot_inj [OF i(1) slots(1) [OF that], of l k] i(2) that by auto
    then have "l * V3_BLOCK_MESSAGES + i \<notin> (\<lambda>d. k * V3_BLOCK_MESSAGES + d4_slot d) ` set ds" by blast
    then show ?thesis using flags by simp
  qed
  have "originals (a4_blocks acc' ! l) ! i \<noteq> None"
    if l: "l < n div V3_BLOCK_MESSAGES" "i < V3_BLOCK_MESSAGES" "a4_first_correct acc' ! (l * V3_BLOCK_MESSAGES + i)" for l i
  proof (cases "l = k \<and> i \<in> d4_slot ` set ds")
    case True
    then show ?thesis using slots(2) by (auto simp: nth)
  next
    case False
    then have "originals (a4_blocks acc ! l) ! i \<noteq> None" using D(7) l other [of i l] by blast
    then show ?thesis using False kept [OF l(2)] by (auto simp: nth)
  qed
  moreover have "v4_closed (a4_blocks acc' ! l) \<and>
      v4_block_ok (l * V3_BLOCK_MESSAGES) (\<lambda>i. gen (l * V3_BLOCK_MESSAGES + i)) lim (a4_blocks acc' ! l)"
    if "l < n div V3_BLOCK_MESSAGES" for l
    using D(5,6) [OF that] b closed by (simp add: nth)
  moreover have "length (a4_blocks acc') = n div V3_BLOCK_MESSAGES" using D(2) blocks(1) by simp
  ultimately show "v4_blocks_ok gen lim n acc'"
    using blocks(2) ok unfolding v4_blocks_ok_def by blast
  show "v4_delivered n acc'"
    if acc: "v4_delivered n acc" and new: "\<forall>d \<in> set ds. a4_first_correct acc' ! (k * V3_BLOCK_MESSAGES + d4_slot d)"
      and time: "a4_timestamp_error_messages acc' = 0"
  proof -
    have "a4_first_correct acc' ! (l * V3_BLOCK_MESSAGES + i)"
      if l: "l < n div V3_BLOCK_MESSAGES" "i < V3_BLOCK_MESSAGES" "originals (a4_blocks acc' ! l) ! i \<noteq> None" for l i
    proof (cases "l = k \<and> i \<in> d4_slot ` set ds")
      case True
      then show ?thesis using new by blast
    next
      case False
      then have "originals (a4_blocks acc ! l) ! i \<noteq> None" using l(3) kept [OF l(2)] by (auto simp: nth split: if_splits)
      then have "a4_first_correct acc ! (l * V3_BLOCK_MESSAGES + i)"
        using acc l unfolding v4_delivered_def by blast
      then show ?thesis using other [of i l] l(2) False by blast
    qed
    then show ?thesis using time unfolding v4_delivered_def by blast
  qed
qed

lemma v4_accept_ok:
  assumes inv: "v4_blocks_ok gen lim (length gens) acc" and n: "length gens \<le> usize_max"
    and k: "f3_block_id frame < length gens div V3_BLOCK_MESSAGES"
    and first: "f3_first_sequence frame = f3_block_id frame * V3_BLOCK_MESSAGES"
    and payload: "expected_v3_frame_payload frame m = Some (f3_payload frame)"
    and timely: "\<forall>s \<in> v4_covers frame. gen s \<le> at" "lim at"
  shows "\<exists>acc' r. v4_accept frame at started gens acc = Some (acc', r) \<and> v4_blocks_ok gen lim (length gens) acc' \<and>
    v4_outcomes acc' = inc (v4_outcomes acc) \<and> a4_observed_frames acc' = a4_observed_frames acc \<and>
    a4_decoded_frames acc' = a4_decoded_frames acc \<and> a4_malformed_frames acc' = a4_malformed_frames acc \<and>
    a4_invalid_header_frames acc' = a4_invalid_header_frames acc \<and> a4_digest_error_frames acc' = a4_digest_error_frames acc \<and>
    a4_content_error_frames acc' = a4_content_error_frames acc \<and>
    v4_grows acc acc' \<and> v4_has acc' (f3_block_id frame) (f3_kind frame) (f3_symbol_index frame) \<and>
    (gen = v4_clock started gens \<longrightarrow> (\<forall>t. lim t \<longrightarrow> t \<le> started + u64_max) \<longrightarrow> v4_delivered (length gens) acc \<longrightarrow>
      r = Inr () \<and> v4_delivered (length gens) acc')"
proof -
  let ?k = "f3_block_id frame" and ?n = "length gens"
  let ?b = "a4_blocks acc ! ?k" and ?first = "?k * V3_BLOCK_MESSAGES"
  note D = v4_blocks_okD [OF inv]
  have covers: "\<forall>s \<in> v4_covers frame. gen (?first + (s - ?first)) \<le> at"
    using timely(1) first by (auto simp: v4_covers_def split: V3FrameKind.splits)
  obtain acc1 res where store: "v4_store frame at ?b acc = (acc1, res)" by fastforce
  note same = v4_store_frames [OF store]
  have errors: "a4_invalid_header_frames acc1 = a4_invalid_header_frames acc \<and>
      a4_digest_error_frames acc1 = a4_digest_error_frames acc \<and> a4_content_error_frames acc1 = a4_content_error_frames acc"
    using store by (auto simp: v4_store_def Let_def split: V3FrameKind.splits if_splits)
  show ?thesis
  proof (cases res)
    case None
    then have dup: "f3_kind frame = V3Original" "originals ?b ! f3_symbol_index frame \<noteq> None"
      using store by (auto simp: v4_store_def Let_def split: V3FrameKind.splits if_splits)
    have "v4_blocks_ok gen lim ?n acc1" using inv same by (simp add: v4_blocks_ok_def)
    moreover have "v4_has acc1 ?k (f3_kind frame) (f3_symbol_index frame)"
      using dup same D(2) k expected_v3_frame_payload_Some [OF payload] by (simp add: v4_has_def v4_block_has_def)
    ultimately show ?thesis
      using store None same errors by (simp add: v4_accept_def v4_grows_def v4_has_def v4_delivered_def)
  next
    case (Some bds)
    then obtain b1 ds where some: "v4_store frame at ?b acc = (acc1, Some (b1, ds))" using store by (cases bds) simp
    obtain b2 new where rec: "recover_v4_block b1 ?first = Some (b2, new, 0)"
      and adv: "v4_advance ?first (\<lambda>i. gen (?first + i)) lim ?b (ds @ new) b2" and closed: "v4_closed b2"
      and has: "\<And>kind i. v4_block_has ?b kind i \<or> kind = f3_kind frame \<and> i = f3_symbol_index frame \<Longrightarrow> v4_block_has b2 kind i"
      using v4_store_recover [OF D(6) [OF k] first payload covers timely(2) some] by metis
    let ?acc2 = "acc1\<lparr>a4_blocks := (a4_blocks acc1)[?k := b2], a4_recovery_error_messages := 0\<rparr>"
    have deliveries: "\<forall>d \<in> set (ds @ new). d4_payload d = make_v3_payload (of_nat (?first + d4_slot d)) \<and>
        ?first + d4_slot d < ?n \<and> \<not> a4_first_correct ?acc2 ! (?first + d4_slot d)"
    proof
      fix d assume "d \<in> set (ds @ new)"
      then have "v4_genuine ?first (\<lambda>i. gen (?first + i)) lim d" "originals ?b ! d4_slot d = None"
        using adv by (simp_all add: v4_advance_def)
      then show "d4_payload d = make_v3_payload (of_nat (?first + d4_slot d)) \<and>
          ?first + d4_slot d < ?n \<and> \<not> a4_first_correct ?acc2 ! (?first + d4_slot d)"
        using D(7) [OF k, of "d4_slot d"] block_slot_less [OF k, of "d4_slot d"] same(6) by (auto simp: v4_genuine_def)
    qed
    have distinct: "distinct (map d4_slot (ds @ new))" using adv by (simp add: v4_advance_def)
    have ok2: "length (a4_first_correct ?acc2) = ?n" "v4_deliveries_ok ?acc2"
      using D(1,4) same(6,9) by (simp_all add: v4_deliveries_ok_def)
    obtain acc3 r where run: "v4_record_deliveries ?first (ds @ new) started gens ?acc2 = Some (acc3, r)"
      and ok3: "v4_deliveries_ok acc3" "v4_same_frames ?acc2 acc3"
      and flags: "\<forall>s. s \<notin> (\<lambda>d. ?first + d4_slot d) ` set (ds @ new) \<longrightarrow> a4_first_correct acc3 ! s = a4_first_correct ?acc2 ! s"
      and live: "(\<forall>d \<in> set (ds @ new). v4_clock started gens (?first + d4_slot d) \<le> d4_available_at d \<and>
          d4_available_at d \<le> started + u64_max) \<longrightarrow>
        r = Inr () \<and> (\<forall>d \<in> set (ds @ new). a4_first_correct acc3 ! (?first + d4_slot d)) \<and>
        a4_timestamp_error_messages acc3 = a4_timestamp_error_messages ?acc2"
      using v4_record_deliveries_ok [OF deliveries distinct ok2(1) n ok2(2), of started] by blast
    have accept: "v4_accept frame at started gens acc = Some (acc3, r)"
      using some rec run D(3) same(7) first by (simp add: v4_accept_def)
    have blocks: "a4_blocks acc3 = (a4_blocks acc)[?k := b2]" "length (a4_first_correct acc3) = ?n"
      "a4_recovery_error_messages acc3 = 0" "v4_outcomes acc3 = inc (v4_outcomes acc)"
      using ok3(2) ok2(1) same by (simp_all add: v4_same_frames_def v4_outcomes_def)
    have flags': "\<forall>s. s \<notin> (\<lambda>d. ?first + d4_slot d) ` set (ds @ new) \<longrightarrow> a4_first_correct acc3 ! s = a4_first_correct acc ! s"
      using flags same(6) by simp
    note result = v4_advance_blocks_ok [OF inv k adv closed blocks(1,2,3) ok3(1) flags']
    have grows: "v4_grows acc acc3" "v4_has acc3 ?k (f3_kind frame) (f3_symbol_index frame)"
      using has blocks(1) D(2) k by (auto simp: v4_grows_def v4_has_def nth_list_update)
    have "r = Inr () \<and> v4_delivered ?n acc3"
      if "gen = v4_clock started gens" "\<forall>t. lim t \<longrightarrow> t \<le> started + u64_max" "v4_delivered ?n acc"
    proof -
      have "\<forall>d \<in> set (ds @ new). v4_clock started gens (?first + d4_slot d) \<le> d4_available_at d \<and> d4_available_at d \<le> started + u64_max"
        using adv that(1,2) by (simp add: v4_advance_def v4_genuine_def)
      with live have "r = Inr ()" "\<forall>d \<in> set (ds @ new). a4_first_correct acc3 ! (?first + d4_slot d)"
        "a4_timestamp_error_messages acc3 = 0" using that(3) same(8) by (simp_all add: v4_delivered_def)
      then show ?thesis using result(2) that(3) by blast
    qed
    then show ?thesis using accept result(1) blocks(4) grows ok3(2) same errors
      by (auto simp: v4_same_frames_def)
  qed
qed

lemma v4_acc_okD:
  assumes "v4_acc_ok gen lim n acc"
  shows "v4_blocks_ok gen lim n acc"
    and "a4_observed_frames acc = sat_add_usize (a4_decoded_frames acc) (a4_malformed_frames acc)"
    and "a4_decoded_frames acc = v4_outcomes acc"
  using assms by (simp_all add: v4_acc_ok_def)

definition v4_carries :: "usize \<Rightarrow> usize \<Rightarrow> V3FrameKind \<Rightarrow> usize \<Rightarrow> RealtimeDatagramEvent \<Rightarrow> bool" where
  "v4_carries n k kind i event \<longleftrightarrow>
     (\<exists>p. decode_v3_frame (ev_data event) = Inr (v3_frame kind i k (k * V3_BLOCK_MESSAGES) p) \<and>
          expected_v3_frame_payload (v3_frame kind i k (k * V3_BLOCK_MESSAGES) p) n = Some p)"

definition v4_clean :: "V4Accounting \<Rightarrow> bool" where
  "v4_clean acc \<longleftrightarrow> a4_malformed_frames acc = 0 \<and> a4_invalid_header_frames acc = 0 \<and>
     a4_digest_error_frames acc = 0 \<and> a4_content_error_frames acc = 0"

text \<open>What makes \<open>record\<close> store a decoded frame.\<close>

definition v4_good :: "usize \<Rightarrow> V3DecodedFrame \<Rightarrow> bool" where
  "v4_good n frame \<longleftrightarrow> f3_block_id frame < n div V3_BLOCK_MESSAGES \<and>
     f3_first_sequence frame = f3_block_id frame * V3_BLOCK_MESSAGES \<and>
     expected_v3_frame_payload frame n = Some (f3_payload frame) \<and> ucast (digest (f3_payload frame)) = f3_payload_digest frame"

lemma v4_carries_good:
  assumes "v4_carries n k kind i event" and "decode_v3_frame (ev_data event) = Inr frame"
  shows "f3_block_id frame = k" "f3_kind frame = kind" "f3_symbol_index frame = i"
    and "k < n div V3_BLOCK_MESSAGES \<Longrightarrow> v4_good n frame"
  using assms by (auto simp: v4_carries_def v3_frame_def v4_good_def)

lemma v4_record_rejected:
  assumes inv: "v4_acc_ok gen lim (length gens) acc"
    and "\<forall>frame. decode_v3_frame (ev_data event) = Inr frame \<longrightarrow> \<not> v4_good (length gens) frame"
  shows "\<exists>acc'. v4_record event started gens acc = Some (acc', Inr ()) \<and> v4_acc_ok gen lim (length gens) acc' \<and>
    a4_blocks acc' = a4_blocks acc \<and> a4_first_correct acc' = a4_first_correct acc \<and>
    a4_observed_frames acc' = inc (a4_observed_frames acc) \<and>
    a4_timestamp_error_messages acc' = a4_timestamp_error_messages acc"
proof -
  note I = v4_acc_okD [OF inv] and len = v4_blocks_okD(2) [OF v4_acc_okD(1) [OF inv]]
  note counters = v4_acc_ok_def sat_add_inc v4_outcomes_def
  have upd: "v4_blocks_ok gen lim (length gens) (acc\<lparr>a4_observed_frames := o1, a4_malformed_frames := m\<rparr>)"
    "v4_blocks_ok gen lim (length gens) (acc\<lparr>a4_observed_frames := o1, a4_decoded_frames := d, a4_invalid_header_frames := m\<rparr>)"
    "v4_blocks_ok gen lim (length gens) (acc\<lparr>a4_observed_frames := o1, a4_decoded_frames := d, a4_digest_error_frames := m\<rparr>)"
    "v4_blocks_ok gen lim (length gens) (acc\<lparr>a4_observed_frames := o1, a4_decoded_frames := d, a4_content_error_frames := m\<rparr>)"
    for o1 d m using I(1) by (simp_all add: v4_blocks_ok_def v4_deliveries_ok_def)
  show ?thesis
  proof (cases "decode_v3_frame (ev_data event)")
    case (Inl e)
    then show ?thesis using I(2,3) upd by (simp add: v4_record_def Let_def counters)
  next
    case (Inr frame)
    with assms(2) have bad: "\<not> v4_good (length gens) frame" by simp
    show ?thesis
    proof (cases "f3_block_id frame < length gens div V3_BLOCK_MESSAGES \<and>
        f3_first_sequence frame = f3_block_id frame * V3_BLOCK_MESSAGES")
      case False
      then have "f3_block_id frame \<ge> length (a4_blocks acc) \<or> f3_first_sequence frame \<noteq> f3_block_id frame * V3_BLOCK_MESSAGES"
        using len by auto
      then show ?thesis using Inr I(2,3) upd by (simp add: v4_record_def Let_def counters)
    next
      case header: True
      show ?thesis
      proof (cases "expected_v3_frame_payload frame (length gens)")
        case None
        then show ?thesis using Inr header I(2,3) upd len by (simp add: v4_record_def Let_def counters)
      next
        case (Some p)
        then show ?thesis using Inr header bad I(2,3) upd len
          by (cases "ucast (digest (f3_payload frame)) = f3_payload_digest frame")
            (simp_all add: v4_record_def Let_def counters v4_good_def)
      qed
    qed
  qed
qed

lemma v4_record_ok:
  assumes inv: "v4_acc_ok gen lim (length gens) acc" and n: "length gens \<le> usize_max" and timely: "v4_timely gen lim event"
  shows "\<exists>acc' r. v4_record event started gens acc = Some (acc', r) \<and> v4_acc_ok gen lim (length gens) acc' \<and>
    v4_grows acc acc' \<and> a4_observed_frames acc' = inc (a4_observed_frames acc) \<and>
    (\<forall>k kind i. k < length gens div V3_BLOCK_MESSAGES \<longrightarrow> v4_carries (length gens) k kind i event \<longrightarrow>
      v4_has acc' k kind i \<and> (v4_clean acc \<longrightarrow> v4_clean acc')) \<and>
    (gen = v4_clock started gens \<longrightarrow> (\<forall>t. lim t \<longrightarrow> t \<le> started + u64_max) \<longrightarrow> v4_delivered (length gens) acc \<longrightarrow>
      r = Inr () \<and> v4_delivered (length gens) acc')"
proof (cases "\<exists>frame. decode_v3_frame (ev_data event) = Inr frame \<and> v4_good (length gens) frame")
  case False
  then obtain acc' where acc': "v4_record event started gens acc = Some (acc', Inr ())" "v4_acc_ok gen lim (length gens) acc'"
    "a4_blocks acc' = a4_blocks acc" "a4_first_correct acc' = a4_first_correct acc"
    "a4_observed_frames acc' = inc (a4_observed_frames acc)"
    "a4_timestamp_error_messages acc' = a4_timestamp_error_messages acc"
    using v4_record_rejected [OF inv] by blast
  moreover have "\<not> v4_carries (length gens) k kind i event" if "k < length gens div V3_BLOCK_MESSAGES" for k kind i
  proof
    assume carries: "v4_carries (length gens) k kind i event"
    then obtain frame where "decode_v3_frame (ev_data event) = Inr frame" by (auto simp: v4_carries_def)
    then show False using False v4_carries_good(4) [OF carries _ that] by blast
  qed
  moreover have "v4_grows acc acc'" "v4_delivered (length gens) acc' = v4_delivered (length gens) acc"
    using acc' by (simp_all add: v4_grows_def v4_has_def v4_delivered_def)
  ultimately show ?thesis by (intro exI [of _ acc'] exI [of _ "Inr ()"]) blast
next
  case True
  then obtain frame where decode: "decode_v3_frame (ev_data event) = Inr frame" and "v4_good (length gens) frame" by blast
  then have good: "f3_block_id frame < length gens div V3_BLOCK_MESSAGES"
    "f3_first_sequence frame = f3_block_id frame * V3_BLOCK_MESSAGES"
    "expected_v3_frame_payload frame (length gens) = Some (f3_payload frame)"
    "ucast (digest (f3_payload frame)) = f3_payload_digest frame" by (simp_all add: v4_good_def)
  note I = v4_acc_okD [OF inv]
  let ?acc = "acc\<lparr>a4_observed_frames := inc (a4_observed_frames acc), a4_decoded_frames := inc (a4_decoded_frames acc)\<rparr>"
  have blocks: "v4_blocks_ok gen lim (length gens) ?acc" using I(1) by (simp add: v4_blocks_ok_def v4_deliveries_ok_def)
  have times: "\<forall>s \<in> v4_covers frame. gen s \<le> ev_received_at event" "lim (ev_received_at event)"
    using timely decode by (simp_all add: v4_timely_def)
  have rec: "v4_record event started gens acc = v4_accept frame (ev_received_at event) started gens ?acc"
    using decode good v4_blocks_okD(2) [OF I(1)] by (simp add: v4_record_def Let_def)
  have same: "v4_outcomes ?acc = v4_outcomes acc" "v4_grows ?acc = v4_grows acc"
    "v4_delivered (length gens) ?acc = v4_delivered (length gens) acc" "v4_clean ?acc = v4_clean acc"
    by (simp_all add: v4_outcomes_def v4_grows_def v4_has_def v4_delivered_def v4_clean_def fun_eq_iff)
  obtain acc' r where acc': "v4_accept frame (ev_received_at event) started gens ?acc = Some (acc', r)"
    "v4_blocks_ok gen lim (length gens) acc'" "v4_outcomes acc' = inc (v4_outcomes ?acc)"
    "a4_observed_frames acc' = a4_observed_frames ?acc" "a4_decoded_frames acc' = a4_decoded_frames ?acc"
    "a4_malformed_frames acc' = a4_malformed_frames ?acc"
    "a4_invalid_header_frames acc' = a4_invalid_header_frames ?acc" "a4_digest_error_frames acc' = a4_digest_error_frames ?acc"
    "a4_content_error_frames acc' = a4_content_error_frames ?acc"
    "v4_grows ?acc acc'" "v4_has acc' (f3_block_id frame) (f3_kind frame) (f3_symbol_index frame)"
    "gen = v4_clock started gens \<longrightarrow> (\<forall>t. lim t \<longrightarrow> t \<le> started + u64_max) \<longrightarrow> v4_delivered (length gens) ?acc \<longrightarrow>
      r = Inr () \<and> v4_delivered (length gens) acc'"
    using v4_accept_ok [OF blocks n good(1-3) times, of started] by blast
  have "v4_acc_ok gen lim (length gens) acc'" using acc'(2-6) I(2,3) same(1) by (simp add: v4_acc_ok_def sat_add_inc)
  moreover have "v4_clean acc' = v4_clean acc" using acc'(6-9) by (simp add: v4_clean_def)
  ultimately show ?thesis using rec acc'(1,4,10-12) same v4_carries_good(1-3) [OF _ decode]
    by (intro exI [of _ acc'] exI [of _ r]) auto
qed

lemma v4_grows_refl [simp]: "v4_grows acc acc"
  by (simp add: v4_grows_def)

lemma v4_grows_trans: "v4_grows a b \<Longrightarrow> v4_grows b c \<Longrightarrow> v4_grows a c"
  by (simp add: v4_grows_def)

text \<open>Any datagrams whatsoever leave a consistent accounting.\<close>

lemma v4_receive_ok:
  assumes "v4_acc_ok gen lim (length gens) acc" and "length gens \<le> usize_max"
    and "\<forall>event. Some event \<in> set outcomes \<longrightarrow> v4_timely gen lim event"
  shows "\<exists>acc' r. v4_receive expected started gens outcomes acc = Some (acc', r) \<and> v4_acc_ok gen lim (length gens) acc' \<and> v4_grows acc acc'"
  using assms
proof (induction outcomes arbitrary: acc)
  case (Cons outcome outcomes)
  show ?case
  proof (cases "a4_observed_frames acc \<ge> expected \<or> outcome = None")
    case True
    then show ?thesis using Cons.prems by auto
  next
    case False
    then obtain event where event: "outcome = Some event" by auto
    obtain acc1 r1 where one: "v4_record event started gens acc = Some (acc1, r1)" "v4_acc_ok gen lim (length gens) acc1" "v4_grows acc acc1"
      using v4_record_ok [OF Cons.prems(1,2), of event started] Cons.prems(3) event by auto
    show ?thesis
    proof (cases r1)
      case (Inl e)
      then show ?thesis using False event one by simp
    next
      case (Inr u)
      have "\<exists>acc' r. v4_receive expected started gens outcomes acc1 = Some (acc', r) \<and> v4_acc_ok gen lim (length gens) acc' \<and> v4_grows acc1 acc'"
        using Cons.IH [OF one(2) Cons.prems(2)] Cons.prems(3) by simp
      then show ?thesis using False event one Inr v4_grows_trans [OF one(3)] by auto
    qed
  qed
qed simp

text \<open>
  Datagrams of the sender, no more than it queued and each received after its messages were generated:
  all are recorded, without an error.
\<close>

lemma v4_receive_sent:
  fixes started gens
  defines "lim \<equiv> \<lambda>t. t \<le> started + u64_max" and "gen \<equiv> v4_clock started gens"
  assumes "v4_acc_ok gen lim (length gens) acc" and "length gens \<le> usize_max"
    and "\<forall>event \<in> set events. v4_timely gen lim event \<and>
      (\<exists>k kind i. k < length gens div V3_BLOCK_MESSAGES \<and> v4_carries (length gens) k kind i event)"
    and "v4_delivered (length gens) acc" and "v4_clean acc"
    and "a4_observed_frames acc + length events \<le> expected" and "expected \<le> usize_max"
  shows "\<exists>acc'. v4_receive expected started gens (map Some events) acc = Some (acc', Inr ()) \<and>
    v4_acc_ok gen lim (length gens) acc' \<and> v4_grows acc acc' \<and> v4_delivered (length gens) acc' \<and> v4_clean acc' \<and>
    (\<forall>event \<in> set events. \<forall>k kind i. k < length gens div V3_BLOCK_MESSAGES \<longrightarrow> v4_carries (length gens) k kind i event \<longrightarrow>
      v4_has acc' k kind i)"
  using assms(3-)
proof (induction events arbitrary: acc)
  case (Cons event events)
  have timely: "v4_timely gen lim event" using Cons.prems(3) by simp
  obtain acc1 r1 where one: "v4_record event started gens acc = Some (acc1, r1)" "v4_acc_ok gen lim (length gens) acc1"
    "v4_grows acc acc1" "a4_observed_frames acc1 = inc (a4_observed_frames acc)"
    "\<forall>k kind i. k < length gens div V3_BLOCK_MESSAGES \<longrightarrow> v4_carries (length gens) k kind i event \<longrightarrow>
      v4_has acc1 k kind i \<and> (v4_clean acc \<longrightarrow> v4_clean acc1)"
    "gen = v4_clock started gens \<longrightarrow> (\<forall>t. lim t \<longrightarrow> t \<le> started + u64_max) \<longrightarrow> v4_delivered (length gens) acc \<longrightarrow>
      r1 = Inr () \<and> v4_delivered (length gens) acc1"
    using v4_record_ok [OF Cons.prems(1,2) timely, of started] by blast
  have next1: "r1 = Inr ()" "v4_delivered (length gens) acc1" "v4_clean acc1"
    using one(5,6) Cons.prems(3-5) by (auto simp: gen_def lim_def)
  have "a4_observed_frames acc1 + length events \<le> expected"
    using one(4) Cons.prems(6,7) by (simp add: inc_Suc)
  then obtain acc' where "v4_receive expected started gens (map Some events) acc1 = Some (acc', Inr ())"
    "v4_acc_ok gen lim (length gens) acc'" "v4_grows acc1 acc'" "v4_delivered (length gens) acc'" "v4_clean acc'"
    "\<forall>event \<in> set events. \<forall>k kind i. k < length gens div V3_BLOCK_MESSAGES \<longrightarrow> v4_carries (length gens) k kind i event \<longrightarrow>
      v4_has acc' k kind i"
    using Cons.IH [OF one(2) Cons.prems(2) _ next1(2,3) _ Cons.prems(7)] Cons.prems(3) by auto
  then show ?case using one(1,3,5) next1(1) v4_grows_trans [OF one(3)] Cons.prems(6)
    by (intro exI [of _ acc']) (auto simp: v4_grows_def)
qed simp

end
