(* ===== verification/Fec_V4_Properties.thy ===== *)
theory Fec_V4_Properties
  imports Fec_V4_Run
begin

text \<open>
  What a run of the pair and global code guarantees: the sender always produces its frames, the receiver
  accepts every one of them, recovery restores whatever the received parities determine, and the
  accounting is consistent for arbitrary datagrams.
\<close>

section \<open>The frames of the sender\<close>

definition v4_payload :: "V3FrameKind \<Rightarrow> usize \<Rightarrow> usize \<Rightarrow> V3Payload" where
  "v4_payload kind k i =
     (case kind of
        V3Original \<Rightarrow> make_v3_payload (of_nat (k * V3_BLOCK_MESSAGES + i))
      | V3PairParity \<Rightarrow> v4_pair (k * V3_BLOCK_MESSAGES) i
      | V3GlobalZero \<Rightarrow> v4_parity (k * V3_BLOCK_MESSAGES) 0
      | V3GlobalOne \<Rightarrow> v4_parity (k * V3_BLOCK_MESSAGES) 1)"

definition v4_symbol :: "V3FrameKind \<Rightarrow> usize \<Rightarrow> bool" where
  "v4_symbol kind i =
     (case kind of V3Original \<Rightarrow> i < V3_BLOCK_MESSAGES | V3PairParity \<Rightarrow> i < V3_PAIR_PARITIES | _ \<Rightarrow> i = 0)"

definition v4_wire :: "V3FrameKind \<Rightarrow> usize \<Rightarrow> usize \<Rightarrow> bytes" where
  "v4_wire kind k i = projr (encode_v3_frame kind i k (k * V3_BLOCK_MESSAGES) (v4_payload kind k i))"

lemma length_v4_payload: "length (v4_payload kind k i) = V3_LOGICAL_MESSAGE_SIZE"
  by (cases kind) (simp_all add: v4_payload_def v4_pair_def)

lemma v4_symbol_less: "v4_symbol kind i \<Longrightarrow> i < V3_BLOCK_MESSAGES"
  by (auto simp: v4_symbol_def V3_PAIR_PARITIES_def V3_BLOCK_MESSAGES_def split: V3FrameKind.splits)

lemma encode_v4_wire:
  assumes "v4_symbol kind i" and "k * V3_BLOCK_MESSAGES \<le> u32_max"
  shows "encode_v3_frame kind i k (k * V3_BLOCK_MESSAGES) (v4_payload kind k i) = Inr (v4_wire kind k i)"
proof -
  have "k \<le> u32_max" using assms(2) by (simp add: V3_BLOCK_MESSAGES_def)
  moreover have "i < 256" using v4_symbol_less [OF assms(1)] by (simp add: V3_BLOCK_MESSAGES_def)
  ultimately show ?thesis using assms(2) by (simp add: v4_wire_def encode_v3_frame_def)
qed

lemma expected_v4_payload:
  assumes "v4_symbol kind i" and "k < n div V3_BLOCK_MESSAGES" and "n \<le> usize_max"
  shows "expected_v3_frame_payload (v3_frame kind i k (k * V3_BLOCK_MESSAGES) p) n = Some (v4_payload kind k i)"
proof -
  have k: "k * V3_BLOCK_MESSAGES + V3_BLOCK_MESSAGES \<le> n"
    using assms(2) by (simp add: V3_BLOCK_MESSAGES_def)
  have i: "i < V3_PAIR_PARITIES \<Longrightarrow> i * 2 + 1 < V3_BLOCK_MESSAGES" using pair_slots [of i] by simp
  show ?thesis using assms(1,3) k i
    by (cases kind) (simp_all add: expected_v3_frame_payload_def v3_frame_def v4_payload_def v4_symbol_def
        checked_add_usize_def checked_mul_usize_def v4_pair_def v4_parity_def case_prod_unfold Let_def add.assoc)
qed

lemma v4_wire_carries:
  assumes "v4_symbol kind i" and "k < n div V3_BLOCK_MESSAGES" and "n \<le> u32_max" and "ev_data event = v4_wire kind k i"
  shows "v4_carries n k kind i event"
proof -
  have "k * V3_BLOCK_MESSAGES \<le> u32_max" using assms(2,3) by (simp add: V3_BLOCK_MESSAGES_def)
  from decode_encode_v3 [OF encode_v4_wire [OF assms(1) this] length_v4_payload]
  have "decode_v3_frame (ev_data event) = Inr (v3_frame kind i k (k * V3_BLOCK_MESSAGES) (v4_payload kind k i))"
    by (simp add: assms(4))
  moreover have "n \<le> usize_max" using assms(3) by (simp add: u32_max_def usize_max_def)
  ultimately show ?thesis using expected_v4_payload [OF assms(1,2)] by (auto simp: v4_carries_def)
qed

text \<open>The frames of one message, in the order they are queued.\<close>

definition v4_frames_of :: "usize \<Rightarrow> (bool \<times> bytes) list" where
  "v4_frames_of s =
     (let k = s div V3_BLOCK_MESSAGES; i = s mod V3_BLOCK_MESSAGES in
      [(False, v4_wire V3Original k i)] @
      (if i mod 2 = 1 then [(False, v4_wire V3PairParity k (i div 2))] else []) @
      (if i + 1 = V3_BLOCK_MESSAGES then [(True, v4_wire V3GlobalZero k 0), (True, v4_wire V3GlobalOne k 0)] else []))"

definition v4_block_payloads :: "usize \<Rightarrow> V3Payload list" where
  "v4_block_payloads s =
     map (\<lambda>i. make_v3_payload (of_nat (s div V3_BLOCK_MESSAGES * V3_BLOCK_MESSAGES + i))) [0..<s mod V3_BLOCK_MESSAGES]"

lemma v4_block_payloads_Suc:
  "v4_block_payloads (Suc s) =
     (if s mod V3_BLOCK_MESSAGES + 1 = V3_BLOCK_MESSAGES then [] else v4_block_payloads s @ [make_v3_payload (of_nat s)])"
proof (cases "s mod V3_BLOCK_MESSAGES + 1 = V3_BLOCK_MESSAGES")
  case True
  then have "Suc s mod V3_BLOCK_MESSAGES = 0" by (simp add: mod_Suc)
  then show ?thesis using True by (simp add: v4_block_payloads_def)
next
  case False
  have "s div V3_BLOCK_MESSAGES * V3_BLOCK_MESSAGES + s mod V3_BLOCK_MESSAGES = s" by simp
  then have "(of_nat (s div V3_BLOCK_MESSAGES) * of_nat V3_BLOCK_MESSAGES + of_nat (s mod V3_BLOCK_MESSAGES) :: u32) = of_nat s"
    by (metis of_nat_add of_nat_mult)
  moreover have "Suc s mod V3_BLOCK_MESSAGES = Suc (s mod V3_BLOCK_MESSAGES)" "Suc s div V3_BLOCK_MESSAGES = s div V3_BLOCK_MESSAGES"
    using False by (simp_all add: mod_Suc div_Suc)
  ultimately show ?thesis using False by (simp add: v4_block_payloads_def)
qed

lemma v4_send_message_frames:
  assumes "s \<le> u32_max"
  shows "v4_send_message s (v4_block_payloads s) = Inr (v4_frames_of s, v4_block_payloads (Suc s))"
proof -
  let ?k = "s div V3_BLOCK_MESSAGES" and ?i = "s mod V3_BLOCK_MESSAGES"
  let ?payloads = "v4_block_payloads s @ [make_v3_payload (of_nat s)]"
  have i: "?i < V3_BLOCK_MESSAGES" by (simp add: V3_BLOCK_MESSAGES_def)
  have s: "?k * V3_BLOCK_MESSAGES + ?i = s" by simp
  have k: "?k * V3_BLOCK_MESSAGES \<le> u32_max" using assms s by linarith
  have payloads: "?payloads = map (\<lambda>j. make_v3_payload (of_nat (?k * V3_BLOCK_MESSAGES + j))) [0..<Suc ?i]"
    by (simp add: v4_block_payloads_def flip: of_nat_mult of_nat_add)
  have original: "encode_v3_frame V3Original ?i ?k (?k * V3_BLOCK_MESSAGES) (make_v3_payload (of_nat s)) = Inr (v4_wire V3Original ?k ?i)"
    using encode_v4_wire [of V3Original ?i ?k] i k s by (simp only: v4_symbol_def v4_payload_def V3FrameKind.case)
  have pair: "encode_v3_frame V3PairParity (?i div 2) ?k (?k * V3_BLOCK_MESSAGES)
      (xor_payloads (?payloads ! (?i - 1)) (?payloads ! ?i)) = Inr (v4_wire V3PairParity ?k (?i div 2))" if "?i mod 2 = 1"
  proof -
    have "?i div 2 * 2 = ?i - 1" "?i - 1 + 1 = ?i" "?i div 2 < V3_PAIR_PARITIES"
      using that i by (simp_all add: V3_PAIR_PARITIES_def V3_BLOCK_MESSAGES_def) presburger+
    moreover have "?payloads ! j = make_v3_payload (of_nat (?k * V3_BLOCK_MESSAGES + j))" if "j < Suc ?i" for j
      unfolding payloads using that by (simp only: nth_map nth_upt length_upt diff_zero add_0)
    ultimately have "xor_payloads (?payloads ! (?i - 1)) (?payloads ! ?i) = v4_payload V3PairParity ?k (?i div 2)"
      by (simp only: v4_payload_def v4_pair_def add.assoc V3FrameKind.case lessI less_SucI diff_less_Suc)
    with encode_v4_wire [of V3PairParity "?i div 2" ?k] k \<open>?i div 2 < V3_PAIR_PARITIES\<close> show ?thesis
      by (simp add: v4_symbol_def)
  qed
  have globals: "make_global_parities ?payloads = (v4_payload V3GlobalZero ?k 0, v4_payload V3GlobalOne ?k 0)" "length ?payloads = V3_BLOCK_MESSAGES"
    if "?i + 1 = V3_BLOCK_MESSAGES"
  proof -
    have "?payloads = make_v3_block_payloads (of_nat (?k * V3_BLOCK_MESSAGES))"
      using that unfolding payloads by (simp add: make_v3_block_payloads_def del: upt_Suc)
    then show "make_global_parities ?payloads = (v4_payload V3GlobalZero ?k 0, v4_payload V3GlobalOne ?k 0)"
      by (simp add: v4_payload_def v4_parity_def)
    show "length ?payloads = V3_BLOCK_MESSAGES" using that by (simp add: v4_block_payloads_def)
  qed
  have parity: "encode_v3_frame kind 0 ?k (?k * V3_BLOCK_MESSAGES) (v4_payload kind ?k 0) = Inr (v4_wire kind ?k 0)"
    if "kind \<in> {V3GlobalZero, V3GlobalOne}" for kind
    using encode_v4_wire [of kind 0 ?k] k that by (auto simp: v4_symbol_def)
  show ?thesis
    using original pair globals parity
    by (simp add: v4_send_message_def Let_def v4_frames_of_def v4_block_payloads_Suc)
qed

lemma v4_send_messages_frames:
  "m + d \<le> u32_max + 1 \<Longrightarrow> v4_send_messages [m..<m + d] (v4_block_payloads m) = Inr (concat (map v4_frames_of [m..<m + d]))"
proof (induction d arbitrary: m)
  case (Suc d)
  let ?rest = "[Suc m..<Suc m + d]"
  have "Suc m + d \<le> u32_max + 1" using Suc.prems by simp
  then have "v4_send_messages ?rest (v4_block_payloads (Suc m)) = Inr (concat (map v4_frames_of ?rest))" by (rule Suc.IH)
  moreover have "[m..<m + Suc d] = m # ?rest" by (simp add: upt_conv_Cons del: upt_Suc)
  moreover have "v4_send_message m (v4_block_payloads m) = Inr (v4_frames_of m, v4_block_payloads (Suc m))"
    using Suc.prems by (intro v4_send_message_frames) simp
  ultimately show ?case by (simp del: upt_Suc add_Suc)
qed simp

lemma v4_send_all_frames: "n \<le> u32_max + 1 \<Longrightarrow> v4_send_all n = Inr (concat (map v4_frames_of [0..<n]))"
  using v4_send_messages_frames [of 0 n] by (simp add: v4_send_all_def v4_block_payloads_def)

lemma v4_frames_of_wire:
  assumes "f \<in> set (v4_frames_of s)" and "s < n" and "V3_BLOCK_MESSAGES dvd n"
  obtains k kind i where "k < n div V3_BLOCK_MESSAGES" "v4_symbol kind i" "snd f = v4_wire kind k i"
proof -
  let ?k = "s div V3_BLOCK_MESSAGES" and ?i = "s mod V3_BLOCK_MESSAGES"
  have "?i < V3_BLOCK_MESSAGES" by (simp add: V3_BLOCK_MESSAGES_def)
  then have "v4_symbol V3Original ?i" "v4_symbol V3PairParity (?i div 2)" "v4_symbol V3GlobalZero 0" "v4_symbol V3GlobalOne 0"
    by (simp_all add: v4_symbol_def V3_PAIR_PARITIES_def V3_BLOCK_MESSAGES_def)
  moreover have "?k < n div V3_BLOCK_MESSAGES" using assms(2,3) by (simp add: less_mult_imp_div_less)
  moreover have "snd f \<in> {v4_wire V3Original ?k ?i, v4_wire V3PairParity ?k (?i div 2), v4_wire V3GlobalZero ?k 0, v4_wire V3GlobalOne ?k 0}"
    using assms(1) by (auto simp: v4_frames_of_def Let_def split: if_splits)
  ultimately show thesis using that by blast
qed

lemma length_v4_frames: "length (concat (map v4_frames_of [0..<n])) = n + n div 2 + n div V3_BLOCK_MESSAGES * 2"
proof (induction n)
  case (Suc n)
  have step: "length (v4_frames_of s) = 1 + (if s mod V3_BLOCK_MESSAGES mod 2 = 1 then 1 else 0) +
      (if s mod V3_BLOCK_MESSAGES + 1 = V3_BLOCK_MESSAGES then 2 else 0)" for s
    by (simp add: v4_frames_of_def Let_def)
  have "s mod 10 mod 2 = s mod 2" for s :: nat by (simp add: mod_mod_cancel)
  with Suc show ?case by (simp add: step V3_BLOCK_MESSAGES_def div_Suc mod_Suc)
qed simp

section \<open>A fresh accounting\<close>

lemma V4BlockState_default_ok: "v4_block_ok first gen lim V4BlockState_default"
  by (simp add: v4_block_ok_def V4BlockState_default_def v4_symbol_ok_def V3_GLOBAL_PARITIES_def)

lemma V4BlockState_default_closed: "v4_closed V4BlockState_default"
  by (simp add: v4_closed_def pair_recoverable_def global_recoverable_def V4BlockState_default_def
      V3_GLOBAL_PARITIES_def present_globals)

lemma V4Accounting_new_ok:
  "v4_acc_ok gen lim n (V4Accounting_new n)" "v4_delivered n (V4Accounting_new n)" "v4_clean (V4Accounting_new n)"
  "a4_observed_frames (V4Accounting_new n) = 0"
proof -
  have "\<not> a4_first_correct (V4Accounting_new n) ! (k * V3_BLOCK_MESSAGES + i)"
    if "k < n div V3_BLOCK_MESSAGES" "i < V3_BLOCK_MESSAGES" for k i
    using block_slot_less [OF that] by (simp add: V4Accounting_new_def)
  then show "v4_acc_ok gen lim n (V4Accounting_new n)"
    by (simp add: v4_acc_ok_def v4_blocks_ok_def v4_deliveries_ok_def v4_outcomes_def V4BlockState_default_ok
        V4BlockState_default_closed) (simp add: V4Accounting_new_def V4BlockState_default_ok V4BlockState_default_closed)
  show "v4_delivered n (V4Accounting_new n)"
    by (simp add: v4_delivered_def V4Accounting_new_def V4BlockState_default_def)
  show "v4_clean (V4Accounting_new n)" "a4_observed_frames (V4Accounting_new n) = 0"
    by (simp_all add: v4_clean_def V4Accounting_new_def)
qed

section \<open>Complete blocks\<close>

lemma pair_parity_less: "i < V3_BLOCK_MESSAGES \<Longrightarrow> i div 2 < V3_PAIR_PARITIES"
  by (simp add: V3_PAIR_PARITIES_def V3_BLOCK_MESSAGES_def)

lemma v4_closed_partner:
  assumes "v4_closed b" and "i < V3_BLOCK_MESSAGES" and "originals b ! i = None" and "pair_parities b ! (i div 2) \<noteq> None"
  shows "originals b ! partner i = None"
proof -
  have "\<not> pair_recoverable b (i div 2)" using assms(1,2) pair_parity_less by (simp add: v4_closed_def)
  then have "originals b ! (i div 2 * 2) = None \<longleftrightarrow> originals b ! (i div 2 * 2 + 1) = None"
    using assms(4) by (simp add: pair_recoverable_def)
  then show ?thesis using assms(3) partner_pair [of i] by (metis doubleton_eq_iff)
qed

lemma v4_block_complete:
  assumes ok: "v4_block_ok first gen lim b" and closed: "v4_closed b"
    and few: "card {i. i < V3_BLOCK_MESSAGES \<and> originals b ! i = None} \<le>
      card {g \<in> {V3GlobalZero, V3GlobalOne}. v4_block_has b g 0}"
  shows "\<forall>i < V3_BLOCK_MESSAGES. originals b ! i \<noteq> None"
proof -
  note D = v4_block_okD [OF ok]
  have "card {g \<in> {V3GlobalZero, V3GlobalOne}. v4_block_has b g 0} =
      card ((if v4_global_parities b ! 0 = None then {} else {V3GlobalZero}) \<union> (if v4_global_parities b ! 1 = None then {} else {V3GlobalOne}))"
    by (rule arg_cong [where f = card]) (auto simp: v4_block_has_def)
  also have "\<dots> = length (present_slots (v4_global_parities b))"
    using D(3) by (simp add: present_globals)
  finally have "length (missing_slots (originals b)) \<le> length (present_slots (v4_global_parities b))"
    using few D(1) by (simp add: length_missing_slots)
  then have "length (missing_slots (originals b)) = 0" using closed by (simp add: v4_closed_def global_recoverable_def)
  then have "set (missing_slots (originals b)) = {}" by simp
  then show ?thesis using D(1) by auto
qed

section \<open>Properties\<close>

text \<open>
  C31.  The recovery of a block ends.  On a block that holds only symbols the sender made, it counts no
  error; it restores only slots that were empty, each once and with the payload that was sent in it,
  not before that message was generated; it keeps the rest of the block; and it leaves nothing that
  could be restored: no pair with its parity has exactly one message missing, and if any messages are
  still missing there are more of them than global parities.
\<close>

theorem recover_v4_block_complete:
  assumes "v4_block_ok first gen lim block"
  shows "\<exists>block' ds. recover_v4_block block first = Some (block', ds, 0) \<and> v4_block_ok first gen lim block' \<and>
    distinct (map d4_slot ds) \<and>
    (\<forall>d \<in> set ds. originals block ! d4_slot d = None \<and>
      d4_payload d = make_v3_payload (of_nat (first + d4_slot d)) \<and> gen (d4_slot d) \<le> d4_available_at d) \<and>
    (\<forall>i < V3_BLOCK_MESSAGES. i \<notin> d4_slot ` set ds \<longrightarrow> originals block' ! i = originals block ! i) \<and>
    (\<forall>p < V3_PAIR_PARITIES. pair_parities block ! p \<noteq> None \<longrightarrow>
      (originals block' ! (p * 2) = None) = (originals block' ! (p * 2 + 1) = None)) \<and>
    (missing_slots (originals block') = [] \<or>
      length (missing_slots (originals block')) > length (present_slots (v4_global_parities block)))"
proof -
  obtain new b' where rec: "recover_v4_block block first = Some (b', new, 0)" "v4_restores first gen lim block new b'" "v4_closed b'"
    using recover_v4_block_restores [OF assms] by blast
  note slots = v4_restores_slots [OF rec(2)]
  have "missing_slots (originals b') = [] \<or>
      length (missing_slots (originals b')) > length (present_slots (v4_global_parities block))"
    using rec(3) slots(5) by (auto simp: v4_closed_def global_recoverable_def)
  moreover have "\<forall>p < V3_PAIR_PARITIES. pair_parities block ! p \<noteq> None \<longrightarrow>
      (originals b' ! (p * 2) = None) = (originals b' ! (p * 2 + 1) = None)"
    using rec(3) slots(4) unfolding v4_closed_def pair_recoverable_def by auto
  moreover have "\<forall>d \<in> set new. originals block ! d4_slot d = None \<and>
      d4_payload d = make_v3_payload (of_nat (first + d4_slot d)) \<and> gen (d4_slot d) \<le> d4_available_at d"
    using slots(2) by (simp add: v4_genuine_def)
  ultimately show ?thesis using rec(1) v4_restores_ok [OF rec(2)] slots(1,3)
    by (intro exI [of _ b'] exI [of _ new]) blast
qed

text \<open>A block that lacks the messages of slots 3 and 6, with both global parities.\<close>

definition v4_sample_block :: V4BlockState where
  "v4_sample_block =
     \<lparr>originals = map (\<lambda>i. if i = 3 \<or> i = 6 then None
        else Some \<lparr>s4_payload = make_v3_payload (of_nat (0 + i)), s4_available_at = 5\<rparr>) [0..<V3_BLOCK_MESSAGES],
      pair_parities = replicate V3_PAIR_PARITIES None,
      v4_global_parities = map (\<lambda>g. Some \<lparr>s4_payload = v4_parity 0 g, s4_available_at = 7\<rparr>) [0..<2],
      v4_recovery_failed = replicate V3_BLOCK_MESSAGES False\<rparr>"

lemma v4_sample_block_ok: "v4_block_ok 0 (\<lambda>_. 1) (\<lambda>_. True) v4_sample_block"
  by (auto simp: v4_block_ok_def v4_sample_block_def v4_symbol_ok_def)

lemma v4_sample_block_missing: "originals v4_sample_block ! i = None \<Longrightarrow> i < V3_BLOCK_MESSAGES \<Longrightarrow> i \<in> {3, 6}"
  by (simp add: v4_sample_block_def split: if_splits)

theorem recover_v4_block_complete_witness:
  "v4_block_ok 0 (\<lambda>_. 1) (\<lambda>_. True) v4_sample_block \<and>
   (\<exists>block' ds. recover_v4_block v4_sample_block 0 = Some (block', ds, 0) \<and> missing_slots (originals block') = [])"
proof -
  obtain b' ds where rec: "recover_v4_block v4_sample_block 0 = Some (b', ds, 0)" "v4_block_ok 0 (\<lambda>_. 1) (\<lambda>_. True) b'"
    and kept: "\<forall>i < V3_BLOCK_MESSAGES. i \<notin> d4_slot ` set ds \<longrightarrow> originals b' ! i = originals v4_sample_block ! i"
    and ds: "\<forall>d \<in> set ds. originals v4_sample_block ! d4_slot d = None"
    and rest: "missing_slots (originals b') = [] \<or>
      length (missing_slots (originals b')) > length (present_slots (v4_global_parities v4_sample_block))"
    using recover_v4_block_complete [OF v4_sample_block_ok] by blast
  have "set (missing_slots (originals b')) \<subseteq> {3, 6}"
  proof
    fix i assume "i \<in> set (missing_slots (originals b'))"
    then have i: "i < V3_BLOCK_MESSAGES" "originals b' ! i = None" using v4_block_okD(1) [OF rec(2)] by simp_all
    then have "originals v4_sample_block ! i = None" using kept ds by (metis imageE)
    then show "i \<in> {3, 6}" using v4_sample_block_missing i(1) by blast
  qed
  then have "length (missing_slots (originals b')) \<le> card {3, 6 :: nat}"
    by (metis card_mono distinct_card distinct_missing_slots finite.emptyI finite.insertI)
  moreover have "length (present_slots (v4_global_parities v4_sample_block)) = 2"
    by (simp add: present_globals v4_sample_block_def)
  ultimately have "missing_slots (originals b') = []" using rest by auto
  then show ?thesis using rec(1) v4_sample_block_ok by blast
qed

text \<open>
  C32.  Whatever datagrams arrive, and however the wait for them ends, the receive loop returns with a
  consistent account: every counted delivery is of a message whose exact payload the block holds, no
  recovery ever contradicts the payload that was sent, and the report passes its own completeness check.
\<close>

theorem v4_run_consistent:
  assumes "length gens \<le> usize_max"
  shows "\<exists>acc r. v4_receive expected started gens outcomes (V4Accounting_new (length gens)) = Some (acc, r) \<and>
    v4_measurement_is_complete (v4_report (length gens) acc) \<and> a4_recovery_error_messages acc = 0 \<and>
    length (a4_latencies acc) = card {s. s < length gens \<and> a4_first_correct acc ! s} \<and>
    (\<forall>k < length gens div V3_BLOCK_MESSAGES. \<forall>i < V3_BLOCK_MESSAGES. a4_first_correct acc ! (k * V3_BLOCK_MESSAGES + i) \<longrightarrow>
      map_option s4_payload (originals (a4_blocks acc ! k) ! i) = Some (make_v3_payload (of_nat (k * V3_BLOCK_MESSAGES + i))))"
proof -
  obtain acc r where run: "v4_receive expected started gens outcomes (V4Accounting_new (length gens)) = Some (acc, r)"
    and ok: "v4_acc_ok (\<lambda>_. 0) (\<lambda>_. True) (length gens) acc"
    using v4_receive_ok [OF V4Accounting_new_ok(1) assms, of outcomes "\<lambda>_. 0" "\<lambda>_. True" expected started]
    by (auto simp: v4_timely_def)
  note I = v4_acc_okD [OF ok]
  note D = v4_blocks_okD [OF I(1)]
  have count: "length (filter id (a4_first_correct acc)) = card {s. s < length gens \<and> a4_first_correct acc ! s}"
    using D(1) by (simp add: length_filter_conv_card)
  have le: "length (filter id (a4_first_correct acc)) \<le> length gens" using D(1) length_filter_le by metis
  have "v4_measurement_is_complete (v4_report (length gens) acc)"
    using D(4) I(2) le assms by (simp add: v4_measurement_is_complete_def v4_report_def v4_deliveries_ok_def Let_def sat_add_usize_def)
  moreover have "map_option s4_payload (originals (a4_blocks acc ! k) ! i) = Some (make_v3_payload (of_nat (k * V3_BLOCK_MESSAGES + i)))"
    if ki: "k < length gens div V3_BLOCK_MESSAGES" "i < V3_BLOCK_MESSAGES" "a4_first_correct acc ! (k * V3_BLOCK_MESSAGES + i)" for k i
  proof -
    obtain s where s: "originals (a4_blocks acc ! k) ! i = Some s" using D(7) [OF ki] by blast
    then show ?thesis using v4_block_okD(5) [OF D(6) [OF ki(1)] ki(2) s] by simp
  qed
  moreover have "length (a4_latencies acc) = card {s. s < length gens \<and> a4_first_correct acc ! s}"
    using D(4) count by (simp add: v4_deliveries_ok_def Let_def)
  ultimately show ?thesis using run D(3) by (intro exI [of _ acc] exI [of _ r]) blast
qed

theorem v4_run_consistent_witness:
  "length (replicate 10 (0 :: nat)) \<le> usize_max \<and>
   (\<exists>acc r. v4_receive 17 0 (replicate 10 0) [Some \<lparr>ev_data = [1, 2, 3], ev_received_at = 4\<rparr>, None] (V4Accounting_new 10) = Some (acc, r) \<and>
     v4_measurement_is_complete (v4_report 10 acc))"
  using v4_run_consistent [of "replicate 10 0" 17 0 "[Some \<lparr>ev_data = [1, 2, 3], ev_received_at = 4\<rparr>, None]"]
  by (auto simp: usize_max_def)

text \<open>
  What the received datagrams carry of a block: the messages that neither arrived themselves nor follow
  from the other message of their pair and its parity are lost to everything but the global parities.
\<close>

definition v4_got :: "usize \<Rightarrow> RealtimeDatagramEvent list \<Rightarrow> usize \<Rightarrow> V3FrameKind \<Rightarrow> usize \<Rightarrow> bool" where
  "v4_got n events k kind i \<longleftrightarrow> (\<exists>event \<in> set events. v4_carries n k kind i event)"

definition v4_lost :: "usize \<Rightarrow> RealtimeDatagramEvent list \<Rightarrow> usize \<Rightarrow> usize set" where
  "v4_lost n events k = {i. i < V3_BLOCK_MESSAGES \<and> \<not> v4_got n events k V3Original i \<and>
     \<not> (v4_got n events k V3PairParity (i div 2) \<and> v4_got n events k V3Original (partner i))}"

lemma v4_received_block_complete:
  assumes blocks: "v4_blocks_ok gen lim n acc" and k: "k < n div V3_BLOCK_MESSAGES"
    and has: "\<And>kind i. v4_got n events k kind i \<Longrightarrow> v4_has acc k kind i"
    and few: "card (v4_lost n events k) \<le> card {g \<in> {V3GlobalZero, V3GlobalOne}. v4_got n events k g 0}"
  shows "\<forall>i < V3_BLOCK_MESSAGES. originals (a4_blocks acc ! k) ! i \<noteq> None"
proof -
  let ?b = "a4_blocks acc ! k"
  note ok = v4_blocks_okD(6) [OF blocks k] and closed = v4_blocks_okD(5) [OF blocks k]
  have has: "v4_block_has ?b kind i" if "v4_got n events k kind i" for kind i
    using has [OF that] by (simp add: v4_has_def)
  have "{i. i < V3_BLOCK_MESSAGES \<and> originals ?b ! i = None} \<subseteq> v4_lost n events k"
  proof
    fix i assume i: "i \<in> {i. i < V3_BLOCK_MESSAGES \<and> originals ?b ! i = None}"
    have "\<not> v4_got n events k V3Original i" using has [of V3Original i] i by (auto simp: v4_block_has_def)
    moreover have "\<not> v4_got n events k V3Original (partner i)" if "v4_got n events k V3PairParity (i div 2)"
      using v4_closed_partner [OF closed, of i] i has [OF that] has [of V3Original "partner i"] by (auto simp: v4_block_has_def)
    ultimately show "i \<in> v4_lost n events k" using i by (auto simp: v4_lost_def)
  qed
  then have "card {i. i < V3_BLOCK_MESSAGES \<and> originals ?b ! i = None} \<le> card (v4_lost n events k)"
    by (intro card_mono) (auto simp: v4_lost_def)
  also note few
  also have "card {g \<in> {V3GlobalZero, V3GlobalOne}. v4_got n events k g 0} \<le> card {g \<in> {V3GlobalZero, V3GlobalOne}. v4_block_has ?b g 0}"
    using has by (intro card_mono) auto
  finally show ?thesis by (rule v4_block_complete [OF ok closed])
qed

text \<open>
  C30.  The sender produces its frames, and if the datagrams that arrive are among them, each after the
  messages it is made of were generated, in any order and with any of them missing, then the receiver
  reports no error of any kind, and it delivers every message of each block in which the messages lost
  to their pairs are no more than the global parities that arrived.
\<close>

theorem v4_run_delivers:
  assumes n: "V3_BLOCK_MESSAGES dvd length gens" "length gens \<le> u32_max"
    and sent: "v4_send_all (length gens) = Inr frames"
    and events: "\<forall>event \<in> set events. ev_data event \<in> snd ` set frames \<and>
      v4_timely (v4_clock started gens) (\<lambda>t. t \<le> started + u64_max) event"
    and count: "length events \<le> length frames"
  shows "\<exists>acc. v4_receive (v4_expected_frames (length gens)) started gens (map Some events) (V4Accounting_new (length gens)) =
      Some (acc, Inr ()) \<and> v4_error_messages (v4_report (length gens) acc) = 0 \<and>
    (\<forall>k < length gens div V3_BLOCK_MESSAGES.
      card (v4_lost (length gens) events k) \<le> card {g \<in> {V3GlobalZero, V3GlobalOne}. v4_got (length gens) events k g 0} \<longrightarrow>
      (\<forall>i < V3_BLOCK_MESSAGES. a4_first_correct acc ! (k * V3_BLOCK_MESSAGES + i)))"
proof -
  let ?n = "length gens" and ?lim = "\<lambda>t. t \<le> started + u64_max"
  have frames: "frames = concat (map v4_frames_of [0..<?n])" using sent v4_send_all_frames [of ?n] n(2) by simp
  have small: "?n \<le> usize_max" "v4_expected_frames ?n \<le> usize_max" "v4_expected_frames ?n = length frames"
    using n(2) by (simp_all add: v4_expected_frames_def frames length_v4_frames sat_add_usize_def u32_max_def usize_max_def
        V3_GLOBAL_PARITIES_def V3_BLOCK_MESSAGES_def)
  have "\<exists>k kind i. k < ?n div V3_BLOCK_MESSAGES \<and> v4_carries ?n k kind i event" if e: "event \<in> set events" for event
  proof -
    obtain f s where "s < ?n" "f \<in> set (v4_frames_of s)" "ev_data event = snd f"
      using bspec [OF events e] by (auto simp: frames)
    then show ?thesis using v4_frames_of_wire [of f s ?n] n v4_wire_carries by metis
  qed
  then obtain acc where run: "v4_receive (v4_expected_frames ?n) started gens (map Some events) (V4Accounting_new ?n) = Some (acc, Inr ())"
    and acc: "v4_acc_ok (v4_clock started gens) ?lim ?n acc" "v4_delivered ?n acc" "v4_clean acc"
    and has: "\<forall>event \<in> set events. \<forall>k kind i. k < ?n div V3_BLOCK_MESSAGES \<longrightarrow> v4_carries ?n k kind i event \<longrightarrow> v4_has acc k kind i"
    using v4_receive_sent [OF V4Accounting_new_ok(1) small(1) _ V4Accounting_new_ok(2,3) _ small(2), of events started] events
      count small(3) V4Accounting_new_ok(4) by auto
  note I = v4_acc_okD [OF acc(1)]
  have "v4_error_messages (v4_report ?n acc) = 0"
    using acc(2,3) v4_blocks_okD(3) [OF I(1)]
    by (simp add: v4_error_messages_def v4_report_def v4_clean_def v4_delivered_def Let_def sat_add_usize_def)
  moreover have "a4_first_correct acc ! (k * V3_BLOCK_MESSAGES + i)"
    if "k < ?n div V3_BLOCK_MESSAGES" "i < V3_BLOCK_MESSAGES"
      "card (v4_lost ?n events k) \<le> card {g \<in> {V3GlobalZero, V3GlobalOne}. v4_got ?n events k g 0}" for k i
  proof -
    have "v4_has acc k kind i" if "v4_got ?n events k kind i" for kind i
      using that has \<open>k < ?n div V3_BLOCK_MESSAGES\<close> unfolding v4_got_def by blast
    then have "originals (a4_blocks acc ! k) ! i \<noteq> None"
      using v4_received_block_complete [OF I(1) that(1) _ that(3)] that(2) by blast
    then show ?thesis using acc(2) that(1,2) by (simp add: v4_delivered_def)
  qed
  ultimately show ?thesis using run by (intro exI [of _ acc]) blast
qed

text \<open>A run of one block of which everything arrives at once.\<close>

lemma v4_sample_timely:
  assumes "v4_symbol kind i" and "ev_data event = v4_wire kind 0 i" and "ev_received_at event = 0"
  shows "v4_timely (v4_clock 0 (replicate 10 0)) (\<lambda>t. t \<le> 0 + u64_max) event"
proof -
  have "v4_carries 10 0 kind i event" using assms by (intro v4_wire_carries) (simp_all add: V3_BLOCK_MESSAGES_def u32_max_def)
  then have covers: "\<forall>frame. decode_v3_frame (ev_data event) = Inr frame \<longrightarrow> v4_covers frame \<subseteq> {..<10}"
    using assms(1) v4_symbol_less [OF assms(1)] pair_slots [of i]
    by (auto simp: v4_carries_def v4_covers_def v3_frame_def v4_symbol_def V3_BLOCK_MESSAGES_def split: V3FrameKind.splits)
  have "v4_clock 0 (replicate 10 0) s = 0" if "decode_v3_frame (ev_data event) = Inr frame" "s \<in> v4_covers frame" for frame s
  proof -
    have "s < 10" using covers that by blast
    then show ?thesis by (simp add: v4_clock_def)
  qed
  then show ?thesis using assms(3) by (simp add: v4_timely_def)
qed

theorem v4_run_delivers_witness:
  "\<exists>frames acc. v4_send_all 10 = Inr frames \<and>
    v4_receive (v4_expected_frames 10) 0 (replicate 10 0)
      (map (\<lambda>f. Some \<lparr>ev_data = snd f, ev_received_at = 0\<rparr>) frames) (V4Accounting_new 10) = Some (acc, Inr ()) \<and>
    v4_error_messages (v4_report 10 acc) = 0 \<and> (\<forall>i < 10. a4_first_correct acc ! i)"
proof -
  let ?frames = "concat (map v4_frames_of [0..<10])" and ?event = "\<lambda>f :: bool \<times> bytes. \<lparr>ev_data = snd f, ev_received_at = 0\<rparr>"
  have ten: "V3_BLOCK_MESSAGES = 10" by (simp add: V3_BLOCK_MESSAGES_def)
  have sent: "v4_send_all (length (replicate 10 (0 :: nat))) = Inr ?frames"
    using v4_send_all_frames [of 10] by (simp add: u32_max_def)
  have timely: "v4_timely (v4_clock 0 (replicate 10 0)) (\<lambda>t. t \<le> 0 + u64_max) (?event f)" if f: "f \<in> set ?frames" for f
  proof -
    obtain s where "f \<in> set (v4_frames_of s)" "s < 10" using f by (auto simp del: upt_rec_numeral)
    then obtain k kind i where "k < 10 div V3_BLOCK_MESSAGES" "v4_symbol kind i" "snd f = v4_wire kind k i"
      using v4_frames_of_wire [of f s 10] ten by auto
    then show ?thesis using v4_sample_timely [of kind i "?event f"] ten by simp
  qed
  have got: "v4_got 10 (map ?event ?frames) 0 V3Original i" if "i < 10" for i
  proof -
    have "(False, v4_wire V3Original 0 i) \<in> set (v4_frames_of i)" using that by (simp add: v4_frames_of_def ten)
    then have "(False, v4_wire V3Original 0 i) \<in> set ?frames" using that by (auto simp del: upt_rec_numeral)
    then have "?event (False, v4_wire V3Original 0 i) \<in> set (map ?event ?frames)" unfolding list.set_map by (rule imageI)
    moreover have "v4_carries 10 0 V3Original i (?event (False, v4_wire V3Original 0 i))"
      using that by (intro v4_wire_carries) (simp_all add: v4_symbol_def ten u32_max_def)
    ultimately show ?thesis unfolding v4_got_def by blast
  qed
  then have none: "v4_lost 10 (map ?event ?frames) 0 = {}" by (auto simp: v4_lost_def ten simp del: upt_rec_numeral)
  have "\<exists>acc. v4_receive (v4_expected_frames (length (replicate 10 (0 :: nat)))) 0 (replicate 10 0) (map Some (map ?event ?frames))
      (V4Accounting_new (length (replicate 10 (0 :: nat)))) = Some (acc, Inr ()) \<and>
    v4_error_messages (v4_report (length (replicate 10 (0 :: nat))) acc) = 0 \<and>
    (\<forall>k < length (replicate 10 (0 :: nat)) div V3_BLOCK_MESSAGES.
      card (v4_lost (length (replicate 10 (0 :: nat))) (map ?event ?frames) k) \<le>
        card {g \<in> {V3GlobalZero, V3GlobalOne}. v4_got (length (replicate 10 (0 :: nat))) (map ?event ?frames) k g 0} \<longrightarrow>
      (\<forall>i < V3_BLOCK_MESSAGES. a4_first_correct acc ! (k * V3_BLOCK_MESSAGES + i)))"
  proof (rule v4_run_delivers [OF _ _ sent])
    show "\<forall>event \<in> set (map ?event ?frames). ev_data event \<in> snd ` set ?frames \<and>
        v4_timely (v4_clock 0 (replicate 10 0)) (\<lambda>t. t \<le> 0 + u64_max) event"
      using timely by (auto simp del: upt_rec_numeral)
  qed (simp_all add: ten u32_max_def del: upt_rec_numeral)
  then obtain acc where "v4_receive (v4_expected_frames 10) 0 (replicate 10 0) (map Some (map ?event ?frames)) (V4Accounting_new 10) = Some (acc, Inr ())"
    "v4_error_messages (v4_report 10 acc) = 0" "\<forall>i < 10. a4_first_correct acc ! i"
    using none by (auto simp: ten simp del: upt_rec_numeral)
  then show ?thesis using sent by (intro exI [of _ ?frames] exI [of _ acc]) (simp add: comp_def del: upt_rec_numeral)
qed

end
