(* ===== verification/Fec_Matrix.thy ===== *)
theory Fec_Matrix
  imports Fec_Gf "HOL-Library.Sublist"
begin

unbundle bit_operations_syntax

text \<open>
  The linear algebra of the erasure decoder (\<open>realtime_v3.rs\<close>): the enumeration of row choices and
  the Gauss-Jordan inversion of a matrix of bytes.  The enumeration yields exactly the subsequences
  of the requested length, and the inversion succeeds exactly on the matrices with a trivial kernel,
  where its result is a left inverse.
\<close>

section \<open>The routines\<close>

text \<open>
  The inner function \<open>visit\<close> pushes a row, recurses behind it and pops it again, so that the vector
  \<open>current\<close> is the same at every turn of its loop; the found choices are appended to \<open>result\<close>.
\<close>

function visit :: "usize list \<Rightarrow> usize \<Rightarrow> usize \<Rightarrow> usize list \<Rightarrow> usize list list \<Rightarrow> usize list list" where
  "visit rows count start current result =
     (if length current = count then result @ [current]
      else fold (\<lambda>index result. visit rows count (index + 1) (current @ [rows ! index]) result)
             [start..<length rows] result)"
  by pat_completeness auto
termination
  by (relation "measure (\<lambda>(rows, count, start, current, result). length rows - start)") auto

declare visit.simps [simp del]

definition choose_rows :: "usize list \<Rightarrow> usize \<Rightarrow> usize list list" where
  "choose_rows rows count = visit rows count 0 [] []"

text \<open>The matrix with the identity to its right.\<close>

definition augment :: "u8 list list \<Rightarrow> u8 list list" where
  "augment matrix =
     map (\<lambda>(row_index, row). row @ map (\<lambda>column. if column = row_index then 1 else 0) [0..<length matrix])
       (enumerate 0 matrix)"

definition swap_rows :: "usize \<Rightarrow> usize \<Rightarrow> 'a list \<Rightarrow> 'a list" where
  "swap_rows i j rows = rows[i := rows ! j, j := rows ! i]"

text \<open>One turn of the outer loop of \<open>invert_gf_matrix\<close>, which clears a column.\<close>

definition clear_row :: "usize \<Rightarrow> u8 list \<Rightarrow> usize \<times> u8 list \<Rightarrow> u8 list" where
  "clear_row column pivot_values = (\<lambda>(row_index, row_values).
     if row_index = column then row_values
     else let factor = row_values ! column in
       if factor = 0 then row_values
       else map2 (\<lambda>value pivot_value. value XOR gf_mul factor pivot_value) row_values pivot_values)"

definition eliminate_column :: "usize \<Rightarrow> usize \<Rightarrow> u8 list list \<Rightarrow> u8 list list option" where
  "eliminate_column dim column augmented =
     (case find (\<lambda>row. augmented ! row ! column \<noteq> 0) [column..<dim] of
        None \<Rightarrow> None
      | Some pivot \<Rightarrow>
          let augmented = swap_rows column pivot augmented in
          (case gf_div 1 (augmented ! column ! column) of
             Inl _ \<Rightarrow> None
           | Inr inverse_pivot \<Rightarrow>
               let augmented = augmented[column := map (\<lambda>value. gf_mul value inverse_pivot) (augmented ! column)];
                   pivot_values = augmented ! column
               in Some (map (clear_row column pivot_values) (enumerate 0 augmented))))"

primrec eliminate_columns :: "usize \<Rightarrow> usize list \<Rightarrow> u8 list list \<Rightarrow> u8 list list option" where
  "eliminate_columns dim [] augmented = Some augmented"
| "eliminate_columns dim (column # columns) augmented =
     (case eliminate_column dim column augmented of
        None \<Rightarrow> None
      | Some augmented \<Rightarrow> eliminate_columns dim columns augmented)"

definition invert_gf_matrix :: "u8 list list \<Rightarrow> u8 list list option" where
  "invert_gf_matrix matrix =
     (let dim = length matrix in
      if dim = 0 \<or> list_ex (\<lambda>row. length row \<noteq> dim) matrix then None
      else map_option (map (drop dim)) (eliminate_columns dim [0..<dim] (augment matrix)))"

text \<open>The matrix that \<open>recover_v12_global\<close> builds for the chosen rows and the missing shards.\<close>

definition parity_matrix :: "usize list \<Rightarrow> usize list \<Rightarrow> u8 list list" where
  "parity_matrix rows missing =
     map (\<lambda>row. map (\<lambda>slot. gf_pow (global_coefficient slot) (of_nat row)) missing) rows"

section \<open>The row choices\<close>

fun combinations :: "nat \<Rightarrow> 'a list \<Rightarrow> 'a list list" where
  "combinations 0 xs = [[]]"
| "combinations (Suc n) [] = []"
| "combinations (Suc n) (x # xs) = map ((#) x) (combinations n xs) @ combinations (Suc n) xs"

lemma set_combinations: "set (combinations n xs) = {ys. subseq ys xs \<and> length ys = n}"
proof (induction n xs rule: combinations.induct)
  case (3 n x xs)
  have "{ys. subseq ys (x # xs) \<and> length ys = Suc n} =
      (#) x ` {ys. subseq ys xs \<and> length ys = n} \<union> {ys. subseq ys xs \<and> length ys = Suc n}"
    by (auto simp: subseq_Cons' image_iff length_Suc_conv)
  then show ?case using 3 by simp
qed auto

lemma visit_combinations:
  "length current \<le> count \<Longrightarrow>
   visit rows count start current result =
     result @ map ((@) current) (combinations (count - length current) (drop start rows))"
proof (induction "length rows - start" arbitrary: start current result rule: less_induct)
  case less
  show ?case
  proof (cases "length current = count")
    case True
    then show ?thesis by (subst visit.simps) simp
  next
    case False
    with less.prems obtain m where m: "count - length current = Suc m" by (cases "count - length current") auto
    show ?thesis
    proof (cases "start < length rows")
      case True
      then have upt: "[start..<length rows] = start # [Suc start..<length rows]" and
        drop: "drop start rows = rows ! start # drop (Suc start) rows"
        by (simp_all add: upt_conv_Cons Cons_nth_drop_Suc)
      let ?taken = "visit rows count (Suc start) (current @ [rows ! start]) result"
      have "visit rows count start current result = visit rows count (Suc start) current ?taken"
        using False by (simp add: visit.simps [of rows count start] visit.simps [of rows count "Suc start" current] upt)
      also have "\<dots> = ?taken @ map ((@) current) (combinations (Suc m) (drop (Suc start) rows))"
        using less.hyps [of "Suc start"] less.prems True m by simp
      also have "?taken = result @ map ((@) (current @ [rows ! start])) (combinations m (drop (Suc start) rows))"
      proof -
        have "count - length (current @ [rows ! start]) = m" using m by simp
        then show ?thesis using less.hyps [of "Suc start" "current @ [rows ! start]"] less.prems True False by simp
      qed
      finally show ?thesis by (simp add: m drop)
    next
      case outside: False
      then have "visit rows count start current result = result" using False by (simp add: visit.simps)
      with outside show ?thesis by (simp add: m)
    qed
  qed
qed

lemma choose_rows_combinations: "choose_rows rows count = combinations count rows"
  by (simp add: choose_rows_def visit_combinations append_Nil [abs_def])

lemma set_choose_rows: "set (choose_rows rows count) = {ys. subseq ys rows \<and> length ys = count}"
  by (simp add: choose_rows_combinations set_combinations)

lemma choose_rows_nonempty: "count \<le> length rows \<Longrightarrow> choose_rows rows count \<noteq> []"
proof -
  assume "count \<le> length rows"
  then have "take count rows \<in> set (choose_rows rows count)"
    by (simp add: set_choose_rows prefix_imp_subseq take_is_prefix)
  then show ?thesis by (metis empty_iff empty_set)
qed

section \<open>One step of the elimination\<close>

text \<open>The elimination step as a function of the entries, with the row of the pivot brought to the diagonal.\<close>

definition entry :: "u8 list list \<Rightarrow> nat \<Rightarrow> nat \<Rightarrow> gf" where
  "entry m i j = Gf (m ! i ! j)"

definition swapped :: "nat \<Rightarrow> nat \<Rightarrow> nat \<Rightarrow> nat" where
  "swapped c p i = (if i = c then p else if i = p then c else i)"

definition gauss :: "(nat \<Rightarrow> nat \<Rightarrow> gf) \<Rightarrow> nat \<Rightarrow> nat \<Rightarrow> nat \<Rightarrow> nat \<Rightarrow> gf" where
  "gauss a c p i j =
     (if i = c then a p j / a p c else a (swapped c p i) j + a (swapped c p i) c * (a p j / a p c))"

definition shape :: "nat \<Rightarrow> u8 list list \<Rightarrow> bool" where
  "shape n a \<longleftrightarrow> length a = n \<and> (\<forall>i < n. length (a ! i) = 2 * n)"

lemma nth_swap_rows:
  "c < length a \<Longrightarrow> p < length a \<Longrightarrow> i < length a \<Longrightarrow> swap_rows c p a ! i = a ! swapped c p i"
  by (auto simp: swap_rows_def swapped_def nth_list_update)

lemma swapped_less: "c < n \<Longrightarrow> p < n \<Longrightarrow> i < n \<Longrightarrow> swapped c p i < n"
  by (simp add: swapped_def)

lemma find_upt_None: "find P [c..<n] = None \<Longrightarrow> c \<le> i \<Longrightarrow> i < n \<Longrightarrow> \<not> P i"
  by (auto simp: find_None_iff)

lemma find_upt_Some: "find P [c..<n] = Some p \<Longrightarrow> c \<le> p \<and> p < n \<and> P p"
  by (auto simp: find_Some_iff)

lemma Gf_map: "j < length xs \<Longrightarrow> Gf (map f xs ! j) = Gf (f (xs ! j))"
  by simp

lemma clear_row_entry:
  assumes "length row = k" and "length pivot = k" and "j < k" and "i \<noteq> c"
  shows "Gf (clear_row c pivot (i, row) ! j) = Gf (row ! j) + Gf (row ! c) * Gf (pivot ! j)"
  using assms by (simp add: clear_row_def Let_def Gf_simps Gf_eq_0)

lemma length_clear_row: "length row = k \<Longrightarrow> length pivot = k \<Longrightarrow> length (clear_row c pivot (i, row)) = k"
  by (simp add: clear_row_def Let_def)

lemma eliminate_column_None:
  assumes "eliminate_column n c a = None" and "c \<le> i" and "i < n" and "shape n a"
  shows "entry a i c = 0"
proof (cases "find (\<lambda>row. a ! row ! c \<noteq> 0) [c..<n]")
  case None
  then show ?thesis using find_upt_None [OF None assms(2,3)] by (simp add: entry_def Gf_eq_0)
next
  case (Some p)
  from find_upt_Some [OF Some] assms(4) have "swap_rows c p a ! c ! c \<noteq> 0"
    by (simp add: nth_swap_rows shape_def swapped_def)
  with Some assms(1) show ?thesis by (simp add: eliminate_column_def Let_def gf_div_eq)
qed

lemma eliminate_column_Some:
  assumes "eliminate_column n c a = Some b" and "c < n" and "shape n a"
  obtains p where "c \<le> p" "p < n" "entry a p c \<noteq> 0" "shape n b"
    "\<forall>i < n. \<forall>j < 2 * n. entry b i j = gauss (entry a) c p i j"
proof -
  from assms(1) obtain p where find: "find (\<lambda>row. a ! row ! c \<noteq> 0) [c..<n] = Some p"
    by (cases "find (\<lambda>row. a ! row ! c \<noteq> 0) [c..<n]") (auto simp: eliminate_column_def)
  note p = find_upt_Some [OF find]
  let ?s = "swap_rows c p a" and ?q = "gf_inverse (a ! p ! c)"
  let ?pivot = "map (\<lambda>value. gf_mul value ?q) (a ! p)"
  have len: "length a = n" "length ?s = n" using assms(3) by (simp_all add: shape_def swap_rows_def)
  have s: "?s ! i = a ! swapped c p i" if "i < n" for i
    using that p assms(2) len by (simp add: nth_swap_rows)
  have sc: "?s ! c = a ! p" using s [OF assms(2)] by (simp add: swapped_def)
  have b: "b = map (clear_row c ?pivot) (enumerate 0 (?s[c := ?pivot]))"
    using assms(1,2) find p len by (simp add: eliminate_column_def Let_def sc gf_div_eq)
  have rows: "length (a ! i) = 2 * n" if "i < n" for i using that assms(3) by (simp add: shape_def)
  have nth: "b ! i = clear_row c ?pivot (i, if i = c then ?pivot else a ! swapped c p i)" if "i < n" for i
    using that len by (simp add: b nth_enumerate_eq nth_list_update s)
  have "shape n b"
    using p rows swapped_less [OF assms(2)] len
    by (auto simp: shape_def nth intro!: length_clear_row) (simp add: b)
  moreover have "entry b i j = gauss (entry a) c p i j" if "i < n" "j < 2 * n" for i j
  proof (cases "i = c")
    case True
    then show ?thesis using that p rows
      by (simp add: entry_def nth gauss_def clear_row_def Gf_simps divide_inverse)
  next
    case False
    then show ?thesis using that p rows swapped_less [OF assms(2) _ that(1)]
      by (simp add: entry_def nth gauss_def clear_row_entry [where k = "2 * n"] Gf_simps divide_inverse)
  qed
  ultimately show thesis using that p by (auto simp: entry_def Gf_eq_0)
qed

section \<open>The inversion\<close>

text \<open>
  After the columns below \<open>c\<close> are cleared they are columns of the identity, every row of the left
  half is the product of its right half with the matrix, and the left half annihilates no vector
  that the matrix does not annihilate.
\<close>

definition unit_columns :: "nat \<Rightarrow> nat \<Rightarrow> (nat \<Rightarrow> nat \<Rightarrow> gf) \<Rightarrow> bool" where
  "unit_columns n c a \<longleftrightarrow> (\<forall>i < n. \<forall>j < c. a i j = (if i = j then 1 else 0))"

definition row_products :: "nat \<Rightarrow> (nat \<Rightarrow> nat \<Rightarrow> gf) \<Rightarrow> (nat \<Rightarrow> nat \<Rightarrow> gf) \<Rightarrow> bool" where
  "row_products n m a \<longleftrightarrow> (\<forall>i < n. \<forall>j < n. a i j = (\<Sum>k<n. a i (n + k) * m k j))"

definition annihilates :: "nat \<Rightarrow> (nat \<Rightarrow> nat \<Rightarrow> gf) \<Rightarrow> (nat \<Rightarrow> gf) \<Rightarrow> bool" where
  "annihilates n m v \<longleftrightarrow> (\<forall>i < n. (\<Sum>j<n. m i j * v j) = 0)"

lemma gauss_unit_columns:
  assumes "unit_columns n c a" and "c \<le> p" and "p < n" and "a p c \<noteq> 0"
  shows "unit_columns n (Suc c) (gauss a c p)"
  using assms by (auto simp: unit_columns_def gauss_def swapped_def less_Suc_eq)

lemma gauss_row_products:
  assumes "row_products n m a" and "c < n" and "p < n"
  shows "row_products n m (gauss a c p)"
proof -
  have eq: "a i j = (\<Sum>k<n. a i (n + k) * m k j)" if "i < n" "j < n" for i j
    using that assms(1) by (simp add: row_products_def)
  have "(\<Sum>k<n. (a i (n + k) + f * a p (n + k)) * m k j) = a i j + f * a p j"
    if "i < n" "j < n" for i j and f :: gf
    using eq [OF that] eq [OF assms(3) that(2)]
    by (simp add: distrib_right sum.distrib sum_distrib_left mult.assoc)
  moreover have "(\<Sum>k<n. f * a p (n + k) * m k j) = f * a p j" if "j < n" for j and f :: gf
    using eq [OF assms(3) that] by (simp add: sum_distrib_left mult.assoc)
  ultimately show ?thesis
    using swapped_less [OF assms(2,3)]
    by (simp add: row_products_def gauss_def divide_inverse mult.commute [of _ "inverse _"] flip: mult.assoc)
qed

lemma gauss_annihilates:
  assumes "annihilates n (gauss a c p) v" and "c < n" and "p < n" and "a p c \<noteq> 0"
  shows "annihilates n a v"
proof -
  have zero: "(\<Sum>j<n. gauss a c p i j * v j) = 0" if "i < n" for i
    using that assms(1) by (simp add: annihilates_def)
  have "(\<Sum>j<n. gauss a c p c j * v j) = (\<Sum>j<n. a p j * v j) / a p c"
    by (simp add: gauss_def sum_divide_distrib)
  with zero [OF assms(2)] assms(4) have pivot: "(\<Sum>j<n. a p j * v j) = 0" by simp
  have "(\<Sum>j<n. a i j * v j) = 0" if "i < n" for i
  proof (cases "i = p")
    case False
    let ?i = "swapped c p i"
    have i: "?i < n" "swapped c p ?i = i" "?i \<noteq> c"
      using that assms(2,3) False by (auto simp: swapped_def)
    have "(\<Sum>j<n. gauss a c p ?i j * v j) = (\<Sum>j<n. a i j * v j) + a i c / a p c * (\<Sum>j<n. a p j * v j)"
      using i by (simp add: gauss_def algebra_simps sum.distrib sum_distrib_left)
    with zero [OF i(1)] pivot show ?thesis by simp
  qed (simp add: pivot)
  then show ?thesis by (simp add: annihilates_def)
qed

definition reduced :: "nat \<Rightarrow> u8 list list \<Rightarrow> nat \<Rightarrow> u8 list list \<Rightarrow> bool" where
  "reduced n m c a \<longleftrightarrow> shape n a \<and> unit_columns n c (entry a) \<and> row_products n (entry m) (entry a) \<and>
     (\<forall>v. annihilates n (entry a) v \<longrightarrow> annihilates n (entry m) v)"

definition singular :: "nat \<Rightarrow> u8 list list \<Rightarrow> bool" where
  "singular n m \<longleftrightarrow> (\<exists>v. annihilates n (entry m) v \<and> (\<exists>j < n. v j \<noteq> 0))"

definition left_inverse :: "nat \<Rightarrow> u8 list list \<Rightarrow> u8 list list \<Rightarrow> bool" where
  "left_inverse n u m \<longleftrightarrow> length u = n \<and> (\<forall>i < n. length (u ! i) = n) \<and>
     (\<forall>i < n. \<forall>j < n. (\<Sum>k<n. entry u i k * entry m k j) = (if i = j then 1 else 0))"

lemma reduced_step:
  assumes "reduced n m c a" and "c < n" and "eliminate_column n c a = Some b"
  shows "reduced n m (Suc c) b"
proof -
  from assms(1) have inv: "shape n a" "unit_columns n c (entry a)" "row_products n (entry m) (entry a)"
    "\<And>v. annihilates n (entry a) v \<Longrightarrow> annihilates n (entry m) v" by (auto simp: reduced_def)
  obtain p where p: "c \<le> p" "p < n" "entry a p c \<noteq> 0" "shape n b"
    and b: "\<forall>i < n. \<forall>j < 2 * n. entry b i j = gauss (entry a) c p i j"
    using eliminate_column_Some [OF assms(3,2) inv(1)] by blast
  have "unit_columns n (Suc c) (entry b)"
    using gauss_unit_columns [OF inv(2) p(1-3)] b assms(2) by (auto simp: unit_columns_def)
  moreover have "row_products n (entry m) (entry b)"
    using gauss_row_products [OF inv(3) assms(2) p(2)] b by (simp add: row_products_def)
  moreover have "annihilates n (entry b) v \<Longrightarrow> annihilates n (gauss (entry a) c p) v" for v
    using b by (simp add: annihilates_def)
  ultimately show ?thesis
    using gauss_annihilates [where a = "entry a", OF _ assms(2) p(2,3)] inv(4) p(4) by (auto simp: reduced_def)
qed

lemma reduced_stuck:
  assumes "reduced n m c a" and "c < n" and "eliminate_column n c a = None"
  shows "singular n m"
proof -
  from assms(1) have inv: "shape n a" "unit_columns n c (entry a)"
    "\<And>v. annihilates n (entry a) v \<Longrightarrow> annihilates n (entry m) v" by (auto simp: reduced_def)
  have below: "entry a i c = 0" if "c \<le> i" "i < n" for i
    using eliminate_column_None [OF assms(3) that inv(1)] .
  let ?v = "\<lambda>j. if j < c then entry a j c else if j = c then 1 else 0"
  have "(\<Sum>j<n. entry a i j * ?v j) = 0" if "i < n" for i
  proof -
    have "(\<Sum>j<n. entry a i j * ?v j) =
        (\<Sum>j<n. (if j = i then (if i < c then entry a i c else 0) else 0) + (if j = c then entry a i c else 0))"
      using inv(2) that by (intro sum.cong) (auto simp: unit_columns_def)
    also have "\<dots> = (if i < c then entry a i c else 0) + entry a i c"
      using that assms(2) by (simp add: sum.distrib)
    also have "\<dots> = 0" using below that by simp
    finally show ?thesis .
  qed
  then have "annihilates n (entry m) ?v" using inv(3) by (simp add: annihilates_def)
  moreover have "?v c \<noteq> 0" by simp
  ultimately show ?thesis using assms(2) unfolding singular_def by blast
qed

lemma eliminate_columns_reduced:
  assumes "reduced n m c a" and "c \<le> n"
  shows "(case eliminate_columns n [c..<n] a of Some b \<Rightarrow> reduced n m n b | None \<Rightarrow> singular n m)"
  using assms
proof (induction "n - c" arbitrary: c a)
  case 0
  then show ?case by simp
next
  case (Suc k)
  then have upt: "[c..<n] = c # [Suc c..<n]" and "c < n" by (simp_all add: upt_conv_Cons)
  show ?case
  proof (cases "eliminate_column n c a")
    case None
    then show ?thesis using reduced_stuck [OF Suc.prems(1) \<open>c < n\<close>] by (simp add: upt)
  next
    case (Some b)
    then show ?thesis
      using Suc.hyps(1) [of "Suc c" b] Suc.hyps(2) reduced_step [OF Suc.prems(1) \<open>c < n\<close> Some] \<open>c < n\<close>
      by (simp add: upt)
  qed
qed

lemma reduced_augment:
  assumes "length m = n" and "\<forall>i < n. length (m ! i) = n"
  shows "reduced n m 0 (augment m)"
proof -
  have left: "entry (augment m) i j = entry m i j" if "i < n" "j < n" for i j
    using that assms by (simp add: entry_def augment_def nth_enumerate_eq nth_append)
  have right: "entry (augment m) i (n + k) = (if k = i then 1 else 0)" if "i < n" "k < n" for i k
    using that assms by (simp add: entry_def augment_def nth_enumerate_eq nth_append Gf_simps)
  have "shape n (augment m)"
    using assms by (simp add: shape_def augment_def nth_enumerate_eq)
  moreover have "row_products n (entry m) (entry (augment m))"
  proof -
    have "(\<Sum>k<n. entry (augment m) i (n + k) * entry m k j) = entry m i j" if "i < n" "j < n" for i j
    proof -
      have "(\<Sum>k<n. entry (augment m) i (n + k) * entry m k j) = (\<Sum>k<n. if k = i then entry m k j else 0)"
        using that by (intro sum.cong) (auto simp: right)
      then show ?thesis using that by simp
    qed
    then show ?thesis by (simp add: row_products_def left)
  qed
  ultimately show ?thesis by (auto simp: reduced_def unit_columns_def annihilates_def left)
qed

lemma reduced_left_inverse:
  assumes "reduced n m n b"
  shows "left_inverse n (map (drop n) b) m"
proof -
  have b: "length b = n" "\<And>i. i < n \<Longrightarrow> length (b ! i) = 2 * n"
    using assms by (simp_all add: reduced_def shape_def)
  then have right: "entry (map (drop n) b) i k = entry b i (n + k)" if "i < n" "k < n" for i k
    using that by (simp add: entry_def)
  have "(\<Sum>k<n. entry b i (n + k) * entry m k j) = (if i = j then 1 else 0)" if "i < n" "j < n" for i j
    using assms that unfolding reduced_def unit_columns_def row_products_def by metis
  then show ?thesis using b by (simp add: left_inverse_def right)
qed

lemma left_inverse_nonsingular:
  assumes "left_inverse n u m"
  shows "\<not> singular n m"
proof
  assume "singular n m"
  then obtain v i where v: "annihilates n (entry m) v" and i: "i < n" "v i \<noteq> 0" by (auto simp: singular_def)
  have "0 = (\<Sum>k<n. entry u i k * (\<Sum>j<n. entry m k j * v j))"
    using v by (simp add: annihilates_def)
  also have "\<dots> = (\<Sum>j<n. (\<Sum>k<n. entry u i k * entry m k j) * v j)"
    unfolding sum_distrib_left sum_distrib_right by (subst sum.swap) (simp add: mult.assoc)
  also have "\<dots> = (\<Sum>j<n. if j = i then v j else 0)"
    using assms i by (intro sum.cong) (auto simp: left_inverse_def)
  finally show False using i by simp
qed

lemma invert_gf_matrix_cases:
  assumes "0 < n" and "length m = n" and "\<forall>i < n. length (m ! i) = n"
  shows "case invert_gf_matrix m of Some u \<Rightarrow> left_inverse n u m | None \<Rightarrow> singular n m"
proof -
  have "\<not> list_ex (\<lambda>row. length row \<noteq> n) m" using assms by (auto simp: list_ex_iff in_set_conv_nth)
  then have "invert_gf_matrix m = map_option (map (drop n)) (eliminate_columns n [0..<n] (augment m))"
    using assms by (simp add: invert_gf_matrix_def Let_def)
  with eliminate_columns_reduced [OF reduced_augment [OF assms(2,3)]] show ?thesis
    by (auto split: option.splits intro: reduced_left_inverse)
qed

section \<open>The parity equations are solvable\<close>

text \<open>
  Any choice of at most three of the three parity rows determines as many missing shards of a block
  of forty: the columns of the matrix are the powers of distinct non-zero elements.
\<close>

lemma power_equations2:
  fixes x y :: "'a :: field"
  shows "v + w = 0 \<Longrightarrow> x * v + y * w = 0 \<Longrightarrow> (x - y) * v = 0"
    and "v + w = 0 \<Longrightarrow> x ^ 2 * v + y ^ 2 * w = 0 \<Longrightarrow> (x ^ 2 - y ^ 2) * v = 0"
    and "x * v + y * w = 0 \<Longrightarrow> x ^ 2 * v + y ^ 2 * w = 0 \<Longrightarrow> x * (x - y) * v = 0"
  by algebra+

lemma power_equations3:
  fixes x y z :: "'a :: field"
  shows "u + v + w = 0 \<Longrightarrow> x * u + y * v + z * w = 0 \<Longrightarrow> x ^ 2 * u + y ^ 2 * v + z ^ 2 * w = 0 \<Longrightarrow>
    (x - y) * (x - z) * u = 0"
  by algebra

lemma gf_square_inj: "x ^ 2 = y ^ 2 \<longleftrightarrow> x = y" for x y :: gf
proof
  assume "x ^ 2 = y ^ 2"
  then have "(x + y) ^ 2 = 0" by (simp add: power2_sum mult_2)
  then show "x = y" by (simp add: gf_add_eq_0)
qed simp

lemma power_rows_trivial:
  fixes x v :: "nat \<Rightarrow> gf"
  assumes rows: "rows \<in> {[0], [1], [2], [0, 1], [0, 2], [1, 2], [0, 1, 2]}"
    and inj: "\<And>i j. i < j \<Longrightarrow> j < length rows \<Longrightarrow> x i \<noteq> x j" and nz: "\<And>j. x j \<noteq> 0"
    and eqs: "\<forall>i < length rows. (\<Sum>j<length rows. x j ^ (rows ! i) * v j) = 0"
  shows "\<forall>j < length rows. v j = 0"
proof -
  consider (1) k where "rows = [k]" | (01) "rows = [0, 1]" | (02) "rows = [0, 2]" | (12) "rows = [1, 2]"
    | (3) "rows = [0, 1, 2]" using rows by blast
  then show ?thesis
  proof cases
    case 1
    then show ?thesis using eqs nz by simp
  next
    case 01
    have "v 0 + v 1 = 0" "x 0 * v 0 + x 1 * v 1 = 0" using eqs 01 by (simp_all add: lessThan_Suc All_less_Suc add.commute)
    with power_equations2(1) [OF this] inj [of 0 1] 01 show ?thesis
      by (simp add: All_less_Suc gf_add_eq_0)
  next
    case 02
    have "v 0 + v 1 = 0" "x 0 ^ 2 * v 0 + x 1 ^ 2 * v 1 = 0"
      using eqs 02 by (simp_all add: lessThan_Suc All_less_Suc add.commute)
    with power_equations2(2) [OF this] inj [of 0 1] 02 show ?thesis
      by (simp add: All_less_Suc gf_add_eq_0 gf_square_inj)
  next
    case 12
    have "x 0 * v 0 + x 1 * v 1 = 0" "x 0 ^ 2 * v 0 + x 1 ^ 2 * v 1 = 0"
      using eqs 12 by (simp_all add: lessThan_Suc All_less_Suc add.commute)
    with power_equations2(3) [OF this] inj [of 0 1] nz [of 0] nz [of 1] 12 show ?thesis
      by (simp add: All_less_Suc gf_add_eq_0)
  next
    case 3
    have e: "v 0 + v 1 + v 2 = 0" "x 0 * v 0 + x 1 * v 1 + x 2 * v 2 = 0"
      "x 0 ^ 2 * v 0 + x 1 ^ 2 * v 1 + x 2 ^ 2 * v 2 = 0"
      using eqs 3 by (simp_all add: lessThan_Suc All_less_Suc numeral_2_eq_2 numeral_3_eq_3 add_ac)
    have ne: "x 0 \<noteq> x 1" "x 0 \<noteq> x 2" "x 1 \<noteq> x 2" using inj [of 0 1] inj [of 0 2] inj [of 1 2] 3 by simp_all
    have "v 0 = 0" using power_equations3 [OF e] ne by (simp add: gf_add_eq_0)
    moreover have "v 1 = 0"
      using power_equations3 [of "v 1" "v 0" "v 2" "x 1" "x 0" "x 2"] e ne by (simp add: gf_add_eq_0 add_ac)
    ultimately show ?thesis using e(1) 3 by (simp add: All_less_Suc numeral_3_eq_3 numeral_2_eq_2)
  qed
qed

lemma parity_matrix_entry:
  assumes "i < length rows" and "j < length missing" and "rows ! i < 256"
  shows "entry (parity_matrix rows missing) i j = Gf (global_coefficient (missing ! j)) ^ (rows ! i)"
  using assms by (simp add: entry_def parity_matrix_def Gf_pow unsigned_of_nat take_bit_nat_eq_self)

lemma subseq_Cons_right: "subseq ys (x # xs) \<longleftrightarrow> subseq ys xs \<or> (\<exists>zs. ys = x # zs \<and> subseq zs xs)"
  by (cases ys) (auto dest: subseq_Cons')

lemma subseq_012:
  "subseq rows [0, 1, 2 :: nat] \<Longrightarrow> rows \<in> {[], [0], [1], [2], [0, 1], [0, 2], [1, 2], [0, 1, 2]}"
  by (auto simp: subseq_Cons_right)

lemma parity_matrix_nonsingular:
  assumes "subseq rows [0, 1, 2]" and "length rows = length missing" and "distinct missing"
    and "\<forall>s \<in> set missing. s < 40"
  shows "\<not> singular (length rows) (parity_matrix rows missing)"
proof -
  let ?x = "\<lambda>j. Gf (global_coefficient (missing ! j))"
  have inj: "?x i = ?x j \<longleftrightarrow> i = j" if "i < length missing" "j < length missing" for i j
  proof
    assume "?x i = ?x j"
    then have "missing ! i = missing ! j"
      using that assms(4) global_coefficient_inj [of "missing ! i" "missing ! j"] by (simp add: Gf_eq)
    then show "i = j" using assms(3) that by (simp add: nth_eq_iff_index_eq)
  qed simp
  have nz: "?x j \<noteq> 0" for j by (simp add: Gf_eq_0)
  have "v j = 0" if ann: "annihilates (length rows) (entry (parity_matrix rows missing)) v" and j: "j < length rows" for v j
  proof -
    have small: "rows ! i < 256" if "i < length rows" for i
      using nth_mem [OF that] subseq_012 [OF assms(1)] by auto
    have ann: "(\<Sum>j<length rows. ?x j ^ (rows ! i) * v j) = 0" if "i < length rows" for i
      using ann that assms(2) by (simp add: annihilates_def parity_matrix_entry small)
    have "rows \<in> {[0], [1], [2], [0, 1], [0, 2], [1, 2], [0, 1, 2]}"
      using subseq_012 [OF assms(1)] j by auto
    then have "\<forall>j < length rows. v j = 0"
    proof (rule power_rows_trivial [where x = ?x])
      show "?x i \<noteq> ?x j" if "i < j" "j < length rows" for i j
        using inj [of i j] that assms(2) by simp
    qed (use nz ann in simp_all)
    then show ?thesis using j by simp
  qed
  then show ?thesis by (auto simp: singular_def)
qed

section \<open>Properties\<close>

text \<open>
  C35.  The inversion of a byte matrix fails exactly if the matrix is empty, not square or singular, and
  otherwise returns a left inverse of it over the field of 256 elements, whatever its size.
\<close>

theorem invert_gf_matrix_inverse:
  "(invert_gf_matrix m = None \<longleftrightarrow> m = [] \<or> (\<exists>row \<in> set m. length row \<noteq> length m) \<or> singular (length m) m) \<and>
   (\<forall>u. invert_gf_matrix m = Some u \<longrightarrow> left_inverse (length m) u m)"
proof (cases "m = [] \<or> (\<exists>row \<in> set m. length row \<noteq> length m)")
  case True
  then show ?thesis by (auto simp: invert_gf_matrix_def Let_def list_ex_iff)
next
  case False
  then have "0 < length m" "\<forall>i < length m. length (m ! i) = length m" by simp_all
  from invert_gf_matrix_cases [OF this(1) refl this(2)] False left_inverse_nonsingular show ?thesis
    by (cases "invert_gf_matrix m") auto
qed

theorem invert_gf_matrix_inverse_witness:
  "\<exists>u. invert_gf_matrix (parity_matrix [0, 1, 2] [4, 17, 38]) = Some u \<and>
     left_inverse 3 u (parity_matrix [0, 1, 2] [4, 17, 38])"
proof -
  let ?m = "parity_matrix [0, 1, 2] [4, 17, 38]"
  have "\<not> singular 3 ?m" using parity_matrix_nonsingular [of "[0, 1, 2]" "[4, 17, 38]"] by (simp add: numeral_3_eq_3)
  moreover have "length ?m = 3" "?m \<noteq> []" "\<forall>row \<in> set ?m. length row = 3" by (simp_all add: parity_matrix_def)
  ultimately have "invert_gf_matrix ?m \<noteq> None" using invert_gf_matrix_inverse [of ?m] by simp
  then show ?thesis using invert_gf_matrix_inverse [of ?m] \<open>length ?m = 3\<close> by auto
qed

end
