(* ===== verification/Fec_V12.thy ===== *)
theory Fec_V12
  imports Fec_Frame Fec_Matrix
begin

unbundle bit_operations_syntax

text \<open>
  The two-of-three code (\<open>realtime_v3.rs\<close>): every message travels as two shards and their exclusive
  or, and a block of twenty messages has three more parities, rows of a Vandermonde matrix over its
  forty shards.  Recovery first completes pairs, then solves for at most three missing shards with as
  many of the rows that arrived.  On blocks that hold only shards of the sender it never fails, never
  panics and finds every shard the received parities determine.
\<close>

section \<open>Shards and parities\<close>

definition V12_DATA_SHARDS :: usize where
  "V12_DATA_SHARDS = V12_BLOCK_MESSAGES * 2"

definition V12_GLOBAL_PARITIES :: usize where
  "V12_GLOBAL_PARITIES = 3"

definition make_v12_message_shards :: "u32 \<Rightarrow> V12Shard \<times> V12Shard" where
  "make_v12_message_shards sequence =
     (let payload = make_v3_payload sequence in (take V12_SHARD_SIZE payload, drop V12_SHARD_SIZE payload))"

text \<open>The callers check that the sequence numbers of the block stay below \<open>2 ^ 32\<close>.\<close>

definition make_v12_data_shard :: "u32 \<Rightarrow> usize \<Rightarrow> V12Shard" where
  "make_v12_data_shard first_sequence data_index =
     (let message_slot = data_index div 2; half = data_index mod 2;
          shards = make_v12_message_shards (first_sequence + of_nat message_slot)
      in if half = 0 then fst shards else snd shards)"

definition make_v12_block_data_shards :: "u32 \<Rightarrow> V12Shard list" where
  "make_v12_block_data_shards first_sequence = map (make_v12_data_shard first_sequence) [0..<V12_DATA_SHARDS]"

definition xor_v12_shards :: "V12Shard \<Rightarrow> V12Shard \<Rightarrow> V12Shard" where
  "xor_v12_shards left right = map (\<lambda>index. left ! index XOR right ! index) [0..<V12_SHARD_SIZE]"

definition make_v12_global_parities :: "V12Shard list \<Rightarrow> V12Shard list" where
  "make_v12_global_parities payloads =
     fold (\<lambda>(slot, payload) parities.
         let coefficient = global_coefficient slot in
         map (\<lambda>(row, parity). add_scaled V12_SHARD_SIZE (gf_pow coefficient (of_nat row)) parity payload) (enumerate 0 parities))
       (enumerate 0 payloads) (replicate V12_GLOBAL_PARITIES (replicate V12_SHARD_SIZE 0))"

section \<open>The block\<close>

datatype V12ShardSource = ShardSystematic | ShardLocal | ShardGlobal

datatype V12DeliverySource = V12Systematic | V12Local | V12GlobalRecovery

record V12ReceivedShard =
  s12_payload :: V12Shard
  s12_available_at :: instant
  s12_source :: V12ShardSource

record V12Delivery =
  d12_slot :: usize
  d12_payload :: V3Payload
  d12_available_at :: instant
  d12_source :: V12DeliverySource

record V12BlockState =
  v12_data :: "V12ReceivedShard option list"
  v12_local_parities :: "V12ReceivedShard option list"
  v12_global_parities :: "V12ReceivedShard option list"
  v12_recovery_failed :: "bool list"
  v12_delivered :: "bool list"

definition V12BlockState_default :: V12BlockState where
  "V12BlockState_default =
     \<lparr>v12_data = replicate V12_DATA_SHARDS None, v12_local_parities = replicate V12_BLOCK_MESSAGES None,
      v12_global_parities = replicate V12_GLOBAL_PARITIES None,
      v12_recovery_failed = replicate V12_DATA_SHARDS False, v12_delivered = replicate V12_BLOCK_MESSAGES False\<rparr>"

section \<open>Recovery\<close>

text \<open>Both recoveries compare a shard with the one that was sent before they store it.\<close>

fun v12_restore :: "u32 \<Rightarrow> usize \<Rightarrow> V12ReceivedShard \<Rightarrow> V12BlockState \<times> usize \<Rightarrow> V12BlockState \<times> usize" where
  "v12_restore first_sequence missing shard (block, recovery_errors) =
     (if s12_payload shard \<noteq> make_v12_data_shard first_sequence missing then
        (block\<lparr>v12_recovery_failed := (v12_recovery_failed block)[missing := True]\<rparr>, sat_add_usize recovery_errors 1)
      else (block\<lparr>v12_data := (v12_data block)[missing := Some shard]\<rparr>, recovery_errors))"

fun v12_local_step :: "usize \<Rightarrow> usize \<Rightarrow> V12BlockState \<times> usize \<Rightarrow> V12BlockState \<times> usize" where
  "v12_local_step first_sequence slot (block, recovery_errors) =
     (let data0_index = slot * 2; data1_index = data0_index + 1;
          restore = (\<lambda>parity missing known.
            if v12_recovery_failed block ! missing then (block, recovery_errors)
            else v12_restore (of_nat first_sequence) missing
              \<lparr>s12_payload = xor_v12_shards (s12_payload parity) (s12_payload known),
               s12_available_at = max (s12_available_at parity) (s12_available_at known), s12_source = ShardLocal\<rparr>
              (block, recovery_errors))
      in case v12_local_parities block ! slot of
           None \<Rightarrow> (block, recovery_errors)
         | Some parity \<Rightarrow>
             (case (v12_data block ! data0_index, v12_data block ! data1_index) of
                (None, Some known) \<Rightarrow> restore parity data0_index known
              | (Some known, None) \<Rightarrow> restore parity data1_index known
              | _ \<Rightarrow> (block, recovery_errors)))"

definition recover_v12_local :: "V12BlockState \<Rightarrow> usize \<Rightarrow> V12BlockState \<times> usize" where
  "recover_v12_local block first_sequence = fold (v12_local_step first_sequence) [0..<V12_BLOCK_MESSAGES] (block, 0)"

text \<open>The running maximum of the times, absent before the first.\<close>

definition max_at :: "instant option \<Rightarrow> instant \<Rightarrow> instant option" where
  "max_at at t = Some (case at of None \<Rightarrow> t | Some v \<Rightarrow> max v t)"

text \<open>
  What is left of a parity row when the known shards are taken out; the inner \<open>None\<close> is the early
  return at a shard that is neither known nor listed as missing, the outer one the panic at an absent row.
\<close>

fun v12_row_residual :: "usize \<Rightarrow> usize list \<Rightarrow> (usize \<times> V12ReceivedShard option) list \<Rightarrow> V12Shard \<Rightarrow> instant option \<Rightarrow>
    (V12Shard \<times> instant option) option" where
  "v12_row_residual row missing [] residual at = Some (residual, at)"
| "v12_row_residual row missing ((slot, shard) # rest) residual at =
     (if slot \<in> set missing then v12_row_residual row missing rest residual at
      else case shard of
        None \<Rightarrow> None
      | Some shard \<Rightarrow>
          v12_row_residual row missing rest
            (add_scaled V12_SHARD_SIZE (gf_pow (global_coefficient slot) (of_nat row)) residual (s12_payload shard))
            (max_at at (s12_available_at shard)))"

fun v12_residuals :: "V12BlockState \<Rightarrow> usize list \<Rightarrow> usize list \<Rightarrow> instant option \<Rightarrow> (V12Shard list \<times> instant option) option option" where
  "v12_residuals block missing [] at = Some (Some ([], at))"
| "v12_residuals block missing (row # rows) at =
     (case v12_global_parities block ! row of
        None \<Rightarrow> None
      | Some parity \<Rightarrow>
          (case v12_row_residual row missing (enumerate 0 (v12_data block)) (s12_payload parity) (max_at at (s12_available_at parity)) of
             None \<Rightarrow> Some None
           | Some (residual, at) \<Rightarrow>
               (case v12_residuals block missing rows at of
                  None \<Rightarrow> None
                | Some None \<Rightarrow> Some None
                | Some (Some (residuals, at)) \<Rightarrow> Some (Some (residual # residuals, at)))))"

definition v12_combine :: "u8 list \<Rightarrow> V12Shard list \<Rightarrow> V12Shard" where
  "v12_combine coefficients residuals =
     fold (\<lambda>(coefficient, residual) payload. add_scaled V12_SHARD_SIZE coefficient payload residual)
       (zip coefficients residuals) (replicate V12_SHARD_SIZE 0)"

fun v12_solve :: "V12BlockState \<Rightarrow> usize list \<Rightarrow> usize list list \<Rightarrow> (V12Shard list \<times> instant) option option" where
  "v12_solve block missing [] = Some None"
| "v12_solve block missing (rows # choices) =
     (case invert_gf_matrix (parity_matrix rows missing) of
        None \<Rightarrow> v12_solve block missing choices
      | Some solution \<Rightarrow>
          (case v12_residuals block missing rows None of
             None \<Rightarrow> None
           | Some None \<Rightarrow> Some None
           | Some (Some (residuals, at)) \<Rightarrow>
               (case at of
                  None \<Rightarrow> None
                | Some at \<Rightarrow> Some (Some (map (\<lambda>slot_index. v12_combine (solution ! slot_index) residuals) [0..<length missing], at)))))"

definition recover_v12_global :: "V12BlockState \<Rightarrow> usize \<Rightarrow> (V12BlockState \<times> usize) option" where
  "recover_v12_global block first_sequence =
     (let missing = missing_slots (v12_data block) in
      if missing = [] \<or> length missing > V12_GLOBAL_PARITIES \<or> list_ex (\<lambda>slot. v12_recovery_failed block ! slot) missing
      then Some (block, 0)
      else let available_rows = present_slots (v12_global_parities block) in
        if length available_rows < length missing then Some (block, 0)
        else case v12_solve block missing (choose_rows available_rows (length missing)) of
          None \<Rightarrow> None
        | Some None \<Rightarrow> Some (block, 0)
        | Some (Some (payloads, available_at)) \<Rightarrow>
            Some (fold (\<lambda>(slot, payload). v12_restore (of_nat first_sequence) slot
                \<lparr>s12_payload = payload, s12_available_at = available_at, s12_source = ShardGlobal\<rparr>)
              (zip missing payloads) (block, 0)))"

section \<open>Deliveries\<close>

definition v12_delivery_source :: "V12ReceivedShard \<Rightarrow> V12ReceivedShard \<Rightarrow> V12DeliverySource" where
  "v12_delivery_source data0 data1 =
     (if s12_source data0 = ShardGlobal \<or> s12_source data1 = ShardGlobal then V12GlobalRecovery
      else if s12_source data0 = ShardLocal \<or> s12_source data1 = ShardLocal then V12Local
      else V12Systematic)"

fun v12_collect_step :: "usize \<Rightarrow> usize \<Rightarrow> V12BlockState \<times> V12Delivery list \<times> usize \<Rightarrow> V12BlockState \<times> V12Delivery list \<times> usize" where
  "v12_collect_step first_sequence slot (block, deliveries, errors) =
     (if v12_delivered block ! slot then (block, deliveries, errors)
      else case (v12_data block ! (slot * 2), v12_data block ! (slot * 2 + 1)) of
        (Some data0, Some data1) \<Rightarrow>
          let payload = s12_payload data0 @ s12_payload data1 in
          if payload \<noteq> make_v3_payload (of_nat (first_sequence + slot)) then (block, deliveries, sat_add_usize errors 1)
          else (block\<lparr>v12_delivered := (v12_delivered block)[slot := True]\<rparr>,
                deliveries @ [\<lparr>d12_slot = slot, d12_payload = payload,
                  d12_available_at = max (s12_available_at data0) (s12_available_at data1),
                  d12_source = v12_delivery_source data0 data1\<rparr>], errors)
      | _ \<Rightarrow> (block, deliveries, errors))"

definition collect_v12_deliveries :: "V12BlockState \<Rightarrow> usize \<Rightarrow> V12BlockState \<times> V12Delivery list \<times> usize" where
  "collect_v12_deliveries block first_sequence =
     fold (v12_collect_step first_sequence) [0..<V12_BLOCK_MESSAGES] (block, [], 0)"

section \<open>Blocks of the sender\<close>

definition v12_parity :: "usize \<Rightarrow> usize \<Rightarrow> V12Shard" where
  "v12_parity first r = make_v12_global_parities (make_v12_block_data_shards (of_nat first)) ! r"

definition v12_block_ok :: "usize \<Rightarrow> V12BlockState \<Rightarrow> bool" where
  "v12_block_ok first b \<longleftrightarrow>
     length (v12_data b) = V12_DATA_SHARDS \<and> length (v12_local_parities b) = V12_BLOCK_MESSAGES \<and>
     length (v12_global_parities b) = 3 \<and> length (v12_delivered b) = V12_BLOCK_MESSAGES \<and>
     v12_recovery_failed b = replicate V12_DATA_SHARDS False \<and>
     (\<forall>i < V12_DATA_SHARDS. \<forall>s. v12_data b ! i = Some s \<longrightarrow> s12_payload s = make_v12_data_shard (of_nat first) i) \<and>
     (\<forall>j < V12_BLOCK_MESSAGES. \<forall>s. v12_local_parities b ! j = Some s \<longrightarrow>
        s12_payload s = xor_v12_shards (make_v12_data_shard (of_nat first) (j * 2)) (make_v12_data_shard (of_nat first) (j * 2 + 1))) \<and>
     (\<forall>r < 3. \<forall>s. v12_global_parities b ! r = Some s \<longrightarrow> s12_payload s = v12_parity first r)"

lemma v12_block_okD:
  assumes "v12_block_ok first b"
  shows "length (v12_data b) = V12_DATA_SHARDS" "length (v12_local_parities b) = V12_BLOCK_MESSAGES"
    "length (v12_global_parities b) = 3" "v12_recovery_failed b = replicate V12_DATA_SHARDS False"
    and "i < V12_DATA_SHARDS \<Longrightarrow> v12_data b ! i = Some s \<Longrightarrow> s12_payload s = make_v12_data_shard (of_nat first) i"
    and "j < V12_BLOCK_MESSAGES \<Longrightarrow> v12_local_parities b ! j = Some s \<Longrightarrow>
      s12_payload s = xor_v12_shards (make_v12_data_shard (of_nat first) (j * 2)) (make_v12_data_shard (of_nat first) (j * 2 + 1))"
    and "r < 3 \<Longrightarrow> v12_global_parities b ! r = Some s \<Longrightarrow> s12_payload s = v12_parity first r"
  using assms by (simp_all add: v12_block_ok_def)

lemma shard_size: "V3_LOGICAL_MESSAGE_SIZE = V12_SHARD_SIZE + V12_SHARD_SIZE"
  by (simp add: V12_SHARD_SIZE_def V3_LOGICAL_MESSAGE_SIZE_def)

lemma length_make_v12_data_shard [simp]: "length (make_v12_data_shard first i) = V12_SHARD_SIZE"
  by (simp add: make_v12_data_shard_def make_v12_message_shards_def Let_def shard_size)

lemma xor_v12_shards_add: "xor_v12_shards = add_payload V12_SHARD_SIZE"
  by (simp add: xor_v12_shards_def add_payload_def fun_eq_iff)

lemma xor_v12_cancel:
  assumes "length p = V12_SHARD_SIZE" and "length q = V12_SHARD_SIZE"
  shows "xor_v12_shards (xor_v12_shards p q) p = q" and "xor_v12_shards (xor_v12_shards p q) q = p"
  using assms by (auto simp: xor_v12_shards_add add_byte add_ac intro!: payload_eqI)

lemma Gf_pow_nat: "r < 256 \<Longrightarrow> Gf (gf_pow a (of_nat r)) = Gf a ^ r"
  by (simp add: Gf_pow unsigned_of_nat take_bit_nat_eq_self)

lemma make_v12_global_parities_sum:
  assumes "r < 3"
  shows "length (make_v12_global_parities ps) = 3" "length (make_v12_global_parities ps ! r) = V12_SHARD_SIZE"
    and "b < V12_SHARD_SIZE \<Longrightarrow> Gf (make_v12_global_parities ps ! r ! b) =
      (\<Sum>i<length ps. Gf (global_coefficient i) ^ r * Gf (ps ! i ! b))"
proof -
  have snoc: "make_v12_global_parities (ps @ [p]) =
      map (\<lambda>(row, parity). add_scaled V12_SHARD_SIZE (gf_pow (global_coefficient (length ps)) (of_nat row)) parity p)
        (enumerate 0 (make_v12_global_parities ps))" for ps p
    by (simp add: make_v12_global_parities_def enumerate_append_eq Let_def)
  have len: "length (make_v12_global_parities ps) = 3" for ps
    by (induction ps rule: rev_induct) (simp_all add: snoc, simp add: make_v12_global_parities_def V12_GLOBAL_PARITIES_def)
  then have nth: "make_v12_global_parities (ps @ [p]) ! r =
      add_scaled V12_SHARD_SIZE (gf_pow (global_coefficient (length ps)) (of_nat r)) (make_v12_global_parities ps ! r) p" for ps p
    using assms by (simp add: snoc nth_enumerate_eq)
  have empty: "make_v12_global_parities [] ! r = replicate V12_SHARD_SIZE 0"
    using assms by (simp add: make_v12_global_parities_def V12_GLOBAL_PARITIES_def)
  show "length (make_v12_global_parities ps) = 3" by (rule len)
  show "length (make_v12_global_parities ps ! r) = V12_SHARD_SIZE"
    by (induction ps rule: rev_induct) (simp_all add: nth empty)
  show "Gf (make_v12_global_parities ps ! r ! b) = (\<Sum>i<length ps. Gf (global_coefficient i) ^ r * Gf (ps ! i ! b))"
    if "b < V12_SHARD_SIZE"
    using that assms by (induction ps rule: rev_induct) (simp_all add: nth empty add_byte nth_append Gf_simps Gf_pow_nat)
qed

lemma v12_parity_sum:
  assumes "r < 3" and "b < V12_SHARD_SIZE"
  shows "Gf (v12_parity first r ! b) =
    (\<Sum>i<V12_DATA_SHARDS. Gf (global_coefficient i) ^ r * Gf (make_v12_data_shard (of_nat first) i ! b))"
  using assms by (simp add: v12_parity_def make_v12_global_parities_sum make_v12_block_data_shards_def)

lemma length_v12_parity [simp]: "r < 3 \<Longrightarrow> length (v12_parity first r) = V12_SHARD_SIZE"
  by (simp add: v12_parity_def make_v12_global_parities_sum)

section \<open>Solving for the missing shards\<close>

lemma v12_row_residual_sum:
  assumes "\<forall>i < length syms. k + i \<notin> set missing \<longrightarrow> syms ! i \<noteq> None" and "length r = V12_SHARD_SIZE" and "row < 256"
  shows "\<exists>r' t'. v12_row_residual row missing (enumerate k syms) r (Some t) = Some (r', Some t') \<and>
    (\<forall>b < V12_SHARD_SIZE. Gf (r' ! b) = Gf (r ! b) + (\<Sum>i<length syms. if k + i \<in> set missing then 0
       else Gf (global_coefficient (k + i)) ^ row * Gf (s12_payload (the (syms ! i)) ! b)))"
  using assms
proof (induction syms arbitrary: k r t)
  case (Cons s syms)
  define r1 where "r1 = (if k \<in> set missing then r
      else add_scaled V12_SHARD_SIZE (gf_pow (global_coefficient k) (of_nat row)) r (s12_payload (the s)))"
  define t1 where "t1 = (if k \<in> set missing then t else max t (s12_available_at (the s)))"
  have present: "k \<notin> set missing \<Longrightarrow> s \<noteq> None" using Cons.prems(1) by force
  have rest: "\<forall>i < length syms. Suc k + i \<notin> set missing \<longrightarrow> syms ! i \<noteq> None" using Cons.prems(1) by force
  have step: "v12_row_residual row missing (enumerate k (s # syms)) r (Some t) =
      v12_row_residual row missing (enumerate (Suc k) syms) r1 (Some t1)"
    using present by (auto simp: r1_def t1_def max_at_def)
  have byte: "Gf (r1 ! b) = Gf (r ! b) + (if k \<in> set missing then 0
      else Gf (global_coefficient k) ^ row * Gf (s12_payload (the s) ! b))" if "b < V12_SHARD_SIZE" for b
    using that Cons.prems(3) by (simp add: r1_def add_byte Gf_pow_nat)
  have "length r1 = V12_SHARD_SIZE" using Cons.prems(2) by (simp add: r1_def)
  from Cons.IH [OF rest this Cons.prems(3), of t1] obtain r' t' where
    "v12_row_residual row missing (enumerate (Suc k) syms) r1 (Some t1) = Some (r', Some t')"
    "\<forall>b < V12_SHARD_SIZE. Gf (r' ! b) = Gf (r1 ! b) + (\<Sum>i<length syms. if Suc k + i \<in> set missing then 0
       else Gf (global_coefficient (Suc k + i)) ^ row * Gf (s12_payload (the (syms ! i)) ! b))"
    by blast
  then show ?case
    using step byte by (simp add: sum.lessThan_Suc_shift add.assoc del: sum.lessThan_Suc cong del: if_weak_cong)
qed simp

lemma sum_nth_distinct: "distinct xs \<Longrightarrow> (\<Sum>x \<in> set xs. f x) = (\<Sum>t<length xs. f (xs ! t))" for f :: "nat \<Rightarrow> gf"
  by (simp add: sum.distinct_set_conv_list sum_list_sum_nth atLeast0LessThan)

lemma gf_sum_except_set:
  fixes f :: "nat \<Rightarrow> gf"
  assumes "distinct xs" and "set xs \<subseteq> {..<k}"
  shows "(\<Sum>i<k. f i) + (\<Sum>i<k. if i \<in> set xs then 0 else f i) = (\<Sum>t<length xs. f (xs ! t))"
proof -
  have "(\<Sum>i<k. f i) + (\<Sum>i<k. if i \<in> set xs then 0 else f i) = (\<Sum>i<k. if i \<in> set xs then f i else 0)"
    unfolding sum.distrib [symmetric] by (intro sum.cong) auto
  also have "\<dots> = (\<Sum>i \<in> {..<k} \<inter> set xs. f i)" by (simp add: sum.inter_restrict)
  also have "{..<k} \<inter> set xs = set xs" using assms(2) by auto
  finally show ?thesis using sum_nth_distinct [OF assms(1)] by simp
qed

text \<open>The residual of a row is the combination of the missing shards with the coefficients of that row.\<close>

lemma v12_row_residual_missing:
  fixes block first
  defines "missing \<equiv> missing_slots (v12_data block)"
  assumes ok: "v12_block_ok first block" and r: "r < 3" and parity: "v12_global_parities block ! r = Some p"
  shows "\<exists>res t'. v12_row_residual r missing (enumerate 0 (v12_data block)) (s12_payload p) (Some t) = Some (res, Some t') \<and>
    (\<forall>b < V12_SHARD_SIZE. Gf (res ! b) = (\<Sum>j<length missing.
      Gf (global_coefficient (missing ! j)) ^ r * Gf (make_v12_data_shard (of_nat first) (missing ! j) ! b)))"
proof -
  note D = v12_block_okD [OF ok]
  have p: "s12_payload p = v12_parity first r" using D(7) [OF r parity] .
  have set: "set missing = {i. i < V12_DATA_SHARDS \<and> v12_data block ! i = None}" using D(1) by (simp add: missing_def)
  have known: "\<forall>i < length (v12_data block). 0 + i \<notin> set missing \<longrightarrow> v12_data block ! i \<noteq> None" using set D(1) by simp
  let ?d = "\<lambda>i. make_v12_data_shard (of_nat first) i" and ?c = "\<lambda>i. Gf (global_coefficient i) ^ r"
  obtain res t' where res: "v12_row_residual r missing (enumerate 0 (v12_data block)) (s12_payload p) (Some t) = Some (res, Some t')"
    and byte: "\<forall>b < V12_SHARD_SIZE. Gf (res ! b) = Gf (s12_payload p ! b) + (\<Sum>i<V12_DATA_SHARDS. if i \<in> set missing then 0
       else ?c i * Gf (s12_payload (the (v12_data block ! i)) ! b))"
    using v12_row_residual_sum [OF known, of "s12_payload p" r t] p r D(1) by (auto cong del: if_weak_cong)
  have "Gf (res ! b) = (\<Sum>j<length missing. ?c (missing ! j) * Gf (?d (missing ! j) ! b))" if b: "b < V12_SHARD_SIZE" for b
  proof -
    have "(\<Sum>i<V12_DATA_SHARDS. if i \<in> set missing then 0 else ?c i * Gf (s12_payload (the (v12_data block ! i)) ! b)) =
        (\<Sum>i<V12_DATA_SHARDS. if i \<in> set missing then 0 else ?c i * Gf (?d i ! b))"
      using D(5) set by (intro sum.cong refl if_cong) auto
    moreover have "distinct missing" "set missing \<subseteq> {..<V12_DATA_SHARDS}" using set by (auto simp: missing_def)
    ultimately show ?thesis
      using byte b p r gf_sum_except_set [of missing V12_DATA_SHARDS "\<lambda>i. ?c i * Gf (?d i ! b)"] by (simp add: v12_parity_sum)
  qed
  then show ?thesis using res by blast
qed

lemma v12_residuals_missing:
  fixes block first
  defines "missing \<equiv> missing_slots (v12_data block)"
  assumes ok: "v12_block_ok first block" and rows: "\<forall>r \<in> set rows. r < 3 \<and> v12_global_parities block ! r \<noteq> None"
    and at: "rows \<noteq> [] \<or> at \<noteq> None"
  shows "\<exists>res t'. v12_residuals block missing rows at = Some (Some (res, Some t')) \<and> length res = length rows \<and>
    (\<forall>i < length rows. \<forall>b < V12_SHARD_SIZE. Gf (res ! i ! b) = (\<Sum>j<length missing.
      Gf (global_coefficient (missing ! j)) ^ (rows ! i) * Gf (make_v12_data_shard (of_nat first) (missing ! j) ! b)))"
  using rows at
proof (induction rows arbitrary: at)
  case Nil
  then show ?case by auto
next
  case (Cons r rows)
  then obtain p where p: "r < 3" "v12_global_parities block ! r = Some p" by auto
  obtain t where t: "max_at at (s12_available_at p) = Some t" by (simp add: max_at_def)
  obtain r1 t1 where one: "v12_row_residual r missing (enumerate 0 (v12_data block)) (s12_payload p) (Some t) = Some (r1, Some t1)"
    "\<forall>b < V12_SHARD_SIZE. Gf (r1 ! b) = (\<Sum>j<length missing.
      Gf (global_coefficient (missing ! j)) ^ r * Gf (make_v12_data_shard (of_nat first) (missing ! j) ! b))"
    using v12_row_residual_missing [OF ok p, of t] unfolding missing_def by blast
  obtain res t' where "v12_residuals block missing rows (Some t1) = Some (Some (res, Some t'))" "length res = length rows"
    "\<forall>i < length rows. \<forall>b < V12_SHARD_SIZE. Gf (res ! i ! b) = (\<Sum>j<length missing.
      Gf (global_coefficient (missing ! j)) ^ (rows ! i) * Gf (make_v12_data_shard (of_nat first) (missing ! j) ! b))"
    using Cons.IH [of "Some t1"] Cons.prems(1) by auto
  then show ?case using one p t by (auto simp: less_Suc_eq_0_disj)
qed

lemma length_v12_combine [simp]: "length (v12_combine cs rs) = V12_SHARD_SIZE"
proof -
  have "length (fold (\<lambda>(c, r) acc. add_scaled V12_SHARD_SIZE c acc r) ps acc) = V12_SHARD_SIZE" if "length acc = V12_SHARD_SIZE" for ps acc
    using that by (induction ps arbitrary: acc) auto
  then show ?thesis by (simp add: v12_combine_def)
qed

lemma v12_combine_sum:
  assumes "length cs = length rs" and "b < V12_SHARD_SIZE"
  shows "Gf (v12_combine cs rs ! b) = (\<Sum>i<length cs. Gf (cs ! i) * Gf (rs ! i ! b))"
proof -
  let ?f = "\<lambda>(c, r) acc. add_scaled V12_SHARD_SIZE c acc r"
  have "Gf (fold ?f ps acc ! b) = Gf (acc ! b) + (\<Sum>(c, r)\<leftarrow>ps. Gf c * Gf (r ! b))" for ps acc
    by (induction ps arbitrary: acc) (auto simp: add_byte assms(2) add.assoc)
  then have "Gf (v12_combine cs rs ! b) = (\<Sum>(c, r)\<leftarrow>zip cs rs. Gf c * Gf (r ! b))"
    using assms(2) by (simp add: v12_combine_def Gf_simps)
  then show "Gf (v12_combine cs rs ! b) = (\<Sum>i<length cs. Gf (cs ! i) * Gf (rs ! i ! b))"
    using assms(1) by (simp add: sum_list_sum_nth atLeast0LessThan)
qed

text \<open>Multiplying the residuals with the inverse of the matrix gives the missing shards back.\<close>

lemma v12_combine_solution:
  assumes inverse: "left_inverse n u (parity_matrix rows missing)" and n: "length rows = n" "length missing = n" "length res = n"
    and rows: "\<forall>r \<in> set rows. r < 3" and i: "i < n" and x: "length (x (missing ! i)) = V12_SHARD_SIZE"
    and res: "\<forall>i < n. \<forall>b < V12_SHARD_SIZE. Gf (res ! i ! b) =
      (\<Sum>j<n. Gf (global_coefficient (missing ! j)) ^ (rows ! i) * Gf (x (missing ! j) ! b))"
  shows "v12_combine (u ! i) res = x (missing ! i)"
proof -
  have u: "length (u ! i) = n" using inverse i by (simp add: left_inverse_def)
  have m: "entry (parity_matrix rows missing) k j = Gf (global_coefficient (missing ! j)) ^ (rows ! k)" if "k < n" "j < n" for k j
  proof (rule parity_matrix_entry)
    show "rows ! k < 256" using rows that(1) n(1) nth_mem [of k rows] by fastforce
  qed (use that n in simp_all)
  have "Gf (v12_combine (u ! i) res ! b) = Gf (x (missing ! i) ! b)" if b: "b < V12_SHARD_SIZE" for b
  proof -
    have "Gf (v12_combine (u ! i) res ! b) = (\<Sum>k<n. entry u i k * (\<Sum>j<n. entry (parity_matrix rows missing) k j * Gf (x (missing ! j) ! b)))"
      using v12_combine_sum [of "u ! i" res b] u n(3) b res by (simp add: entry_def m [unfolded entry_def])
    also have "\<dots> = (\<Sum>j<n. (\<Sum>k<n. entry u i k * entry (parity_matrix rows missing) k j) * Gf (x (missing ! j) ! b))"
      unfolding sum_distrib_left sum_distrib_right by (subst sum.swap) (simp add: mult.assoc)
    also have "\<dots> = (\<Sum>j<n. if j = i then Gf (x (missing ! j) ! b) else 0)"
      using inverse i by (intro sum.cong) (auto simp: left_inverse_def)
    finally show ?thesis using i by simp
  qed
  then show ?thesis using x by (intro payload_eqI) simp_all
qed

lemma subseq_set: "subseq xs ys \<Longrightarrow> set xs \<subseteq> set ys"
  by (induction rule: list_emb.induct) auto

lemma present_rows:
  assumes "length xs = 3"
  shows "subseq (present_slots xs) [0, 1, 2]" "r \<in> set (present_slots xs) \<Longrightarrow> r < 3 \<and> xs ! r \<noteq> None"
proof -
  have "[0..<3] = [0, 1, 2 :: nat]" by (simp add: upt_rec)
  then show "subseq (present_slots xs) [0, 1, 2]" using assms subseq_filter_left by (metis present_slots_filter)
  show "r \<in> set (present_slots xs) \<Longrightarrow> r < 3 \<and> xs ! r \<noteq> None" using assms by (auto simp: present_slots_filter)
qed

lemma v12_solve_missing:
  fixes block first
  defines "missing \<equiv> missing_slots (v12_data block)"
  assumes ok: "v12_block_ok first block" and some: "missing \<noteq> []"
    and enough: "length missing \<le> length (present_slots (v12_global_parities block))"
  shows "\<exists>t. v12_solve block missing (choose_rows (present_slots (v12_global_parities block)) (length missing)) =
    Some (Some (map (make_v12_data_shard (of_nat first)) missing, t))"
proof -
  note D = v12_block_okD [OF ok]
  let ?rows = "present_slots (v12_global_parities block)" and ?n = "length missing"
  obtain rows rest where choices: "choose_rows ?rows ?n = rows # rest" using choose_rows_nonempty [OF enough] by (cases "choose_rows ?rows ?n") auto
  then have rows: "subseq rows ?rows" "length rows = ?n" using set_choose_rows [of ?rows ?n] by auto
  have rows_nonempty: "rows \<noteq> [] \<or> None \<noteq> (None :: instant option)" using rows(2) some by auto
  have sub: "subseq rows [0, 1, 2]" using rows(1) by (rule subseq_order.order_trans [OF _ present_rows(1) [OF D(3)]])
  have mem: "\<forall>r \<in> set rows. r < 3 \<and> v12_global_parities block ! r \<noteq> None"
    using subseq_set [OF rows(1)] present_rows(2) [OF D(3)] by blast
  have dist: "distinct missing" "\<forall>s \<in> set missing. s < 40"
    using D(1) by (auto simp: missing_def V12_DATA_SHARDS_def V12_BLOCK_MESSAGES_def)
  have shape: "length (parity_matrix rows missing) = ?n" "\<forall>i < ?n. length (parity_matrix rows missing ! i) = ?n"
    using rows(2) by (simp_all add: parity_matrix_def)
  obtain u where u: "invert_gf_matrix (parity_matrix rows missing) = Some u" "left_inverse ?n u (parity_matrix rows missing)"
    using invert_gf_matrix_cases [OF _ shape] parity_matrix_nonsingular [OF sub rows(2) dist] rows(2) some
    by (cases "invert_gf_matrix (parity_matrix rows missing)") auto
  obtain res t where res: "v12_residuals block missing rows None = Some (Some (res, Some t))" "length res = length rows"
    "\<forall>i < length rows. \<forall>b < V12_SHARD_SIZE. Gf (res ! i ! b) = (\<Sum>j<?n.
      Gf (global_coefficient (missing ! j)) ^ (rows ! i) * Gf (make_v12_data_shard (of_nat first) (missing ! j) ! b))"
    using v12_residuals_missing [OF ok mem, of None] rows_nonempty unfolding missing_def by blast
  have "v12_combine (u ! i) res = make_v12_data_shard (of_nat first) (missing ! i)" if "i < ?n" for i
    by (rule v12_combine_solution [OF u(2) rows(2) refl]) (use that res rows(2) mem in auto)
  then have "map (\<lambda>i. v12_combine (u ! i) res) [0..<?n] = map (make_v12_data_shard (of_nat first)) missing"
    by (intro nth_equalityI) simp_all
  then show ?thesis using choices u(1) res(1) by simp
qed

section \<open>What the two recoveries achieve\<close>

definition v12_fills :: "usize \<Rightarrow> V12BlockState \<Rightarrow> V12BlockState \<Rightarrow> bool" where
  "v12_fills first b b' \<longleftrightarrow> v12_block_ok first b' \<and>
     v12_local_parities b' = v12_local_parities b \<and> v12_global_parities b' = v12_global_parities b \<and>
     v12_delivered b' = v12_delivered b \<and>
     (\<forall>i < V12_DATA_SHARDS. v12_data b ! i \<noteq> None \<longrightarrow> v12_data b' ! i = v12_data b ! i)"

lemma v12_fills_refl: "v12_block_ok first b \<Longrightarrow> v12_fills first b b"
  by (simp add: v12_fills_def)

lemma v12_fills_trans: "v12_fills first a b \<Longrightarrow> v12_fills first b c \<Longrightarrow> v12_fills first a c"
  by (simp add: v12_fills_def)

lemma v12_restore_fills:
  assumes "v12_block_ok first b" and "i < V12_DATA_SHARDS" and "s12_payload s = make_v12_data_shard (of_nat first) i"
    and "v12_data b ! i = None"
  shows "v12_restore (of_nat first) i s (b, e) = (b\<lparr>v12_data := (v12_data b)[i := Some s]\<rparr>, e)"
    and "v12_fills first b (b\<lparr>v12_data := (v12_data b)[i := Some s]\<rparr>)"
  using assms by (auto simp: v12_fills_def v12_block_ok_def nth_list_update)

lemma shard_pair: "slot < V12_BLOCK_MESSAGES \<Longrightarrow> slot * 2 < V12_DATA_SHARDS \<and> Suc (slot * 2) < V12_DATA_SHARDS"
  by (simp add: V12_DATA_SHARDS_def V12_BLOCK_MESSAGES_def)

definition v12_pair_closed :: "V12BlockState \<Rightarrow> usize \<Rightarrow> bool" where
  "v12_pair_closed b slot \<longleftrightarrow> v12_local_parities b ! slot = None \<or>
     (v12_data b ! (slot * 2) = None \<longleftrightarrow> v12_data b ! (slot * 2 + 1) = None)"

lemma v12_local_step_fills:
  assumes ok: "v12_block_ok first b" and slot: "slot < V12_BLOCK_MESSAGES"
  shows "\<exists>b'. v12_local_step first slot (b, e) = (b', e) \<and> v12_fills first b b' \<and> v12_pair_closed b' slot \<and>
    (\<forall>i < V12_DATA_SHARDS. i div 2 \<noteq> slot \<longrightarrow> v12_data b' ! i = v12_data b ! i)"
proof (cases "v12_pair_closed b slot")
  case True
  then have "v12_local_step first slot (b, e) = (b, e)"
    by (auto simp: v12_pair_closed_def Let_def split: option.splits)
  then show ?thesis using True ok by (auto intro: v12_fills_refl)
next
  case False
  note D = v12_block_okD [OF ok] and pair = shard_pair [OF slot]
  from False obtain p where p: "v12_local_parities b ! slot = Some p" by (auto simp: v12_pair_closed_def)
  note parity = D(6) [OF slot p]
  have failed: "\<not> v12_recovery_failed b ! (slot * 2)" "\<not> v12_recovery_failed b ! Suc (slot * 2)" using D(4) pair by simp_all
  have step: ?thesis
    if "v12_local_step first slot (b, e) = v12_restore (of_nat first) i s (b, e)" "i div 2 = slot" "i < V12_DATA_SHARDS"
      "s12_payload s = make_v12_data_shard (of_nat first) i" "v12_data b ! i = None" "v12_data b ! partner i \<noteq> None" for i s
  proof -
    have "{slot * 2, Suc (slot * 2)} = {i, partner i}" using partner_pair [of i] that(2) by simp
    then have "v12_pair_closed (b\<lparr>v12_data := (v12_data b)[i := Some s]\<rparr>) slot"
      using that(3,5,6) D(1) by (auto simp: v12_pair_closed_def doubleton_eq_iff nth_list_update)
    then show ?thesis using v12_restore_fills [OF ok that(3-5)] that(1,2)
      by (intro exI [of _ "b\<lparr>v12_data := (v12_data b)[i := Some s]\<rparr>"]) (auto simp: nth_list_update_neq)
  qed
  show ?thesis
  proof (cases "v12_data b ! (slot * 2)")
    case None
    with False obtain k where k: "v12_data b ! Suc (slot * 2) = Some k" by (auto simp: v12_pair_closed_def)
    show ?thesis
      by (rule step [of "slot * 2" "\<lparr>s12_payload = xor_v12_shards (s12_payload p) (s12_payload k),
            s12_available_at = max (s12_available_at p) (s12_available_at k), s12_source = ShardLocal\<rparr>"])
        (use None k p failed parity pair D(5) [of "Suc (slot * 2)" k] in
          \<open>simp_all add: Let_def xor_v12_cancel partner_def del: v12_restore.simps\<close>)
  next
    case (Some k)
    with False have n: "v12_data b ! Suc (slot * 2) = None" by (auto simp: v12_pair_closed_def)
    show ?thesis
      by (rule step [of "Suc (slot * 2)" "\<lparr>s12_payload = xor_v12_shards (s12_payload p) (s12_payload k),
            s12_available_at = max (s12_available_at p) (s12_available_at k), s12_source = ShardLocal\<rparr>"])
        (use Some n p failed parity pair D(5) [of "slot * 2" k] in
          \<open>simp_all add: Let_def xor_v12_cancel partner_def del: v12_restore.simps\<close>)
  qed
qed

lemma recover_v12_local_fills:
  assumes ok: "v12_block_ok first b"
  shows "\<exists>b'. recover_v12_local b first = (b', 0) \<and> v12_fills first b b' \<and> (\<forall>slot < V12_BLOCK_MESSAGES. v12_pair_closed b' slot)"
proof -
  have "\<exists>b'. fold (v12_local_step first) [0..<m] (b, 0) = (b', 0) \<and> v12_fills first b b' \<and> (\<forall>slot < m. v12_pair_closed b' slot)"
    if "m \<le> V12_BLOCK_MESSAGES" for m
    using that
  proof (induction m)
    case 0
    then show ?case using ok by (simp add: v12_fills_refl)
  next
    case (Suc m)
    then obtain b1 where b1: "fold (v12_local_step first) [0..<m] (b, 0) = (b1, 0)" "v12_fills first b b1"
      "\<forall>slot < m. v12_pair_closed b1 slot" by auto
    then have "v12_block_ok first b1" by (simp add: v12_fills_def)
    then obtain b2 where b2: "v12_local_step first m (b1, 0) = (b2, 0)" "v12_fills first b1 b2" "v12_pair_closed b2 m"
      "\<forall>i < V12_DATA_SHARDS. i div 2 \<noteq> m \<longrightarrow> v12_data b2 ! i = v12_data b1 ! i"
      using v12_local_step_fills [of first b1 m 0] Suc.prems by auto
    have "v12_pair_closed b2 slot" if "slot < m" for slot
    proof -
      have "v12_data b2 ! (slot * 2) = v12_data b1 ! (slot * 2)" "v12_data b2 ! Suc (slot * 2) = v12_data b1 ! Suc (slot * 2)"
        using b2(4) that shard_pair [of slot] Suc.prems by simp_all
      then show ?thesis using b1(3) that b2(2) by (simp add: v12_pair_closed_def v12_fills_def)
    qed
    then show ?case using b1(1) b2(1,3) v12_fills_trans [OF b1(2) b2(2)] by (auto simp: less_Suc_eq)
  qed
  then show ?thesis by (simp add: recover_v12_local_def)
qed

lemma v12_restore_all:
  assumes "v12_block_ok first b" and "distinct slots" and "\<forall>i \<in> set slots. i < V12_DATA_SHARDS \<and> v12_data b ! i = None"
  shows "\<exists>b'. fold (\<lambda>(slot, payload). v12_restore (of_nat first) slot
        \<lparr>s12_payload = payload, s12_available_at = t, s12_source = ShardGlobal\<rparr>)
      (zip slots (map (make_v12_data_shard (of_nat first)) slots)) (b, e) = (b', e) \<and>
    v12_fills first b b' \<and> (\<forall>i \<in> set slots. v12_data b' ! i \<noteq> None)"
  using assms
proof (induction slots arbitrary: b)
  case Nil
  then show ?case by (simp add: v12_fills_refl)
next
  case (Cons i slots)
  let ?s = "\<lparr>s12_payload = make_v12_data_shard (of_nat first) i, s12_available_at = t, s12_source = ShardGlobal\<rparr>"
  let ?b = "b\<lparr>v12_data := (v12_data b)[i := Some ?s]\<rparr>"
  note len = v12_block_okD(1) [OF Cons.prems(1)]
  have i: "i < V12_DATA_SHARDS" "s12_payload ?s = make_v12_data_shard (of_nat first) i" "v12_data b ! i = None"
    using Cons.prems(3) by simp_all
  note R = v12_restore_fills [OF Cons.prems(1) i]
  have ok: "v12_block_ok first ?b" using R(2) by (simp only: v12_fills_def)
  have rest: "\<forall>j \<in> set slots. j < V12_DATA_SHARDS \<and> v12_data ?b ! j = None"
    using Cons.prems(2,3) by (auto simp: nth_list_update len)
  obtain b' where b': "fold (\<lambda>(slot, payload). v12_restore (of_nat first) slot
        \<lparr>s12_payload = payload, s12_available_at = t, s12_source = ShardGlobal\<rparr>)
      (zip slots (map (make_v12_data_shard (of_nat first)) slots)) (?b, e) = (b', e)"
    "v12_fills first ?b b'" "\<forall>i \<in> set slots. v12_data b' ! i \<noteq> None"
    using Cons.IH [OF ok _ rest] Cons.prems(2) by auto
  have "v12_data b' ! i \<noteq> None" using b'(2) i(1) len by (simp add: v12_fills_def)
  then show ?case using b' R(1) v12_fills_trans [OF R(2) b'(2)] by (simp del: v12_restore.simps)
qed

lemma recover_v12_global_fills:
  assumes ok: "v12_block_ok first b"
  shows "\<exists>b'. recover_v12_global b first = Some (b', 0) \<and> v12_fills first b b' \<and>
    (missing_slots (v12_data b') = [] \<or> b' = b \<and> length (present_slots (v12_global_parities b)) < length (missing_slots (v12_data b)))"
proof -
  note D = v12_block_okD [OF ok]
  let ?missing = "missing_slots (v12_data b)" and ?rows = "present_slots (v12_global_parities b)"
  have rows: "length ?rows \<le> V12_GLOBAL_PARITIES"
    using D(3) length_filter_le [of "\<lambda>i. v12_global_parities b ! i \<noteq> None" "[0..<3]"]
    by (simp add: present_slots_filter V12_GLOBAL_PARITIES_def del: upt_rec_numeral)
  have slots: "\<forall>i \<in> set ?missing. i < V12_DATA_SHARDS \<and> v12_data b ! i = None" using D(1) by simp
  have sound: "\<not> list_ex (\<lambda>slot. v12_recovery_failed b ! slot) ?missing" using D(1,4) by (simp add: list_ex_iff)
  consider "?missing = []" | "length ?rows < length ?missing" | "?missing \<noteq> []" "length ?missing \<le> length ?rows" by fastforce
  then show ?thesis
  proof cases
    case 3
    obtain t where t: "v12_solve b ?missing (choose_rows ?rows (length ?missing)) =
        Some (Some (map (make_v12_data_shard (of_nat first)) ?missing, t))"
      using v12_solve_missing [OF ok 3] by blast
    obtain b' where b': "fold (\<lambda>(slot, payload). v12_restore (of_nat first) slot
        \<lparr>s12_payload = payload, s12_available_at = t, s12_source = ShardGlobal\<rparr>)
      (zip ?missing (map (make_v12_data_shard (of_nat first)) ?missing)) (b, 0) = (b', 0)"
      "v12_fills first b b'" "\<forall>i \<in> set ?missing. v12_data b' ! i \<noteq> None"
      using v12_restore_all [OF ok distinct_missing_slots slots, of t 0] by blast
    have "v12_data b' ! i \<noteq> None" if "i < V12_DATA_SHARDS" for i
      using b'(2,3) that D(1) by (cases "v12_data b ! i = None") (auto simp: v12_fills_def)
    moreover have "length (v12_data b') = V12_DATA_SHARDS" using b'(2) by (simp add: v12_fills_def v12_block_ok_def)
    ultimately have "missing_slots (v12_data b') = []" by (simp add: missing_slots_filter filter_empty_conv)
    moreover have "recover_v12_global b first = Some (b', 0)"
      using 3 rows sound t b'(1) by (simp add: recover_v12_global_def Let_def del: v12_restore.simps)
    ultimately show ?thesis using b'(2) by blast
  qed (use ok in \<open>auto simp: recover_v12_global_def Let_def intro: v12_fills_refl\<close>)
qed

section \<open>What is delivered\<close>

definition v12_whole :: "V12BlockState \<Rightarrow> usize \<Rightarrow> bool" where
  "v12_whole b slot \<longleftrightarrow> v12_data b ! (slot * 2) \<noteq> None \<and> v12_data b ! (slot * 2 + 1) \<noteq> None"

lemma v12_halves: "make_v12_data_shard first (slot * 2) @ make_v12_data_shard first (Suc (slot * 2)) = make_v3_payload (first + of_nat slot)"
  by (simp add: make_v12_data_shard_def make_v12_message_shards_def Let_def mod_Suc)

lemma v12_collect_step_sent:
  assumes ok: "v12_block_ok first b" and slot: "slot < V12_BLOCK_MESSAGES"
  shows "\<exists>d. v12_collect_step first slot (b, ds, e) =
      (if \<not> v12_delivered b ! slot \<and> v12_whole b slot
       then (b\<lparr>v12_delivered := (v12_delivered b)[slot := True]\<rparr>, ds @ [d], e) else (b, ds, e)) \<and>
    d12_slot d = slot \<and> d12_payload d = make_v3_payload (of_nat (first + slot))"
proof (cases "\<not> v12_delivered b ! slot \<and> v12_whole b slot")
  case True
  then obtain d0 d1 where d: "v12_data b ! (slot * 2) = Some d0" "v12_data b ! Suc (slot * 2) = Some d1"
    by (auto simp: v12_whole_def)
  have "s12_payload d0 @ s12_payload d1 = make_v3_payload (of_nat (first + slot))"
    using v12_block_okD(5) [OF ok _ d(1)] v12_block_okD(5) [OF ok _ d(2)] shard_pair [OF slot] by (simp add: v12_halves)
  then show ?thesis using True d by (simp add: Let_def)
next
  case False
  have "v12_collect_step first slot (b, ds, e) = (b, ds, e)"
    using False by (auto simp: v12_whole_def split: option.splits)
  with False show ?thesis by (intro exI [of _ "\<lparr>d12_slot = slot, d12_payload = make_v3_payload (of_nat (first + slot)),
      d12_available_at = 0, d12_source = V12Systematic\<rparr>"]) simp
qed

definition v12_marked :: "usize \<Rightarrow> V12BlockState \<Rightarrow> V12BlockState" where
  "v12_marked m b = b\<lparr>v12_delivered := map (\<lambda>slot. v12_delivered b ! slot \<or> slot < m \<and> v12_whole b slot) [0..<V12_BLOCK_MESSAGES]\<rparr>"

lemma v12_marked_simps [simp]:
  "v12_data (v12_marked m b) = v12_data b" "v12_whole (v12_marked m b) slot = v12_whole b slot"
  "v12_block_ok first b \<Longrightarrow> v12_block_ok first (v12_marked m b)"
  "slot < V12_BLOCK_MESSAGES \<Longrightarrow> v12_delivered (v12_marked m b) ! slot \<longleftrightarrow> v12_delivered b ! slot \<or> slot < m \<and> v12_whole b slot"
  by (simp_all add: v12_marked_def v12_whole_def v12_block_ok_def)

lemma v12_marked_Suc:
  "m < V12_BLOCK_MESSAGES \<Longrightarrow> v12_marked (Suc m) b =
    (if \<not> v12_delivered b ! m \<and> v12_whole b m
     then (v12_marked m b)\<lparr>v12_delivered := (v12_delivered (v12_marked m b))[m := True]\<rparr> else v12_marked m b)"
  by (auto simp: v12_marked_def less_Suc_eq nth_list_update intro!: nth_equalityI V12BlockState.equality split: if_splits)

lemma v12_marked_0: "length (v12_delivered b) = V12_BLOCK_MESSAGES \<Longrightarrow> v12_marked 0 b = b"
  by (auto simp: v12_marked_def intro!: nth_equalityI V12BlockState.equality)

lemma collect_v12_deliveries_sent:
  assumes ok: "v12_block_ok first b"
  shows "\<exists>ds. collect_v12_deliveries b first = (v12_marked V12_BLOCK_MESSAGES b, ds, 0) \<and>
    map d12_slot ds = filter (\<lambda>slot. \<not> v12_delivered b ! slot \<and> v12_whole b slot) [0..<V12_BLOCK_MESSAGES] \<and>
    (\<forall>d \<in> set ds. d12_payload d = make_v3_payload (of_nat (first + d12_slot d)))"
proof -
  have len: "length (v12_delivered b) = V12_BLOCK_MESSAGES" using ok by (simp add: v12_block_ok_def)
  have "\<exists>ds. fold (v12_collect_step first) [0..<m] (b, [], 0) = (v12_marked m b, ds, 0) \<and>
      map d12_slot ds = filter (\<lambda>slot. \<not> v12_delivered b ! slot \<and> v12_whole b slot) [0..<m] \<and>
      (\<forall>d \<in> set ds. d12_payload d = make_v3_payload (of_nat (first + d12_slot d)))"
    if "m \<le> V12_BLOCK_MESSAGES" for m
    using that
  proof (induction m)
    case 0
    then show ?case using len by (simp add: v12_marked_0)
  next
    case (Suc m)
    then obtain ds where ds: "fold (v12_collect_step first) [0..<m] (b, [], 0) = (v12_marked m b, ds, 0)"
      "map d12_slot ds = filter (\<lambda>slot. \<not> v12_delivered b ! slot \<and> v12_whole b slot) [0..<m]"
      "\<forall>d \<in> set ds. d12_payload d = make_v3_payload (of_nat (first + d12_slot d))" by auto
    have m: "m < V12_BLOCK_MESSAGES" using Suc.prems by simp
    obtain d where d: "v12_collect_step first m (v12_marked m b, ds, 0) =
        (if \<not> v12_delivered b ! m \<and> v12_whole b m then (v12_marked (Suc m) b, ds @ [d], 0) else (v12_marked (Suc m) b, ds, 0))"
      "d12_slot d = m" "d12_payload d = make_v3_payload (of_nat (first + m))"
    proof -
      from ok have "v12_block_ok first (v12_marked m b)" by simp
      from v12_collect_step_sent [OF this m, of ds 0]
      show ?thesis using m by (elim exE conjE, intro that) (simp_all add: v12_marked_Suc del: v12_collect_step.simps)
    qed
    show ?case using ds d by (simp del: v12_collect_step.simps)
  qed
  from this [OF order_refl] show ?thesis by (simp add: collect_v12_deliveries_def)
qed

section \<open>A block is completed and delivered\<close>

text \<open>The shards that the pairs alone do not give.\<close>

definition v12_lost :: "V12BlockState \<Rightarrow> usize set" where
  "v12_lost b = {i. i < V12_DATA_SHARDS \<and> v12_data b ! i = None \<and> (v12_local_parities b ! (i div 2) = None \<or> v12_data b ! partner i = None)}"

lemma partner_less: "i < V12_DATA_SHARDS \<Longrightarrow> partner i < V12_DATA_SHARDS"
  by (auto simp: partner_def V12_DATA_SHARDS_def elim!: evenE)

lemma missing_after_local:
  assumes "v12_fills first b b'" and "\<forall>slot < V12_BLOCK_MESSAGES. v12_pair_closed b' slot"
  shows "length (missing_slots (v12_data b')) \<le> card (v12_lost b)"
proof -
  have len: "length (v12_data b') = V12_DATA_SHARDS" using assms(1) by (simp add: v12_fills_def v12_block_ok_def)
  have "i \<in> v12_lost b" if i: "i < V12_DATA_SHARDS" "v12_data b' ! i = None" for i
  proof -
    have none: "v12_data b ! i = None" using assms(1) i by (auto simp: v12_fills_def)
    have "i div 2 < V12_BLOCK_MESSAGES" using i(1) by (simp add: V12_DATA_SHARDS_def less_mult_imp_div_less)
    then have "v12_pair_closed b' (i div 2)" using assms(2) by simp
    moreover have "{i div 2 * 2, i div 2 * 2 + 1} = {i, partner i}" by (rule partner_pair)
    ultimately have "v12_local_parities b' ! (i div 2) = None \<or> v12_data b' ! partner i = None"
      using i(2) by (auto simp: v12_pair_closed_def doubleton_eq_iff)
    then have "v12_local_parities b ! (i div 2) = None \<or> v12_data b ! partner i = None"
      using assms(1) partner_less [OF i(1)] by (auto simp: v12_fills_def)
    with none i(1) show ?thesis by (simp add: v12_lost_def)
  qed
  moreover have "finite (v12_lost b)" by (simp add: v12_lost_def)
  ultimately show ?thesis unfolding length_missing_slots len by (intro card_mono) auto
qed

text \<open>
  C33. Whatever the receiver holds of a block, if it holds only shards and parities of the sender, then
  completing the pairs, solving for the rest and delivering never panics and reports no error, keeps
  every shard that was there and delivers, in order and with the payload that was sent, exactly the
  messages not delivered before whose two shards are known at the end.  When the shards that the pairs do
  not give are no more than the global parities that arrived, these are all the messages of the block.
\<close>

theorem v12_recovery_delivers:
  assumes ok: "v12_block_ok first block"
  shows "\<exists>block1 block2 deliveries. recover_v12_local block first = (block1, 0) \<and> recover_v12_global block1 first = Some (block2, 0) \<and>
    collect_v12_deliveries block2 first = (v12_marked V12_BLOCK_MESSAGES block2, deliveries, 0) \<and> v12_fills first block block2 \<and>
    map d12_slot deliveries = filter (\<lambda>slot. \<not> v12_delivered block ! slot \<and> v12_whole block2 slot) [0..<V12_BLOCK_MESSAGES] \<and>
    (\<forall>d \<in> set deliveries. d12_payload d = make_v3_payload (of_nat (first + d12_slot d))) \<and>
    (card (v12_lost block) \<le> length (present_slots (v12_global_parities block)) \<longrightarrow>
      map d12_slot deliveries = filter (\<lambda>slot. \<not> v12_delivered block ! slot) [0..<V12_BLOCK_MESSAGES])"
proof -
  obtain b1 where b1: "recover_v12_local block first = (b1, 0)" "v12_fills first block b1"
    "\<forall>slot < V12_BLOCK_MESSAGES. v12_pair_closed b1 slot" using recover_v12_local_fills [OF ok] by blast
  then have "v12_block_ok first b1" by (simp add: v12_fills_def)
  then obtain b2 where b2: "recover_v12_global b1 first = Some (b2, 0)" "v12_fills first b1 b2"
    "missing_slots (v12_data b2) = [] \<or> b2 = b1 \<and> length (present_slots (v12_global_parities b1)) < length (missing_slots (v12_data b1))"
    using recover_v12_global_fills by blast
  have fills: "v12_fills first block b2" by (rule v12_fills_trans [OF b1(2) b2(2)])
  then have ok2: "v12_block_ok first b2" and delivered: "v12_delivered b2 = v12_delivered block" by (simp_all add: v12_fills_def)
  have whole: "v12_whole b2 slot" if "card (v12_lost block) \<le> length (present_slots (v12_global_parities block))" "slot < V12_BLOCK_MESSAGES" for slot
  proof -
    have "missing_slots (v12_data b2) = []"
      using b2(3) missing_after_local [OF b1(2,3)] that(1) b1(2) by (auto simp: v12_fills_def)
    then have "\<forall>i < V12_DATA_SHARDS. v12_data b2 ! i \<noteq> None"
      using v12_block_okD(1) [OF ok2] by (simp add: missing_slots_filter filter_empty_conv)
    then show ?thesis using shard_pair [OF that(2)] by (simp add: v12_whole_def)
  qed
  obtain ds where ds: "collect_v12_deliveries b2 first = (v12_marked V12_BLOCK_MESSAGES b2, ds, 0)"
    "map d12_slot ds = filter (\<lambda>slot. \<not> v12_delivered block ! slot \<and> v12_whole b2 slot) [0..<V12_BLOCK_MESSAGES]"
    "\<forall>d \<in> set ds. d12_payload d = make_v3_payload (of_nat (first + d12_slot d))"
    using collect_v12_deliveries_sent [OF ok2] unfolding delivered by blast
  moreover have "map d12_slot ds = filter (\<lambda>slot. \<not> v12_delivered block ! slot) [0..<V12_BLOCK_MESSAGES]"
    if "card (v12_lost block) \<le> length (present_slots (v12_global_parities block))"
    unfolding ds(2) using whole [OF that] by (intro filter_cong) auto
  ultimately show ?thesis using b1(1) b2(1) fills by blast
qed

text \<open>A block that lost both shards of its first message, one of its second and every local parity.\<close>

definition v12_sample_shard :: "V12Shard \<Rightarrow> V12ReceivedShard" where
  "v12_sample_shard p = \<lparr>s12_payload = p, s12_available_at = 0, s12_source = ShardSystematic\<rparr>"

definition v12_sample_block :: V12BlockState where
  "v12_sample_block = V12BlockState_default
     \<lparr>v12_data := map (\<lambda>i. if i < 3 then None else Some (v12_sample_shard (make_v12_data_shard 0 i))) [0..<V12_DATA_SHARDS],
      v12_global_parities := map (\<lambda>r. Some (v12_sample_shard (v12_parity 0 r))) [0..<3]\<rparr>"

lemma v12_sample_block_ok: "v12_block_ok 0 v12_sample_block"
  by (simp add: v12_block_ok_def v12_sample_block_def V12BlockState_default_def v12_sample_shard_def del: upt_rec_numeral)

lemma v12_sample_lost: "card (v12_lost v12_sample_block) \<le> length (present_slots (v12_global_parities v12_sample_block))"
proof -
  have "v12_lost v12_sample_block \<subseteq> {..<3}"
    by (auto simp: v12_lost_def v12_sample_block_def split: if_splits)
  then have "card (v12_lost v12_sample_block) \<le> 3" using card_mono [of "{..<3::nat}"] by fastforce
  moreover have "filter (\<lambda>i. v12_global_parities v12_sample_block ! i \<noteq> None) [0..<3] = [0..<3]"
    by (simp add: v12_sample_block_def filter_id_conv del: upt_rec_numeral)
  then have "length (present_slots (v12_global_parities v12_sample_block)) = 3"
    unfolding present_slots_filter by (simp add: v12_sample_block_def del: upt_rec_numeral)
  ultimately show ?thesis by simp
qed

theorem v12_recovery_delivers_witness:
  "\<exists>block1 block2 deliveries. recover_v12_local v12_sample_block 0 = (block1, 0) \<and> recover_v12_global block1 0 = Some (block2, 0) \<and>
    collect_v12_deliveries block2 0 = (v12_marked V12_BLOCK_MESSAGES block2, deliveries, 0) \<and>
    map d12_slot deliveries = [0..<V12_BLOCK_MESSAGES]"
proof -
  have "filter (\<lambda>slot. \<not> v12_delivered v12_sample_block ! slot) [0..<V12_BLOCK_MESSAGES] = [0..<V12_BLOCK_MESSAGES]"
    by (simp add: v12_sample_block_def V12BlockState_default_def filter_id_conv)
  then show ?thesis using v12_recovery_delivers [OF v12_sample_block_ok] v12_sample_lost by metis
qed

end
