(* ===== verification/Fec_V12_Accounting.thy ===== *)
theory Fec_V12_Accounting
  imports Fec_V12 Fec_V4_Run
begin

text \<open>
  The accounting of the two-of-three code (\<open>V12Accounting\<close> of \<open>realtime_v3.rs\<close>), its receive loop
  and the integer part of its report.  A datagram is decoded, compared with the frame the sender makes
  and stored; then the block is completed as far as its parities allow and the new messages are counted.
  Whatever arrives, blocks hold only what was sent, no message is counted twice and the report's own
  completeness check passes.
\<close>

section \<open>The accounting record\<close>

record V12Accounting =
  a12_blocks :: "V12BlockState list"
  a12_first_correct :: "bool list"
  a12_latencies :: "duration list"
  a12_observed_frames :: usize
  a12_decoded_frames :: usize
  a12_observed_data0_frames :: usize
  a12_observed_data1_frames :: usize
  a12_observed_local_parity_frames :: usize
  a12_observed_global_rows :: "usize list"
  a12_systematic_deliveries :: usize
  a12_local_xor_recoveries :: usize
  a12_global_recoveries :: usize
  a12_valid_messages :: usize
  a12_late_messages :: usize
  a12_duplicate_shard_frames :: usize
  a12_malformed_frames :: usize
  a12_invalid_header_frames :: usize
  a12_digest_error_frames :: usize
  a12_content_error_frames :: usize
  a12_recovery_error_messages :: usize
  a12_timestamp_error_messages :: usize

definition V12Accounting_new :: "usize \<Rightarrow> V12Accounting" where
  "V12Accounting_new logical_messages =
     \<lparr>a12_blocks = map (\<lambda>_. V12BlockState_default) [0..<logical_messages div V12_BLOCK_MESSAGES],
      a12_first_correct = replicate logical_messages False, a12_latencies = [],
      a12_observed_frames = 0, a12_decoded_frames = 0, a12_observed_data0_frames = 0, a12_observed_data1_frames = 0,
      a12_observed_local_parity_frames = 0, a12_observed_global_rows = replicate V12_GLOBAL_PARITIES 0,
      a12_systematic_deliveries = 0, a12_local_xor_recoveries = 0, a12_global_recoveries = 0,
      a12_valid_messages = 0, a12_late_messages = 0, a12_duplicate_shard_frames = 0, a12_malformed_frames = 0,
      a12_invalid_header_frames = 0, a12_digest_error_frames = 0, a12_content_error_frames = 0,
      a12_recovery_error_messages = 0, a12_timestamp_error_messages = 0\<rparr>"

definition expected_v12_frame_payload :: "V12DecodedFrame \<Rightarrow> usize \<Rightarrow> V12Shard option" where
  "expected_v12_frame_payload frame logical_messages =
     Option.bind (checked_add_usize (f12_first_sequence frame) V12_BLOCK_MESSAGES) (\<lambda>last.
     if last > logical_messages then None
     else case f12_kind frame of
       V12Global \<Rightarrow>
         if f12_symbol_index frame \<ge> V12_GLOBAL_PARITIES then None
         else let shards = make_v12_block_data_shards (of_nat (f12_first_sequence frame)) in
           Some (make_v12_global_parities shards ! f12_symbol_index frame)
     | kind \<Rightarrow>
         if f12_symbol_index frame \<ge> V12_BLOCK_MESSAGES then None
         else Option.bind (checked_add_usize (f12_first_sequence frame) (f12_symbol_index frame)) (\<lambda>sequence.
           let (data0, data1) = make_v12_message_shards (of_nat sequence) in
           Some (if kind = V12Data0 then data0 else if kind = V12Data1 then data1 else xor_v12_shards data0 data1)))"

definition v12_count_delivery :: "V12Delivery \<Rightarrow> usize \<Rightarrow> duration \<Rightarrow> V12Accounting \<Rightarrow> V12Accounting" where
  "v12_count_delivery d sequence latency acc =
     (let acc = acc\<lparr>a12_first_correct := (a12_first_correct acc)[sequence := True],
                    a12_latencies := a12_latencies acc @ [latency]\<rparr>;
          acc = (if latency \<le> 300000000 then acc\<lparr>a12_valid_messages := inc (a12_valid_messages acc)\<rparr>
                 else acc\<lparr>a12_late_messages := inc (a12_late_messages acc)\<rparr>)
      in case d12_source d of
           V12Systematic \<Rightarrow> acc\<lparr>a12_systematic_deliveries := inc (a12_systematic_deliveries acc)\<rparr>
         | V12Local \<Rightarrow> acc\<lparr>a12_local_xor_recoveries := inc (a12_local_xor_recoveries acc)\<rparr>
         | V12GlobalRecovery \<Rightarrow> acc\<lparr>a12_global_recoveries := inc (a12_global_recoveries acc)\<rparr>)"

definition v12_record_delivery ::
  "usize \<Rightarrow> V12Delivery \<Rightarrow> instant \<Rightarrow> nat list \<Rightarrow> V12Accounting \<Rightarrow> (V12Accounting \<times> (RealtimeError + unit)) option" where
  "v12_record_delivery sequence d experiment_started generated_micros acc =
     (if sequence \<ge> length generated_micros then
        Some (acc\<lparr>a12_invalid_header_frames := inc (a12_invalid_header_frames acc)\<rparr>, Inr ())
      else if sequence \<ge> length (a12_first_correct acc) then None
      else if a12_first_correct acc ! sequence then
        Some (acc\<lparr>a12_invalid_header_frames := inc (a12_invalid_header_frames acc)\<rparr>, Inr ())
      else if d12_payload d \<noteq> make_v3_payload (of_nat sequence) then
        Some (acc\<lparr>a12_recovery_error_messages := inc (a12_recovery_error_messages acc)\<rparr>, Inr ())
      else case v4_received_micros (d12_available_at d) experiment_started of
        Inl e \<Rightarrow> Some (acc, Inl e)
      | Inr received_micros \<Rightarrow>
          let generated = generated_micros ! sequence in
          if generated > received_micros then
            Some (acc\<lparr>a12_timestamp_error_messages := inc (a12_timestamp_error_messages acc)\<rparr>, Inr ())
          else Some (v12_count_delivery d sequence ((received_micros - generated) * 1000) acc, Inr ()))"

primrec v12_record_deliveries ::
  "usize \<Rightarrow> V12Delivery list \<Rightarrow> instant \<Rightarrow> nat list \<Rightarrow> V12Accounting \<Rightarrow> (V12Accounting \<times> (RealtimeError + unit)) option" where
  "v12_record_deliveries first_sequence [] experiment_started generated_micros acc = Some (acc, Inr ())"
| "v12_record_deliveries first_sequence (d # ds) experiment_started generated_micros acc =
     (case v12_record_delivery (first_sequence + d12_slot d) d experiment_started generated_micros acc of
        None \<Rightarrow> None
      | Some (acc, Inl e) \<Rightarrow> Some (acc, Inl e)
      | Some (acc, Inr _) \<Rightarrow> v12_record_deliveries first_sequence ds experiment_started generated_micros acc)"

text \<open>Storing the shard of an accepted frame; a shard already present counts as a duplicate.\<close>

definition v12_store :: "V12DecodedFrame \<Rightarrow> instant \<Rightarrow> V12BlockState \<Rightarrow> V12Accounting \<Rightarrow> V12BlockState \<times> V12Accounting" where
  "v12_store frame received_at block acc =
     (let shard = \<lparr>s12_payload = f12_payload frame, s12_available_at = received_at, s12_source = ShardSystematic\<rparr>;
          symbol_index = f12_symbol_index frame;
          duplicate = (\<lambda>acc. acc\<lparr>a12_duplicate_shard_frames := inc (a12_duplicate_shard_frames acc)\<rparr>)
      in case f12_kind frame of
        V12LocalParity \<Rightarrow>
          let acc = acc\<lparr>a12_observed_local_parity_frames := inc (a12_observed_local_parity_frames acc)\<rparr> in
          if v12_local_parities block ! symbol_index \<noteq> None then (block, duplicate acc)
          else (block\<lparr>v12_local_parities := (v12_local_parities block)[symbol_index := Some shard]\<rparr>, acc)
      | V12Global \<Rightarrow>
          let rows = a12_observed_global_rows acc;
              acc = acc\<lparr>a12_observed_global_rows := rows[symbol_index := inc (rows ! symbol_index)]\<rparr> in
          if v12_global_parities block ! symbol_index \<noteq> None then (block, duplicate acc)
          else (block\<lparr>v12_global_parities := (v12_global_parities block)[symbol_index := Some shard]\<rparr>, acc)
      | kind \<Rightarrow>
          let half = (if kind = V12Data1 then 1 else 0);
              acc = (if half = 0 then acc\<lparr>a12_observed_data0_frames := inc (a12_observed_data0_frames acc)\<rparr>
                     else acc\<lparr>a12_observed_data1_frames := inc (a12_observed_data1_frames acc)\<rparr>);
              data_index = symbol_index * 2 + half in
          if v12_data block ! data_index \<noteq> None then (block, duplicate acc)
          else (block\<lparr>v12_data := (v12_data block)[data_index := Some shard]\<rparr>, acc))"

text \<open>The part of \<open>record\<close> after the checks of the frame.\<close>

definition v12_accept :: "V12DecodedFrame \<Rightarrow> instant \<Rightarrow> instant \<Rightarrow> nat list \<Rightarrow> V12Accounting \<Rightarrow>
    (V12Accounting \<times> (RealtimeError + unit)) option" where
  "v12_accept frame received_at experiment_started generated_micros acc =
     (let (block, acc) = v12_store frame received_at (a12_blocks acc ! f12_block_id frame) acc;
          (block, local_errors) = recover_v12_local block (f12_first_sequence frame)
      in case recover_v12_global block (f12_first_sequence frame) of
           None \<Rightarrow> None
         | Some (block, global_errors) \<Rightarrow>
             let recovery_errors = sat_add_usize local_errors global_errors;
                 acc = acc\<lparr>a12_recovery_error_messages := sat_add_usize (a12_recovery_error_messages acc) recovery_errors\<rparr>;
                 (block, deliveries, delivery_errors) = collect_v12_deliveries block (f12_first_sequence frame)
             in v12_record_deliveries (f12_first_sequence frame) deliveries experiment_started generated_micros
                  (acc\<lparr>a12_blocks := (a12_blocks acc)[f12_block_id frame := block],
                       a12_recovery_error_messages := sat_add_usize (a12_recovery_error_messages acc) delivery_errors\<rparr>))"

definition v12_record :: "RealtimeDatagramEvent \<Rightarrow> instant \<Rightarrow> nat list \<Rightarrow> V12Accounting \<Rightarrow>
    (V12Accounting \<times> (RealtimeError + unit)) option" where
  "v12_record event experiment_started generated_micros acc =
     (let acc = acc\<lparr>a12_observed_frames := inc (a12_observed_frames acc)\<rparr> in
      case decode_v12_frame (ev_data event) of
        Inl _ \<Rightarrow> Some (acc\<lparr>a12_malformed_frames := inc (a12_malformed_frames acc)\<rparr>, Inr ())
      | Inr frame \<Rightarrow>
          let acc = acc\<lparr>a12_decoded_frames := inc (a12_decoded_frames acc)\<rparr> in
          if f12_block_id frame \<ge> length (a12_blocks acc) \<or>
             f12_first_sequence frame \<noteq> f12_block_id frame * V12_BLOCK_MESSAGES then
            Some (acc\<lparr>a12_invalid_header_frames := inc (a12_invalid_header_frames acc)\<rparr>, Inr ())
          else case expected_v12_frame_payload frame (length generated_micros) of
            None \<Rightarrow> Some (acc\<lparr>a12_invalid_header_frames := inc (a12_invalid_header_frames acc)\<rparr>, Inr ())
          | Some expected_payload \<Rightarrow>
              if ucast (digest (f12_payload frame)) \<noteq> f12_payload_digest frame then
                Some (acc\<lparr>a12_digest_error_frames := inc (a12_digest_error_frames acc)\<rparr>, Inr ())
              else if f12_payload frame \<noteq> expected_payload then
                Some (acc\<lparr>a12_content_error_frames := inc (a12_content_error_frames acc)\<rparr>, Inr ())
              else v12_accept frame (ev_received_at event) experiment_started generated_micros acc)"

section \<open>The receive loop and the report\<close>

fun v12_receive :: "usize \<Rightarrow> instant \<Rightarrow> nat list \<Rightarrow> RealtimeDatagramEvent option list \<Rightarrow> V12Accounting \<Rightarrow>
    (V12Accounting \<times> (RealtimeError + unit)) option" where
  "v12_receive expected_frames experiment_started generated_micros [] acc = Some (acc, Inr ())"
| "v12_receive expected_frames experiment_started generated_micros (outcome # outcomes) acc =
     (if a12_observed_frames acc \<ge> expected_frames then Some (acc, Inr ())
      else case outcome of
        None \<Rightarrow> Some (acc, Inl ChannelClosed)
      | Some event \<Rightarrow>
          (case v12_record event experiment_started generated_micros acc of
             None \<Rightarrow> None
           | Some (acc, Inl e) \<Rightarrow> Some (acc, Inl e)
           | Some (acc, Inr _) \<Rightarrow> v12_receive expected_frames experiment_started generated_micros outcomes acc))"

record RealtimeV12Report =
  r12_logical_messages :: usize
  r12_queued_data0_frames :: usize
  r12_queued_data1_frames :: usize
  r12_queued_local_parity_frames :: usize
  r12_queued_global_parity_frames :: usize
  r12_lost_messages :: usize
  r12_p50 :: "duration option"
  r12_p95 :: "duration option"
  r12_p99 :: "duration option"
  r12_accounting :: V12Accounting

text \<open>The counters the report copies from the accounting are read through the field for it.\<close>

definition v12_report :: "usize \<Rightarrow> V12Accounting \<Rightarrow> RealtimeV12Report" where
  "v12_report logical_messages acc =
     \<lparr>r12_logical_messages = logical_messages,
      r12_queued_data0_frames = logical_messages,
      r12_queued_data1_frames = logical_messages,
      r12_queued_local_parity_frames = logical_messages,
      r12_queued_global_parity_frames = logical_messages div V12_BLOCK_MESSAGES * V12_GLOBAL_PARITIES,
      r12_lost_messages = logical_messages - (a12_valid_messages acc + a12_late_messages acc),
      r12_p50 = percentile (a12_latencies acc) 50,
      r12_p95 = percentile (a12_latencies acc) 95,
      r12_p99 = percentile (a12_latencies acc) 99,
      r12_accounting = acc\<rparr>"

text \<open>The outcomes of a decoded frame, added up the way the report adds them.\<close>

definition v12_outcomes :: "V12Accounting \<Rightarrow> usize" where
  "v12_outcomes acc =
     sat_add_usize (sat_add_usize (sat_add_usize (sat_add_usize (sat_add_usize (sat_add_usize (sat_add_usize (sat_add_usize
       (a12_observed_data0_frames acc) (a12_observed_data1_frames acc)) (a12_observed_local_parity_frames acc))
       (a12_observed_global_rows acc ! 0)) (a12_observed_global_rows acc ! 1)) (a12_observed_global_rows acc ! 2))
       (a12_invalid_header_frames acc)) (a12_digest_error_frames acc)) (a12_content_error_frames acc)"

definition v12_measurement_is_complete :: "RealtimeV12Report \<Rightarrow> bool" where
  "v12_measurement_is_complete r \<longleftrightarrow>
     (let acc = r12_accounting r in
      sat_add_usize (sat_add_usize (a12_valid_messages acc) (a12_late_messages acc)) (r12_lost_messages r) = r12_logical_messages r \<and>
      sat_add_usize (sat_add_usize (a12_systematic_deliveries acc) (a12_local_xor_recoveries acc)) (a12_global_recoveries acc) =
        sat_add_usize (a12_valid_messages acc) (a12_late_messages acc) \<and>
      sat_add_usize (a12_decoded_frames acc) (a12_malformed_frames acc) = a12_observed_frames acc \<and>
      v12_outcomes acc = a12_decoded_frames acc \<and>
      r12_queued_data0_frames r = r12_logical_messages r \<and>
      r12_queued_data1_frames r = r12_logical_messages r \<and>
      r12_queued_local_parity_frames r = r12_logical_messages r \<and>
      r12_queued_global_parity_frames r = r12_logical_messages r div V12_BLOCK_MESSAGES * V12_GLOBAL_PARITIES)"

section \<open>Deliveries are counted once\<close>

definition v12_deliveries_ok :: "V12Accounting \<Rightarrow> bool" where
  "v12_deliveries_ok acc \<longleftrightarrow>
     (let n = length (filter id (a12_first_correct acc)) in
      a12_valid_messages acc + a12_late_messages acc = n \<and>
      a12_systematic_deliveries acc + a12_local_xor_recoveries acc + a12_global_recoveries acc = n \<and>
      length (a12_latencies acc) = n)"

definition v12_same_frames :: "V12Accounting \<Rightarrow> V12Accounting \<Rightarrow> bool" where
  "v12_same_frames acc acc' \<longleftrightarrow>
     a12_blocks acc' = a12_blocks acc \<and> length (a12_first_correct acc') = length (a12_first_correct acc) \<and>
     a12_observed_frames acc' = a12_observed_frames acc \<and> a12_decoded_frames acc' = a12_decoded_frames acc \<and>
     v12_outcomes acc' = v12_outcomes acc \<and> a12_malformed_frames acc' = a12_malformed_frames acc \<and>
     a12_observed_global_rows acc' = a12_observed_global_rows acc \<and>
     a12_recovery_error_messages acc' = a12_recovery_error_messages acc"

lemma v12_outcomes_update [simp]:
  "v12_outcomes (acc\<lparr>a12_blocks := bs\<rparr>) = v12_outcomes acc"
  "v12_outcomes (acc\<lparr>a12_observed_frames := m, a12_decoded_frames := n\<rparr>) = v12_outcomes acc"
  "v12_outcomes (acc\<lparr>a12_malformed_frames := n\<rparr>) = v12_outcomes acc"
  by (simp_all add: v12_outcomes_def)

lemma v12_same_frames_refl [simp]: "v12_same_frames acc acc"
  by (simp add: v12_same_frames_def)

lemma v12_same_frames_trans: "v12_same_frames a b \<Longrightarrow> v12_same_frames b c \<Longrightarrow> v12_same_frames a c"
  by (simp add: v12_same_frames_def)

lemma v12_count_delivery_ok:
  assumes "v12_deliveries_ok acc" and "sequence < length (a12_first_correct acc)" and "\<not> a12_first_correct acc ! sequence"
    and "length (a12_first_correct acc) \<le> usize_max"
  shows "v12_deliveries_ok (v12_count_delivery d sequence latency acc)"
    and "v12_same_frames acc (v12_count_delivery d sequence latency acc)"
    and "a12_first_correct (v12_count_delivery d sequence latency acc) = (a12_first_correct acc)[sequence := True]"
proof -
  have inc: "inc n = Suc n" if "n \<le> length (filter id (a12_first_correct acc))" for n
    using filter_id_less [OF assms(2,3)] that assms(4) by (simp add: inc_Suc)
  show "v12_deliveries_ok (v12_count_delivery d sequence latency acc)"
    using assms(1) filter_update_True [OF assms(2,3)]
    by (auto simp: v12_deliveries_ok_def v12_count_delivery_def Let_def inc split: V12DeliverySource.splits)
  show "v12_same_frames acc (v12_count_delivery d sequence latency acc)"
    by (simp add: v12_same_frames_def v12_outcomes_def v12_count_delivery_def Let_def split: V12DeliverySource.splits)
  show "a12_first_correct (v12_count_delivery d sequence latency acc) = (a12_first_correct acc)[sequence := True]"
    by (simp add: v12_count_delivery_def Let_def split: V12DeliverySource.splits)
qed

lemma v12_record_delivery_ok:
  assumes d: "d12_payload d = make_v3_payload (of_nat sequence)" and seq: "sequence < length gens"
    and len: "length (a12_first_correct acc) = length gens" "length gens \<le> usize_max"
    and new: "\<not> a12_first_correct acc ! sequence" and ok: "v12_deliveries_ok acc"
  shows "\<exists>acc' r. v12_record_delivery sequence d started gens acc = Some (acc', r) \<and>
    v12_deliveries_ok acc' \<and> v12_same_frames acc acc' \<and>
    (\<forall>s. s \<noteq> sequence \<longrightarrow> a12_first_correct acc' ! s = a12_first_correct acc ! s)"
proof (cases "v4_received_micros (d12_available_at d) started")
  case (Inl e)
  then show ?thesis using assms by (simp add: v12_record_delivery_def)
next
  case (Inr micros)
  have l: "sequence < length (a12_first_correct acc)" "length (a12_first_correct acc) \<le> usize_max" using seq len by simp_all
  note counted = v12_count_delivery_ok [OF ok l(1) new l(2), of d "(micros - gens ! sequence) * 1000"]
  show ?thesis
  proof (cases "gens ! sequence > micros")
    case True
    then show ?thesis using assms Inr
      by (simp add: v12_record_delivery_def v12_deliveries_ok_def v12_same_frames_def v12_outcomes_def)
  next
    case False
    then show ?thesis using assms Inr counted l by (simp add: v12_record_delivery_def)
  qed
qed

lemma v12_record_deliveries_ok:
  assumes "\<forall>d \<in> set ds. d12_payload d = make_v3_payload (of_nat (first + d12_slot d)) \<and> first + d12_slot d < length gens \<and>
      \<not> a12_first_correct acc ! (first + d12_slot d)"
    and "distinct (map d12_slot ds)" and "length (a12_first_correct acc) = length gens" "length gens \<le> usize_max"
    and "v12_deliveries_ok acc"
  shows "\<exists>acc' r. v12_record_deliveries first ds started gens acc = Some (acc', r) \<and>
    v12_deliveries_ok acc' \<and> v12_same_frames acc acc' \<and>
    (\<forall>s. s \<notin> (\<lambda>d. first + d12_slot d) ` set ds \<longrightarrow> a12_first_correct acc' ! s = a12_first_correct acc ! s)"
  using assms
proof (induction ds arbitrary: acc)
  case (Cons d ds)
  then have d: "d12_payload d = make_v3_payload (of_nat (first + d12_slot d))" "first + d12_slot d < length gens"
    "\<not> a12_first_correct acc ! (first + d12_slot d)" by simp_all
  obtain acc1 r1 where one: "v12_record_delivery (first + d12_slot d) d started gens acc = Some (acc1, r1)"
    "v12_deliveries_ok acc1" "v12_same_frames acc acc1"
    "\<forall>s. s \<noteq> first + d12_slot d \<longrightarrow> a12_first_correct acc1 ! s = a12_first_correct acc ! s"
    using v12_record_delivery_ok [OF d(1,2) Cons.prems(3,4) d(3) Cons.prems(5), of started] by blast
  show ?case
  proof (cases r1)
    case (Inl e)
    then show ?thesis using one by auto
  next
    case (Inr u)
    have "length (a12_first_correct acc1) = length gens" using one(3) Cons.prems(3) by (simp add: v12_same_frames_def)
    moreover have "\<forall>d' \<in> set ds. \<not> a12_first_correct acc1 ! (first + d12_slot d')"
      using Cons.prems(1,2) one(4) by (auto simp: image_iff)
    ultimately obtain acc2 r2 where two: "v12_record_deliveries first ds started gens acc1 = Some (acc2, r2)"
      "v12_deliveries_ok acc2" "v12_same_frames acc1 acc2"
      "\<forall>s. s \<notin> (\<lambda>d. first + d12_slot d) ` set ds \<longrightarrow> a12_first_correct acc2 ! s = a12_first_correct acc1 ! s"
      using Cons.IH [of acc1] Cons.prems one(2) by auto
    with one show ?thesis using Inr v12_same_frames_trans [OF one(3) two(3)] by auto
  qed
qed simp

section \<open>The invariant\<close>

text \<open>
  A block is closed when it is complete or when neither its pairs nor the parities that arrived give
  another shard; exactly the messages with both shards are marked as delivered.
\<close>

definition v12_closed :: "V12BlockState \<Rightarrow> bool" where
  "v12_closed b \<longleftrightarrow> missing_slots (v12_data b) = [] \<or>
     length (present_slots (v12_global_parities b)) < length (missing_slots (v12_data b)) \<and>
     (\<forall>slot < V12_BLOCK_MESSAGES. v12_pair_closed b slot)"

definition v12_settled :: "usize \<Rightarrow> V12BlockState \<Rightarrow> bool" where
  "v12_settled first b \<longleftrightarrow> v12_block_ok first b \<and> v12_closed b \<and>
     (\<forall>slot < V12_BLOCK_MESSAGES. v12_delivered b ! slot \<longleftrightarrow> v12_whole b slot)"

definition v12_blocks_ok :: "usize \<Rightarrow> V12Accounting \<Rightarrow> bool" where
  "v12_blocks_ok n acc \<longleftrightarrow>
     length (a12_first_correct acc) = n \<and> length (a12_blocks acc) = n div V12_BLOCK_MESSAGES \<and>
     a12_recovery_error_messages acc = 0 \<and> v12_deliveries_ok acc \<and> length (a12_observed_global_rows acc) = 3 \<and>
     (\<forall>k < n div V12_BLOCK_MESSAGES. v12_settled (k * V12_BLOCK_MESSAGES) (a12_blocks acc ! k) \<and>
        (\<forall>i < V12_BLOCK_MESSAGES. a12_first_correct acc ! (k * V12_BLOCK_MESSAGES + i) \<longrightarrow> v12_delivered (a12_blocks acc ! k) ! i))"

definition v12_acc_ok :: "usize \<Rightarrow> V12Accounting \<Rightarrow> bool" where
  "v12_acc_ok n acc \<longleftrightarrow> v12_blocks_ok n acc \<and>
     a12_observed_frames acc = sat_add_usize (a12_decoded_frames acc) (a12_malformed_frames acc) \<and>
     a12_decoded_frames acc = v12_outcomes acc"

lemma v12_default_settled: "v12_settled first V12BlockState_default"
proof -
  have "missing_slots (replicate V12_DATA_SHARDS (None :: V12ReceivedShard option)) = [0..<V12_DATA_SHARDS]"
    "present_slots (replicate V12_GLOBAL_PARITIES (None :: V12ReceivedShard option)) = []"
    by (simp_all add: missing_slots_filter present_slots_filter filter_id_conv filter_empty_conv)
  moreover have "0 < V12_DATA_SHARDS" by (simp add: V12_DATA_SHARDS_def V12_BLOCK_MESSAGES_def)
  moreover have "\<not> v12_whole V12BlockState_default slot" if "slot < V12_BLOCK_MESSAGES" for slot
    using shard_pair [OF that] by (simp add: v12_whole_def V12BlockState_default_def)
  ultimately show ?thesis
    by (simp add: v12_settled_def v12_block_ok_def v12_closed_def v12_pair_closed_def V12BlockState_default_def V12_GLOBAL_PARITIES_def)
qed

lemma V12Accounting_new_ok: "v12_acc_ok n (V12Accounting_new n)"
proof -
  have "k < n div V12_BLOCK_MESSAGES \<Longrightarrow> i < V12_BLOCK_MESSAGES \<Longrightarrow> k * V12_BLOCK_MESSAGES + i < n" for k i
    by (simp add: V12_BLOCK_MESSAGES_def)
  then show ?thesis
    using v12_default_settled
    by (simp add: v12_acc_ok_def v12_blocks_ok_def v12_deliveries_ok_def v12_outcomes_def V12Accounting_new_def V12_GLOBAL_PARITIES_def
        sat_add_usize_def)
qed

section \<open>Accepted frames\<close>

lemma expected_v12_frame_payload_Some:
  assumes "expected_v12_frame_payload frame n = Some p"
  shows "case f12_kind frame of
      V12Data0 \<Rightarrow> f12_symbol_index frame < V12_BLOCK_MESSAGES \<and>
        p = make_v12_data_shard (of_nat (f12_first_sequence frame)) (f12_symbol_index frame * 2)
    | V12Data1 \<Rightarrow> f12_symbol_index frame < V12_BLOCK_MESSAGES \<and>
        p = make_v12_data_shard (of_nat (f12_first_sequence frame)) (f12_symbol_index frame * 2 + 1)
    | V12LocalParity \<Rightarrow> f12_symbol_index frame < V12_BLOCK_MESSAGES \<and>
        p = xor_v12_shards (make_v12_data_shard (of_nat (f12_first_sequence frame)) (f12_symbol_index frame * 2))
          (make_v12_data_shard (of_nat (f12_first_sequence frame)) (f12_symbol_index frame * 2 + 1))
    | V12Global \<Rightarrow> f12_symbol_index frame < 3 \<and> p = v12_parity (f12_first_sequence frame) (f12_symbol_index frame)"
  using assms
  by (auto simp: expected_v12_frame_payload_def make_v12_data_shard_def make_v12_message_shards_def v12_parity_def
      checked_add_usize_def bind_eq_Some_conv V12_GLOBAL_PARITIES_def Let_def mod_Suc split: V12FrameKind.splits if_splits)

lemma update_keeps_some: "xs ! j = Some y \<Longrightarrow> \<exists>z. xs[i := Some s] ! j = Some z"
  by (cases "i < length xs") (auto simp: nth_list_update list_update_beyond)

lemma v12_store_ok:
  assumes ok: "v12_block_ok first b" and first: "f12_first_sequence frame = first"
    and payload: "expected_v12_frame_payload frame n = Some (f12_payload frame)"
    and store: "v12_store frame at b acc = (b', acc')"
  shows "v12_block_ok first b'" and "v12_delivered b' = v12_delivered b"
    and "v12_whole b slot \<Longrightarrow> v12_whole b' slot"
proof -
  note expected = expected_v12_frame_payload_Some [OF payload]
  note pair = shard_pair [of "f12_symbol_index frame"]
  show "v12_block_ok first b'" using store ok expected first pair
    by (auto simp: v12_store_def v12_block_ok_def nth_list_update Let_def split: V12FrameKind.splits if_splits)
  show "v12_delivered b' = v12_delivered b" using store
    by (auto simp: v12_store_def Let_def split: V12FrameKind.splits if_splits)
  show "v12_whole b' slot" if "v12_whole b slot"
    using store that
    by (auto simp: v12_store_def v12_whole_def Let_def intro: update_keeps_some split: V12FrameKind.splits if_splits)
qed

lemma v12_store_frames:
  assumes "v12_store frame at b acc = (b', acc')" and "expected_v12_frame_payload frame n = Some (f12_payload frame)"
    and "length (a12_observed_global_rows acc) = 3"
  shows "v12_outcomes acc' = inc (v12_outcomes acc)" and "length (a12_observed_global_rows acc') = 3"
    and "a12_observed_frames acc' = a12_observed_frames acc" "a12_decoded_frames acc' = a12_decoded_frames acc"
    and "a12_malformed_frames acc' = a12_malformed_frames acc" "a12_blocks acc' = a12_blocks acc"
    and "a12_first_correct acc' = a12_first_correct acc" "a12_recovery_error_messages acc' = a12_recovery_error_messages acc"
    and "v12_deliveries_ok acc' = v12_deliveries_ok acc"
proof -
  have row: "f12_symbol_index frame = 0 \<or> f12_symbol_index frame = 1 \<or> f12_symbol_index frame = 2" if "f12_kind frame = V12Global"
    using expected_v12_frame_payload_Some [OF assms(2)] that by auto
  show "v12_outcomes acc' = inc (v12_outcomes acc)" using assms(1,3) row
    by (cases "f12_kind frame")
      (auto simp: v12_store_def v12_outcomes_def Let_def sat_add_inc split: if_splits)
  show "length (a12_observed_global_rows acc') = 3"
    "a12_observed_frames acc' = a12_observed_frames acc" "a12_decoded_frames acc' = a12_decoded_frames acc"
    "a12_malformed_frames acc' = a12_malformed_frames acc" "a12_blocks acc' = a12_blocks acc"
    "a12_first_correct acc' = a12_first_correct acc" "a12_recovery_error_messages acc' = a12_recovery_error_messages acc"
    "v12_deliveries_ok acc' = v12_deliveries_ok acc"
    using assms(1,3) by (auto simp: v12_store_def v12_deliveries_ok_def Let_def split: V12FrameKind.splits if_splits)
qed

text \<open>Completing a block and delivering from it settles it.\<close>

lemma v12_block_settles:
  assumes ok: "v12_block_ok first b" and old: "\<forall>slot < V12_BLOCK_MESSAGES. v12_delivered b ! slot \<longrightarrow> v12_whole b slot"
  shows "\<exists>b1 b2 b3 ds. recover_v12_local b first = (b1, 0) \<and> recover_v12_global b1 first = Some (b2, 0) \<and>
    collect_v12_deliveries b2 first = (b3, ds, 0) \<and> v12_settled first b3 \<and> distinct (map d12_slot ds) \<and>
    (\<forall>d \<in> set ds. d12_payload d = make_v3_payload (of_nat (first + d12_slot d)) \<and> d12_slot d < V12_BLOCK_MESSAGES \<and>
      \<not> v12_delivered b ! d12_slot d) \<and>
    (\<forall>slot < V12_BLOCK_MESSAGES. v12_delivered b3 ! slot \<longleftrightarrow> v12_delivered b ! slot \<or> slot \<in> d12_slot ` set ds)"
proof -
  obtain b1 where b1: "recover_v12_local b first = (b1, 0)" "v12_fills first b b1"
    "\<forall>slot < V12_BLOCK_MESSAGES. v12_pair_closed b1 slot" using recover_v12_local_fills [OF ok] by blast
  then have "v12_block_ok first b1" by (simp add: v12_fills_def)
  then obtain b2 where b2: "recover_v12_global b1 first = Some (b2, 0)" "v12_fills first b1 b2"
    "missing_slots (v12_data b2) = [] \<or> b2 = b1 \<and> length (present_slots (v12_global_parities b1)) < length (missing_slots (v12_data b1))"
    using recover_v12_global_fills by blast
  have fills: "v12_fills first b b2" by (rule v12_fills_trans [OF b1(2) b2(2)])
  then have ok2: "v12_block_ok first b2" and delivered: "v12_delivered b2 = v12_delivered b" by (simp_all add: v12_fills_def)
  let ?b3 = "v12_marked V12_BLOCK_MESSAGES b2"
  obtain ds where ds: "collect_v12_deliveries b2 first = (?b3, ds, 0)"
    "map d12_slot ds = filter (\<lambda>slot. \<not> v12_delivered b ! slot \<and> v12_whole b2 slot) [0..<V12_BLOCK_MESSAGES]"
    "\<forall>d \<in> set ds. d12_payload d = make_v3_payload (of_nat (first + d12_slot d))"
    using collect_v12_deliveries_sent [OF ok2] unfolding delivered by blast
  have slots: "d12_slot ` set ds = {slot. slot < V12_BLOCK_MESSAGES \<and> \<not> v12_delivered b ! slot \<and> v12_whole b2 slot}"
    using arg_cong [OF ds(2), of set] by (auto simp: image_iff)
  have whole: "v12_whole b2 slot" if "slot < V12_BLOCK_MESSAGES" "v12_delivered b ! slot" for slot
    using old that fills shard_pair [OF that(1)] by (auto simp: v12_whole_def v12_fills_def)
  have "v12_closed ?b3" using b1(3) b2(3) by (auto simp: v12_closed_def v12_pair_closed_def v12_marked_def)
  then have "v12_settled first ?b3" using ok2 whole by (auto simp: v12_settled_def delivered)
  moreover have "distinct (map d12_slot ds)" by (simp add: ds(2))
  moreover have "\<forall>d \<in> set ds. d12_slot d < V12_BLOCK_MESSAGES \<and> \<not> v12_delivered b ! d12_slot d" using slots by blast
  moreover have "\<forall>slot < V12_BLOCK_MESSAGES. v12_delivered ?b3 ! slot \<longleftrightarrow> v12_delivered b ! slot \<or> slot \<in> d12_slot ` set ds"
    by (auto simp: slots delivered)
  ultimately show ?thesis using b1(1) b2(1) ds(1,3) by blast
qed

section \<open>Recording keeps the invariant\<close>

lemma v12_slot_split:
  "i < V12_BLOCK_MESSAGES \<Longrightarrow> (k * V12_BLOCK_MESSAGES + i) div V12_BLOCK_MESSAGES = k"
  "i < V12_BLOCK_MESSAGES \<Longrightarrow> (k * V12_BLOCK_MESSAGES + i) mod V12_BLOCK_MESSAGES = i"
  by simp_all

lemma v12_slot_inj:
  "i < V12_BLOCK_MESSAGES \<Longrightarrow> j < V12_BLOCK_MESSAGES \<Longrightarrow>
   k * V12_BLOCK_MESSAGES + i = l * V12_BLOCK_MESSAGES + j \<longleftrightarrow> k = l \<and> i = j"
  by (metis v12_slot_split)

lemma v12_slot_less:
  assumes "k < n div V12_BLOCK_MESSAGES" and "i < V12_BLOCK_MESSAGES"
  shows "k * V12_BLOCK_MESSAGES + i < n"
  using assms by (simp add: V12_BLOCK_MESSAGES_def)

lemma v12_blocks_okD:
  assumes "v12_blocks_ok n acc"
  shows "length (a12_first_correct acc) = n" "length (a12_blocks acc) = n div V12_BLOCK_MESSAGES"
    "a12_recovery_error_messages acc = 0" "v12_deliveries_ok acc" "length (a12_observed_global_rows acc) = 3"
    and "k < n div V12_BLOCK_MESSAGES \<Longrightarrow> v12_settled (k * V12_BLOCK_MESSAGES) (a12_blocks acc ! k)"
    and "k < n div V12_BLOCK_MESSAGES \<Longrightarrow> i < V12_BLOCK_MESSAGES \<Longrightarrow> a12_first_correct acc ! (k * V12_BLOCK_MESSAGES + i) \<Longrightarrow>
      v12_delivered (a12_blocks acc ! k) ! i"
  using assms by (simp_all add: v12_blocks_ok_def)

text \<open>The state after the deliveries of a settled block are recorded.\<close>

lemma v12_settled_blocks_ok:
  assumes blocks: "v12_blocks_ok n acc" and n: "n = length gens" "n \<le> usize_max" and k: "k < n div V12_BLOCK_MESSAGES"
    and settled: "v12_settled (k * V12_BLOCK_MESSAGES) b" and distinct: "distinct (map d12_slot ds)"
    and ds: "\<forall>d \<in> set ds. d12_payload d = make_v3_payload (of_nat (k * V12_BLOCK_MESSAGES + d12_slot d)) \<and>
      d12_slot d < V12_BLOCK_MESSAGES \<and> \<not> v12_delivered (a12_blocks acc ! k) ! d12_slot d"
    and delivered: "\<forall>slot < V12_BLOCK_MESSAGES. v12_delivered b ! slot \<longleftrightarrow> v12_delivered (a12_blocks acc ! k) ! slot \<or> slot \<in> d12_slot ` set ds"
  shows "\<exists>acc' r. v12_record_deliveries (k * V12_BLOCK_MESSAGES) ds started gens (acc\<lparr>a12_blocks := (a12_blocks acc)[k := b]\<rparr>) = Some (acc', r) \<and>
    v12_blocks_ok n acc' \<and> v12_same_frames (acc\<lparr>a12_blocks := (a12_blocks acc)[k := b]\<rparr>) acc'"
proof -
  note D = v12_blocks_okD [OF blocks]
  let ?acc = "acc\<lparr>a12_blocks := (a12_blocks acc)[k := b]\<rparr>" and ?first = "k * V12_BLOCK_MESSAGES"
  have "\<forall>d \<in> set ds. d12_payload d = make_v3_payload (of_nat (?first + d12_slot d)) \<and> ?first + d12_slot d < length gens \<and>
      \<not> a12_first_correct ?acc ! (?first + d12_slot d)"
    using ds D(7) [OF k] v12_slot_less [OF k] n(1) by auto
  moreover have "v12_deliveries_ok ?acc" using D(4) by (simp add: v12_deliveries_ok_def)
  ultimately obtain acc' r where rec: "v12_record_deliveries ?first ds started gens ?acc = Some (acc', r)"
    "v12_deliveries_ok acc'" "v12_same_frames ?acc acc'"
    "\<forall>s. s \<notin> (\<lambda>d. ?first + d12_slot d) ` set ds \<longrightarrow> a12_first_correct acc' ! s = a12_first_correct acc ! s"
    using v12_record_deliveries_ok [of ds ?first gens ?acc started] distinct D(1) n by auto
  have blocks': "a12_blocks acc' = (a12_blocks acc)[k := b]" using rec(3) by (simp add: v12_same_frames_def)
  have "v12_settled (l * V12_BLOCK_MESSAGES) (a12_blocks acc' ! l)" if "l < n div V12_BLOCK_MESSAGES" for l
    using settled D(2,6) that k by (cases "l = k") (simp_all add: blocks')
  moreover have "v12_delivered (a12_blocks acc' ! l) ! i"
    if li: "l < n div V12_BLOCK_MESSAGES" "i < V12_BLOCK_MESSAGES" "a12_first_correct acc' ! (l * V12_BLOCK_MESSAGES + i)" for l i
  proof (cases "l * V12_BLOCK_MESSAGES + i \<in> (\<lambda>d. ?first + d12_slot d) ` set ds")
    case True
    then obtain d where d: "d \<in> set ds" "l * V12_BLOCK_MESSAGES + i = ?first + d12_slot d" by blast
    then have "l = k" "i = d12_slot d" using v12_slot_inj [of i "d12_slot d" l k] li(2) ds by simp_all
    then show ?thesis using d(1) delivered li(2) k D(2) by (auto simp: blocks')
  next
    case False
    then have "v12_delivered (a12_blocks acc ! l) ! i" using rec(4) li D(7) by simp
    then show ?thesis using delivered li(2) k D(2) by (cases "l = k") (auto simp: blocks')
  qed
  ultimately have "v12_blocks_ok n acc'"
    using rec(2,3) D(1,2,3,5) by (simp add: v12_blocks_ok_def v12_same_frames_def)
  then show ?thesis using rec(1,3) by blast
qed

lemma v12_accept_ok:
  assumes blocks: "v12_blocks_ok n acc" and n: "n = length gens" "n \<le> usize_max"
    and k: "f12_block_id frame < n div V12_BLOCK_MESSAGES"
    and first: "f12_first_sequence frame = f12_block_id frame * V12_BLOCK_MESSAGES"
    and payload: "expected_v12_frame_payload frame n = Some (f12_payload frame)"
  shows "\<exists>acc' r. v12_accept frame at started gens acc = Some (acc', r) \<and> v12_blocks_ok n acc' \<and>
    a12_observed_frames acc' = a12_observed_frames acc \<and> a12_decoded_frames acc' = a12_decoded_frames acc \<and>
    a12_malformed_frames acc' = a12_malformed_frames acc \<and> v12_outcomes acc' = inc (v12_outcomes acc)"
proof -
  note D = v12_blocks_okD [OF blocks]
  let ?k = "f12_block_id frame"
  obtain b acc1 where store: "v12_store frame at (a12_blocks acc ! ?k) acc = (b, acc1)" by fastforce
  note S = v12_store_frames [OF store payload D(5)]
  have old: "v12_block_ok (?k * V12_BLOCK_MESSAGES) (a12_blocks acc ! ?k)"
    "\<forall>slot < V12_BLOCK_MESSAGES. v12_delivered (a12_blocks acc ! ?k) ! slot \<longleftrightarrow> v12_whole (a12_blocks acc ! ?k) slot"
    using D(6) [OF k] by (simp_all add: v12_settled_def)
  note B = v12_store_ok [OF old(1) first payload store]
  have "\<forall>slot < V12_BLOCK_MESSAGES. v12_delivered b ! slot \<longrightarrow> v12_whole b slot" using old(2) B(2,3) by simp
  then obtain b1 b2 b3 ds where steps: "recover_v12_local b (?k * V12_BLOCK_MESSAGES) = (b1, 0)"
    "recover_v12_global b1 (?k * V12_BLOCK_MESSAGES) = Some (b2, 0)"
    "collect_v12_deliveries b2 (?k * V12_BLOCK_MESSAGES) = (b3, ds, 0)"
    and settled: "v12_settled (?k * V12_BLOCK_MESSAGES) b3" "distinct (map d12_slot ds)"
    "\<forall>d \<in> set ds. d12_payload d = make_v3_payload (of_nat (?k * V12_BLOCK_MESSAGES + d12_slot d)) \<and>
      d12_slot d < V12_BLOCK_MESSAGES \<and> \<not> v12_delivered b ! d12_slot d"
    "\<forall>slot < V12_BLOCK_MESSAGES. v12_delivered b3 ! slot \<longleftrightarrow> v12_delivered b ! slot \<or> slot \<in> d12_slot ` set ds"
    using v12_block_settles [OF B(1)] by blast
  have blocks1: "v12_blocks_ok n acc1" using blocks S by (simp add: v12_blocks_ok_def)
  have b: "v12_delivered b = v12_delivered (a12_blocks acc1 ! ?k)" by (simp add: B(2) S(6))
  obtain acc' r where rec: "v12_record_deliveries (?k * V12_BLOCK_MESSAGES) ds started gens
      (acc1\<lparr>a12_blocks := (a12_blocks acc1)[?k := b3]\<rparr>) = Some (acc', r)"
    "v12_blocks_ok n acc'" "v12_same_frames (acc1\<lparr>a12_blocks := (a12_blocks acc1)[?k := b3]\<rparr>) acc'"
    using v12_settled_blocks_ok [OF blocks1 n k settled [unfolded b]] by blast
  have same: "acc1\<lparr>a12_blocks := bs, a12_recovery_error_messages := 0\<rparr> = acc1\<lparr>a12_blocks := bs\<rparr>" for bs
    using S(8) D(3) by (intro V12Accounting.equality) simp_all
  have "v12_accept frame at started gens acc = Some (acc', r)"
    using store steps rec(1) S(6,8) D(3) by (simp add: v12_accept_def first sat_add_usize_def same)
  moreover have "v12_outcomes acc' = v12_outcomes acc1" using rec(3) by (simp add: v12_same_frames_def)
  ultimately show ?thesis using rec(2,3) S by (simp add: v12_same_frames_def)
qed

lemma v12_rejected_ok:
  assumes "v12_acc_ok n acc" and "\<And>acc. a12_blocks (f acc) = a12_blocks acc \<and> a12_first_correct (f acc) = a12_first_correct acc \<and>
      a12_recovery_error_messages (f acc) = a12_recovery_error_messages acc \<and> v12_deliveries_ok (f acc) = v12_deliveries_ok acc \<and>
      a12_observed_global_rows (f acc) = a12_observed_global_rows acc \<and>
      a12_observed_frames (f acc) = a12_observed_frames acc \<and> a12_decoded_frames (f acc) = a12_decoded_frames acc \<and>
      a12_malformed_frames (f acc) = a12_malformed_frames acc \<and> v12_outcomes (f acc) = inc (v12_outcomes acc)"
  shows "v12_acc_ok n (f (acc\<lparr>a12_observed_frames := inc (a12_observed_frames acc), a12_decoded_frames := inc (a12_decoded_frames acc)\<rparr>))"
  using assms(1) by (simp add: v12_acc_ok_def v12_blocks_ok_def assms(2) sat_add_inc)
    (simp add: v12_deliveries_ok_def)

lemma v12_record_ok:
  assumes ok: "v12_acc_ok n acc" and n: "n = length gens" "n \<le> usize_max"
  shows "\<exists>acc' r. v12_record event started gens acc = Some (acc', r) \<and> v12_acc_ok n acc'"
proof (cases "decode_v12_frame (ev_data event)")
  case (Inl e)
  then show ?thesis using ok
    by (simp add: v12_record_def v12_acc_ok_def v12_blocks_ok_def v12_outcomes_def v12_deliveries_ok_def sat_add_inc)
next
  case (Inr frame)
  let ?acc = "acc\<lparr>a12_observed_frames := inc (a12_observed_frames acc), a12_decoded_frames := inc (a12_decoded_frames acc)\<rparr>"
  have blocks: "v12_blocks_ok n ?acc" using ok by (simp add: v12_acc_ok_def v12_blocks_ok_def v12_deliveries_ok_def)
  note len = v12_blocks_okD(2) [OF blocks]
  let ?header = "f12_block_id frame < n div V12_BLOCK_MESSAGES \<and> f12_first_sequence frame = f12_block_id frame * V12_BLOCK_MESSAGES"
  show ?thesis
  proof (cases "?header \<and> ucast (digest (f12_payload frame)) = f12_payload_digest frame \<and>
      expected_v12_frame_payload frame n = Some (f12_payload frame)")
    case True
    then obtain acc' r where "v12_accept frame (ev_received_at event) started gens ?acc = Some (acc', r)" "v12_blocks_ok n acc'"
      "a12_observed_frames acc' = inc (a12_observed_frames acc)" "a12_decoded_frames acc' = inc (a12_decoded_frames acc)"
      "a12_malformed_frames acc' = a12_malformed_frames acc" "v12_outcomes acc' = inc (v12_outcomes acc)"
      using v12_accept_ok [OF blocks n, of frame "ev_received_at event" started] by auto
    then show ?thesis using ok True len n(1) Inr by (auto simp: v12_record_def v12_acc_ok_def sat_add_inc Let_def)
  next
    case False
    have invalid: "v12_acc_ok n (?acc\<lparr>a12_invalid_header_frames := inc (a12_invalid_header_frames acc)\<rparr>)"
      and digest: "v12_acc_ok n (?acc\<lparr>a12_digest_error_frames := inc (a12_digest_error_frames acc)\<rparr>)"
      and content: "v12_acc_ok n (?acc\<lparr>a12_content_error_frames := inc (a12_content_error_frames acc)\<rparr>)"
      using v12_rejected_ok [OF ok, of "\<lambda>acc. acc\<lparr>a12_invalid_header_frames := inc (a12_invalid_header_frames acc)\<rparr>"]
        v12_rejected_ok [OF ok, of "\<lambda>acc. acc\<lparr>a12_digest_error_frames := inc (a12_digest_error_frames acc)\<rparr>"]
        v12_rejected_ok [OF ok, of "\<lambda>acc. acc\<lparr>a12_content_error_frames := inc (a12_content_error_frames acc)\<rparr>"]
      by (simp_all add: v12_outcomes_def v12_deliveries_ok_def sat_add_inc)
    then show ?thesis using False len n(1) Inr
      by (cases "expected_v12_frame_payload frame (length gens)") (auto simp: v12_record_def Let_def)
  qed
qed

lemma v12_receive_ok:
  assumes "v12_acc_ok n acc" and "n = length gens" "n \<le> usize_max"
  shows "\<exists>acc' r. v12_receive expected started gens outcomes acc = Some (acc', r) \<and> v12_acc_ok n acc'"
  using assms(1)
proof (induction outcomes arbitrary: acc)
  case (Cons outcome outcomes)
  show ?case
  proof (cases "a12_observed_frames acc \<ge> expected \<or> outcome = None")
    case False
    then obtain event where event: "outcome = Some event" by blast
    obtain acc1 r1 where "v12_record event started gens acc = Some (acc1, r1)" "v12_acc_ok n acc1"
      using v12_record_ok [OF Cons.prems assms(2,3)] by blast
    then show ?thesis using False event Cons.IH [of acc1] by (cases r1) auto
  qed (use Cons.prems in auto)
qed simp

text \<open>
  C34.  Whatever datagrams arrive, and however the wait for them ends, the receive loop of the two-of-three
  code returns with a consistent account: the report passes its own completeness check, no recovery
  contradicts the data that was sent, a message is counted at most once and only with both of its
  shards as they were sent, and no block is left with a shard that its pairs or the global parities that
  arrived still determine.
\<close>

theorem v12_run_consistent:
  assumes "length gens \<le> usize_max"
  shows "\<exists>acc r. v12_receive expected started gens outcomes (V12Accounting_new (length gens)) = Some (acc, r) \<and>
    v12_measurement_is_complete (v12_report (length gens) acc) \<and> a12_recovery_error_messages acc = 0 \<and>
    length (a12_latencies acc) = card {s. s < length gens \<and> a12_first_correct acc ! s} \<and>
    (\<forall>k < length gens div V12_BLOCK_MESSAGES. v12_closed (a12_blocks acc ! k) \<and>
      (\<forall>i < V12_BLOCK_MESSAGES. a12_first_correct acc ! (k * V12_BLOCK_MESSAGES + i) \<longrightarrow>
        (\<exists>data0 data1. v12_data (a12_blocks acc ! k) ! (i * 2) = Some data0 \<and> v12_data (a12_blocks acc ! k) ! (i * 2 + 1) = Some data1 \<and>
          s12_payload data0 @ s12_payload data1 = make_v3_payload (of_nat (k * V12_BLOCK_MESSAGES + i)))))"
proof -
  obtain acc r where run: "v12_receive expected started gens outcomes (V12Accounting_new (length gens)) = Some (acc, r)"
    and ok: "v12_acc_ok (length gens) acc"
    using v12_receive_ok [OF V12Accounting_new_ok refl assms] by blast
  have blocks: "v12_blocks_ok (length gens) acc" using ok by (simp add: v12_acc_ok_def)
  note D = v12_blocks_okD [OF blocks]
  have count: "length (filter id (a12_first_correct acc)) = card {s. s < length gens \<and> a12_first_correct acc ! s}"
    using D(1) by (simp add: length_filter_conv_card)
  have le: "length (filter id (a12_first_correct acc)) \<le> length gens" using D(1) length_filter_le by metis
  have "v12_measurement_is_complete (v12_report (length gens) acc)"
    using D(4) ok le assms
    by (simp add: v12_acc_ok_def v12_measurement_is_complete_def v12_report_def v12_deliveries_ok_def Let_def sat_add_usize_def)
  moreover have "\<exists>data0 data1. v12_data (a12_blocks acc ! k) ! (i * 2) = Some data0 \<and> v12_data (a12_blocks acc ! k) ! (i * 2 + 1) = Some data1 \<and>
      s12_payload data0 @ s12_payload data1 = make_v3_payload (of_nat (k * V12_BLOCK_MESSAGES + i))"
    if ki: "k < length gens div V12_BLOCK_MESSAGES" "i < V12_BLOCK_MESSAGES" "a12_first_correct acc ! (k * V12_BLOCK_MESSAGES + i)" for k i
  proof -
    have settled: "v12_block_ok (k * V12_BLOCK_MESSAGES) (a12_blocks acc ! k)" "v12_whole (a12_blocks acc ! k) i"
      using D(6) [OF ki(1)] D(7) [OF ki] ki(2) by (simp_all add: v12_settled_def)
    then obtain data0 data1 where d: "v12_data (a12_blocks acc ! k) ! (i * 2) = Some data0"
      "v12_data (a12_blocks acc ! k) ! (Suc (i * 2)) = Some data1" by (auto simp: v12_whole_def)
    then have "s12_payload data0 @ s12_payload data1 = make_v3_payload (of_nat (k * V12_BLOCK_MESSAGES + i))"
      using v12_block_okD(5) [OF settled(1) _ d(1)] v12_block_okD(5) [OF settled(1) _ d(2)] shard_pair [OF ki(2)]
      by (simp add: v12_halves)
    with d show ?thesis by simp
  qed
  moreover have "length (a12_latencies acc) = card {s. s < length gens \<and> a12_first_correct acc ! s}"
    using D(4) count by (simp add: v12_deliveries_ok_def Let_def)
  moreover have "v12_closed (a12_blocks acc ! k)" if "k < length gens div V12_BLOCK_MESSAGES" for k
    using D(6) [OF that] by (simp add: v12_settled_def)
  ultimately show ?thesis using run D(3) by (intro exI [of _ acc] exI [of _ r]) blast
qed

theorem v12_run_consistent_witness:
  "length (replicate 20 (0 :: nat)) \<le> usize_max \<and>
   (\<exists>acc r. v12_receive 63 0 (replicate 20 0) [Some \<lparr>ev_data = [1, 2, 3], ev_received_at = 4\<rparr>, None] (V12Accounting_new 20) = Some (acc, r) \<and>
     v12_measurement_is_complete (v12_report 20 acc))"
  using v12_run_consistent [of "replicate 20 0" 63 0 "[Some \<lparr>ev_data = [1, 2, 3], ev_received_at = 4\<rparr>, None]"]
  by (auto simp: usize_max_def)

end
