(* ===== verification/Spec2Isabelle.thy ===== *)
theory Spec2Isabelle
  imports Vpn_Coordinator_Properties Vpn_Bridge_Properties Fec_V4_Properties Fec_V12_Accounting
begin

text \<open>
  Flowweave's VPN: a verification development.

  \<^bold>\<open>The program.\<close>  Flowweave (\<open>src/src\<close>) tunnels IP packets over QUIC datagrams.  A client reads packets
  from a TUN device (\<open>vpn_packet_bridge.rs\<close>), queues them in its datagram runtime
  (\<open>vpn_datagram_runtime.rs\<close>), whose outbound loop checks each packet against the policy of the session
  (\<open>vpn_data_policy.rs\<close>), fragments it (\<open>vpn.rs\<close>) and pays for the datagrams from the identity's token
  buckets (\<open>vpn_quota.rs\<close>); all of this goes through a data path (\<open>vpn_data_path.rs\<close>).  The other side
  reassembles, checks and writes the packet to its device.  Before that the two sides negotiate over a
  control stream (\<open>vpn_control.rs\<close>, \<open>vpn_session.rs\<close>): the server authorizes the client's certificate
  in its registry (\<open>vpn_identity.rs\<close>, \<open>vpn_tls.rs\<close>), and its coordinator (\<open>vpn_active_session.rs\<close>) keeps
  one session per client, replaces older ones and reconciles all of them when the registry is
  reloaded; the client builds its data path from the accept message (\<open>vpn_client_data_path.rs\<close>).
  Beside the VPN the repository holds experiments; of these the development covers the erasure codes
  that protect realtime messages against loss (\<open>realtime_v3.rs\<close>).

  \<^bold>\<open>Conventions.\<close>  Fields and identifiers on the wire are words of their width, so wrap-around is the
  machine's.  \<open>usize\<close>, 64-bit counters and 128-bit token balances are natural numbers with every bound,
  saturation and checked operation written out (\<open>Flow_Prelude\<close>).  Instants and durations are
  nanoseconds.  Errors are values of a sum type, \<open>?\<close> is \<open>try_then\<close>; a panic is the outer \<open>None\<close> and is
  proved unreachable.  A \<open>HashMap\<close> is an association list with distinct keys; no result depends on its
  order.  Objects behind an \<open>Arc\<close> live in stores and are named by their index.  What the QUIC library,
  the asynchronous runtime, the operating system, the clock and the certificate parser yield is an
  argument of the definition that calls them.

  \<^bold>\<open>Theories.\<close>
  \<^item> \<open>Flow_Prelude\<close>: machine types, checked and saturating arithmetic, big-endian codecs (locale
    \<open>fixed_codec\<close>), maps, results.  \<open>Flow_Allocator\<close>: one-shot counters of identifiers (locale
    \<open>one_shot_allocator\<close>, interpreted for session generations and packet identifiers).
  \<^item> \<open>Vpn_Packet\<close> (\<open>vpn.rs\<close>: \<open>inspect_vpn_ip_packet\<close>, \<open>encode_vpn_ip_fragments\<close>,
    \<open>decode_vpn_ip_fragment\<close>), \<open>Vpn_Reassembler\<close> (\<open>VpnReassembler\<close>), \<open>Vpn_Delivery\<close>,
    \<open>Vpn_Reassembler_History\<close>: encoding is total and canonical, the fragments of a packet that arrive
    in time where there is room reassemble to it in every order, the limits hold in every history,
    eviction takes the oldest.
  \<^item> \<open>Vpn_Control\<close> (\<open>vpn_control.rs\<close>): the three messages; decoding and encoding are inverse.
  \<^item> \<open>Vpn_Identity\<close> (\<open>vpn_identity.rs\<close>, the reload report of \<open>vpn_identity_config.rs\<close>): limits,
    networks, fingerprints, identities, the registry; authorization returns exactly the registered,
    enabled identity; prefix containment is the bitwise definition.
  \<^item> \<open>Vpn_Quota\<close> (\<open>vpn_quota.rs\<close>): token buckets, counters and the global budget (locale
    \<open>bounded_counter\<close>, interpreted for the budget and for the packet queues), interleaved by single
    atomic operations; the rate limit over any window after any history of calls.
  \<^item> \<open>Vpn_Policy\<close> (\<open>vpn_data_policy.rs\<close>) and \<open>Vpn_Data_Path\<close> (\<open>vpn_data_path.rs\<close>); \<open>Vpn_Accounting\<close>,
    \<open>Vpn_Path_System\<close>, \<open>Vpn_Path_Properties\<close>: any number of paths over one global budget, their books
    exact in every history, only permitted packets handed out, no panic, eviction terminates.
  \<^item> \<open>Vpn_Session\<close> (\<open>vpn_session.rs\<close>, the fingerprint of \<open>vpn_tls.rs\<close>) and \<open>Vpn_Client_Path\<close>
    (\<open>vpn_client_data_path.rs\<close>): negotiation, both handshakes and their agreement, the client's path.
  \<^item> \<open>Vpn_Coordinator\<close> (\<open>vpn_active_session.rs\<close>); \<open>Vpn_Coordinator_Safety\<close>, \<open>Vpn_Coordinator_History\<close>,
    \<open>Vpn_Coordinator_Properties\<close>: the invariant of every operation, the step relation of a server, its
    refinement of an abstract table of sessions (\<open>table_commit\<close>, \<open>table_release\<close> and so on: every operation
    does to the table, and answers, what the abstract one does), and what follows from it.
  \<^item> \<open>Vpn_Runtime\<close>, \<open>Vpn_Runtime_Properties\<close>, \<open>Vpn_Runtime_Tasks\<close> (\<open>vpn_datagram_runtime.rs\<close>):
    configuration, queue budgets and leases, one iteration of each loop and what its end drops, start
    and supervision; the loops and the supervisor as tasks that take turns, and that three rounds of
    turns end a runtime that was told to stop or has lost a loop.
  \<^item> \<open>Vpn_Bridge\<close>, \<open>Vpn_Bridge_Properties\<close> (\<open>vpn_packet_bridge.rs\<close>): the device, the client's packet
    pump and its attachments, the reader and the supervising loop.
  \<^item> \<open>Fec_Field\<close>, \<open>Fec_Gf\<close>, \<open>Fec_Matrix\<close> (\<open>realtime_v3.rs\<close>: \<open>gf_mul\<close>, \<open>gf_pow\<close>, \<open>gf_div\<close>,
    \<open>global_coefficient\<close>, \<open>choose_rows\<close>, \<open>invert_gf_matrix\<close>): the byte arithmetic is a field of 256
    elements (an instance of the class \<open>field\<close>), inversion returns a left inverse exactly of the
    regular matrices.  \<open>Fec_Code\<close>, \<open>Fec_Frame\<close>: payloads, parities and the two frame formats.
    \<open>Fec_V4\<close>, \<open>Fec_V4_Accounting\<close>, \<open>Fec_V4_Run\<close>, \<open>Fec_V4_Properties\<close>: the pair and global erasure code of
    the realtime experiment, from the sender's frames to the report: recovery ends and restores all
    that the received parities determine, and arbitrary datagrams leave a consistent account.
    \<open>Fec_V12\<close>, \<open>Fec_V12_Accounting\<close>: the two-of-three code, its shards, recovery by pairs and by up to
    three rows of a Vandermonde matrix, deliveries, accounting, receive loop and report, with the same
    guarantees for arbitrary datagrams.
  \<^item> This theory: what spans the components, from the registry to the packets that enter the tunnel.

  \<^bold>\<open>Interleaving.\<close>  \<open>system_step\<close> interleaves whole operations on data paths, which hold the path's mutex;
  the counters they share are atomics, and \<open>Vpn_Quota\<close> treats those one atomic operation at a time.
  \<open>server_step\<close> interleaves handshakes, commits, releases, reloads, shutdown and traffic; the start of a
  handshake takes its generation and registry snapshot in one step, and its commit, later, may meet a
  changed registry.  \<open>runtime_step\<close> interleaves the two loops of a runtime with its users; other users of
  the path are one step that keeps the path's books settled.  \<open>tasks_step\<close> adds the supervisor: a turn
  runs one task up to the next point where it waits, the stop signal first; a loop takes a packet or a
  datagram in one turn, and what the library calls inside it yield, a stop among them, is part of the
  turn.  \<open>pump_step\<close> interleaves reads, sessions
  coming and going and their tasks.

  \<^bold>\<open>Bounds and fuel.\<close>  No definition takes fuel: every loop of the sources is structural recursion,
  has a termination proof, or (the recovery loop of a block, whose end depends on the sizes of its
  arrays) is a partial function that is proved to return.  Loops over library events are one definition
  per iteration and a step relation.  Awaiting a runtime takes the list of turns its tasks get, and the
  result is \<open>None\<close> as long as it has not ended; three rounds with a turn for every task are proved to be
  enough.  Statements about counters say what happens when they saturate at the largest 64-bit value.

  \<^bold>\<open>Not modelled.\<close>  TLS configuration and certificate parsing beyond the fingerprint (library calls).
  Opening and configuring devices and sockets, netlink, nftables and routing commands (\<open>vpn_tun.rs\<close>,
  \<open>vpn_network.rs\<close> and its submodules): system calls and the output of external commands.  The
  product processes, their endpoints and command lines: orchestration of library calls, signals and
  sockets.  The latency experiments without recovery (\<open>realtime.rs\<close>, \<open>realtime_controller.rs\<close>, the
  probe of \<open>realtime_v3.rs\<close>), connections and floating-point ratios of all experiments.  The TCP proxy and its observation and load tools, the MPTCP and Hysteria
  comparisons, the ingress laboratory and the benchmark laboratory in \<open>lib.rs\<close>: measurement harnesses
  around external programs, network namespaces and floating-point statistics.  Debug formatting,
  poisoned locks (nothing panics while a lock is held) and the wording of \<open>io::Error\<close>.
\<close>

text \<open>
  C6.  In every history of a server, a packet that reaches the tunnel from any data path ever handed
  out came over the current session of some client, and the registry in force has an enabled identity
  for the certificate of that session; the packet is well formed, its source is the tunnel address of
  that identity and its destination is one the identity may reach.
\<close>

theorem tunnel_traffic_authorized:
  assumes "registry_new server_ipv4 server_ipv6 identities = Inr registry"
    and "coordinator_with_resource_limits registry generation byte_limit packet_limit = Inr c0"
    and "server_step\<^sup>*\<^sup>* (c0, []) (c, pending)" and "h < length (co_paths c)"
    and "ingest_datagram (co_paths c ! h) (co_env c (co_path_limiters c ! h)) Uplink datagram now =
      Some (inner, env, Inr (Some p))"
  shows "\<exists>client_id a identity. map_of (co_active c) client_id = Some a \<and> active_data_path a = h \<and>
    authorize (co_registry c) (session_fingerprint (active_session_of a)) = Inr identity \<and>
    identity_client_id identity = client_id \<and> identity_enabled identity \<and>
    inspect_vpn_ip_packet (data_packet_bytes p) = Inr (data_packet_metadata p) \<and>
    permits_source (identity_data_policy identity) (meta_source (data_packet_metadata p)) \<and>
    allows_destination (identity_data_policy identity) (meta_destination (data_packet_metadata p))"
proof -
  note inv = server_reachable(2) [OF assms(1-3)]
  let ?env = "co_env c (co_path_limiters c ! h)"
  have core: "co_core c" using inv by (simp add: co_inv_def)
  then have "system_inv (co_global_budget c) (co_paths c, ?env)"
    using system_inv_cong [of ?env "co_shared c"] by (simp add: co_core_def co_env_def co_shared_def)
  then obtain others where settled: "inner_settled others (co_paths c ! h) ?env"
    by (rule system_inv_handle [OF _ nth_mem [OF assms(4)]])
  have packet: "path_active (inner_state (co_paths c ! h))"
    "inspect_vpn_ip_packet (data_packet_bytes p) = Inr (data_packet_metadata p)"
    "permits_source (inner_policy (co_paths c ! h)) (meta_source (data_packet_metadata p))"
    "allows_destination (inner_policy (co_paths c ! h)) (meta_destination (data_packet_metadata p))"
    by (rule ingest_datagram_settled [OF settled, of Uplink datagram now],
        use assms(5) in \<open>auto simp: policy_accepts client_end_def remote_end_def\<close>)+
  then have "h \<in> set (handles c)" using core assms(4) by (simp add: co_core_def)
  then obtain k a where a: "(k, a) \<in> set (co_active c)" "active_data_path a = h" by (auto simp: handles_def)
  then have some: "map_of (co_active c) k = Some a" using core by (simp add: co_core_def)
  obtain identity where id: "authorize (co_registry c) (session_fingerprint (active_session_of a)) = Inr identity"
    "identity_client_id identity = k" "has_same_session_policy (session_identity (active_session_of a)) identity"
    using inv a(1) by (auto simp: co_inv_def authorized_def)
  have "inner_policy (co_paths c ! h) = identity_data_policy identity"
    using core a id(3) by (auto simp: co_core_def entry_ok_def Let_def has_same_session_policy_def)
  moreover have "identity_enabled identity"
    using inv id(1) authorize_iff(1) by (auto simp: co_inv_def registry_built_def)
  ultimately show ?thesis using packet some a(2) id(1,2) by auto
qed

theorem tunnel_traffic_authorized_witness:
  "\<exists>c client_id a identity. server_step\<^sup>*\<^sup>* (sample_coordinator, []) (c, []) \<and>
     map_of (co_active c) client_id = Some a \<and> active_data_path a = 0 \<and>
     authorize (co_registry c) (session_fingerprint (active_session_of a)) = Inr identity \<and>
     permits_source (identity_data_policy identity) (V4 0x0A000132)"
proof -
  obtain c where c: "server_step\<^sup>*\<^sup>* (sample_coordinator, []) (c, [])" "co_paths c = [path_activate sample_path]"
    "co_env c (co_path_limiters c ! 0) = sample_shared" using sample_connected by metis
  obtain inner env where "ingest_datagram (path_activate sample_path) sample_shared Uplink sample_uplink_datagram 5 =
     Some (inner, env, Inr (Some \<lparr>data_packet_bytes = sample_uplink_packet,
       data_packet_metadata = \<lparr>meta_source = V4 0x0A000132, meta_destination = V4 0x0A000009\<rparr>\<rparr>))"
    using sample_path_ingest by blast
  then have "ingest_datagram (co_paths c ! 0) (co_env c (co_path_limiters c ! 0)) Uplink sample_uplink_datagram 5 =
     Some (inner, env, Inr (Some \<lparr>data_packet_bytes = sample_uplink_packet,
       data_packet_metadata = \<lparr>meta_source = V4 0x0A000132, meta_destination = V4 0x0A000009\<rparr>\<rparr>))"
    using c by simp
  from tunnel_traffic_authorized [OF sample_registry_new sample_coordinator_new c(1) _ this] c(2)
  show ?thesis using c(1) by (auto simp del: permits_source.simps)
qed

end
